(* ===== verification/Prelude.thy ===== *)
theory Prelude
  imports Main "HOL-Library.Word" "HOL-Library.Char_ord" "HOL-Library.List_Lexorder"
    "HOL-Library.Product_Lexorder" "HOL-Library.Code_Target_Nat"
begin

text \<open>
  What every component of the agent uses of Go and its \<open>strings\<close> and \<open>strconv\<close>
  packages, and the generic lemmas the components share.

  A Go string is a sequence of bytes, so it is an Isabelle \<open>string\<close> (a list of 8-bit
  characters) and \<open>len\<close> is \<open>length\<close>.  \<open>strings.TrimSpace\<close> is modelled on all of
  Unicode's white space, in its UTF-8 encoding.  \<open>strings.ToLower\<close> and \<open>ToUpper\<close> are
  modelled on the ASCII letters: a byte from 128 on is kept, Unicode's case tables are not
  part of the model.  \<open>strings.EqualFold\<close> is modelled for an ASCII right-hand side, which is
  how the agent calls it; the two non-ASCII runes that fold to an ASCII letter (the long s and
  the Kelvin sign) are part of the model.
\<close>

section \<open>Types and fact collections\<close>

type_synonym u8 = "8 word"
type_synonym u32 = "32 word"
type_synonym u64 = "64 word"
type_synonym i64 = "64 word" \<comment> \<open>read with \<open>sint\<close>, compared with \<open><s\<close>\<close>

named_theorems go_defs \<open>definitions of the model that evaluate by unfolding\<close>
named_theorems go_pure \<open>conditional equations that compute one branch of an operation\<close>

section \<open>Bytes\<close>

definition is_digit :: "char \<Rightarrow> bool" where
  "is_digit c \<longleftrightarrow> CHR ''0'' \<le> c \<and> c \<le> CHR ''9''"

definition is_lower :: "char \<Rightarrow> bool" where
  "is_lower c \<longleftrightarrow> CHR ''a'' \<le> c \<and> c \<le> CHR ''z''"

definition is_upper :: "char \<Rightarrow> bool" where
  "is_upper c \<longleftrightarrow> CHR ''A'' \<le> c \<and> c \<le> CHR ''Z''"

definition is_hex :: "char \<Rightarrow> bool" where
  "is_hex c \<longleftrightarrow> is_digit c \<or> (CHR ''a'' \<le> c \<and> c \<le> CHR ''f'') \<or> (CHR ''A'' \<le> c \<and> c \<le> CHR ''F'')"

definition byte_of :: "char \<Rightarrow> nat" where
  "byte_of c = of_char c"

definition lower_char :: "char \<Rightarrow> char" where
  "lower_char c = (if is_upper c then char_of (byte_of c + 32) else c)"

definition upper_char :: "char \<Rightarrow> char" where
  "upper_char c = (if is_lower c then char_of (byte_of c - 32) else c)"

definition to_lower :: "string \<Rightarrow> string" where
  "to_lower s = map lower_char s"

definition to_upper :: "string \<Rightarrow> string" where
  "to_upper s = map upper_char s"

definition is_ascii_char :: "char \<Rightarrow> bool" where
  "is_ascii_char c \<longleftrightarrow> byte_of c < 128"

lemma char_le_byte: "c \<le> d \<longleftrightarrow> byte_of c \<le> byte_of d"
  by (simp add: byte_of_def less_eq_char_def)

lemma char_less_byte: "c < d \<longleftrightarrow> byte_of c < byte_of d"
  by (simp add: byte_of_def less_char_def)

lemma byte_of_inject: "byte_of c = byte_of d \<longleftrightarrow> c = d"
  by (simp add: byte_of_def)

lemma byte_of_bound: "byte_of c < 256"
  by (simp add: byte_of_def)

lemma is_digit_byte: "is_digit c \<longleftrightarrow> 48 \<le> byte_of c \<and> byte_of c \<le> 57"
  by (simp add: is_digit_def char_le_byte) (simp add: byte_of_def)

section \<open>strings.TrimSpace\<close>

definition ascii_space :: "char \<Rightarrow> bool" where
  "ascii_space c \<longleftrightarrow> c \<in> {CHR 0x09, CHR 0x0A, CHR 0x0B, CHR 0x0C, CHR 0x0D, CHR '' ''}"

text \<open>U+0085 and U+00A0; U+1680, U+2000 to U+200A, U+2028, U+2029, U+202F, U+205F, U+3000.\<close>

definition space2 :: "char \<Rightarrow> char \<Rightarrow> bool" where
  "space2 a b \<longleftrightarrow> a = CHR 0xC2 \<and> (b = CHR 0x85 \<or> b = CHR 0xA0)"

definition space3 :: "char \<Rightarrow> char \<Rightarrow> char \<Rightarrow> bool" where
  "space3 a b c \<longleftrightarrow>
     (a = CHR 0xE1 \<and> b = CHR 0x9A \<and> c = CHR 0x80) \<or>
     (a = CHR 0xE2 \<and> b = CHR 0x80 \<and>
        ((CHR 0x80 \<le> c \<and> c \<le> CHR 0x8A) \<or> c = CHR 0xA8 \<or> c = CHR 0xA9 \<or> c = CHR 0xAF)) \<or>
     (a = CHR 0xE2 \<and> b = CHR 0x81 \<and> c = CHR 0x9F) \<or>
     (a = CHR 0xE3 \<and> b = CHR 0x80 \<and> c = CHR 0x80)"

text \<open>The number of bytes of the white-space rune a string starts (or ends) with, 0 if none.\<close>

definition space_head :: "string \<Rightarrow> nat" where
  "space_head s =
     (case s of [] \<Rightarrow> 0
      | a # t \<Rightarrow> if ascii_space a then 1 else
        (case t of [] \<Rightarrow> 0
         | b # u \<Rightarrow> if space2 a b then 2 else
           (case u of [] \<Rightarrow> 0
            | c # _ \<Rightarrow> if space3 a b c then 3 else 0)))"

definition space_last :: "string \<Rightarrow> nat" where
  "space_last r = \<comment> \<open>of the reversed string\<close>
     (case r of [] \<Rightarrow> 0
      | c # t \<Rightarrow> if ascii_space c then 1 else
        (case t of [] \<Rightarrow> 0
         | b # u \<Rightarrow> if space2 b c then 2 else
           (case u of [] \<Rightarrow> 0
            | a # _ \<Rightarrow> if space3 a b c then 3 else 0)))"

lemma space_head_le: "space_head s \<le> length s"
  by (auto simp: space_head_def split: list.splits)

lemma space_last_le: "space_last s \<le> length s"
  by (auto simp: space_last_def split: list.splits)

function trim_left :: "string \<Rightarrow> string" where
  "trim_left s = (if space_head s = 0 then s else trim_left (drop (space_head s) s))"
  by pat_completeness auto
termination
proof (relation "measure length", goal_cases)
  case (2 s)
  then show ?case using space_head_le [of s] by auto
qed simp

function trim_right_rev :: "string \<Rightarrow> string" where
  "trim_right_rev r = (if space_last r = 0 then r else trim_right_rev (drop (space_last r) r))"
  by pat_completeness auto
termination
proof (relation "measure length", goal_cases)
  case (2 s)
  then show ?case using space_last_le [of s] by auto
qed simp

declare trim_left.simps [simp del] trim_right_rev.simps [simp del]

definition trim_space :: "string \<Rightarrow> string" where
  "trim_space s = rev (trim_right_rev (rev (trim_left s)))"

abbreviation blank :: "string \<Rightarrow> bool" where
  "blank s \<equiv> trim_space s = []"

lemma trim_left_nospace: "space_head s = 0 \<Longrightarrow> trim_left s = s"
  by (simp add: trim_left.simps)

lemma trim_right_rev_nospace: "space_last s = 0 \<Longrightarrow> trim_right_rev s = s"
  by (simp add: trim_right_rev.simps)

lemma space_head_trim_left [simp]: "space_head (trim_left s) = 0"
proof (induction s rule: trim_left.induct)
  case (1 s)
  then show ?case by (cases "space_head s = 0") (auto simp: trim_left.simps [of s])
qed

lemma space_last_trim_right [simp]: "space_last (trim_right_rev s) = 0"
proof (induction s rule: trim_right_rev.induct)
  case (1 s)
  then show ?case by (cases "space_last s = 0") (auto simp: trim_right_rev.simps [of s])
qed

lemma trim_right_rev_suffix: "\<exists>p. r = p @ trim_right_rev r"
proof (induction r rule: trim_right_rev.induct)
  case (1 r)
  show ?case
  proof (cases "space_last r = 0")
    case True
    then show ?thesis by (simp add: trim_right_rev_nospace)
  next
    case False
    with 1 obtain p where "drop (space_last r) r = p @ trim_right_rev (drop (space_last r) r)" by blast
    then have "r = (take (space_last r) r @ p) @ trim_right_rev r"
      using False by (simp add: trim_right_rev.simps [of r])
    then show ?thesis by blast
  qed
qed

lemma space_head_append: "0 < space_head s \<Longrightarrow> 0 < space_head (s @ t)"
  by (auto simp: space_head_def split: list.splits if_splits)

lemma space_head_trim_space: "space_head (trim_space s) = 0"
proof -
  obtain p where "rev (trim_left s) = p @ trim_right_rev (rev (trim_left s))"
    using trim_right_rev_suffix by blast
  then have "trim_left s = trim_space s @ rev p"
    by (metis rev_append rev_rev_ident trim_space_def)
  then show ?thesis
    using space_head_append [of "trim_space s" "rev p"] by (metis gr_zeroI less_numeral_extra(3) space_head_trim_left)
qed

lemma trim_space_id: "space_head s = 0 \<Longrightarrow> space_last (rev s) = 0 \<Longrightarrow> trim_space s = s"
  by (simp add: trim_space_def trim_left_nospace trim_right_rev_nospace)

lemma trim_space_idem [simp]: "trim_space (trim_space s) = trim_space s"
  by (rule trim_space_id) (simp_all add: space_head_trim_space, simp add: trim_space_def)

lemma trim_space_Nil [simp]: "trim_space [] = []"
  by (rule trim_space_id) (simp_all add: space_head_def space_last_def)

text \<open>A string without white space, in ASCII, is its own trimming.\<close>

definition plain_char :: "char \<Rightarrow> bool" where
  "plain_char c \<longleftrightarrow> 32 < byte_of c \<and> byte_of c < 128"

lemma plain_not_space:
  assumes "plain_char c"
  shows "\<not> ascii_space c" and "\<not> space2 a c" and "\<not> space2 c a" and "\<not> space3 a b c" and "\<not> space3 c a b"
  using assms
  by (auto simp: plain_char_def ascii_space_def space2_def space3_def byte_of_def less_eq_char_def)

lemma trim_space_plain: "list_all plain_char s \<Longrightarrow> trim_space s = s"
proof (rule trim_space_id)
  assume a: "list_all plain_char s"
  then show "space_head s = 0"
    by (cases s) (auto simp: space_head_def plain_not_space split: list.splits)
  from a show "space_last (rev s) = 0"
    by (cases s rule: rev_cases) (auto simp: space_last_def plain_not_space split: list.splits)
qed

lemma is_digit_plain: "is_digit c \<Longrightarrow> plain_char c"
  by (simp add: is_digit_byte plain_char_def)

text \<open>A fact on single bytes, checked on the 256 of them.\<close>

lemma all_chars:
  assumes "list_all P (map char_of [0 ..< (256::nat)])"
  shows "P (c :: char)"
proof -
  have "c = char_of (byte_of c)" by (simp add: byte_of_def)
  moreover have "byte_of c \<in> set [0 ..< 256]" using byte_of_bound by simp
  ultimately have "c \<in> set (map char_of [0 ..< (256::nat)])" unfolding set_map by (rule image_eqI)
  then show ?thesis using assms by (simp only: list_all_iff)
qed

lemma is_hex_plain: "is_hex c \<Longrightarrow> plain_char c"
  by (auto simp: is_hex_def is_digit_byte plain_char_def char_le_byte) (simp_all add: byte_of_def)

lemma lower_char_idem: "lower_char (lower_char c) = lower_char c"
proof -
  have "list_all (\<lambda>c. lower_char (lower_char c) = lower_char c) (map char_of [0 ..< (256::nat)])" by code_simp
  then show ?thesis by (rule all_chars)
qed

lemma to_lower_idem [simp]: "to_lower (to_lower s) = to_lower s"
  by (simp add: to_lower_def lower_char_idem)

section \<open>strings.Split, Join, Contains, HasPrefix and cutting at a byte\<close>

fun split_on :: "char \<Rightarrow> string \<Rightarrow> string list" where
  "split_on c [] = [[]]"
| "split_on c (x # xs) =
     (if x = c then [] # split_on c xs
      else (case split_on c xs of [] \<Rightarrow> [[x]] | y # ys \<Rightarrow> (x # y) # ys))"

fun join_with :: "char \<Rightarrow> string list \<Rightarrow> string" where
  "join_with c [] = []"
| "join_with c [x] = x"
| "join_with c (x # y # ys) = x @ c # join_with c (y # ys)"

lemma split_on_not_Nil [simp]: "split_on c s \<noteq> []"
  by (induction s) (auto split: list.splits)

lemma join_split [simp]: "join_with c (split_on c s) = s"
proof (induction s)
  case (Cons x s)
  obtain y ys where "split_on c s = y # ys"
    using split_on_not_Nil neq_Nil_conv by metis
  with Cons show ?case by (cases ys) auto
qed simp

lemma split_on_no_sep: "c \<notin> set s \<Longrightarrow> split_on c s = [s]"
  by (induction s) auto

lemma split_on_append: "c \<notin> set x \<Longrightarrow> split_on c (x @ c # s) = x # split_on c s"
  by (induction x) auto

lemma split_join:
  "xs \<noteq> [] \<Longrightarrow> (\<forall>x \<in> set xs. c \<notin> set x) \<Longrightarrow> split_on c (join_with c xs) = xs"
  by (induction c xs rule: join_with.induct) (auto simp: split_on_no_sep split_on_append)

lemma set_split_on: "x \<in> set (split_on c s) \<Longrightarrow> c \<notin> set x \<and> set x \<subseteq> set s"
proof (induction s arbitrary: x)
  case (Cons a s)
  obtain y ys where s: "split_on c s = y # ys"
    using split_on_not_Nil neq_Nil_conv by metis
  show ?case
  proof (cases "a = c")
    case True
    with Cons.prems have "x = [] \<or> x \<in> set (split_on c s)" by auto
    with Cons.IH show ?thesis by auto
  next
    case False
    with Cons.prems s have "x = a # y \<or> x \<in> set (split_on c s)" by auto
    with Cons.IH [of y] Cons.IH [of x] s False show ?thesis by auto
  qed
qed simp

definition has_prefix :: "string \<Rightarrow> string \<Rightarrow> bool" where
  "has_prefix s p \<longleftrightarrow> take (length p) s = p"

definition has_suffix :: "string \<Rightarrow> string \<Rightarrow> bool" where
  "has_suffix s p \<longleftrightarrow> length p \<le> length s \<and> drop (length s - length p) s = p"

fun contains :: "string \<Rightarrow> string \<Rightarrow> bool" where
  "contains [] p = (p = [])"
| "contains (c # s) p = (has_prefix (c # s) p \<or> contains s p)"

lemma has_prefix_code [code]:
  "has_prefix s [] = True" "has_prefix [] (a # p) = False"
  "has_prefix (b # s) (a # p) = (if a = b then has_prefix s p else False)"
  by (auto simp: has_prefix_def)

lemma has_prefix_append: "has_prefix s p \<Longrightarrow> has_prefix (s @ t) p"
  unfolding has_prefix_def by (metis append_eq_conv_conj append_take_drop_id append_assoc)

lemma contains_append: "contains s p \<Longrightarrow> contains (s @ t) p"
proof (induction s)
  case Nil
  then show ?case by (cases t) (auto simp: has_prefix_def)
next
  case (Cons c s)
  then show ?case using has_prefix_append [of "c # s" p t] by auto
qed

lemma contains_take: "contains (take n s) p \<Longrightarrow> contains s p"
  using contains_append [of "take n s" p "drop n s"] by simp

text \<open>The part before the first \<open>c\<close>, and the part after it.\<close>

definition before_byte :: "char \<Rightarrow> string \<Rightarrow> string" where
  "before_byte c s = takeWhile (\<lambda>x. x \<noteq> c) s"

definition after_byte :: "char \<Rightarrow> string \<Rightarrow> string" where
  "after_byte c s = tl (dropWhile (\<lambda>x. x \<noteq> c) s)"

lemma before_byte_append: "c \<notin> set a \<Longrightarrow> before_byte c (a @ c # b) = a"
  by (induction a) (auto simp: before_byte_def)

lemma after_byte_append: "c \<notin> set a \<Longrightarrow> after_byte c (a @ c # b) = b"
  by (induction a) (auto simp: after_byte_def)

section \<open>strings.EqualFold against an ASCII string\<close>

fun fold_ascii :: "string \<Rightarrow> string" where
  "fold_ascii [] = []"
| "fold_ascii (a # s) =
     (case s of
        b # t \<Rightarrow>
          (if a = CHR 0xC5 \<and> b = CHR 0xBF then CHR ''s'' # fold_ascii t \<comment> \<open>U+017F\<close>
           else (case t of
             c # u \<Rightarrow> (if a = CHR 0xE2 \<and> b = CHR 0x84 \<and> c = CHR 0xAA
                      then CHR ''k'' # fold_ascii u \<comment> \<open>U+212A\<close>
                      else lower_char a # fold_ascii s)
           | [] \<Rightarrow> lower_char a # fold_ascii s))
      | [] \<Rightarrow> [lower_char a])"

definition equal_fold :: "string \<Rightarrow> string \<Rightarrow> bool" where
  "equal_fold s t \<longleftrightarrow> fold_ascii s = to_lower t \<comment> \<open>\<open>t\<close> is ASCII\<close>"

section \<open>Decoding a UTF-8 string into runes\<close>

definition is_cont :: "char \<Rightarrow> bool" where
  "is_cont c \<longleftrightarrow> CHR 0x80 \<le> c \<and> c \<le> CHR 0xBF"

text \<open>The bytes of the well-formed rune a string starts with, 0 for a malformed byte (or none).\<close>

definition rune_len :: "string \<Rightarrow> nat" where
  "rune_len s =
    (case s of [] \<Rightarrow> 0
     | a # t \<Rightarrow>
       if a \<le> CHR 0x7F then 1
       else if a < CHR 0xC2 \<or> CHR 0xF4 < a then 0
       else if a \<le> CHR 0xDF then
         (case t of b # _ \<Rightarrow> if is_cont b then 2 else 0 | [] \<Rightarrow> 0)
       else if a \<le> CHR 0xEF then
         (case t of b # c # _ \<Rightarrow>
            if (if a = CHR 0xE0 then CHR 0xA0 else CHR 0x80) \<le> b \<and>
               b \<le> (if a = CHR 0xED then CHR 0x9F else CHR 0xBF) \<and> is_cont c then 3 else 0
          | _ \<Rightarrow> 0)
       else
         (case t of b # c # d # _ \<Rightarrow>
            if (if a = CHR 0xF0 then CHR 0x90 else CHR 0x80) \<le> b \<and>
               b \<le> (if a = CHR 0xF4 then CHR 0x8F else CHR 0xBF) \<and> is_cont c \<and> is_cont d
            then 4 else 0
          | _ \<Rightarrow> 0))"

text \<open>What \<open>WriteRune\<close> appends for U+FFFD, the rune a malformed byte decodes to.\<close>

definition replacement_rune :: string where
  "replacement_rune = [CHR 0xEF, CHR 0xBF, CHR 0xBD]"

lemma rune_len_le: "rune_len s \<le> length s" "rune_len s \<le> 4"
  by (auto simp: rune_len_def split: list.splits if_splits)

lemma rune_len_ascii: "byte_of a < 128 \<Longrightarrow> rune_len (a # s) = 1"
proof -
  assume "byte_of a < 128"
  then have "a \<le> CHR 0x7F" by (simp add: char_le_byte) (simp add: byte_of_def)
  then show ?thesis by (simp add: rune_len_def)
qed

section \<open>strconv.ParseUint and FormatUint in base 10\<close>

definition digit_val :: "char \<Rightarrow> nat" where
  "digit_val c = byte_of c - 48"

definition digits_val :: "string \<Rightarrow> nat" where
  "digits_val s = foldl (\<lambda>n c. n * 10 + digit_val c) 0 s"

definition parse_uint64 :: "string \<Rightarrow> u64 option" where
  "parse_uint64 s =
     (if s = [] \<or> \<not> list_all is_digit s then None
      else if digits_val s < 2 ^ 64 then Some (word_of_nat (digits_val s)) else None)"

definition digit_char :: "nat \<Rightarrow> char" where
  "digit_char n = char_of (48 + n)"

fun format_nat :: "nat \<Rightarrow> string" where
  "format_nat n = (if n < 10 then [digit_char n] else format_nat (n div 10) @ [digit_char (n mod 10)])"

declare format_nat.simps [simp del]

definition format_uint :: "u64 \<Rightarrow> string" where
  "format_uint w = format_nat (unat w)"

lemma byte_of_digit_char: "n < 10 \<Longrightarrow> byte_of (digit_char n) = 48 + n"
  by (simp add: byte_of_def digit_char_def)

lemma digit_char_literals [go_defs]:
  "digit_char 0 = CHR ''0''" "digit_char 1 = CHR ''1''" "digit_char 2 = CHR ''2''"
  "digit_char 3 = CHR ''3''" "digit_char 4 = CHR ''4''" "digit_char 5 = CHR ''5''"
  "digit_char 6 = CHR ''6''" "digit_char 7 = CHR ''7''" "digit_char 8 = CHR ''8''"
  "digit_char 9 = CHR ''9''" "digit_char (Suc 0) = CHR ''1''"
  by code_simp+

lemma digits_val_snoc: "digits_val (s @ [c]) = digits_val s * 10 + digit_val c"
  by (simp add: digits_val_def)

lemma digits_val_format: "digits_val (format_nat n) = n"
proof (induction n rule: format_nat.induct)
  case (1 n)
  show ?case
  proof (cases "n < 10")
    case True
    then show ?thesis
      by (simp add: format_nat.simps [of n] digits_val_def digit_val_def byte_of_digit_char)
  next
    case False
    then show ?thesis
      using 1 by (simp add: format_nat.simps [of n] digits_val_snoc digit_val_def byte_of_digit_char)
  qed
qed

lemma format_nat_not_Nil [simp]: "format_nat n \<noteq> []"
  by (subst format_nat.simps) simp

lemma format_nat_digits: "list_all is_digit (format_nat n)"
proof (induction n rule: format_nat.induct)
  case (1 n)
  then show ?case
    by (cases "n < 10") (auto simp: format_nat.simps [of n] is_digit_byte byte_of_digit_char)
qed

lemma format_nat_zero: "format_nat 0 = ''0''"
  by (simp add: format_nat.simps digit_char_def flip: byte_of_inject) (simp add: byte_of_def)

lemma format_nat_hd: "0 < n \<Longrightarrow> hd (format_nat n) \<noteq> CHR ''0''"
proof (induction n rule: format_nat.induct)
  case (1 n)
  show ?case
  proof (cases "n < 10")
    case True
    with 1 show ?thesis
      using byte_of_digit_char [of n] byte_of_inject [of "digit_char n" "CHR ''0''"]
      by (auto simp: format_nat.simps [of n]) (simp add: byte_of_def)
  next
    case False
    with 1 show ?thesis by (simp add: format_nat.simps [of n])
  qed
qed

lemma parse_format_uint: "parse_uint64 (format_uint w) = Some w"
  using unsigned_less [of w]
  by (simp add: parse_uint64_def format_uint_def digits_val_format format_nat_digits)

definition format_int :: "int \<Rightarrow> string" where
  "format_int n = (if n < 0 then CHR ''-'' # format_nat (nat (- n)) else format_nat (nat n))"

section \<open>Integers of 64 bits\<close>

definition int64 :: "int \<Rightarrow> int" where \<comment> \<open>two's complement wrap-around\<close>
  "int64 i = sint (word_of_int i :: i64)"

lemma int64_id: "- (2 ^ 63) \<le> i \<Longrightarrow> i < 2 ^ 63 \<Longrightarrow> int64 i = i"
  by (simp add: int64_def sint_sbintrunc' signed_take_bit_int_eq_self_iff)

section \<open>Three-way comparisons\<close>

definition cmp :: "'a::linorder \<Rightarrow> 'a \<Rightarrow> int" where
  "cmp a b = (if a < b then -1 else if a > b then 1 else 0)"

lemma cmp_zero [simp]: "cmp a b = 0 \<longleftrightarrow> a = b"
  by (auto simp: cmp_def)

lemma cmp_neg: "cmp a b < 0 \<longleftrightarrow> a < b"
  by (auto simp: cmp_def)

lemma cmp_pos: "0 < cmp a b \<longleftrightarrow> b < a"
  by (auto simp: cmp_def)

lemma cmp_nonpos: "cmp a b \<le> 0 \<longleftrightarrow> a \<le> b"
  by (auto simp: cmp_def)

lemma cmp_flip: "cmp b a = - cmp a b"
  by (auto simp: cmp_def)

lemma cmp_range: "cmp a b \<in> {-1, 0, 1}"
  by (simp add: cmp_def)

lemma cmp_m1: "cmp a b = -1 \<longleftrightarrow> a < b"
  by (auto simp: cmp_def)

end
