(* ===== verification/World.thy ===== *)
theory World
  imports Prelude
begin

text \<open>
  The operating system as the agent sees it: a store of files with their bytes and modification
  times, the service the agent runs as, and the processes it starts.  Every call can fail: the
  world carries an arbitrary schedule of faults, one per call, so a theorem about all worlds is a
  theorem about every pattern of I/O errors.  A failing write leaves an arbitrary prefix of its
  bytes behind, a failing stop or start of the service may or may not have taken effect.

  \<open>io_or\<close> is the code's \<open>if err != nil { return ... }\<close>; \<open>only\<close> is the frame of an operation:
  the paths it may have changed.
\<close>

datatype node =
    RegFile string int \<comment> \<open>bytes, modification time\<close>
  | DirNode
  | LinkNode

record world =
  w_node :: "string \<Rightarrow> node option"
  w_now :: int
  w_tick :: nat
  w_fault :: "nat \<Rightarrow> bool"
  w_torn :: "nat \<Rightarrow> nat"
  w_temp :: "nat \<Rightarrow> string" \<comment> \<open>the name CreateTemp picks\<close>
  w_running :: bool
  w_spawned :: "(string \<times> string list) list"

datatype io_err = NotExist | Exists | IoFail

type_synonym 'a io = "world \<Rightarrow> (io_err + 'a) \<times> world"

definition tick :: "world \<Rightarrow> world" where
  "tick w = w\<lparr>w_tick := Suc (w_tick w)\<rparr>"

definition faulty :: "world \<Rightarrow> bool" where
  "faulty w = w_fault w (w_tick w)"

definition set_node :: "string \<Rightarrow> node option \<Rightarrow> world \<Rightarrow> world" where
  "set_node p n w = w\<lparr>w_node := (w_node w)(p := n)\<rparr>"

definition file_bytes :: "world \<Rightarrow> string \<Rightarrow> string option" where
  "file_bytes w p = (case w_node w p of Some (RegFile b _) \<Rightarrow> Some b | _ \<Rightarrow> None)"

lemma file_bytes_node: "file_bytes w p \<noteq> None \<Longrightarrow> w_node w p \<noteq> None"
  by (auto simp: file_bytes_def split: option.splits)

section \<open>Calls\<close>

definition os_read_file :: "string \<Rightarrow> string io" where
  "os_read_file p w =
    (if faulty w then (Inl IoFail, tick w)
     else (case w_node w p of
         None \<Rightarrow> Inl NotExist
       | Some (RegFile b _) \<Rightarrow> Inr b
       | Some _ \<Rightarrow> Inl IoFail, tick w))"

definition os_lstat :: "string \<Rightarrow> node io" where
  "os_lstat p w =
    (if faulty w then (Inl IoFail, tick w)
     else (case w_node w p of None \<Rightarrow> Inl NotExist | Some n \<Rightarrow> Inr n, tick w))"

text \<open>Stat follows a link; no link of the model leads anywhere.\<close>

definition os_stat :: "string \<Rightarrow> node io" where
  "os_stat p w =
    (if faulty w then (Inl IoFail, tick w)
     else (case w_node w p of None \<Rightarrow> Inl NotExist | Some LinkNode \<Rightarrow> Inl NotExist | Some n \<Rightarrow> Inr n, tick w))"

text \<open>OpenFile with O_CREATE and O_EXCL: an empty file, or an error if the name is taken.\<close>

definition os_create_excl :: "string \<Rightarrow> unit io" where
  "os_create_excl p w =
    (if faulty w then (Inl IoFail, tick w)
     else if w_node w p \<noteq> None then (Inl Exists, tick w)
     else (Inr (), set_node p (Some (RegFile [] (w_now w))) (tick w)))"

definition os_create_temp :: "string io" where
  "os_create_temp w =
    (let p = w_temp w (w_tick w) in
     if faulty w \<or> w_node w p \<noteq> None then (Inl IoFail, tick w)
     else (Inr p, set_node p (Some (RegFile [] (w_now w))) (tick w)))"

definition os_write :: "string \<Rightarrow> string \<Rightarrow> unit io" where
  "os_write p b w =
    (if faulty w
     then (Inl IoFail, set_node p (Some (RegFile (take (w_torn w (w_tick w)) b) (w_now w))) (tick w))
     else (Inr (), set_node p (Some (RegFile b (w_now w))) (tick w)))"

text \<open>Sync, Close, MkdirAll, a DACL change, a cancelled context: calls that only succeed or fail.\<close>

definition os_call :: "unit io" where
  "os_call w = (if faulty w then Inl IoFail else Inr (), tick w)"

definition os_rename :: "string \<Rightarrow> string \<Rightarrow> unit io" where
  "os_rename a b w =
    (if faulty w then (Inl IoFail, tick w)
     else (case w_node w a of
         None \<Rightarrow> (Inl NotExist, tick w)
       | Some n \<Rightarrow> (Inr (), set_node b (Some n) (if a = b then tick w else set_node a None (tick w)))))"

text \<open>MoveFileEx without the replace flag: refuses an existing target.\<close>

definition os_move_new :: "string \<Rightarrow> string \<Rightarrow> unit io" where
  "os_move_new a b w =
    (if faulty w then (Inl IoFail, tick w)
     else if w_node w b \<noteq> None then (Inl Exists, tick w)
     else (case w_node w a of
         None \<Rightarrow> (Inl NotExist, tick w)
       | Some n \<Rightarrow> (Inr (), set_node b (Some n) (set_node a None (tick w)))))"

definition os_remove :: "string \<Rightarrow> unit io" where
  "os_remove p w =
    (if faulty w then (Inl IoFail, tick w)
     else if w_node w p = None then (Inl NotExist, tick w)
     else (Inr (), set_node p None (tick w)))"

definition svc_stop :: "unit io" where
  "svc_stop w =
    (if faulty w then (Inl IoFail, (tick w)\<lparr>w_running := (w_torn w (w_tick w) = 0 \<and> w_running w)\<rparr>)
     else (Inr (), (tick w)\<lparr>w_running := False\<rparr>))"

definition svc_start :: "unit io" where
  "svc_start w =
    (if faulty w then (Inl IoFail, (tick w)\<lparr>w_running := (w_torn w (w_tick w) \<noteq> 0 \<or> w_running w)\<rparr>)
     else (Inr (), (tick w)\<lparr>w_running := True\<rparr>))"

definition os_spawn :: "string \<Rightarrow> string list \<Rightarrow> unit io" where
  "os_spawn exe args w =
    (if faulty w then (Inl IoFail, tick w)
     else (Inr (), (tick w)\<lparr>w_spawned := w_spawned w @ [(exe, args)]\<rparr>))"

lemmas os_defs = os_read_file_def os_lstat_def os_stat_def os_create_excl_def os_create_temp_def
  os_write_def os_call_def os_rename_def os_move_new_def os_remove_def svc_stop_def svc_start_def os_spawn_def

section \<open>Sequencing with early return\<close>

text \<open>On an I/O error return \<open>e\<close>, after the clean-up \<open>c\<close> if there is one; else go on.\<close>

definition io_or :: "'e \<Rightarrow> 'a io \<Rightarrow> ('a \<Rightarrow> world \<Rightarrow> ('e + 'b) \<times> world) \<Rightarrow> world \<Rightarrow> ('e + 'b) \<times> world" where
  "io_or e m k w = (case m w of (Inl _, w') \<Rightarrow> (Inl e, w') | (Inr a, w') \<Rightarrow> k a w')"

definition io_or_clean ::
    "'e \<Rightarrow> unit io \<Rightarrow> 'a io \<Rightarrow> ('a \<Rightarrow> world \<Rightarrow> ('e + 'b) \<times> world) \<Rightarrow> world \<Rightarrow> ('e + 'b) \<times> world" where
  "io_or_clean e c m k w = (case m w of (Inl _, w') \<Rightarrow> (Inl e, snd (c w')) | (Inr a, w') \<Rightarrow> k a w')"

definition io_bind ::
    "(world \<Rightarrow> ('e + 'a) \<times> world) \<Rightarrow> ('a \<Rightarrow> world \<Rightarrow> ('e + 'b) \<times> world) \<Rightarrow> world \<Rightarrow> ('e + 'b) \<times> world" where
  "io_bind m k w = (case m w of (Inl e, w') \<Rightarrow> (Inl e, w') | (Inr a, w') \<Rightarrow> k a w')"

definition io_ret :: "'a \<Rightarrow> world \<Rightarrow> ('e + 'a) \<times> world" where
  "io_ret a w = (Inr a, w)"

definition io_fail :: "'e \<Rightarrow> world \<Rightarrow> ('e + 'a) \<times> world" where
  "io_fail e w = (Inl e, w)"

text \<open>A step whose error is dropped (\<open>_ = os.Remove(...)\<close>), then the given result.\<close>

definition io_finally :: "(world \<Rightarrow> ('e + 'a) \<times> world) \<Rightarrow> unit io \<Rightarrow> world \<Rightarrow> ('e + 'a) \<times> world" where
  "io_finally m c w = (case m w of (r, w') \<Rightarrow> (r, snd (c w')))"

text \<open>Both outcomes are handled, the results need not be a sum.\<close>

definition io_else ::
    "(world \<Rightarrow> ('e + 'a) \<times> world) \<Rightarrow> ('e \<Rightarrow> world \<Rightarrow> 'r \<times> world) \<Rightarrow> ('a \<Rightarrow> world \<Rightarrow> 'r \<times> world) \<Rightarrow>
     world \<Rightarrow> 'r \<times> world" where
  "io_else m h k w = (case m w of (Inl e, w') \<Rightarrow> h e w' | (Inr a, w') \<Rightarrow> k a w')"

lemma io_else_split:
  "io_else m h k w = (r, w') \<longleftrightarrow>
     (\<exists>e w1. m w = (Inl e, w1) \<and> h e w1 = (r, w')) \<or> (\<exists>a w1. m w = (Inr a, w1) \<and> k a w1 = (r, w'))"
  by (auto simp: io_else_def split: prod.splits sum.splits)

lemma io_or_Inr:
  "io_or e m k w = (Inr b, w') \<longleftrightarrow> (\<exists>a w1. m w = (Inr a, w1) \<and> k a w1 = (Inr b, w'))"
  by (auto simp: io_or_def split: prod.splits sum.splits)

lemma io_or_clean_Inr:
  "io_or_clean e c m k w = (Inr b, w') \<longleftrightarrow> (\<exists>a w1. m w = (Inr a, w1) \<and> k a w1 = (Inr b, w'))"
  by (auto simp: io_or_clean_def split: prod.splits sum.splits)

lemma io_bind_Inr:
  "io_bind m k w = (Inr b, w') \<longleftrightarrow> (\<exists>a w1. m w = (Inr a, w1) \<and> k a w1 = (Inr b, w'))"
  by (auto simp: io_bind_def split: prod.splits sum.splits)

lemma io_ret_Inr: "io_ret a w = (r, w') \<longleftrightarrow> r = Inr a \<and> w' = w"
  by (auto simp: io_ret_def)

lemma io_fail_Inr: "io_fail e w = (r, w') \<longleftrightarrow> r = Inl e \<and> w' = w"
  by (auto simp: io_fail_def)

lemmas io_success = io_or_Inr io_or_clean_Inr io_bind_Inr io_ret_Inr io_fail_Inr

lemma tick_simps [simp]:
  "w_node (tick w) = w_node w" "w_running (tick w) = w_running w" "w_spawned (tick w) = w_spawned w"
  "w_temp (tick w) = w_temp w" "w_now (tick w) = w_now w" "w_fault (tick w) = w_fault w"
  "w_torn (tick w) = w_torn w" "file_bytes (tick w) p = file_bytes w p"
  by (simp_all add: tick_def file_bytes_def)

lemma set_node_simps [simp]:
  "w_node (set_node p n w) = (w_node w)(p := n)" "w_running (set_node p n w) = w_running w"
  "w_spawned (set_node p n w) = w_spawned w" "w_temp (set_node p n w) = w_temp w"
  "w_now (set_node p n w) = w_now w" "w_fault (set_node p n w) = w_fault w"
  "w_torn (set_node p n w) = w_torn w" "w_tick (set_node p n w) = w_tick w"
  by (simp_all add: set_node_def)

section \<open>Frames\<close>

definition only :: "string set \<Rightarrow> world \<Rightarrow> world \<Rightarrow> bool" where
  "only S w w' \<longleftrightarrow> (\<forall>p. p \<notin> S \<longrightarrow> w_node w' p = w_node w p) \<and> w_running w' = w_running w \<and>
     w_spawned w' = w_spawned w \<and> w_temp w' = w_temp w"

definition touches :: "string set \<Rightarrow> (world \<Rightarrow> 'r \<times> world) \<Rightarrow> bool" where
  "touches S m \<longleftrightarrow> (\<forall>w. only S w (snd (m w)))"

named_theorems frame \<open>introduction rules for \<open>touches\<close>\<close>

lemma only_refl [simp]: "only S w w"
  by (simp add: only_def)

lemma only_trans: "only S w w1 \<Longrightarrow> only S w1 w2 \<Longrightarrow> only S w w2"
  by (simp add: only_def)

lemma only_mono: "only S w w' \<Longrightarrow> S \<subseteq> T \<Longrightarrow> only T w w'"
  by (auto simp: only_def)

lemma only_bytes: "only S w w' \<Longrightarrow> p \<notin> S \<Longrightarrow> file_bytes w' p = file_bytes w p"
  by (simp add: only_def file_bytes_def)

lemma only_running: "only S w w' \<Longrightarrow> w_running w' = w_running w"
  by (simp add: only_def)

lemma touchesD: "touches S m \<Longrightarrow> m w = (r, w') \<Longrightarrow> only S w w'"
  unfolding touches_def by (metis snd_conv)

lemma touches_calls [frame]:
  "touches S (os_read_file p)" "touches S (os_lstat p)" "touches S (os_stat p)" "touches S os_call"
  by (auto simp: touches_def only_def os_defs)

lemma touches_writes [frame]:
  "p \<in> S \<Longrightarrow> touches S (os_create_excl p)" "p \<in> S \<Longrightarrow> touches S (os_write p b)"
  "p \<in> S \<Longrightarrow> touches S (os_remove p)"
  by (auto simp: touches_def only_def os_defs)

lemma touches_rename [frame]: "a \<in> S \<Longrightarrow> b \<in> S \<Longrightarrow> touches S (os_rename a b)"
  by (auto simp: touches_def only_def os_defs split: option.splits)

lemma touches_move_new [frame]: "a \<in> S \<Longrightarrow> b \<in> S \<Longrightarrow> touches S (os_move_new a b)"
  by (auto simp: touches_def only_def os_defs split: option.splits)

lemma touches_io_or [frame]:
  assumes "touches S m" and "\<And>a. touches S (k a)"
  shows "touches S (io_or e m k)"
  unfolding touches_def
proof
  fix w
  have "only S w (snd (m w))" using assms(1) by (simp add: touches_def)
  moreover have "only S w1 (snd (k a w1))" for a w1 using assms(2) by (simp add: touches_def)
  ultimately show "only S w (snd (io_or e m k w))"
    by (auto simp: io_or_def split: prod.splits sum.splits intro: only_trans)
qed

lemma touches_io_bind [frame]:
  assumes "touches S m" and "\<And>a. touches S (k a)"
  shows "touches S (io_bind m k)"
  unfolding touches_def
proof
  fix w
  have "only S w (snd (m w))" using assms(1) by (simp add: touches_def)
  moreover have "only S w1 (snd (k a w1))" for a w1 using assms(2) by (simp add: touches_def)
  ultimately show "only S w (snd (io_bind m k w))"
    by (auto simp: io_bind_def split: prod.splits sum.splits intro: only_trans)
qed

lemma touches_io_or_clean [frame]:
  assumes "touches S m" and "touches S c" and "\<And>a. touches S (k a)"
  shows "touches S (io_or_clean e c m k)"
  unfolding touches_def
proof
  fix w
  have "only S w (snd (m w))" using assms(1) by (simp add: touches_def)
  moreover have "only S w1 (snd (k a w1))" for a w1 using assms(3) by (simp add: touches_def)
  moreover have "only S w1 (snd (c w1))" for w1 using assms(2) by (simp add: touches_def)
  ultimately show "only S w (snd (io_or_clean e c m k w))"
    by (auto simp: io_or_clean_def split: prod.splits sum.splits intro: only_trans)
qed

lemma touches_io_else [frame]:
  assumes "touches S m" and "\<And>e. touches S (h e)" and "\<And>a. touches S (k a)"
  shows "touches S (io_else m h k)"
  unfolding touches_def
proof
  fix w
  have "only S w (snd (m w))" using assms(1) by (simp add: touches_def)
  moreover have "only S w1 (snd (k a w1))" for a w1 using assms(3) by (simp add: touches_def)
  moreover have "only S w1 (snd (h e w1))" for e w1 using assms(2) by (simp add: touches_def)
  ultimately show "only S w (snd (io_else m h k w))"
    by (auto simp: io_else_def split: prod.splits sum.splits intro: only_trans)
qed

lemma touches_pure [frame]: "touches S (io_ret a)" "touches S (io_fail e)"
  by (simp_all add: touches_def io_ret_def io_fail_def)

lemma touches_if [frame]: "(b \<Longrightarrow> touches S m) \<Longrightarrow> (\<not> b \<Longrightarrow> touches S n) \<Longrightarrow> touches S (if b then m else n)"
  by simp

lemma touches_finally [frame]: "touches S m \<Longrightarrow> touches S c \<Longrightarrow> touches S (io_finally m c)"
  unfolding touches_def io_finally_def by (auto split: prod.splits) (metis only_trans snd_conv)

section \<open>What the calls do when they succeed\<close>

lemma os_read_file_Inr: "os_read_file p w = (Inr b, w') \<Longrightarrow> file_bytes w p = Some b \<and> w' = tick w"
  by (auto simp: os_read_file_def file_bytes_def split: if_splits option.splits node.splits)

lemma os_write_Inr: "os_write p b w = (Inr u, w') \<Longrightarrow> file_bytes w' p = Some b"
  by (auto simp: os_write_def file_bytes_def split: if_splits)

lemma os_call_Inr: "os_call w = (Inr u, w') \<Longrightarrow> w' = tick w"
  by (auto simp: os_call_def)

lemma os_rename_Inr:
  "os_rename a b w = (Inr u, w') \<Longrightarrow> w_node w a \<noteq> None \<and> w_node w' b = w_node w a \<and> (a \<noteq> b \<longrightarrow> w_node w' a = None)"
  by (auto simp: os_rename_def split: if_splits option.splits)

lemma os_create_excl_Inr:
  "os_create_excl p w = (Inr u, w') \<Longrightarrow> w_node w p = None \<and> w' = set_node p (Some (RegFile [] (w_now w))) (tick w)"
  by (auto simp: os_create_excl_def split: if_splits)

lemma svc_Inr: "svc_stop w = (Inr u, w') \<Longrightarrow> \<not> w_running w'" "svc_start w = (Inr u, w') \<Longrightarrow> w_running w'"
  by (auto simp: svc_stop_def svc_start_def split: if_splits)

lemma svc_node:
  "w_node (snd (svc_stop w)) = w_node w" "w_node (snd (svc_start w)) = w_node w"
  "w_temp (snd (svc_stop w)) = w_temp w" "w_temp (snd (svc_start w)) = w_temp w"
  by (auto simp: svc_stop_def svc_start_def)

section \<open>A small world\<close>

definition sample_world :: world where
  "sample_world = \<lparr>w_node = (\<lambda>_. None), w_now = 0, w_tick = 0, w_fault = (\<lambda>_. False),
     w_torn = (\<lambda>_. 0), w_temp = (\<lambda>_. ''tmp''), w_running = True, w_spawned = []\<rparr>"

end
