(* ===== verification/Contract.thy ===== *)
theory Contract
  imports Prelude
begin

text \<open>
  \<open>internal/selfupdate/errors.go\<close> and \<open>contract.go\<close>: the bounded error taxonomy, the
  payload of an update command and its shape check, the result of a staging run, and
  \<open>sanitizeReason\<close>, which keeps local paths and control characters out of every reason that
  goes to the backend.
\<close>

section \<open>Error codes\<close>

text \<open>\<open>ErrNone\<close> is the empty string of the source: no error.\<close>

datatype error_code =
    ErrNone
  | ErrUnsupportedPlatform
  | ErrLabTierRefused
  | ErrVersionDowngrade
  | ErrVersionReplay
  | ErrVersionUnparseable
  | ErrURLRejected
  | ErrDownloadFailed
  | ErrDownloadTooLarge
  | ErrHashMismatch
  | ErrSignatureInvalid
  | ErrSignerNotAllowed
  | ErrCatalogMismatch
  | ErrCredentialPreflight
  | ErrStagingIO
  | ErrActivationPlanWrite

definition all_error_codes :: "error_code list" where
  "all_error_codes =
     [ErrUnsupportedPlatform, ErrLabTierRefused, ErrVersionDowngrade, ErrVersionReplay,
      ErrVersionUnparseable, ErrURLRejected, ErrDownloadFailed, ErrDownloadTooLarge,
      ErrHashMismatch, ErrSignatureInvalid, ErrSignerNotAllowed, ErrCatalogMismatch,
      ErrCredentialPreflight, ErrStagingIO, ErrActivationPlanWrite]"

fun wire_code :: "error_code \<Rightarrow> string" where
  "wire_code ErrNone = []"
| "wire_code ErrUnsupportedPlatform = ''POLICY_UNSUPPORTED_PLATFORM''"
| "wire_code ErrLabTierRefused = ''POLICY_LAB_TIER_REFUSED''"
| "wire_code ErrVersionDowngrade = ''POLICY_VERSION_DOWNGRADE''"
| "wire_code ErrVersionReplay = ''POLICY_VERSION_REPLAY''"
| "wire_code ErrVersionUnparseable = ''POLICY_VERSION_UNPARSEABLE''"
| "wire_code ErrURLRejected = ''POLICY_URL_REJECTED''"
| "wire_code ErrDownloadFailed = ''DOWNLOAD_FAILED''"
| "wire_code ErrDownloadTooLarge = ''DOWNLOAD_TOO_LARGE''"
| "wire_code ErrHashMismatch = ''HASH_MISMATCH''"
| "wire_code ErrSignatureInvalid = ''SIGNATURE_INVALID''"
| "wire_code ErrSignerNotAllowed = ''SIGNER_NOT_ALLOWED''"
| "wire_code ErrCatalogMismatch = ''CATALOG_MISMATCH''"
| "wire_code ErrCredentialPreflight = ''CREDENTIAL_PREFLIGHT_FAILED''"
| "wire_code ErrStagingIO = ''STAGING_IO_FAILED''"
| "wire_code ErrActivationPlanWrite = ''ACTIVATION_PLAN_WRITE_FAILED''"

text \<open>On the wire a code is a string.\<close>

definition is_known_error_code :: "string \<Rightarrow> bool" where
  "is_known_error_code code = list_ex (\<lambda>c. wire_code c = code) all_error_codes"

type_synonym refusal = "error_code \<times> string" \<comment> \<open>a code and its reason\<close>

abbreviation accept :: refusal where
  "accept \<equiv> (ErrNone, [])"

section \<open>The payload\<close>

type_synonym signing_tier = string

definition TierTrusted :: signing_tier where
  "TierTrusted = ''TRUSTED''"

definition TierLabOnlyEvidence :: signing_tier where
  "TierLabOnlyEvidence = ''LAB_ONLY_EVIDENCE''"

definition is_known_tier :: "signing_tier \<Rightarrow> bool" where
  "is_known_tier t \<longleftrightarrow> t = TierTrusted \<or> t = TierLabOnlyEvidence"

record update_payload =
  up_release_id :: string
  up_channel :: string
  up_ring :: string
  up_target_version :: string
  up_binary_url :: string
  up_claimed_sha256 :: string
  up_claimed_signer :: string
  up_signing_tier :: signing_tier
  up_max_bytes :: i64
  up_claimed_accept_lab_only :: bool

definition validate_shape :: "update_payload \<Rightarrow> refusal" where
  "validate_shape p =
    (if blank (up_target_version p) then (ErrVersionUnparseable, ''targetVersion is required'')
     else if blank (up_binary_url p) then (ErrURLRejected, ''binaryUrl is required'')
     else if blank (up_claimed_sha256 p) then (ErrHashMismatch, ''claimedSha256 is required'')
     else if \<not> is_known_tier (up_signing_tier p) then (ErrLabTierRefused, ''unknown signingTier'')
     else accept)"

section \<open>Reasons on the wire\<close>

text \<open>A letter, a colon and a slash or backslash, anywhere.\<close>

fun drive_token :: "string \<Rightarrow> bool" where
  "drive_token (c # d # e # s) \<longleftrightarrow>
     ((is_upper c \<or> is_lower c) \<and> d = CHR '':'' \<and> (e = CHR ''/'' \<or> e = CHR 0x5C)) \<or>
     drive_token (d # e # s)"
| "drive_token _ \<longleftrightarrow> False"

definition path_tokens :: "string list" where
  "path_tokens = [''c:/'', ''/users/'', ''/home/'', ''programdata'', ''appdata'']"

definition looks_pathish :: "string \<Rightarrow> bool" where
  "looks_pathish s \<longleftrightarrow>
     contains s [CHR 0x5C] \<or> list_ex (contains (to_lower s)) path_tokens \<or> drive_token s"

definition max_reason_bytes :: nat where
  "max_reason_bytes = 200"

definition control_char :: "char \<Rightarrow> bool" where
  "control_char c \<longleftrightarrow> c < CHR 0x20 \<or> c = CHR 0x7F"

text \<open>The loop over the runes; \<open>b\<close> is the builder.\<close>

function sanitize_loop :: "string \<Rightarrow> string \<Rightarrow> string" where
  "sanitize_loop s b =
    (if s = [] then b else
     let n = rune_len s;
         rune = (if n = 0 then replacement_rune else take n s);
         rest = (if n = 0 then tl s else drop n s) in
     if n = 1 \<and> control_char (hd s) then sanitize_loop rest b
     else if max_reason_bytes \<le> length (b @ rune) then b @ rune
     else sanitize_loop rest (b @ rune))"
  by pat_completeness auto
termination by (relation "measure (\<lambda>(s, b). length s)") auto

declare sanitize_loop.simps [simp del]

definition sanitize_reason :: "string \<Rightarrow> string" where
  "sanitize_reason s =
     (if looks_pathish s then ''(reason redacted: contained a path-like token)''
      else sanitize_loop s [])"

section \<open>Staging results\<close>

datatype stage_status = StageUnset | StageReady | StageNoopCurrent | StageFailed

definition is_known_stage_status :: "stage_status \<Rightarrow> bool" where
  "is_known_stage_status s \<longleftrightarrow> s = StageReady \<or> s = StageNoopCurrent \<or> s = StageFailed"

record stage_result =
  sr_status :: stage_status
  sr_code :: error_code
  sr_staging_id :: string
  sr_plan_id :: string
  sr_old_version :: string
  sr_target_version :: string
  sr_sha256 :: string
  sr_signer :: string
  sr_tier :: signing_tier
  sr_reason :: string

definition zero_stage_result :: stage_result where
  "zero_stage_result =
     \<lparr>sr_status = StageUnset, sr_code = ErrNone, sr_staging_id = [], sr_plan_id = [],
      sr_old_version = [], sr_target_version = [], sr_sha256 = [], sr_signer = [],
      sr_tier = [], sr_reason = []\<rparr>"

definition stage_failed :: "error_code \<Rightarrow> string \<Rightarrow> stage_result" where
  "stage_failed code reason =
     zero_stage_result\<lparr>sr_status := StageFailed, sr_code := code, sr_reason := sanitize_reason reason\<rparr>"

definition stage_noop :: "string \<Rightarrow> stage_result" where
  "stage_noop current =
     zero_stage_result\<lparr>sr_status := StageNoopCurrent, sr_old_version := current,
       sr_target_version := current, sr_reason := ''already at target version''\<rparr>"

lemma stage_failed_simps [simp]:
  "sr_status (stage_failed c r) = StageFailed" "sr_code (stage_failed c r) = c"
  by (simp_all add: stage_failed_def)

lemma stage_noop_simps [simp]:
  "sr_status (stage_noop v) = StageNoopCurrent" "sr_code (stage_noop v) = ErrNone"
  by (simp_all add: stage_noop_def zero_stage_result_def)

section \<open>Facts on the taxonomy and on reasons\<close>

lemma wire_code_inj: "wire_code a = wire_code b \<Longrightarrow> a = b"
  by (cases a; cases b; simp)

lemma sanitize_loop_length:
  "length b < max_reason_bytes \<Longrightarrow> length (sanitize_loop s b) < max_reason_bytes + 4"
proof (induction s b rule: sanitize_loop.induct)
  case (1 s b)
  let ?n = "rune_len s"
  let ?rune = "if ?n = 0 then replacement_rune else take ?n s"
  have r: "length ?rune \<le> 4"
    using rune_len_le(2) [of s] by (auto simp: replacement_rune_def)
  show ?case
    using 1 r unfolding sanitize_loop.simps [of s b] Let_def
    by (auto simp del: length_append simp: linorder_not_le) (simp_all add: length_append)
qed

definition printable :: "char \<Rightarrow> bool" where
  "printable c \<longleftrightarrow> byte_of c < 128 \<and> \<not> control_char c"

lemma sanitize_loop_printable:
  "list_all printable s \<Longrightarrow> length b < max_reason_bytes \<Longrightarrow>
     sanitize_loop s b = take max_reason_bytes (b @ s)"
proof (induction s arbitrary: b)
  case Nil
  then show ?case by (simp add: sanitize_loop.simps)
next
  case (Cons c s)
  have n: "rune_len (c # s) = 1" using Cons.prems by (simp add: printable_def rune_len_ascii)
  have c: "\<not> control_char c" using Cons.prems by (simp add: printable_def)
  show ?case
  proof (cases "max_reason_bytes \<le> Suc (length b)")
    case True
    then have m: "max_reason_bytes = Suc (length b)" using Cons.prems by simp
    show ?thesis using c n by (simp add: m sanitize_loop.simps [of "c # s"] Let_def)
  next
    case False
    then show ?thesis
      using c n Cons.prems Cons.IH [of "b @ [c]"]
      by (simp add: sanitize_loop.simps [of "c # s"] Let_def)
  qed
qed

lemma drive_token_append: "drive_token s \<Longrightarrow> drive_token (s @ t)"
  by (induction s rule: drive_token.induct) auto

lemma looks_pathish_take: "looks_pathish (take n s) \<Longrightarrow> looks_pathish s"
proof -
  have d: "drive_token (take n s) \<Longrightarrow> drive_token s"
    using drive_token_append [of "take n s" "drop n s"] by simp
  have l: "to_lower (take n s) = take n (to_lower s)" by (simp add: to_lower_def take_map)
  have t: "list_ex (contains (take n u)) ts \<Longrightarrow> list_ex (contains u) ts" for u ts
    using contains_take [of n u] by (auto simp: list_ex_iff)
  show "looks_pathish (take n s) \<Longrightarrow> looks_pathish s"
    unfolding looks_pathish_def l
    using contains_take [of n s "[CHR 0x5C]"] t [of "to_lower s" path_tokens] d by argo
qed

end
