(* ===== verification/UrlPolicy.thy ===== *)
theory UrlPolicy
  imports Contract
begin

text \<open>
  \<open>internal/selfupdate/urlpolicy.go\<close> and \<open>download.go\<close>: the download URL policy, the check
  of a redirect chain, and the HTTP downloader with its redirect guard and byte cap.

  \<open>net/url.Parse\<close> and \<open>net.ParseIP\<close> are parameters (the fields of \<open>url_lib\<close>): what they
  accept depends on the Go toolchain's patch release, and no theorem relies on a law of theirs.
  \<open>URL.Hostname\<close> and \<open>URL.Port\<close> are modelled on the parsed Host.  The transport is a
  parameter too: a reply is the list of redirect targets it went through and what came back.
\<close>

record url_policy =
  allowed_hosts :: "string list"
  max_redirects :: int

record parsed_url =
  pu_scheme :: string
  pu_has_user :: bool
  pu_opaque :: string
  pu_host :: string \<comment> \<open>host or host:port\<close>
  pu_path :: string

record url_lib =
  lib_parse :: "string \<Rightarrow> parsed_url option"
  lib_is_ip :: "string \<Rightarrow> bool"

record canonical_url =
  cu_scheme :: string
  cu_host :: string
  cu_port :: string
  cu_path :: string
  cu_raw :: string

section \<open>Hostname and Port of net/url\<close>

definition valid_optional_port :: "string \<Rightarrow> bool" where
  "valid_optional_port p = (case p of [] \<Rightarrow> True | c # t \<Rightarrow> c = CHR '':'' \<and> list_all is_digit t)"

text \<open>Cut at the last colon, if a port follows it.\<close>

definition after_last_colon :: "string \<Rightarrow> string" where
  "after_last_colon h = rev (takeWhile (\<lambda>c. c \<noteq> CHR '':'') (rev h))"

definition split_host_port :: "string \<Rightarrow> string \<times> string" where
  "split_host_port h =
    (let tail = after_last_colon h;
         cut = length tail < length h \<and> valid_optional_port (CHR '':'' # tail);
         host = (if cut then take (length h - length tail - 1) h else h);
         port = (if cut then tail else []) in
     (if has_prefix host ''['' \<and> has_suffix host '']''
      then take (length host - 2) (drop 1 host) else host, port))"

definition url_hostname :: "parsed_url \<Rightarrow> string" where
  "url_hostname u = fst (split_host_port (pu_host u))"

definition url_port :: "parsed_url \<Rightarrow> string" where
  "url_port u = snd (split_host_port (pu_host u))"

section \<open>The policy\<close>

definition host_allowed :: "url_policy \<Rightarrow> string \<Rightarrow> bool" where
  "host_allowed pol host = list_ex (\<lambda>h. equal_fold (trim_space h) host) (allowed_hosts pol)"

definition is_ascii :: "string \<Rightarrow> bool" where
  "is_ascii s = list_all is_ascii_char s"

text \<open>The scan of the host's characters; \<open>has_digit\<close> is the flag of the loop.\<close>

fun numeric_host :: "bool \<Rightarrow> string \<Rightarrow> bool" where
  "numeric_host has_digit [] = has_digit"
| "numeric_host has_digit (c # s) =
     (if is_digit c then numeric_host True s
      else if c = CHR ''.'' then numeric_host has_digit s
      else False)"

definition is_forbidden_ip_literal_host :: "url_lib \<Rightarrow> string \<Rightarrow> bool" where
  "is_forbidden_ip_literal_host L host =
    (if host = [] then False
     else if lib_is_ip L host then True
     else if has_prefix host ''0x'' then True
     else numeric_host False host)"

definition check_url :: "url_lib \<Rightarrow> string \<Rightarrow> url_policy \<Rightarrow> refusal + canonical_url" where
  "check_url L raw pol =
    (case lib_parse L (trim_space raw) of
       None \<Rightarrow> Inl (ErrURLRejected, ''unparseable url'')
     | Some u \<Rightarrow>
       if \<not> equal_fold (pu_scheme u) ''https'' then Inl (ErrURLRejected, ''scheme must be https'')
       else if pu_has_user u then Inl (ErrURLRejected, ''userinfo not allowed in url'')
       else if pu_opaque u \<noteq> [] then Inl (ErrURLRejected, ''opaque url not allowed'')
       else
         let host0 = url_hostname u in
         if host0 = [] then Inl (ErrURLRejected, ''empty host'')
         else if \<not> is_ascii host0
         then Inl (ErrURLRejected, ''non-ascii host (idn must be punycode-encoded)'')
         else
           let host = to_lower host0 in
           if is_forbidden_ip_literal_host L host
           then Inl (ErrURLRejected, ''ip-literal host not allowed'')
           else
             let port = url_port u in
             if port \<noteq> [] \<and> port \<noteq> ''443'' then Inl (ErrURLRejected, ''non-443 port not allowed'')
             else if \<not> host_allowed pol host then Inl (ErrURLRejected, ''host not in allowlist'')
             else Inr \<lparr>cu_scheme = ''https'', cu_host = host, cu_port = port,
                       cu_path = pu_path u, cu_raw = raw\<rparr>)"

fun check_hops :: "url_lib \<Rightarrow> string list \<Rightarrow> url_policy \<Rightarrow> refusal" where
  "check_hops L [] pol = accept"
| "check_hops L (h # hs) pol =
     (case check_url L h pol of Inl e \<Rightarrow> e | Inr _ \<Rightarrow> check_hops L hs pol)"

definition check_redirect_chain :: "url_lib \<Rightarrow> string \<Rightarrow> string list \<Rightarrow> url_policy \<Rightarrow> refusal" where
  "check_redirect_chain L initial hops pol =
    (if 0 \<le> max_redirects pol \<and> max_redirects pol < int (length hops)
     then (ErrURLRejected, ''too many redirects'')
     else (case check_url L initial pol of Inl e \<Rightarrow> e | Inr _ \<Rightarrow> check_hops L hops pol))"

section \<open>The downloader\<close>

text \<open>
  One Read of the response body: the bytes it returns, whether it also returned an error, and
  whether the sink then took the bytes.
\<close>

datatype read_err = ReadOk | ReadEOF | ReadFailed

record read_step =
  rs_data :: string
  rs_err :: read_err
  rs_sink_ok :: bool

datatype copy_err = CopyOk | CopyTooLarge | CopyFailed

text \<open>
  io.Copy over the capped reader; \<open>remaining\<close> is the reader's int64 counter.  A Read whose
  buffer was cut to \<open>remaining\<close> returns the bytes that fit, with no error.
\<close>

fun copy_capped :: "int \<Rightarrow> read_step list \<Rightarrow> string \<times> copy_err" where
  "copy_capped remaining [] = (if remaining \<le> 0 then ([], CopyTooLarge) else ([], CopyOk))"
| "copy_capped remaining (r # rs) =
    (if remaining \<le> 0 then ([], CopyTooLarge)
     else
       let got = take (nat remaining) (rs_data r);
           fits = length got = length (rs_data r);
           rem' = remaining - int (length got);
           err = (if fits then rs_err r else ReadOk) in
       if \<not> rs_sink_ok r \<and> got \<noteq> [] then ([], CopyFailed)
       else (case err of
           ReadEOF \<Rightarrow> (got, CopyOk)
         | ReadFailed \<Rightarrow> (got, CopyFailed)
         | ReadOk \<Rightarrow>
             if rem' \<le> 0 then (got, CopyTooLarge)
             else (let (out, e) = copy_capped rem' rs in (got @ out, e))))"

datatype http_reply =
    TransportError
  | Reply nat "read_step list" \<comment> \<open>status and body\<close>

text \<open>The client's CheckRedirect on the hop after \<open>via\<close> requests.\<close>

definition check_redirect :: "url_lib \<Rightarrow> url_policy \<Rightarrow> nat \<Rightarrow> string \<Rightarrow> string option" where
  "check_redirect L pol via url =
    (if 0 \<le> max_redirects pol \<and> max_redirects pol < int via then Some ''too many redirects''
     else (case check_url L url pol of Inl (_, reason) \<Rightarrow> Some reason | Inr _ \<Rightarrow> None))"

fun follow_hops :: "url_lib \<Rightarrow> url_policy \<Rightarrow> nat \<Rightarrow> string list \<Rightarrow> string option" where
  "follow_hops L pol via [] = None"
| "follow_hops L pol via (h # hs) =
     (case check_redirect L pol via h of Some r \<Rightarrow> Some r | None \<Rightarrow> follow_hops L pol (Suc via) hs)"

text \<open>The bytes written to the sink, the count and the refusal (or \<open>accept\<close>).\<close>

definition http_download ::
    "url_lib \<Rightarrow> (string \<Rightarrow> bool) \<Rightarrow> string \<Rightarrow> url_policy \<Rightarrow> int \<Rightarrow> string list \<Rightarrow> http_reply \<Rightarrow>
     string \<times> refusal" where
  "http_download L new_request_ok raw pol max_bytes hops reply =
    (if max_redirects pol < 0 then ([], ErrURLRejected, ''negative redirect cap'')
     else (case check_url L raw pol of
       Inl e \<Rightarrow> ([], e)
     | Inr _ \<Rightarrow>
       if max_bytes \<le> 0 then ([], ErrDownloadFailed, ''no positive byte cap configured'')
       else if \<not> new_request_ok raw then ([], ErrDownloadFailed, ''could not build request'')
       else (case follow_hops L pol 1 hops of
         Some r \<Rightarrow> ([], ErrURLRejected, r)
       | None \<Rightarrow> (case reply of
           TransportError \<Rightarrow> ([], ErrDownloadFailed, ''transport error during download'')
         | Reply status body \<Rightarrow>
             if status \<noteq> 200 then ([], ErrDownloadFailed, ''non-200 response status'')
             else
               let (out, err) = copy_capped (int64 (max_bytes + 1)) body in
               if err = CopyTooLarge \<or> max_bytes < int (length out)
               then (out, ErrDownloadTooLarge, ''download exceeded the byte cap'')
               else if err = CopyFailed
               then (out, ErrDownloadFailed, ''error reading download body'')
               else (out, accept)))))"

section \<open>Facts\<close>

lemma check_url_code: "check_url L raw pol = Inl e \<Longrightarrow> fst e = ErrURLRejected"
  by (auto simp: check_url_def Let_def split: option.splits if_splits)

lemma check_url_Inr:
  assumes "check_url L raw pol = Inr c"
  shows "\<exists>u. lib_parse L (trim_space raw) = Some u \<and> equal_fold (pu_scheme u) ''https'' \<and>
    \<not> pu_has_user u \<and> pu_opaque u = [] \<and> cu_scheme c = ''https'' \<and>
    cu_host c = to_lower (url_hostname u) \<and> cu_host c \<noteq> [] \<and> is_ascii (url_hostname u) \<and>
    cu_port c = url_port u \<and> cu_port c \<in> {[], ''443''} \<and>
    \<not> is_forbidden_ip_literal_host L (cu_host c) \<and> host_allowed pol (cu_host c) \<and> cu_raw c = raw"
  using assms by (auto simp: check_url_def Let_def to_lower_def split: option.splits if_splits)

lemma check_hops_iff:
  "fst (check_hops L hs pol) = ErrNone \<longleftrightarrow> (\<forall>h \<in> set hs. \<exists>c. check_url L h pol = Inr c)"
  by (induction hs) (auto split: sum.splits dest: check_url_code)

lemma check_redirect_None:
  "check_redirect L pol via u = None \<longleftrightarrow>
     \<not> (0 \<le> max_redirects pol \<and> max_redirects pol < int via) \<and> (\<exists>c. check_url L u pol = Inr c)"
  by (auto simp: check_redirect_def split: sum.splits)

lemma follow_hops_None:
  "0 \<le> max_redirects pol \<Longrightarrow> follow_hops L pol via hs = None \<longleftrightarrow>
     (hs = [] \<or> int (via + length hs) \<le> max_redirects pol + 1) \<and>
     (\<forall>h \<in> set hs. \<exists>c. check_url L h pol = Inr c)"
proof (induction hs arbitrary: via)
  case (Cons h hs)
  show ?case
  proof (cases "check_redirect L pol via h")
    case None
    then have "(\<exists>c. check_url L h pol = Inr c) \<and> int via \<le> max_redirects pol"
      using check_redirect_None [of L pol via h] Cons.prems by auto
    with None Cons show ?thesis by auto
  next
    case (Some r)
    then have "\<not> ((\<exists>c. check_url L h pol = Inr c) \<and> int via \<le> max_redirects pol)"
      using check_redirect_None [of L pol via h] by auto
    with Some Cons.prems show ?thesis by auto
  qed
qed simp

lemma copy_capped_bound:
  "0 \<le> remaining \<Longrightarrow> int (length (fst (copy_capped remaining rs))) \<le> remaining"
proof (induction remaining rs rule: copy_capped.induct)
  case (2 remaining r rs)
  let ?got = "take (nat remaining) (rs_data r)"
  have g: "int (length ?got) \<le> remaining" using "2.prems" by auto
  show ?case
  proof (cases "copy_capped (remaining - int (length ?got)) rs")
    case (Pair out e)
    have "int (length out) \<le> remaining - int (length ?got)"
      if "length ?got = length (rs_data r)" "rs_err r = ReadOk" "0 < remaining - int (length ?got)"
        "rs_sink_ok r \<or> ?got = []" "0 < remaining"
      using "2.IH" that Pair by auto
    moreover have "int (length ?got) = remaining"
      if "length ?got \<noteq> length (rs_data r)" "0 < remaining"
      using that by auto
    ultimately show ?thesis
      using g Pair by (auto simp: Let_def simp del: length_take split: read_err.splits if_splits)
  qed
qed simp

definition body_bytes :: "read_step list \<Rightarrow> string" where
  "body_bytes rs = concat (map rs_data rs)"

text \<open>A body that ends without a transport or sink error within the cap is copied whole.\<close>

fun clean_body :: "read_step list \<Rightarrow> bool" where
  "clean_body [] = True"
| "clean_body [r] = (rs_sink_ok r \<and> rs_err r \<noteq> ReadFailed)"
| "clean_body (r # rs) = (rs_sink_ok r \<and> rs_err r = ReadOk \<and> clean_body rs)"

lemma copy_capped_whole:
  "clean_body rs \<Longrightarrow> int (length (body_bytes rs)) < remaining \<Longrightarrow>
     copy_capped remaining rs = (body_bytes rs, CopyOk)"
proof (induction rs arbitrary: remaining rule: clean_body.induct)
  case 1
  then show ?case by (simp add: body_bytes_def)
next
  case (2 r)
  then show ?case
    by (auto simp: body_bytes_def Let_def split: read_err.splits)
next
  case (3 r r' rs)
  have l: "int (length (body_bytes (r' # rs))) < remaining - int (length (rs_data r))"
    and ok: "clean_body (r' # rs)" "rs_sink_ok r" "rs_err r = ReadOk"
    and fit: "length (rs_data r) \<le> nat remaining"
    using "3.prems" by (auto simp: body_bytes_def)
  then have "0 < remaining" "0 < remaining - int (length (rs_data r))" by auto
  moreover have "copy_capped (remaining - int (length (rs_data r))) (r' # rs) = (body_bytes (r' # rs), CopyOk)"
    using "3.IH" [OF ok(1) l] .
  ultimately show ?case
    using ok fit unfolding copy_capped.simps(2) [of remaining r] by (simp add: Let_def body_bytes_def)
qed

fun bytes_until_eof :: "read_step list \<Rightarrow> string" where
  "bytes_until_eof [] = []"
| "bytes_until_eof (r # rs) = rs_data r @ (if rs_err r = ReadOk then bytes_until_eof rs else [])"

lemma copy_capped_ok:
  "copy_capped remaining rs = (out, CopyOk) \<Longrightarrow> out = bytes_until_eof rs"
proof (induction remaining rs arbitrary: out rule: copy_capped.induct)
  case (1 remaining)
  then show ?case by (auto split: if_splits)
next
  case (2 remaining r rs)
  let ?got = "take (nat remaining) (rs_data r)"
  from "2.prems" have pos: "0 < remaining" by (auto split: if_splits)
  have fit: "length ?got = length (rs_data r)"
    using "2.prems" pos by (rule_tac ccontr) (auto simp: Let_def split: if_splits prod.splits)
  then have got: "?got = rs_data r" by simp
  have sink: "rs_sink_ok r \<or> ?got = []"
    using "2.prems" pos by (auto simp: Let_def split: if_splits)
  show ?case
  proof (cases "rs_err r")
    case ReadOk
    obtain o' e where rec: "copy_capped (remaining - int (length ?got)) rs = (o', e)" by fastforce
    have "e = CopyOk" "out = ?got @ o'" "0 < remaining - int (length ?got)"
      using "2.prems" pos fit sink ReadOk rec by (auto simp: Let_def split: if_splits)
    with "2.IH" [of "?got" "length ?got = length (rs_data r)" "remaining - int (length ?got)" ReadOk o']
    show ?thesis using pos fit sink ReadOk rec got by auto
  next
    case ReadEOF
    then show ?thesis using "2.prems" pos fit sink by (auto simp: Let_def split: if_splits)
  next
    case ReadFailed
    then show ?thesis using "2.prems" pos fit sink by (auto simp: Let_def split: if_splits)
  qed
qed

lemma http_download_shape:
  assumes "http_download L ok raw pol max_bytes hops reply = (out, code, reason)"
  shows "(out = [] \<and> code \<noteq> ErrNone) \<or>
    (0 \<le> max_redirects pol \<and> (\<exists>c. check_url L raw pol = Inr c) \<and> 0 < max_bytes \<and>
     follow_hops L pol 1 hops = None \<and>
     (\<exists>body err. reply = Reply 200 body \<and> copy_capped (int64 (max_bytes + 1)) body = (out, err) \<and>
        (code = ErrNone \<longrightarrow> err = CopyOk \<and> int (length out) \<le> max_bytes)))"
proof (cases "check_url L raw pol")
  case (Inl e)
  then show ?thesis
    using assms check_url_code [OF Inl] by (auto simp: http_download_def split: if_splits)
next
  case (Inr c)
  show ?thesis
  proof (cases "0 \<le> max_redirects pol \<and> 0 < max_bytes \<and> ok raw \<and> follow_hops L pol 1 hops = None")
    case False
    then show ?thesis
      using assms Inr by (auto simp: http_download_def split: if_splits option.splits)
  next
    case True
    show ?thesis
    proof (cases reply)
      case TransportError
      then show ?thesis using assms Inr True by (auto simp: http_download_def)
    next
      case (Reply st body)
      obtain o' e where "copy_capped (int64 (max_bytes + 1)) body = (o', e)" by fastforce
      then show ?thesis
        using assms Inr True Reply
        by (cases e) (auto simp: http_download_def Let_def split: if_splits)
    qed
  qed
qed

definition sample_url_lib :: url_lib where
  "sample_url_lib =
     \<lparr>lib_parse = (\<lambda>s. if s = ''https://GitHub.com/a.exe''
        then Some \<lparr>pu_scheme = ''https'', pu_has_user = False, pu_opaque = [],
                   pu_host = ''GitHub.com:443'', pu_path = ''/a.exe''\<rparr> else None),
      lib_is_ip = (\<lambda>s. False)\<rparr>"

definition sample_url_policy :: url_policy where
  "sample_url_policy = \<lparr>allowed_hosts = ['' github.com''], max_redirects = 1\<rparr>"

section \<open>Properties\<close>

text \<open>
  Fact: a URL the policy accepts is https without userinfo or opaque part, its host is a
  non-empty ASCII name in lower case that is not an IP literal (nor an all-numeric host) and is
  an entry of the allowlist up to case, and its port is absent or 443; every refusal carries
  POLICY_URL_REJECTED.  This holds for any URL parser.
\<close>

theorem check_url_safe:
  assumes "check_url L raw pol = r"
  shows "(case r of
      Inl e \<Rightarrow> fst e = ErrURLRejected
    | Inr c \<Rightarrow> (\<exists>u. lib_parse L (trim_space raw) = Some u \<and> equal_fold (pu_scheme u) ''https'' \<and>
        \<not> pu_has_user u \<and> pu_opaque u = [] \<and> cu_scheme c = ''https'' \<and>
        cu_host c = to_lower (url_hostname u) \<and> cu_host c \<noteq> [] \<and> is_ascii (url_hostname u) \<and>
        \<not> lib_is_ip L (cu_host c) \<and> \<not> numeric_host False (cu_host c) \<and>
        (\<exists>h \<in> set (allowed_hosts pol). equal_fold (trim_space h) (cu_host c)) \<and>
        cu_port c \<in> {[], ''443''}))"
proof (cases r)
  case (Inl e)
  then show ?thesis using assms check_url_code by auto
next
  case (Inr c)
  then show ?thesis
    using check_url_Inr [of L raw pol c] assms
    by (auto simp: is_forbidden_ip_literal_host_def host_allowed_def list_ex_iff split: if_splits)
qed

theorem check_url_safe_witness:
  "\<exists>c. check_url sample_url_lib ''https://GitHub.com/a.exe'' sample_url_policy = Inr c \<and>
     cu_host c = ''github.com'' \<and> cu_port c \<in> {[], ''443''}"
proof -
  let ?r = "check_url sample_url_lib ''https://GitHub.com/a.exe'' sample_url_policy"
  have r: "?r = Inr \<lparr>cu_scheme = ''https'', cu_host = ''github.com'', cu_port = ''443'',
      cu_path = ''/a.exe'', cu_raw = ''https://GitHub.com/a.exe''\<rparr>"
    by code_simp
  then show ?thesis using check_url_safe [OF r] by auto
qed

text \<open>
  Fact: for a non-negative cap the guard the HTTP client runs on every redirect hop lets
  a chain through exactly when \<open>CheckRedirectChain\<close> accepts the same chain, the hop count
  included.
\<close>

theorem redirect_guard_equiv_chain:
  assumes "0 \<le> max_redirects pol"
  shows "((\<exists>c. check_url L initial pol = Inr c) \<and> follow_hops L pol 1 hops = None) =
         (fst (check_redirect_chain L initial hops pol) = ErrNone)"
proof (cases "check_url L initial pol")
  case (Inl e)
  then show ?thesis
    using check_url_code [of L initial pol e] by (auto simp: check_redirect_chain_def)
next
  case (Inr c)
  then show ?thesis
    using assms by (auto simp: check_redirect_chain_def follow_hops_None check_hops_iff)
qed

theorem redirect_guard_equiv_chain_witness:
  "fst (check_redirect_chain sample_url_lib ''https://GitHub.com/a.exe''
      [''https://GitHub.com/a.exe''] sample_url_policy) = ErrNone \<and>
   follow_hops sample_url_lib sample_url_policy 1 [''https://GitHub.com/a.exe''] = None"
proof -
  have h: "0 \<le> max_redirects sample_url_policy" by (simp add: sample_url_policy_def)
  have "follow_hops sample_url_lib sample_url_policy 1 [''https://GitHub.com/a.exe''] = None"
    by code_simp
  moreover have "fst (check_redirect_chain sample_url_lib ''https://GitHub.com/a.exe''
      [''https://GitHub.com/a.exe''] sample_url_policy) = ErrNone"
    by code_simp
  ultimately show ?thesis
    using redirect_guard_equiv_chain [OF h, of sample_url_lib "''https://GitHub.com/a.exe''"
        "[''https://GitHub.com/a.exe'']"] by blast
qed

text \<open>
  Fact: a download reports success only for a 200 reply whose URL and every redirect hop
  passed the policy, with the whole body (up to its end of file) written and no more than the
  byte cap; the bytes written never exceed the cap by more than the one sentinel byte.
\<close>

theorem http_download_sound:
  assumes "http_download L ok raw pol max_bytes hops reply = (out, code, reason)"
    and "- (2 ^ 63) \<le> max_bytes" and "max_bytes < 2 ^ 63"
  shows "int (length out) \<le> max 0 (max_bytes + 1) \<and>
    (code = ErrNone \<longrightarrow>
       int (length out) \<le> max_bytes \<and> fst (check_redirect_chain L raw hops pol) = ErrNone \<and>
       (\<exists>body. reply = Reply 200 body \<and> out = bytes_until_eof body))"
proof -
  have cap: "int (length (fst (copy_capped (int64 (max_bytes + 1)) body))) \<le> max_bytes + 1"
    if "0 < max_bytes" for body
  proof (cases "max_bytes + 1 = 2 ^ 63")
    case True
    then have "int64 (max_bytes + 1) \<le> 0" by (simp add: int64_def)
    then have "fst (copy_capped (int64 (max_bytes + 1)) body) = []" by (cases body) simp_all
    then show ?thesis using that by simp
  next
    case False
    then have "int64 (max_bytes + 1) = max_bytes + 1" using assms that by (intro int64_id) auto
    then show ?thesis using copy_capped_bound [of "max_bytes + 1" body] that by simp
  qed
  have chain: "fst (check_redirect_chain L raw hops pol) = ErrNone"
    if "0 \<le> max_redirects pol" "check_url L raw pol = Inr c" "follow_hops L pol 1 hops = None" for c
    using that by (auto simp: check_redirect_chain_def follow_hops_None check_hops_iff)
  from http_download_shape [OF assms(1)] show ?thesis
  proof (elim disjE conjE exE)
    fix c body err
    assume h: "0 \<le> max_redirects pol" "check_url L raw pol = Inr c" "0 < max_bytes"
      "follow_hops L pol 1 hops = None" "reply = Reply 200 body"
      "copy_capped (int64 (max_bytes + 1)) body = (out, err)"
      "code = ErrNone \<longrightarrow> err = CopyOk \<and> int (length out) \<le> max_bytes"
    have "int (length out) \<le> max_bytes + 1" using cap [OF h(3), of body] h(6) by simp
    moreover have "code = ErrNone \<Longrightarrow> out = bytes_until_eof body" using h copy_capped_ok by blast
    ultimately show ?thesis using h chain [OF h(1,2,4)] by auto
  qed auto
qed

theorem http_download_sound_witness:
  "http_download sample_url_lib (\<lambda>_. True) ''https://GitHub.com/a.exe'' sample_url_policy 3 []
     (Reply 200 [\<lparr>rs_data = ''ab'', rs_err = ReadOk, rs_sink_ok = True\<rparr>,
                 \<lparr>rs_data = ''c'', rs_err = ReadEOF, rs_sink_ok = True\<rparr>]) = (''abc'', accept) \<and>
   int (length ''abc'') \<le> 3"
proof -
  let ?body = "[\<lparr>rs_data = ''ab'', rs_err = ReadOk, rs_sink_ok = True\<rparr>,
                \<lparr>rs_data = ''c'', rs_err = ReadEOF, rs_sink_ok = True\<rparr>]"
  have r: "http_download sample_url_lib (\<lambda>_. True) ''https://GitHub.com/a.exe'' sample_url_policy 3 []
      (Reply 200 ?body) = (''abc'', ErrNone, [])"
    by code_simp
  show ?thesis using http_download_sound [OF r] r by simp
qed

end
