(* ===== verification/HashFile.thy ===== *)
theory HashFile
  imports World UrlPolicy
begin

text \<open>
  \<open>internal/selfupdate/hash.go\<close>: hashing a candidate binary under a byte limit, and the
  comparison of two hashes.  SHA-256 with hex encoding is the parameter \<open>sha\<close>; what is relied on
  (64 hex digits) is the named hypothesis \<open>sha_ok\<close>.  \<open>maxBytes\<close> is an int64, so the reader's
  limit \<open>maxBytes + 1\<close> wraps around.
\<close>

definition default_max_update_bytes :: int where
  "default_max_update_bytes = 250 * 1024 * 1024"

record hash_result =
  hr_sha :: string
  hr_bytes :: int

definition no_hash :: hash_result where
  "no_hash = \<lparr>hr_sha = [], hr_bytes = 0\<rparr>"

text \<open>\<open>read_ok\<close>: the reader delivers its bytes without an error.\<close>

definition hash_reader_with_limit ::
    "(string \<Rightarrow> string) \<Rightarrow> bool \<Rightarrow> string \<Rightarrow> int \<Rightarrow> hash_result \<times> refusal" where
  "hash_reader_with_limit sha read_ok content max0 =
    (let max_bytes = (if max0 \<le> 0 then default_max_update_bytes else max0);
         got = take (nat (int64 (max_bytes + 1))) content;
         n = int (length got) in
     if \<not> read_ok then (no_hash, ErrDownloadFailed, ''read candidate binary failed'')
     else if max_bytes < n
     then (no_hash\<lparr>hr_bytes := n\<rparr>, ErrDownloadTooLarge, ''candidate binary exceeded maxBytes'')
     else (\<lparr>hr_sha = sha got, hr_bytes = n\<rparr>, accept))"

text \<open>Open fails if the file is not there; a fault of the read is a failing reader.\<close>

definition hash_file_with_limit ::
    "(string \<Rightarrow> string) \<Rightarrow> string \<Rightarrow> int \<Rightarrow> world \<Rightarrow> (refusal + hash_result) \<times> world" where
  "hash_file_with_limit sha path max_bytes =
    io_or (ErrStagingIO, ''open binary for verification failed'') (os_stat path) (\<lambda>_ w.
      let (r, w') = os_read_file path w;
          (h, code, reason) =
            (case r of Inr b \<Rightarrow> hash_reader_with_limit sha True b max_bytes
                     | Inl _ \<Rightarrow> hash_reader_with_limit sha False [] max_bytes) in
      if code \<noteq> ErrNone then (Inl (code, reason), w') else (Inr h, w'))"

definition is_sha256_hex :: "string \<Rightarrow> bool" where
  "is_sha256_hex s \<longleftrightarrow> length s = 64 \<and> list_all is_hex s"

definition verify_sha256_equal :: "string \<Rightarrow> string \<Rightarrow> refusal" where
  "verify_sha256_equal actual expected =
    (let a = to_lower (trim_space actual); e = to_lower (trim_space expected) in
     if \<not> is_sha256_hex a \<or> \<not> is_sha256_hex e then (ErrHashMismatch, ''sha256 must be 64 hex characters'')
     else if a \<noteq> e then (ErrHashMismatch, ''sha256 mismatch'')
     else accept)"

text \<open>What \<open>hex.EncodeToString\<close> of a SHA-256 sum looks like.\<close>

definition sha_ok :: "(string \<Rightarrow> string) \<Rightarrow> bool" where
  "sha_ok sha \<longleftrightarrow> (\<forall>b. is_sha256_hex (sha b) \<and> to_lower (sha b) = sha b)"

section \<open>Facts\<close>

lemma sha256_hex_trim: "is_sha256_hex s \<Longrightarrow> trim_space s = s"
  by (rule trim_space_plain) (auto simp: is_sha256_hex_def list_all_iff is_hex_plain)

lemma is_hex_lower_char: "is_hex c \<Longrightarrow> is_hex (lower_char c)"
proof -
  have "list_all (\<lambda>c. is_hex c \<longrightarrow> is_hex (lower_char c)) (map char_of [0 ..< (256::nat)])" by code_simp
  then show "is_hex c \<Longrightarrow> is_hex (lower_char c)" using all_chars [of "\<lambda>c. is_hex c \<longrightarrow> is_hex (lower_char c)"] by blast
qed

lemma is_sha256_hex_lower: "is_sha256_hex s \<Longrightarrow> is_sha256_hex (to_lower s)"
  by (auto simp: is_sha256_hex_def to_lower_def list_all_iff is_hex_lower_char)

lemma verify_sha256_accept:
  "fst (verify_sha256_equal a e) = ErrNone \<longleftrightarrow>
     is_sha256_hex (to_lower (trim_space a)) \<and> to_lower (trim_space a) = to_lower (trim_space e)"
  by (auto simp: verify_sha256_equal_def Let_def)

lemma touches_hash_file [frame]: "touches S (hash_file_with_limit sha p max_bytes)"
proof -
  have "touches S (\<lambda>w. let (r, w') = os_read_file p w;
          (h, code, reason) =
            (case r of Inr b \<Rightarrow> hash_reader_with_limit sha True b max_bytes
                     | Inl _ \<Rightarrow> hash_reader_with_limit sha False [] max_bytes) in
      if code \<noteq> ErrNone then (Inl (code, reason), w') else (Inr h, w'))"
    unfolding touches_def
  proof
    fix w
    obtain r w' where r: "os_read_file p w = (r, w')" by fastforce
    then have "only S w w'" by (rule touchesD [OF touches_calls(1)])
    then show "only S w (snd (let (r, w') = os_read_file p w;
          (h, code, reason) =
            (case r of Inr b \<Rightarrow> hash_reader_with_limit sha True b max_bytes
                     | Inl _ \<Rightarrow> hash_reader_with_limit sha False [] max_bytes) in
      if code \<noteq> ErrNone then (Inl (code, reason), w') else (Inr h, w')))"
      by (auto simp: r split: prod.splits)
  qed
  then show ?thesis unfolding hash_file_with_limit_def by (intro frame)
qed

lemma hash_reader_accept:
  assumes "hash_reader_with_limit sha ok b max0 = (h, ErrNone, r)" and "max0 < 2 ^ 63 - 1"
  shows "ok" and "hr_sha h = sha b" and "hr_bytes h = int (length b)"
    and "int (length b) \<le> (if max0 \<le> 0 then default_max_update_bytes else max0)"
proof -
  let ?m = "if max0 \<le> 0 then default_max_update_bytes else max0"
  have i: "int64 (?m + 1) = ?m + 1"
    using assms(2) by (intro int64_id) (auto simp: default_max_update_bytes_def)
  have m: "0 < ?m" by (auto simp: default_max_update_bytes_def)
  have ok: "ok" and le: "\<not> ?m < int (length (take (nat (int64 (?m + 1))) b))"
    and h: "h = \<lparr>hr_sha = sha (take (nat (int64 (?m + 1))) b),
                hr_bytes = int (length (take (nat (int64 (?m + 1))) b))\<rparr>"
    using assms(1) unfolding hash_reader_with_limit_def Let_def by (auto split: if_splits)
  have le': "int (length b) \<le> ?m" using le m unfolding i by (simp add: min_def split: if_splits)
  then have "take (nat (int64 (?m + 1))) b = b" unfolding i using m by simp
  then show "ok" "hr_sha h = sha b" "hr_bytes h = int (length b)" "int (length b) \<le> ?m"
    using ok h le' by simp_all
qed

lemma hash_file_Inr:
  assumes "hash_file_with_limit sha p max_bytes w = (Inr h, w')" and "max_bytes < 2 ^ 63 - 1"
  shows "\<exists>b. file_bytes w p = Some b \<and> hr_sha h = sha b \<and> hr_bytes h = int (length b) \<and>
    int (length b) \<le> (if max_bytes \<le> 0 then default_max_update_bytes else max_bytes)"
proof -
  obtain n w1 where st: "os_stat p w = (Inr n, w1)"
    using assms(1) by (auto simp: hash_file_with_limit_def io_success)
  have nd: "w_node w1 = w_node w" using touchesD [OF touches_calls(3) st, of "{}"] by (auto simp: only_def)
  obtain r w2 where rd: "os_read_file p w1 = (r, w2)" by fastforce
  obtain b where b: "r = Inr b"
  proof (cases r)
    case (Inl e)
    have "fst (snd (hash_reader_with_limit sha False [] max_bytes)) \<noteq> ErrNone"
      by (simp add: hash_reader_with_limit_def Let_def)
    then show ?thesis
      using assms(1) st rd Inl
      by (auto simp: hash_file_with_limit_def io_success Let_def split: prod.splits if_splits)
  qed blast
  have "file_bytes w p = Some b" using os_read_file_Inr [of p w1 b w2] rd b nd by (simp add: file_bytes_def)
  moreover have "\<exists>reason. hash_reader_with_limit sha True b max_bytes = (h, ErrNone, reason)"
    using assms(1) st rd b
    by (auto simp: hash_file_with_limit_def io_success Let_def split: prod.splits if_splits)
  ultimately obtain reason where f: "file_bytes w p = Some b"
    and h: "hash_reader_with_limit sha True b max_bytes = (h, ErrNone, reason)" by blast
  show ?thesis
    using f hash_reader_accept(2-4) [OF h assms(2)] by (intro exI [of _ b] conjI)
qed

section \<open>Properties\<close>

text \<open>
  Fact: two hashes are accepted as equal exactly when, trimmed and in lower case, they are
  the same string of 64 hex digits; anything else is HASH_MISMATCH.
\<close>

theorem verify_sha256_exact:
  "verify_sha256_equal a e = accept \<longleftrightarrow>
     to_lower (trim_space a) = to_lower (trim_space e) \<and>
     length (to_lower (trim_space a)) = 64 \<and> list_all is_hex (to_lower (trim_space a))"
  by (auto simp: verify_sha256_equal_def Let_def is_sha256_hex_def)

text \<open>
  Fact: below the largest int64, the limited hash of a readable file of n bytes is the
  hash of all its bytes if n is within the limit (250 MiB when none is given) and
  DOWNLOAD_TOO_LARGE otherwise: an oversize file is never truncated and accepted.
\<close>

theorem hash_reader_limit_exact:
  assumes "max0 < 2 ^ 63 - 1"
  shows "(let m = (if max0 \<le> 0 then default_max_update_bytes else max0);
             (h, code, reason) = hash_reader_with_limit sha True b max0 in
          if int (length b) \<le> m then code = ErrNone \<and> hr_sha h = sha b \<and> hr_bytes h = int (length b)
          else code = ErrDownloadTooLarge \<and> hr_sha h = [])"
proof -
  let ?m = "if max0 \<le> 0 then default_max_update_bytes else max0"
  have i: "int64 (?m + 1) = ?m + 1"
    using assms by (intro int64_id) (auto simp: default_max_update_bytes_def)
  have m: "0 < ?m" by (auto simp: default_max_update_bytes_def)
  show ?thesis
  proof (cases "int (length b) \<le> ?m")
    case True
    then have "take (nat (int64 (?m + 1))) b = b" unfolding i using m by simp
    then show ?thesis using True unfolding hash_reader_with_limit_def Let_def by simp
  next
    case False
    then have "int (length (take (nat (int64 (?m + 1))) b)) = ?m + 1" unfolding i using m by auto
    then show ?thesis using False unfolding hash_reader_with_limit_def Let_def by (simp add: no_hash_def)
  qed
qed

theorem hash_reader_limit_exact_witness:
  "fst (snd (hash_reader_with_limit (\<lambda>b. b) True ''abcd'' 3)) = ErrDownloadTooLarge"
  using hash_reader_limit_exact [of 3 "\<lambda>b. b" "''abcd''"] by (simp add: Let_def split: prod.splits)

text \<open>
  Fact: at the largest int64 the limit \<open>maxBytes + 1\<close> wraps to a negative number, the
  limited reader delivers nothing, and every file is hashed as if it were empty.
\<close>

theorem hash_reader_limit_wraps:
  "hash_reader_with_limit sha True b (2 ^ 63 - 1) = (\<lparr>hr_sha = sha [], hr_bytes = 0\<rparr>, accept)"
proof -
  have "int64 (2 ^ 63 - 1 + 1) = - (2 ^ 63)" by (simp add: int64_def)
  then have "nat (int64 (2 ^ 63 - 1 + 1)) = 0" by simp
  then show ?thesis unfolding hash_reader_with_limit_def Let_def by simp
qed

end
