(* ===== verification/Version.thy ===== *)
theory Version
  imports Contract
begin

text \<open>
  \<open>internal/selfupdate/version.go\<close>: the agent's own SemVer 2.0.0 parser and comparator, and
  the version policy (no downgrade, no replay below the activated high-water mark) that rests
  on them.  The comparator is shown to be the comparison of a key in a linear order, so it is
  total, transitive and antisymmetric; the interface \<open>comparator\<close> states these laws and is
  interpreted on each of the code's three comparators.
\<close>

section \<open>Versions\<close>

record version =
  Major :: u64
  Minor :: u64
  Patch :: u64
  Prerelease :: "string list" \<comment> \<open>empty: a release\<close>
  Build :: string
  Raw :: string

definition is_release :: "version \<Rightarrow> bool" where
  "is_release v \<longleftrightarrow> length (Prerelease v) = 0"

section \<open>Parsing\<close>

definition valid_numeric_core :: "string \<Rightarrow> bool" where
  "valid_numeric_core p \<longleftrightarrow>
     p \<noteq> [] \<and> list_all is_digit p \<and> (length p = 1 \<or> hd p \<noteq> CHR ''0'')"

definition ident_char :: "char \<Rightarrow> bool" where
  "ident_char c \<longleftrightarrow> is_digit c \<or> is_lower c \<or> is_upper c \<or> c = CHR ''-''"

text \<open>One turn of the loop over the identifiers; \<open>build\<close> lifts the leading-zero rule.\<close>

definition valid_ident :: "bool \<Rightarrow> string \<Rightarrow> bool" where
  "valid_ident build i \<longleftrightarrow>
     i \<noteq> [] \<and> list_all ident_char i \<and>
     \<not> (\<not> build \<and> list_all is_digit i \<and> 1 < length i \<and> hd i = CHR ''0'')"

definition valid_dot_separated :: "string \<Rightarrow> bool \<Rightarrow> bool" where
  "valid_dot_separated s build \<longleftrightarrow> s \<noteq> [] \<and> list_all (valid_ident build) (split_on CHR ''.'' s)"

definition parse_core_field :: "string \<Rightarrow> u64 option" where
  "parse_core_field p = (if valid_numeric_core p then parse_uint64 p else None)"

fun parse_core :: "string list \<Rightarrow> (u64 \<times> u64 \<times> u64) option" where
  "parse_core [a, b, c] =
     (case parse_core_field a of None \<Rightarrow> None | Some x \<Rightarrow>
       (case parse_core_field b of None \<Rightarrow> None | Some y \<Rightarrow>
         (case parse_core_field c of None \<Rightarrow> None | Some z \<Rightarrow> Some (x, y, z))))"
| "parse_core _ = None"

definition strip_v :: "string \<Rightarrow> string" where
  "strip_v s = (case s of c # t \<Rightarrow> if c = CHR ''v'' \<or> c = CHR ''V'' then t else s | [] \<Rightarrow> [])"

definition has_byte :: "char \<Rightarrow> string \<Rightarrow> bool" where
  "has_byte c s = list_ex (\<lambda>x. x = c) s"

definition parse_version :: "string \<Rightarrow> version option" where
  "parse_version raw =
    (let s0 = trim_space raw in
     if s0 = [] then None else
     let s1 = strip_v s0;
         has_build = has_byte CHR ''+'' s1;
         build = (if has_build then after_byte CHR ''+'' s1 else []);
         s2 = before_byte CHR ''+'' s1 in
     if has_build \<and> \<not> valid_dot_separated build True then None else
     let has_pre = has_byte CHR ''-'' s2;
         pre_str = after_byte CHR ''-'' s2;
         s3 = before_byte CHR ''-'' s2 in
     if has_pre \<and> \<not> valid_dot_separated pre_str False then None else
     case parse_core (split_on CHR ''.'' s3) of
       None \<Rightarrow> None
     | Some (x, y, z) \<Rightarrow>
         Some \<lparr>Major = x, Minor = y, Patch = z,
               Prerelease = (if has_pre then split_on CHR ''.'' pre_str else []),
               Build = build, Raw = raw\<rparr>)"

section \<open>Precedence\<close>

definition cmp_uint :: "u64 \<Rightarrow> u64 \<Rightarrow> int" where
  "cmp_uint a b = (if a < b then -1 else if b < a then 1 else 0)"

definition cmp_int :: "nat \<Rightarrow> nat \<Rightarrow> int" where \<comment> \<open>of two lengths\<close>
  "cmp_int a b = (if a < b then -1 else if b < a then 1 else 0)"

definition strings_compare :: "string \<Rightarrow> string \<Rightarrow> int" where \<comment> \<open>bytewise\<close>
  "strings_compare a b = (if a < b then -1 else if b < a then 1 else 0)"

definition is_numeric_ident :: "string \<Rightarrow> bool" where
  "is_numeric_ident i \<longleftrightarrow> i \<noteq> [] \<and> list_all is_digit i"

definition compare_numeric_ident :: "string \<Rightarrow> string \<Rightarrow> int" where
  "compare_numeric_ident a b =
     (if length a \<noteq> length b then cmp_int (length a) (length b) else strings_compare a b)"

definition compare_ident :: "string \<Rightarrow> string \<Rightarrow> int" where
  "compare_ident a b =
     (if is_numeric_ident a \<and> is_numeric_ident b then compare_numeric_ident a b
      else if is_numeric_ident a then -1
      else if is_numeric_ident b then 1
      else strings_compare a b)"

text \<open>The loop over the shared positions, then "more fields wins".\<close>

fun compare_idents :: "string list \<Rightarrow> string list \<Rightarrow> int" where
  "compare_idents (a # as) (b # bs) =
     (let c = compare_ident a b in if c \<noteq> 0 then c else compare_idents as bs)"
| "compare_idents as bs = cmp_int (length as) (length bs)"

definition compare_prerelease :: "string list \<Rightarrow> string list \<Rightarrow> int" where
  "compare_prerelease a b =
     (if length a = 0 \<and> length b = 0 then 0
      else if length a = 0 then 1
      else if length b = 0 then -1
      else compare_idents a b)"

definition compare_version :: "version \<Rightarrow> version \<Rightarrow> int" where
  "compare_version a b =
    (let c = cmp_uint (Major a) (Major b) in if c \<noteq> 0 then c else
     let c = cmp_uint (Minor a) (Minor b) in if c \<noteq> 0 then c else
     let c = cmp_uint (Patch a) (Patch b) in if c \<noteq> 0 then c else
     compare_prerelease (Prerelease a) (Prerelease b))"

section \<open>The comparator interface\<close>

text \<open>
  What the version policy relies on: a three-way comparison that is antisymmetric in sign and
  transitive.  Equal elements need not be identical (build metadata is ignored).
\<close>

locale comparator =
  fixes comp :: "'a \<Rightarrow> 'a \<Rightarrow> int"
  assumes comp_flip: "comp b a = - comp a b"
    and comp_trans: "comp a b \<le> 0 \<Longrightarrow> comp b c \<le> 0 \<Longrightarrow> comp a c \<le> 0"
    and comp_unit: "comp a b \<in> {-1, 0, 1}"
begin

lemma comp_refl: "comp a a = 0"
  using comp_flip [of a a] by simp

lemma comp_less_trans: "comp a b < 0 \<Longrightarrow> comp b c \<le> 0 \<Longrightarrow> comp a c < 0"
proof -
  assume "comp a b < 0" "comp b c \<le> 0"
  then have "comp a c \<le> 0" using comp_trans [of a b c] by simp
  moreover have "comp a c \<noteq> 0"
  proof
    assume "comp a c = 0"
    then have "comp c a \<le> 0" using comp_flip [of c a] by simp
    then have "comp b a \<le> 0" using \<open>comp b c \<le> 0\<close> comp_trans by blast
    then show False using \<open>comp a b < 0\<close> comp_flip [of a b] by simp
  qed
  ultimately show ?thesis by simp
qed

lemma comp_le_less_trans: "comp a b \<le> 0 \<Longrightarrow> comp b c < 0 \<Longrightarrow> comp a c < 0"
proof -
  assume h: "comp a b \<le> 0" "comp b c < 0"
  then have "comp a c \<le> 0" using comp_trans [of a b c] by simp
  moreover have "comp a c \<noteq> 0"
  proof
    assume "comp a c = 0"
    then have "comp c a \<le> 0" using comp_flip [of c a] by simp
    then have "comp c b \<le> 0" using h comp_trans by blast
    then show False using h comp_flip [of b c] by simp
  qed
  ultimately show ?thesis by simp
qed

lemma comp_asym: "comp a b < 0 \<Longrightarrow> \<not> comp b a < 0"
  using comp_flip [of a b] by simp

lemma comp_total: "comp a b < 0 \<or> comp a b = 0 \<or> comp b a < 0"
  using comp_flip [of a b] by auto

lemma comp_cong: "comp a b = 0 \<Longrightarrow> comp a c = comp b c"
proof -
  assume e: "comp a b = 0"
  then have e': "comp b a = 0" using comp_flip [of a b] by simp
  have "comp a c < 0 \<longleftrightarrow> comp b c < 0"
    using comp_le_less_trans [of a b c] comp_le_less_trans [of b a c] e e' by auto
  moreover have "comp c a < 0 \<longleftrightarrow> comp c b < 0"
    using comp_less_trans [of c a b] comp_less_trans [of c b a] e e' by auto
  ultimately show ?thesis
    using comp_unit [of a c] comp_unit [of b c] comp_flip [of a c] comp_flip [of b c] by auto
qed

end

text \<open>A comparison through a key into a linear order meets the contract.\<close>

locale key_comparator =
  fixes comp :: "'a \<Rightarrow> 'a \<Rightarrow> int" and key :: "'a \<Rightarrow> 'k::linorder"
  assumes comp_key: "comp a b = cmp (key a) (key b)"

sublocale key_comparator \<subseteq> comparator
  by unfold_locales (use cmp_flip cmp_range in \<open>auto simp: comp_key cmp_nonpos\<close>)

subsection \<open>The code's comparators\<close>

definition ident_key :: "string \<Rightarrow> nat \<times> nat \<times> string" where
  "ident_key i = (if is_numeric_ident i then (0, length i, i) else (1, 0, i))"

definition prerelease_key :: "string list \<Rightarrow> nat \<times> (nat \<times> nat \<times> string) list" where
  "prerelease_key p = (if p = [] then 1 else 0, map ident_key p)"

definition version_key ::
    "version \<Rightarrow> u64 \<times> u64 \<times> u64 \<times> nat \<times> (nat \<times> nat \<times> string) list" where
  "version_key v = (Major v, Minor v, Patch v, prerelease_key (Prerelease v))"

lemma cmp_Pair: "cmp (a, b) (c, d) = (if cmp a c \<noteq> 0 then cmp a c else cmp b d)"
  by (auto simp: cmp_def)

lemma cmp_Cons: "cmp (a # as) (b # bs) = (if cmp a b \<noteq> 0 then cmp a b else cmp as bs)"
  by (auto simp: cmp_def)

lemma cmp_Nil: "cmp [] ys = (if ys = [] then 0 else -1)" "cmp xs [] = (if xs = [] then 0 else 1)"
  by (cases ys; simp add: cmp_def) (cases xs; simp add: cmp_def)

lemma cmp_uint_cmp: "cmp_uint a b = cmp a b"
  by (simp add: cmp_uint_def cmp_def)

lemma compare_ident_key: "compare_ident a b = cmp (ident_key a) (ident_key b)"
  by (auto simp: compare_ident_def compare_numeric_ident_def cmp_int_def strings_compare_def
      ident_key_def cmp_def)

lemma compare_idents_key:
  "compare_idents as bs = cmp (map ident_key as) (map ident_key bs)"
  by (induction as bs rule: compare_idents.induct)
    (auto simp: Let_def compare_ident_key cmp_Cons cmp_Nil cmp_int_def)

lemma compare_prerelease_key:
  "compare_prerelease a b = cmp (prerelease_key a) (prerelease_key b)"
  by (auto simp: compare_prerelease_def prerelease_key_def compare_idents_key cmp_Pair)
    (auto simp: cmp_def)

lemma compare_version_key: "compare_version a b = cmp (version_key a) (version_key b)"
  by (auto simp: compare_version_def version_key_def cmp_uint_cmp compare_prerelease_key cmp_Pair Let_def)

interpretation ident_cmp: key_comparator compare_ident ident_key
  by unfold_locales (rule compare_ident_key)

interpretation prerelease_cmp: key_comparator compare_prerelease prerelease_key
  by unfold_locales (rule compare_prerelease_key)

interpretation version_cmp: key_comparator compare_version version_key
  by unfold_locales (rule compare_version_key)

section \<open>The version policy\<close>

record version_decision =
  vd_allowed :: bool
  vd_noop :: bool
  vd_code :: error_code
  vd_reason :: string

definition refuse_version :: "error_code \<Rightarrow> string \<Rightarrow> version_decision" where
  "refuse_version c r = \<lparr>vd_allowed = False, vd_noop = False, vd_code = c, vd_reason = r\<rparr>"

text \<open>The part after the three versions have parsed; \<open>None\<close>: no high-water mark.\<close>

definition decide_version :: "version \<Rightarrow> version \<Rightarrow> version option \<Rightarrow> version_decision" where
  "decide_version cur tgt max_seen =
    (if compare_version tgt cur = 0 then
       (if (case max_seen of Some ms \<Rightarrow> compare_version tgt ms < 0 | None \<Rightarrow> False)
        then refuse_version ErrVersionReplay ''target < maxSeenVersion (anti-replay)''
        else \<lparr>vd_allowed = False, vd_noop = True, vd_code = ErrNone,
              vd_reason = ''target == current (already current)''\<rparr>)
     else if (case max_seen of Some ms \<Rightarrow> compare_version tgt ms \<le> 0 | None \<Rightarrow> False)
     then refuse_version ErrVersionReplay ''target <= maxSeenVersion (anti-replay)''
     else if compare_version tgt cur = -1
     then refuse_version ErrVersionDowngrade ''target < current (downgrade refused)''
     else \<lparr>vd_allowed = True, vd_noop = False, vd_code = ErrNone, vd_reason = ''target > current''\<rparr>)"

definition evaluate_version_policy :: "string \<Rightarrow> string \<Rightarrow> string \<Rightarrow> version_decision" where
  "evaluate_version_policy current target max_seen =
    (case parse_version current of
       None \<Rightarrow> refuse_version ErrVersionUnparseable ''current version is not parseable semver''
     | Some cur \<Rightarrow>
    (case parse_version target of
       None \<Rightarrow> refuse_version ErrVersionUnparseable ''target version is not parseable semver''
     | Some tgt \<Rightarrow>
       if \<not> blank max_seen then
         (case parse_version max_seen of
            None \<Rightarrow> refuse_version ErrVersionUnparseable ''maxSeen version is not parseable semver''
          | Some ms \<Rightarrow> decide_version cur tgt (Some ms))
       else decide_version cur tgt None))"

lemma decide_version_allowed:
  "vd_allowed (decide_version cur tgt ms) \<longleftrightarrow>
     0 < compare_version tgt cur \<and> (\<forall>m. ms = Some m \<longrightarrow> 0 < compare_version tgt m)"
  using version_cmp.comp_unit [of tgt cur]
  by (auto simp: decide_version_def refuse_version_def split: option.splits if_splits)

lemma decide_version_noop:
  "vd_noop (decide_version cur tgt ms) \<longleftrightarrow>
     compare_version tgt cur = 0 \<and> (\<forall>m. ms = Some m \<longrightarrow> 0 \<le> compare_version tgt m)"
  by (auto simp: decide_version_def refuse_version_def split: option.splits if_splits)

lemma decide_version_code:
  "vd_code (decide_version cur tgt ms) = ErrNone \<longleftrightarrow>
     vd_allowed (decide_version cur tgt ms) \<or> vd_noop (decide_version cur tgt ms)"
  by (auto simp: decide_version_def refuse_version_def split: option.splits)

lemma policy_code:
  "vd_code (evaluate_version_policy c t m) = ErrNone \<longleftrightarrow>
     vd_allowed (evaluate_version_policy c t m) \<or> vd_noop (evaluate_version_policy c t m)"
  by (auto simp: evaluate_version_policy_def refuse_version_def decide_version_code
      split: option.splits if_splits)

lemma policy_not_both:
  "vd_noop (evaluate_version_policy c t m) \<Longrightarrow> \<not> vd_allowed (evaluate_version_policy c t m)"
  by (auto simp: evaluate_version_policy_def refuse_version_def decide_version_allowed
      decide_version_noop split: option.splits if_splits)

section \<open>What the parser accepts\<close>

definition wf_version :: "version \<Rightarrow> bool" where
  "wf_version v \<longleftrightarrow> list_all (valid_ident False) (Prerelease v) \<and>
     (Build v = [] \<or> valid_dot_separated (Build v) True)"

definition render_version :: "version \<Rightarrow> string" where
  "render_version v =
     format_uint (Major v) @ ''.'' @ format_uint (Minor v) @ ''.'' @ format_uint (Patch v) @
     (if Prerelease v = [] then [] else CHR ''-'' # join_with CHR ''.'' (Prerelease v)) @
     (if Build v = [] then [] else CHR ''+'' # Build v)"

lemma parse_version_wf:
  assumes "parse_version raw = Some v"
  shows "wf_version v" and "Raw v = raw"
  using assms
  by (auto simp: parse_version_def wf_version_def valid_dot_separated_def Let_def
      split: if_splits option.splits prod.splits)

lemma has_byte_iff: "has_byte c s \<longleftrightarrow> c \<in> set s"
  by (auto simp: has_byte_def list_ex_iff)

lemma ident_char_plain: "ident_char c \<Longrightarrow> plain_char c \<and> c \<noteq> CHR ''+'' \<and> c \<noteq> CHR ''.''"
  by (auto simp: ident_char_def is_digit_byte is_lower_def is_upper_def plain_char_def char_le_byte)
    (simp_all add: byte_of_def)

lemma is_digit_ident: "is_digit c \<Longrightarrow> ident_char c \<and> c \<noteq> CHR ''-''"
  by (auto simp: ident_char_def is_digit_byte) (simp add: byte_of_def)

lemma format_uint_digits: "c \<in> set (format_uint w) \<Longrightarrow> is_digit c"
  using format_nat_digits [of "unat w"] by (auto simp: format_uint_def list_all_iff)

lemma format_uint_chars:
  "c \<in> set (format_uint w) \<Longrightarrow>
     plain_char c \<and> c \<noteq> CHR ''.'' \<and> c \<noteq> CHR ''-'' \<and> c \<noteq> CHR ''+''"
  using format_uint_digits [of c w] is_digit_ident [of c] ident_char_plain [of c] by blast

lemma parse_core_field_format: "parse_core_field (format_uint w) = Some w"
proof -
  have "valid_numeric_core (format_uint w)"
  proof (cases "unat w = 0")
    case True
    then show ?thesis by (simp add: format_uint_def valid_numeric_core_def format_nat_zero is_digit_def)
  next
    case False
    then show ?thesis
      using format_nat_hd [of "unat w"] format_nat_digits [of "unat w"]
      by (simp add: format_uint_def valid_numeric_core_def)
  qed
  then show ?thesis by (simp add: parse_core_field_def parse_format_uint)
qed

lemma join_chars:
  "c \<in> set (join_with d xs) \<Longrightarrow> c = d \<or> (\<exists>x \<in> set xs. c \<in> set x)"
  by (induction d xs rule: join_with.induct) auto

lemma valid_ident_chars: "valid_ident b i \<Longrightarrow> c \<in> set i \<Longrightarrow> ident_char c"
  by (auto simp: valid_ident_def list_all_iff)

lemma prerelease_chars:
  assumes "list_all (valid_ident False) xs" and "c \<in> set (join_with CHR ''.'' xs)"
  shows "plain_char c \<and> c \<noteq> CHR ''+''"
  using join_chars [OF assms(2)] assms(1) valid_ident_chars ident_char_plain
  by (fastforce simp: list_all_iff plain_char_def byte_of_def)

lemma dotted_chars:
  assumes "valid_dot_separated s b" and "c \<in> set s"
  shows "plain_char c"
proof -
  have "c \<in> set (join_with CHR ''.'' (split_on CHR ''.'' s))" using assms(2) by simp
  from join_chars [OF this] show ?thesis
    using assms(1) valid_ident_chars ident_char_plain
    by (fastforce simp: valid_dot_separated_def list_all_iff plain_char_def byte_of_def)
qed

lemma before_byte_none: "c \<notin> set s \<Longrightarrow> before_byte c s = s"
  by (induction s) (auto simp: before_byte_def)

lemma cut_optional:
  assumes "c \<notin> set a"
  shows "before_byte c (a @ (if e then [] else c # b)) = a"
    and "has_byte c (a @ (if e then [] else c # b)) \<longleftrightarrow> \<not> e"
    and "\<not> e \<Longrightarrow> after_byte c (a @ (if e then [] else c # b)) = b"
  using assms by (auto simp: before_byte_append before_byte_none after_byte_append has_byte_iff)

lemma join_pre_valid:
  assumes "list_all (valid_ident False) xs" and "xs \<noteq> []"
  shows "split_on CHR ''.'' (join_with CHR ''.'' xs) = xs"
    and "valid_dot_separated (join_with CHR ''.'' xs) False"
proof -
  show s: "split_on CHR ''.'' (join_with CHR ''.'' xs) = xs"
  proof (rule split_join [OF assms(2)])
    show "\<forall>x \<in> set xs. CHR ''.'' \<notin> set x"
      using assms(1) valid_ident_chars ident_char_plain by (fastforce simp: list_all_iff)
  qed
  have "join_with CHR ''.'' xs \<noteq> []"
    using assms by (cases xs; cases "tl xs") (auto simp: valid_ident_def neq_Nil_conv)
  then show "valid_dot_separated (join_with CHR ''.'' xs) False"
    using assms(1) s by (simp add: valid_dot_separated_def)
qed

lemma parse_core_formats:
  "parse_core (split_on CHR ''.''
     (format_uint a @ CHR ''.'' # format_uint b @ CHR ''.'' # format_uint c)) = Some (a, b, c)"
proof -
  have n: "CHR ''.'' \<notin> set (format_uint w)" for w
    using format_uint_chars by blast
  show ?thesis
    by (simp add: split_on_append split_on_no_sep n parse_core_field_format)
qed

lemma parse_render_version_rule:
  assumes wf: "wf_version v"
  shows "parse_version (render_version v) = Some (v\<lparr>Raw := render_version v\<rparr>)"
proof -
  let ?core = "format_uint (Major v) @ CHR ''.'' # format_uint (Minor v) @ CHR ''.'' # format_uint (Patch v)"
  let ?pre = "if Prerelease v = [] then [] else CHR ''-'' # join_with CHR ''.'' (Prerelease v)"
  let ?bld = "if Build v = [] then [] else CHR ''+'' # Build v"
  have r: "render_version v = (?core @ ?pre) @ ?bld" by (simp add: render_version_def)
  have core: "plain_char c \<and> c \<noteq> CHR ''+'' \<and> c \<noteq> CHR ''-''" if "c \<in> set ?core" for c
    using that format_uint_chars [of c] by (auto simp: plain_char_def byte_of_def)
  have pre: "plain_char c \<and> c \<noteq> CHR ''+''" if "c \<in> set ?pre" for c
    using that wf prerelease_chars [of "Prerelease v" c]
    by (auto simp: wf_version_def plain_char_def byte_of_def split: if_splits)
  have bld: "plain_char c" if "c \<in> set ?bld" for c
    using that wf dotted_chars [of "Build v" True c]
    by (auto simp: wf_version_def plain_char_def byte_of_def split: if_splits)
  have trim: "trim_space (render_version v) = render_version v"
  proof (rule trim_space_plain, unfold list_all_iff, intro ballI)
    fix c
    assume "c \<in> set (render_version v)"
    then have "c \<in> set ?core \<or> c \<in> set ?pre \<or> c \<in> set ?bld"
      unfolding r set_append by blast
    then show "plain_char c" using core pre bld by blast
  qed
  obtain d ds where d: "format_uint (Major v) = d # ds"
    by (metis format_nat_not_Nil format_uint_def neq_Nil_conv)
  then have "is_digit d" using format_uint_digits [of d "Major v"] by simp
  then have dv: "d \<noteq> CHR ''v'' \<and> d \<noteq> CHR ''V''"
    by (auto simp: is_digit_byte) (simp_all add: byte_of_def)
  have strip: "strip_v (render_version v) = render_version v"
    using d dv by (simp add: render_version_def strip_v_def)
  have plus: "CHR ''+'' \<notin> set (?core @ ?pre)"
  proof
    assume "CHR ''+'' \<in> set (?core @ ?pre)"
    then have "CHR ''+'' \<in> set ?core \<or> CHR ''+'' \<in> set ?pre" by (simp only: set_append Un_iff)
    then show False using core pre by blast
  qed
  have minus: "CHR ''-'' \<notin> set ?core" using core by blast
  have b1: "before_byte CHR ''+'' (render_version v) = ?core @ ?pre"
    unfolding r by (rule cut_optional(1) [OF plus])
  have b2: "has_byte CHR ''+'' (render_version v) \<longleftrightarrow> Build v \<noteq> []"
    unfolding r by (rule cut_optional(2) [OF plus])
  have b3: "Build v \<noteq> [] \<Longrightarrow> after_byte CHR ''+'' (render_version v) = Build v"
    unfolding r by (rule cut_optional(3) [OF plus])
  have m1: "before_byte CHR ''-'' (?core @ ?pre) = ?core"
    by (rule cut_optional(1) [OF minus])
  have m2: "has_byte CHR ''-'' (?core @ ?pre) \<longleftrightarrow> Prerelease v \<noteq> []"
    by (rule cut_optional(2) [OF minus])
  have m3: "Prerelease v \<noteq> [] \<Longrightarrow> after_byte CHR ''-'' (?core @ ?pre) = join_with CHR ''.'' (Prerelease v)"
    by (rule cut_optional(3) [OF minus])
  have ne: "render_version v \<noteq> []" using d by (simp add: render_version_def)
  have wfp: "list_all (valid_ident False) (Prerelease v)"
    and wfb: "Build v = [] \<or> valid_dot_separated (Build v) True"
    using wf by (simp_all add: wf_version_def)
  have g1: "\<not> (Build v \<noteq> [] \<and> \<not> valid_dot_separated (if Build v \<noteq> [] then after_byte CHR ''+'' (render_version v) else []) True)"
    using b3 wfb by auto
  have g2: "\<not> (Prerelease v \<noteq> [] \<and> \<not> valid_dot_separated (after_byte CHR ''-'' (?core @ ?pre)) False)"
    using m3 join_pre_valid [OF wfp] by auto
  have f1: "(if Build v \<noteq> [] then after_byte CHR ''+'' (render_version v) else []) = Build v"
    using b3 by simp
  have f2: "(if Prerelease v \<noteq> [] then split_on CHR ''.'' (after_byte CHR ''-'' (?core @ ?pre)) else []) = Prerelease v"
    using m3 join_pre_valid(1) [OF wfp] by simp
  show ?thesis
    unfolding parse_version_def Let_def trim strip b1 m1 b2 m2 parse_core_formats
    using wfb by (simp only: ne g1 g2 f1 f2 if_False option.case prod.case) auto
qed

text \<open>
  Fact: printing a well-formed version and parsing it back gives the same version: the
  parser loses nothing of what precedence and audit use.
\<close>

theorem parse_render_version:
  assumes "wf_version v"
  shows "parse_version (render_version v) = Some (v\<lparr>Raw := render_version v\<rparr>)"
  using assms by (rule parse_render_version_rule)

theorem parse_render_version_witness:
  "parse_version (render_version
     \<lparr>Major = 1, Minor = 20, Patch = 3, Prerelease = [''rc'', ''1''], Build = ''lab-7'', Raw = []\<rparr>) =
   Some \<lparr>Major = 1, Minor = 20, Patch = 3, Prerelease = [''rc'', ''1''], Build = ''lab-7'',
         Raw = ''1.20.3-rc.1+lab-7''\<rparr>"
proof -
  let ?v = "\<lparr>Major = 1, Minor = 20, Patch = 3, Prerelease = [''rc'', ''1''], Build = ''lab-7'', Raw = []\<rparr>"
  have "wf_version ?v" by code_simp
  moreover have "render_version ?v = ''1.20.3-rc.1+lab-7''"
    by (simp add: render_version_def format_uint_def format_nat.simps go_defs)
  ultimately show ?thesis using parse_render_version [of ?v] by simp
qed

section \<open>Precedence of numeric identifiers\<close>

lemma digits_val_Cons: "digits_val (c # s) = digit_val c * 10 ^ length s + digits_val s"
proof (induction s rule: rev_induct)
  case Nil
  then show ?case by (simp add: digits_val_def)
next
  case (snoc x s)
  have "digits_val (c # s @ [x]) = digits_val (c # s) * 10 + digit_val x"
    using digits_val_snoc [of "c # s" x] by simp
  with snoc show ?case by (simp add: digits_val_snoc algebra_simps)
qed

lemma digit_val_bound: "is_digit c \<Longrightarrow> digit_val c \<le> 9"
  by (auto simp: is_digit_byte digit_val_def)

lemma digits_val_bound: "list_all is_digit s \<Longrightarrow> digits_val s < 10 ^ length s"
proof (induction s)
  case Nil
  then show ?case by (simp add: digits_val_def)
next
  case (Cons c s)
  then have "digit_val c * 10 ^ length s \<le> 9 * 10 ^ length s"
    using digit_val_bound by (intro mult_right_mono) auto
  moreover have "digits_val s < 10 ^ length s" using Cons by simp
  ultimately show ?case unfolding digits_val_Cons length_Cons power_Suc by linarith
qed

lemma digits_less_iff:
  "length a = length b \<Longrightarrow> list_all is_digit a \<Longrightarrow> list_all is_digit b \<Longrightarrow>
     digits_val a < digits_val b \<longleftrightarrow> a < b"
proof (induction a b rule: list_induct2)
  case Nil
  then show ?case by simp
next
  case (Cons x xs y ys)
  have less: "digits_val (u # us) < digits_val (w # ws)"
    if "digit_val u < digit_val w" and "list_all is_digit us" and "length us = length ws" for u us w ws
  proof -
    have "digits_val (u # us) < (digit_val u + 1) * 10 ^ length us"
      using digits_val_bound [OF that(2)] by (simp add: digits_val_Cons)
    also have "\<dots> \<le> digit_val w * 10 ^ length us"
      using that(1) by (intro mult_right_mono) auto
    also have "\<dots> \<le> digits_val (w # ws)" using that(3) by (simp add: digits_val_Cons)
    finally show ?thesis .
  qed
  have val: "digit_val x < digit_val y \<longleftrightarrow> x < y" "digit_val y < digit_val x \<longleftrightarrow> y < x"
    "digit_val x = digit_val y \<longleftrightarrow> x = y"
    using Cons.prems by (auto simp: is_digit_byte digit_val_def char_less_byte simp flip: byte_of_inject)
  show ?case
  proof (cases "x = y")
    case True
    then show ?thesis using Cons by (simp add: digits_val_Cons)
  next
    case False
    then consider "digit_val x < digit_val y" | "digit_val y < digit_val x"
      using val by (metis linorder_cases)
    then show ?thesis
      using less [of x y xs ys] less [of y x ys xs] Cons.prems Cons.hyps val by cases auto
  qed
qed

lemma digits_val_lower: "list_all is_digit s \<Longrightarrow> s \<noteq> [] \<Longrightarrow> hd s \<noteq> CHR ''0'' \<Longrightarrow>
     10 ^ (length s - 1) \<le> digits_val s"
proof -
  assume a: "list_all is_digit s" "s \<noteq> []" "hd s \<noteq> CHR ''0''"
  then obtain c t where s: "s = c # t" by (cases s) auto
  have "byte_of c \<noteq> 48" using a s byte_of_inject [of c "CHR ''0''"] by (simp add: byte_of_def)
  then have "1 \<le> digit_val c" using a s by (auto simp: is_digit_byte digit_val_def)
  then have "1 * 10 ^ length t \<le> digit_val c * 10 ^ length t + digits_val t"
    by (intro trans_le_add1 mult_right_mono) auto
  then show ?thesis unfolding s digits_val_Cons by simp
qed

definition canonical_number :: "string \<Rightarrow> bool" where
  "canonical_number s \<longleftrightarrow> is_numeric_ident s \<and> (length s = 1 \<or> hd s \<noteq> CHR ''0'')"

lemma valid_numeric_canonical: "valid_ident False i \<Longrightarrow> is_numeric_ident i \<Longrightarrow> canonical_number i"
  by (auto simp: valid_ident_def is_numeric_ident_def canonical_number_def) (cases i; fastforce)

lemma shorter_smaller:
  assumes "canonical_number a" "canonical_number b" "length a < length b"
  shows "digits_val a < digits_val b"
proof -
  have "digits_val a < 10 ^ length a"
    using assms digits_val_bound by (simp add: canonical_number_def is_numeric_ident_def)
  also have "\<dots> \<le> 10 ^ (length b - 1)" using assms(3) by (intro power_increasing) auto
  also have "\<dots> \<le> digits_val b"
    using assms by (intro digits_val_lower) (auto simp: canonical_number_def is_numeric_ident_def)
  finally show ?thesis .
qed

text \<open>
  Fact: two numeric identifiers without leading zeros, which is all the parser lets
  through, compare as the numbers they denote, at any length: an identifier too long for a
  \<open>uint64\<close> still sorts as a number, so it cannot pass a downgrade off as an upgrade.
\<close>

theorem numeric_idents_compare_as_numbers:
  assumes "canonical_number a" and "canonical_number b"
  shows "compare_ident a b = cmp (digits_val a) (digits_val b)"
proof -
  have num: "is_numeric_ident a" "is_numeric_ident b" "list_all is_digit a" "list_all is_digit b"
    using assms by (auto simp: canonical_number_def is_numeric_ident_def)
  show ?thesis
  proof (cases "length a = length b")
    case True
    then show ?thesis
      using num digits_less_iff [of a b] digits_less_iff [of b a]
      by (simp add: compare_ident_def compare_numeric_ident_def strings_compare_def cmp_def)
  next
    case False
    then show ?thesis
      using num shorter_smaller [of a b] shorter_smaller [of b a] assms
      by (auto simp: compare_ident_def compare_numeric_ident_def cmp_int_def cmp_def)
  qed
qed

theorem numeric_idents_compare_as_numbers_witness:
  "compare_ident ''99999999999999999999'' ''100000000000000000000'' = -1"
proof -
  have "canonical_number ''99999999999999999999''" "canonical_number ''100000000000000000000''"
    by code_simp+
  then have "compare_ident ''99999999999999999999'' ''100000000000000000000'' =
      cmp (digits_val ''99999999999999999999'') (digits_val ''100000000000000000000'')"
    by (rule numeric_idents_compare_as_numbers)
  moreover have "digits_val ''99999999999999999999'' < digits_val ''100000000000000000000''"
    by (simp add: digits_val_def digit_val_def byte_of_def)
  ultimately show ?thesis by (simp only: cmp_def if_True)
qed

section \<open>The order and the policy\<close>

text \<open>
  Property C23: \<open>Compare\<close> is exactly the comparison of a key in a linear order (core numbers,
  then a release above its prereleases, then the identifiers left to right), so precedence is
  total, transitive and antisymmetric and never looks at build metadata.
\<close>

theorem compare_is_linear_key_order:
  "compare_version a b = cmp (version_key a) (version_key b) \<and>
   compare_version a b = - compare_version b a \<and> compare_version a b \<in> {-1, 0, 1} \<and>
   version_key (a\<lparr>Build := x, Raw := y\<rparr>) = version_key a"
proof (intro conjI)
  show "compare_version a b = - compare_version b a" by (rule version_cmp.comp_flip)
  show "compare_version a b \<in> {-1, 0, 1}" by (rule version_cmp.comp_unit)
qed (simp_all add: compare_version_key version_key_def)

text \<open>
  Fact: the policy lets an update through exactly when all three versions parse and the
  target is above the running version and above the recorded high-water mark.
\<close>

theorem version_policy_allowed_iff:
  "vd_allowed (evaluate_version_policy current target max_seen) =
     (\<exists>cur tgt. parse_version current = Some cur \<and> parse_version target = Some tgt \<and>
        0 < compare_version tgt cur \<and>
        (blank max_seen \<or> (\<exists>ms. parse_version max_seen = Some ms \<and> 0 < compare_version tgt ms)))"
  by (auto simp: evaluate_version_policy_def refuse_version_def decide_version_allowed
      split: option.splits)

end
