(* ===== verification/SignerPolicy.thy ===== *)
theory SignerPolicy
  imports Version
begin

text \<open>
  \<open>internal/selfupdate/signerpolicy.go\<close> and \<open>artifactbind.go\<close>: the local signer allowlist
  (the only authority for running a binary), the tier gate, the Authenticode gate, and the
  binding of the claimed target version to the version stamped into the signed binary.
\<close>

section \<open>The signer allowlist\<close>

type_synonym signer_allowlist = "string list"

definition normalize_thumbprint :: "string \<Rightarrow> string" where
  "normalize_thumbprint s =
     filter (\<lambda>c. c \<noteq> CHR '' '') (filter (\<lambda>c. c \<noteq> CHR '':'') (to_upper (trim_space s)))"

definition allowlist_contains :: "signer_allowlist \<Rightarrow> string \<Rightarrow> bool" where
  "allowlist_contains a thumbprint =
     (let want = normalize_thumbprint thumbprint in
      if want = [] then False else list_ex (\<lambda>t. normalize_thumbprint t = want) a)"

record gate_decision =
  gd_allowed :: bool
  gd_code :: error_code
  gd_reason :: string

definition gate_allow :: "string \<Rightarrow> gate_decision" where
  "gate_allow r = \<lparr>gd_allowed = True, gd_code = ErrNone, gd_reason = r\<rparr>"

definition gate_refuse :: "error_code \<Rightarrow> string \<Rightarrow> gate_decision" where
  "gate_refuse c r = \<lparr>gd_allowed = False, gd_code = c, gd_reason = r\<rparr>"

definition evaluate_signer_policy :: "string \<Rightarrow> signer_allowlist \<Rightarrow> gate_decision" where
  "evaluate_signer_policy actual allow =
    (if blank actual then gate_refuse ErrSignerNotAllowed ''no verified signer thumbprint''
     else if \<not> allowlist_contains allow actual
     then gate_refuse ErrSignerNotAllowed ''verified signer not in local allowlist''
     else gate_allow ''verified signer in local allowlist'')"

section \<open>The tier gate\<close>

record tier_policy =
  allow_lab_only :: bool
  domain_joined :: bool

definition evaluate_tier_policy :: "signing_tier \<Rightarrow> tier_policy \<Rightarrow> gate_decision" where
  "evaluate_tier_policy tier pol =
    (if tier = TierTrusted then gate_allow ''trusted tier''
     else if tier = TierLabOnlyEvidence then
       (if allow_lab_only pol \<and> \<not> domain_joined pol
        then gate_allow ''lab tier permitted by local opt-in on non-domain-joined host''
        else gate_refuse ErrLabTierRefused ''lab-only tier refused for unattended self-update'')
     else gate_refuse ErrLabTierRefused ''unknown tier treated as untrusted'')"

section \<open>The Authenticode gate\<close>

record authenticode_evidence =
  ae_chain_valid :: bool
  ae_code_signing_eku :: bool
  ae_signer :: string
  ae_timestamped :: bool
  ae_signing_time_valid :: bool
  ae_current_time_valid :: bool

definition evaluate_authenticode_policy ::
    "authenticode_evidence \<Rightarrow> signing_tier \<Rightarrow> gate_decision" where
  "evaluate_authenticode_policy ev tier =
    (if tier = TierTrusted \<and> \<not> ae_chain_valid ev
     then gate_refuse ErrSignatureInvalid ''trusted tier requires a valid certificate chain''
     else if \<not> ae_code_signing_eku ev
     then gate_refuse ErrSignatureInvalid ''leaf certificate lacks the Code Signing EKU''
     else
       let time_ok = (if ae_timestamped ev then ae_signing_time_valid ev else ae_current_time_valid ev) in
       if \<not> time_ok
       then gate_refuse ErrSignatureInvalid ''certificate validity does not cover the signing/current time''
       else gate_allow ''authenticode evidence acceptable for tier'')"

section \<open>Binding the claimed version to the stamp\<close>

text \<open>Each field through ParseUint and back; \<open>None\<close>: a field is not a number.\<close>

fun canonical_fields :: "string list \<Rightarrow> string list option" where
  "canonical_fields [] = Some []"
| "canonical_fields (f # fs) =
     (case parse_uint64 f of None \<Rightarrow> None
      | Some n \<Rightarrow> (case canonical_fields fs of None \<Rightarrow> None
                  | Some gs \<Rightarrow> Some (format_uint n # gs)))"

definition pad_fields :: "string list \<Rightarrow> string list" where
  "pad_fields fs = fs @ replicate (3 - length fs) ''0''"

definition normalize_pe_version :: "string \<Rightarrow> string option" where
  "normalize_pe_version s0 =
    (let s = trim_space s0 in
     if s = [] then None
     else if parse_version s \<noteq> None then Some s
     else
       let raw = split_on CHR ''.'' s in
       if length raw = 0 \<or> 4 < length raw then None
       else (case canonical_fields raw of None \<Rightarrow> None
        | Some fs \<Rightarrow>
            if length fs = 4 \<and> fs ! 3 \<noteq> ''0'' then None
            else
              let fs = (if length fs = 4 then take 3 fs else fs);
                  candidate = join_with CHR ''.'' (pad_fields fs) in
              if parse_version candidate = None then None else Some candidate))"

definition evaluate_artifact_version_binding :: "string \<Rightarrow> string \<Rightarrow> refusal" where
  "evaluate_artifact_version_binding pe_version target =
    (let pe = trim_space pe_version in
     if pe = [] then (ErrCatalogMismatch, ''binary carries no version stamp to bind against'')
     else (case normalize_pe_version pe of
         None \<Rightarrow> (ErrCatalogMismatch, ''binary version stamp is not a bindable version'')
       | Some norm \<Rightarrow>
      (case parse_version norm of
         None \<Rightarrow> (ErrCatalogMismatch, ''binary version stamp is not parseable semver'')
       | Some pe_ver \<Rightarrow>
      (case parse_version target of
         None \<Rightarrow> (ErrCatalogMismatch, ''target version is not parseable semver'')
       | Some tgt \<Rightarrow>
           if compare_version pe_ver tgt \<noteq> 0
           then (ErrCatalogMismatch, ''binary version stamp does not match claimed target version'')
           else accept))))"

section \<open>Facts\<close>

lemma gate_simps [simp]:
  "gd_allowed (gate_allow r)" "\<not> gd_allowed (gate_refuse c r)"
  "gd_code (gate_allow r) = ErrNone" "gd_code (gate_refuse c r) = c"
  by (simp_all add: gate_allow_def gate_refuse_def)

lemma signer_allowed:
  "gd_allowed (evaluate_signer_policy t a) \<longleftrightarrow> \<not> blank t \<and> allowlist_contains a t"
  by (simp add: evaluate_signer_policy_def)

lemma signer_code: "\<not> gd_allowed (evaluate_signer_policy t a) \<Longrightarrow>
    gd_code (evaluate_signer_policy t a) = ErrSignerNotAllowed"
  by (simp add: evaluate_signer_policy_def split: if_splits)

lemma tier_code: "\<not> gd_allowed (evaluate_tier_policy t p) \<Longrightarrow>
    gd_code (evaluate_tier_policy t p) = ErrLabTierRefused"
  by (simp add: evaluate_tier_policy_def split: if_splits)

lemma authenticode_code: "\<not> gd_allowed (evaluate_authenticode_policy ev t) \<Longrightarrow>
    gd_code (evaluate_authenticode_policy ev t) = ErrSignatureInvalid"
  by (simp add: evaluate_authenticode_policy_def Let_def split: if_splits)

lemma canonical_fields_Some:
  "canonical_fields fs = Some gs \<Longrightarrow>
     \<exists>ws. map parse_uint64 fs = map Some ws \<and> gs = map format_uint ws"
proof (induction fs arbitrary: gs)
  case (Cons f fs)
  then obtain n hs where n: "parse_uint64 f = Some n" and hs: "canonical_fields fs = Some hs"
    and gs: "gs = format_uint n # hs"
    by (auto split: option.splits)
  from Cons.IH [OF hs] obtain ws where
    "map parse_uint64 fs = map Some ws" "hs = map format_uint ws" by blast
  with n gs have "map parse_uint64 (f # fs) = map Some (n # ws) \<and> gs = map format_uint (n # ws)"
    by simp
  then show ?case by blast
qed simp

lemma normalize_pe_parses: "normalize_pe_version s = Some n \<Longrightarrow> parse_version n \<noteq> None"
  by (auto simp: normalize_pe_version_def Let_def split: if_splits option.splits)

section \<open>Properties\<close>

text \<open>
  Fact: the signer gate opens exactly for a non-blank verified thumbprint whose
  normalised form is the normalised form of an entry of the local allowlist; nothing of the
  payload is an input, and the empty allowlist opens for nobody.
\<close>

theorem signer_gate_exact:
  "gd_allowed (evaluate_signer_policy t a) =
     (\<not> blank t \<and> normalize_thumbprint t \<noteq> [] \<and>
      (\<exists>x \<in> set a. normalize_thumbprint x = normalize_thumbprint t)) \<and>
   \<not> gd_allowed (evaluate_signer_policy t []) \<and>
   gd_code (evaluate_signer_policy t a) \<in> {ErrNone, ErrSignerNotAllowed}"
  by (auto simp: evaluate_signer_policy_def allowlist_contains_def Let_def list_ex_iff)

text \<open>
  Fact: a four-field stamp a.b.c.d, each field a \<open>uint64\<close> without padding, binds to the
  target exactly when d is zero and the target is a.b.c: a non-zero revision is never dropped.
\<close>

theorem four_field_stamp_binding:
  assumes "parse_version target = Some tgt"
  shows "(fst (evaluate_artifact_version_binding
            (join_with CHR ''.'' [format_uint a, format_uint b, format_uint c, format_uint d]) target)
            = ErrNone) =
         (d = 0 \<and> Major tgt = a \<and> Minor tgt = b \<and> Patch tgt = c \<and> Prerelease tgt = [])"
proof -
  let ?fs = "[format_uint a, format_uint b, format_uint c, format_uint d]"
  let ?s = "join_with CHR ''.'' ?fs"
  let ?v = "\<lparr>Major = a, Minor = b, Patch = c, Prerelease = [], Build = [], Raw = []\<rparr>"
  have nodot: "CHR ''.'' \<notin> set (format_uint w)" for w using format_uint_chars by blast
  have split: "split_on CHR ''.'' ?s = ?fs" by (rule split_join) (auto simp: nodot)
  have chars: "plain_char x \<and> x \<noteq> CHR ''+'' \<and> x \<noteq> CHR ''-''" if "x \<in> set ?s" for x
    using join_chars [OF that] format_uint_chars [of x] by (auto simp: plain_char_def byte_of_def)
  have trim: "trim_space ?s = ?s" using chars by (intro trim_space_plain) (simp add: list_all_iff)
  have ne: "?s \<noteq> []" by simp
  obtain e es where e: "format_uint a = e # es" by (metis format_nat_not_Nil format_uint_def neq_Nil_conv)
  have "is_digit e" using format_uint_digits [of e a] e by simp
  then have strip: "strip_v ?s = ?s"
    using e by (auto simp: strip_v_def is_digit_byte) (simp_all add: byte_of_def)
  have nb: "CHR ''+'' \<notin> set ?s" "CHR ''-'' \<notin> set ?s" using chars by blast+
  have "parse_version ?s = None"
    unfolding parse_version_def Let_def trim strip before_byte_none [OF nb(1)] before_byte_none [OF nb(2)] split
    using nb by (simp add: has_byte_iff)
  moreover have "canonical_fields ?fs = Some ?fs" by (simp add: parse_format_uint)
  moreover have zero: "format_uint d = ''0'' \<longleftrightarrow> d = 0"
    by (metis format_nat_zero format_uint_def parse_format_uint option.inject unsigned_0)
  moreover have render: "join_with CHR ''.'' (pad_fields (take 3 ?fs)) = render_version ?v"
    by (simp add: pad_fields_def render_version_def)
  moreover have parse: "parse_version (render_version ?v) = Some (?v\<lparr>Raw := render_version ?v\<rparr>)"
    by (rule parse_render_version_rule) (simp add: wf_version_def)
  ultimately have norm: "normalize_pe_version ?s = (if d = 0 then Some (render_version ?v) else None)"
    unfolding normalize_pe_version_def Let_def trim split using ne by simp
  show ?thesis
    unfolding evaluate_artifact_version_binding_def Let_def trim norm
    using ne assms parse
    by (auto simp: compare_version_key version_key_def prerelease_key_def)
qed

theorem four_field_stamp_binding_witness:
  "fst (evaluate_artifact_version_binding ''1.2.3.7'' ''1.2.3'') \<noteq> ErrNone \<and>
   fst (evaluate_artifact_version_binding ''1.2.3.0'' ''1.2.3'') = ErrNone"
proof -
  let ?t = "\<lparr>Major = 1, Minor = 2, Patch = 3, Prerelease = [], Build = [], Raw = ''1.2.3''\<rparr>"
  have t: "parse_version ''1.2.3'' = Some ?t" by code_simp
  have f: "format_uint 1 = ''1''" "format_uint 2 = ''2''" "format_uint 3 = ''3''"
    "format_uint 7 = ''7''" "format_uint 0 = ''0''"
    by (simp_all add: format_uint_def format_nat.simps go_defs)
  show ?thesis
    using four_field_stamp_binding [OF t, of 1 2 3 7] four_field_stamp_binding [OF t, of 1 2 3 0]
    by (simp add: f)
qed

end
