(* ===== verification/Filepath.thy ===== *)
theory Filepath
  imports Prelude
begin

text \<open>
  \<open>path/filepath\<close> on a system whose separator is the slash: Clean, Dir, Base and Join, with the
  laws about them the update path relies on.  The code runs on Windows as well, so the theories
  that use paths take the four functions as parameters and these laws as an interface
  (\<open>local_paths\<close> of ActivationPlan); this theory shows that the slash version keeps them.
\<close>

text \<open>One component; \<open>out\<close> is the output so far, last component first.\<close>

definition path_step :: "bool \<Rightarrow> string list \<Rightarrow> string \<Rightarrow> string list" where
  "path_step rooted out c =
    (if c = [] \<or> c = ''.'' then out
     else if c = ''..'' then
       (case out of [] \<Rightarrow> if rooted then [] else [''..'']
        | x # xs \<Rightarrow> if x = ''..'' then ''..'' # out else xs)
     else c # out)"

definition path_norm :: "bool \<Rightarrow> string list \<Rightarrow> string list" where
  "path_norm rooted cs = rev (foldl (path_step rooted) [] cs)"

definition path_render :: "bool \<Rightarrow> string list \<Rightarrow> string" where
  "path_render rooted out =
     (if rooted then CHR ''/'' # join_with (CHR ''/'') out
      else if out = [] then ''.'' else join_with (CHR ''/'') out)"

definition fp_rooted :: "string \<Rightarrow> bool" where
  "fp_rooted p = (case p of [] \<Rightarrow> False | c # _ \<Rightarrow> c = CHR ''/'')"

definition fp_comps :: "string \<Rightarrow> string list" where
  "fp_comps p = path_norm (fp_rooted p) (split_on (CHR ''/'') p)"

definition fp_clean :: "string \<Rightarrow> string" where
  "fp_clean p = path_render (fp_rooted p) (fp_comps p)"

definition fp_dir :: "string \<Rightarrow> string" where
  "fp_dir p = fp_clean (rev (dropWhile (\<lambda>c. c \<noteq> CHR ''/'') (rev p)))"

definition fp_base :: "string \<Rightarrow> string" where
  "fp_base p =
     (if p = [] then ''.''
      else let q = dropWhile (\<lambda>c. c = CHR ''/'') (rev p) in
        if q = [] then ''/'' else rev (takeWhile (\<lambda>c. c \<noteq> CHR ''/'') q))"

definition fp_join :: "string \<Rightarrow> string \<Rightarrow> string" where
  "fp_join r n =
     (if r = [] then if n = [] then [] else fp_clean n else fp_clean (r @ CHR ''/'' # n))"

text \<open>A file name: not empty, no separator, not a dot name.\<close>

definition simple_name :: "string \<Rightarrow> bool" where
  "simple_name n \<longleftrightarrow> n \<noteq> [] \<and> CHR ''/'' \<notin> set n \<and> CHR 0x5C \<notin> set n \<and> CHR '':'' \<notin> set n \<and> n \<noteq> ''.'' \<and> n \<noteq> ''..''"

section \<open>Normal component lists\<close>

fun normal :: "bool \<Rightarrow> string list \<Rightarrow> bool" where
  "normal _ [] = True"
| "normal b (c # out) \<longleftrightarrow> c \<noteq> [] \<and> c \<noteq> ''.'' \<and> CHR ''/'' \<notin> set c \<and>
     (c = ''..'' \<longrightarrow> \<not> b \<and> (case out of [] \<Rightarrow> True | x # _ \<Rightarrow> x = ''..'')) \<and> normal b out"

lemma normal_step: "normal b out \<Longrightarrow> CHR ''/'' \<notin> set c \<Longrightarrow> normal b (path_step b out c)"
  by (cases out) (auto simp: path_step_def)

lemma normal_foldl:
  "normal b out \<Longrightarrow> \<forall>c \<in> set cs. CHR ''/'' \<notin> set c \<Longrightarrow> normal b (foldl (path_step b) out cs)"
  by (induction cs arbitrary: out) (auto intro: normal_step)

lemma normal_comps: "normal (fp_rooted p) (rev (fp_comps p))"
  unfolding fp_comps_def path_norm_def rev_rev_ident
  by (rule normal_foldl) (auto dest: set_split_on)

lemma normal_norm: "normal b out \<Longrightarrow> foldl (path_step b) [] (rev out) = out"
proof (induction out)
  case (Cons c out)
  then show ?case by (cases out) (auto simp: path_step_def)
qed simp

lemma normal_no_slash: "normal b out \<Longrightarrow> x \<in> set out \<Longrightarrow> CHR ''/'' \<notin> set x \<and> x \<noteq> []"
  by (induction out) auto

lemma path_step_empty [simp]: "path_step b out [] = out"
  by (simp add: path_step_def)

lemma split_on_mid: "split_on c (x @ c # y) = split_on c x @ split_on c y"
  by (induction x) (auto split: list.splits)

lemma join_with_snoc: "xs \<noteq> [] \<Longrightarrow> join_with c (xs @ [n]) = join_with c xs @ c # n"
  by (induction c xs rule: join_with.induct) auto

lemma render_rooted:
  assumes "normal b (rev xs)"
  shows "fp_rooted (path_render b xs) = b"
proof (cases xs)
  case Nil
  then show ?thesis by (simp add: fp_rooted_def path_render_def)
next
  case (Cons x ys)
  have "CHR ''/'' \<notin> set x \<and> x \<noteq> []" using normal_no_slash [OF assms] Cons by simp
  then show ?thesis
    using Cons by (cases ys; cases x) (auto simp: fp_rooted_def path_render_def)
qed

lemma norm_render:
  assumes "normal b (rev xs)"
  shows "path_norm b (split_on (CHR ''/'') (path_render b xs)) = xs"
proof -
  have s: "xs \<noteq> [] \<Longrightarrow> split_on (CHR ''/'') (join_with (CHR ''/'') xs) = xs"
    using normal_no_slash [OF assms] by (intro split_join) auto
  have n: "foldl (path_step b) [] xs = rev xs" using normal_norm [OF assms] by simp
  show ?thesis
  proof (cases "xs = []")
    case True
    then show ?thesis by (simp add: path_render_def path_norm_def path_step_def)
  next
    case False
    then show ?thesis using s n by (cases b) (simp_all add: path_render_def path_norm_def)
  qed
qed

lemma comps_render: "normal b (rev xs) \<Longrightarrow> fp_comps (path_render b xs) = xs"
  using norm_render render_rooted by (simp add: fp_comps_def)

lemma clean_render: "normal b (rev xs) \<Longrightarrow> fp_clean (path_render b xs) = path_render b xs"
  using comps_render render_rooted by (simp add: fp_clean_def)

lemma clean_render_slash:
  assumes "normal b (rev xs)"
  shows "fp_clean (path_render b xs @ ''/'') = path_render b xs"
proof -
  have ne: "path_render b xs \<noteq> []" if "fp_rooted (path_render b xs) = b"
    using normal_no_slash [OF assms] by (cases xs; cases "tl xs") (auto simp: path_render_def)
  then have r: "fp_rooted (path_render b xs @ ''/'') = b"
    using render_rooted [OF assms] by (auto simp: fp_rooted_def split: list.splits)
  have "split_on (CHR ''/'') (path_render b xs @ ''/'') = split_on (CHR ''/'') (path_render b xs) @ [[]]"
    using split_on_mid [of "CHR ''/''" "path_render b xs" "[]"] by simp
  then have "fp_comps (path_render b xs @ ''/'') = xs"
    using r norm_render [OF assms] by (simp add: fp_comps_def path_norm_def)
  then show ?thesis using r by (simp add: fp_clean_def)
qed

section \<open>The laws\<close>

lemma fp_join_simple:
  assumes "simple_name n"
  shows "fp_join r n = path_render (fp_rooted r) (fp_comps r @ [n])"
    and "normal (fp_rooted r) (rev (fp_comps r @ [n]))"
proof -
  have n: "n \<noteq> []" "CHR ''/'' \<notin> set n" "path_step b out n = n # out" for b out
    using assms by (auto simp: simple_name_def path_step_def)
  show "normal (fp_rooted r) (rev (fp_comps r @ [n]))"
    using normal_comps [of r] assms by (simp add: simple_name_def)
  show "fp_join r n = path_render (fp_rooted r) (fp_comps r @ [n])"
  proof (cases "r = []")
    case True
    then show ?thesis
      using n by (cases n) (auto simp: fp_join_def fp_clean_def fp_comps_def path_norm_def fp_rooted_def split_on_no_sep)
  next
    case False
    then have "fp_rooted (r @ CHR ''/'' # n) = fp_rooted r" by (cases r) (auto simp: fp_rooted_def)
    then show ?thesis
      using False n by (simp add: fp_join_def fp_clean_def fp_comps_def path_norm_def split_on_mid split_on_no_sep)
  qed
qed

lemma fp_clean_idem: "fp_clean (fp_clean p) = fp_clean p"
  using clean_render [OF normal_comps [unfolded rev_rev_ident]] by (metis fp_clean_def normal_comps clean_render)

lemma fp_join_clean: "simple_name n \<Longrightarrow> fp_join (fp_clean r) n = fp_join r n"
  using render_rooted [OF normal_comps] comps_render [OF normal_comps] by (simp add: fp_join_simple(1) fp_clean_def)

lemma fp_clean_join: "simple_name n \<Longrightarrow> fp_clean (fp_join r n) = fp_join r n"
  using clean_render [OF fp_join_simple(2)] by (simp add: fp_join_simple(1))

lemma render_snoc:
  "path_render b (xs @ [n]) = (if xs = [] then if b then CHR ''/'' # n else n else path_render b xs @ CHR ''/'' # n)"
  by (auto simp: path_render_def join_with_snoc)

lemma after_slash:
  assumes "CHR ''/'' \<notin> set n"
  shows "dropWhile (\<lambda>c. c \<noteq> CHR ''/'') (rev (pre @ CHR ''/'' # n)) = CHR ''/'' # rev pre"
    and "takeWhile (\<lambda>c. c \<noteq> CHR ''/'') (rev (pre @ CHR ''/'' # n)) = rev n"
    and "dropWhile (\<lambda>c. c \<noteq> CHR ''/'') (rev n) = []"
    and "takeWhile (\<lambda>c. c \<noteq> CHR ''/'') (rev n) = rev n"
proof -
  have a: "\<forall>c \<in> set (rev n). c \<noteq> CHR ''/''" using assms by auto
  then show "dropWhile (\<lambda>c. c \<noteq> CHR ''/'') (rev (pre @ CHR ''/'' # n)) = CHR ''/'' # rev pre"
    "takeWhile (\<lambda>c. c \<noteq> CHR ''/'') (rev (pre @ CHR ''/'' # n)) = rev n"
    "dropWhile (\<lambda>c. c \<noteq> CHR ''/'') (rev n) = []"
    "takeWhile (\<lambda>c. c \<noteq> CHR ''/'') (rev n) = rev n"
    using takeWhile_append2 [of "rev n" "\<lambda>c. c \<noteq> CHR ''/''" "CHR ''/'' # rev pre"]
      dropWhile_append2 [of "rev n" "\<lambda>c. c \<noteq> CHR ''/''" "CHR ''/'' # rev pre"]
      takeWhile_append2 [of "rev n" "\<lambda>c. c \<noteq> CHR ''/''" "[]"]
      dropWhile_append2 [of "rev n" "\<lambda>c. c \<noteq> CHR ''/''" "[]"]
    by simp_all
qed

lemma fp_dir_join:
  assumes "simple_name n"
  shows "fp_dir (fp_join r n) = fp_clean r"
proof -
  have n: "CHR ''/'' \<notin> set n" using assms by (simp add: simple_name_def)
  show ?thesis
  proof (cases "fp_comps r = []")
    case True
    have "fp_clean r = (if fp_rooted r then ''/'' else ''.'')" using True by (simp add: fp_clean_def path_render_def)
    moreover have "fp_clean ''/'' = ''/''" "fp_clean [] = ''.''" by code_simp+
    moreover have "\<forall>c \<in> set n. c \<noteq> CHR ''/''" using n by auto
    then have "rev (dropWhile (\<lambda>c. c \<noteq> CHR ''/'') (rev n)) = []" by simp
    moreover have "dropWhile (\<lambda>c. c \<noteq> CHR ''/'') (rev (CHR ''/'' # n)) = ''/''"
      using after_slash(1) [OF n, of "[]"] by simp
    ultimately show ?thesis
      using True n render_snoc [of _ "[]" n] by (auto simp add: fp_dir_def fp_join_simple(1) [OF assms] simp del: dropWhile_eq_Nil_conv)
  next
    case False
    then show ?thesis
      using after_slash(1) [OF n] clean_render_slash [OF normal_comps]
      by (simp add: fp_dir_def fp_join_simple(1) [OF assms] render_snoc fp_clean_def [of r] del: rev_append)
  qed
qed

lemma base_suffix:
  assumes "simple_name n"
  shows "fp_base (pre @ CHR ''/'' # n) = n" and "fp_base n = n"
proof -
  have n: "CHR ''/'' \<notin> set n" "n \<noteq> []" using assms by (auto simp: simple_name_def)
  have d: "dropWhile (\<lambda>c. c = CHR ''/'') (rev n @ t) = rev n @ t" for t
  proof (cases "rev n")
    case (Cons c u)
    then have "c \<in> set n" by (metis list.set_intros(1) set_rev)
    then show ?thesis using Cons n by auto
  qed (use n in simp)
  then show "fp_base (pre @ CHR ''/'' # n) = n" "fp_base n = n"
    using n after_slash(2) [OF n(1), of pre] after_slash(4) [OF n(1)] d [of "CHR ''/'' # rev pre"] d [of "[]"]
    by (simp_all add: fp_base_def Let_def del: takeWhile_eq_all_conv dropWhile_eq_Nil_conv)
qed

lemma fp_base_join: "simple_name n \<Longrightarrow> fp_base (fp_join r n) = n"
  using base_suffix [of n] base_suffix(1) [of n "[]"] by (simp add: fp_join_simple(1) render_snoc)

lemma fp_join_append: "simple_name n \<Longrightarrow> simple_name (n @ t) \<Longrightarrow> fp_join r n @ t = fp_join r (n @ t)"
  by (simp add: fp_join_simple(1) render_snoc)

end
