(* ===== verification/ActivationPlan.thy ===== *)
theory ActivationPlan
  imports HashFile SignerPolicy Filepath
begin

text \<open>
  \<open>internal/selfupdate/activation_plan.go\<close>, the identifiers of \<open>platform.go\<close> and
  \<open>copyBinaryWithExpectedHash\<close> / \<open>replaceFile\<close> of \<open>activation_execute.go\<close>: the local plan that
  hands a staged binary to the activation helper, and the file operations both use.

  The record \<open>env\<close> holds what the model takes as parameters: \<open>path/filepath\<close> (its separators
  and volume names depend on the platform), the JSON encoding of the three files kept next to the
  staged binary, and SHA-256.  The laws of \<open>path/filepath\<close> a theorem relies on are the named
  hypothesis \<open>path_laws\<close>.
\<close>

section \<open>Plans and outcomes\<close>

record activation_plan =
  ap_schema :: int
  ap_staging_id :: string
  ap_plan_id :: string
  ap_service :: string
  ap_current_path :: string
  ap_staged_path :: string
  ap_plan_path :: string
  ap_target_version :: string
  ap_sha256 :: string
  ap_signer :: string
  ap_tier :: signing_tier

record activation_outcome =
  ao_status :: string
  ao_plan_id :: string
  ao_target_version :: string
  ao_new_sha :: string
  ao_backup_sha :: string
  ao_running_verified :: bool
  ao_persisted :: bool
  ao_persist_error :: string
  ao_reason :: string

record attempt_record =
  at_schema :: int
  at_plan_id :: string
  at_last_unix :: int
  at_attempts :: int

record activation_readiness =
  ry_plan_id :: string
  ry_target_version :: string
  ry_sha256 :: string
  ry_signer :: string
  ry_tier :: signing_tier
  ry_current_present :: bool
  ry_staged_verified :: bool

record env =
  env_clean :: "string \<Rightarrow> string"
  env_dir :: "string \<Rightarrow> string"
  env_base :: "string \<Rightarrow> string"
  env_join :: "string \<Rightarrow> string \<Rightarrow> string"
  env_sha :: "string \<Rightarrow> string"
  env_enc_plan :: "activation_plan \<Rightarrow> string option"
  env_dec_plan :: "string \<Rightarrow> activation_plan option"
  env_enc_outcome :: "activation_outcome \<Rightarrow> string option"
  env_dec_outcome :: "string \<Rightarrow> activation_outcome option"
  env_enc_attempt :: "attempt_record \<Rightarrow> string option"
  env_dec_attempt :: "string \<Rightarrow> attempt_record option"

definition path_laws :: "env \<Rightarrow> bool" where
  "path_laws E \<longleftrightarrow>
     (\<forall>r n. simple_name n \<longrightarrow>
        env_base E (env_join E r n) = n \<and> env_dir E (env_join E r n) = env_clean E r \<and>
        env_clean E (env_join E r n) = env_join E r n \<and> env_join E (env_clean E r) n = env_join E r n) \<and>
     (\<forall>r n t. simple_name n \<longrightarrow> simple_name (n @ t) \<longrightarrow> env_join E r n @ t = env_join E r (n @ t)) \<and>
     (\<forall>p. env_clean E (env_clean E p) = env_clean E p)"

section \<open>Identifiers and file names\<close>

definition valid_staging_id :: "string \<Rightarrow> bool" where
  "valid_staging_id i \<longleftrightarrow> length i = 32 \<and> list_all is_hex i"

definition hex_digit :: "nat \<Rightarrow> char" where
  "hex_digit n = (if n < 10 then char_of (48 + n) else char_of (87 + n))"

definition hex_encode :: "string \<Rightarrow> string" where
  "hex_encode s = concat (map (\<lambda>c. [hex_digit (byte_of c div 16), hex_digit (byte_of c mod 16)]) s)"

text \<open>\<open>None\<close>: the system's random source failed; else 16 random bytes.\<close>

definition random_staging_id :: "string option \<Rightarrow> string option" where
  "random_staging_id rnd = (case rnd of None \<Rightarrow> None | Some b \<Rightarrow> Some (hex_encode b))"

definition staged_name_for :: "env \<Rightarrow> string \<Rightarrow> string \<Rightarrow> string" where
  "staged_name_for E root i = env_join E root (''staged-'' @ i @ ''.bin'')"

definition activation_plan_name_for :: "env \<Rightarrow> string \<Rightarrow> string \<Rightarrow> string" where
  "activation_plan_name_for E root i = env_join E root (''activation-'' @ i @ ''.json'')"

definition activation_outcome_name_for :: "env \<Rightarrow> string \<Rightarrow> string \<Rightarrow> string" where
  "activation_outcome_name_for E root i = env_join E root (''activation-outcome-'' @ i @ ''.json'')"

definition activation_backup_name_for :: "env \<Rightarrow> string \<Rightarrow> string \<Rightarrow> string" where
  "activation_backup_name_for E root i = env_join E root (''rollback-'' @ i @ ''.bin'')"

definition activation_helper_name_for :: "env \<Rightarrow> string \<Rightarrow> string \<Rightarrow> string" where
  "activation_helper_name_for E root i = env_join E root (''activation-helper-'' @ i @ ''.exe'')"

definition same_clean_path :: "env \<Rightarrow> string \<Rightarrow> string \<Rightarrow> bool" where
  "same_clean_path E a b \<longleftrightarrow> env_clean E (trim_space a) = env_clean E (trim_space b)"

definition strip_utf8_bom :: "string \<Rightarrow> string" where
  "strip_utf8_bom raw =
     (case raw of a # b # c # t \<Rightarrow> if a = CHR 0xEF \<and> b = CHR 0xBB \<and> c = CHR 0xBF then t else raw
      | _ \<Rightarrow> raw)"

section \<open>Building and validating a plan\<close>

definition activation_plan_schema_version :: int where
  "activation_plan_schema_version = 1"

definition build_activation_plan ::
    "env \<Rightarrow> string \<Rightarrow> string \<Rightarrow> string \<Rightarrow> stage_result \<Rightarrow> refusal + activation_plan" where
  "build_activation_plan E staged0 current0 service0 ready =
    (if sr_status ready \<noteq> StageReady
     then Inl (ErrActivationPlanWrite, ''activation plan requires STAGED_ACTIVATION_READY'')
     else if \<not> valid_staging_id (sr_staging_id ready) \<or> sr_plan_id ready \<noteq> sr_staging_id ready
     then Inl (ErrActivationPlanWrite, ''activation plan identifiers are invalid'')
     else
       let staged = trim_space staged0; current = trim_space current0; service = trim_space service0 in
       if staged = [] \<or> current = [] \<or> service = []
       then Inl (ErrActivationPlanWrite, ''activation plan missing local path or service'')
       else
         let root = env_dir E staged in
         if env_base E staged \<noteq> env_base E (staged_name_for E root (sr_staging_id ready))
         then Inl (ErrActivationPlanWrite, ''staged binary name does not match staging identifier'')
         else if same_clean_path E staged current
         then Inl (ErrActivationPlanWrite, ''current and staged binary paths must differ'')
         else if \<not> is_sha256_hex (sr_sha256 ready)
         then Inl (ErrHashMismatch, ''activation plan sha256 evidence is invalid'')
         else if blank (sr_target_version ready) \<or> blank (sr_signer ready) \<or> sr_tier ready = []
         then Inl (ErrActivationPlanWrite, ''activation plan missing target version or signer evidence'')
         else Inr \<lparr>ap_schema = activation_plan_schema_version,
                   ap_staging_id = sr_staging_id ready, ap_plan_id = sr_plan_id ready,
                   ap_service = service, ap_current_path = current, ap_staged_path = staged,
                   ap_plan_path = activation_plan_name_for E root (sr_staging_id ready),
                   ap_target_version = sr_target_version ready,
                   ap_sha256 = to_lower (trim_space (sr_sha256 ready)),
                   ap_signer = normalize_thumbprint (sr_signer ready), ap_tier = sr_tier ready\<rparr>)"

definition validate_activation_plan :: "env \<Rightarrow> activation_plan \<Rightarrow> refusal" where
  "validate_activation_plan E p =
    (if ap_schema p \<noteq> activation_plan_schema_version
     then (ErrActivationPlanWrite, ''activation plan schema version mismatch'')
     else if \<not> valid_staging_id (ap_staging_id p) \<or> ap_plan_id p \<noteq> ap_staging_id p
     then (ErrActivationPlanWrite, ''activation plan identifiers do not match'')
     else if blank (ap_service p) \<or> blank (ap_current_path p) \<or> blank (ap_staged_path p) \<or> blank (ap_plan_path p)
     then (ErrActivationPlanWrite, ''activation plan local fields are incomplete'')
     else
       let root = env_dir E (ap_staged_path p) in
       if env_clean E (ap_staged_path p) \<noteq> env_clean E (staged_name_for E root (ap_staging_id p))
       then (ErrActivationPlanWrite, ''staged binary path does not match staging id'')
       else if env_clean E (ap_plan_path p) \<noteq> env_clean E (activation_plan_name_for E root (ap_staging_id p))
       then (ErrActivationPlanWrite, ''activation plan path does not match staging id'')
       else if same_clean_path E (ap_current_path p) (ap_staged_path p)
       then (ErrActivationPlanWrite, ''current and staged binary paths overlap'')
       else if \<not> is_sha256_hex (ap_sha256 p)
       then (ErrHashMismatch, ''activation plan sha256 evidence is invalid'')
       else if blank (ap_target_version p) \<or> blank (ap_signer p) \<or> ap_tier p = []
       then (ErrActivationPlanWrite, ''activation plan evidence is incomplete'')
       else accept)"

section \<open>File operations\<close>

text \<open>An \<open>activationPlanError\<close>, or any other error with its text.\<close>

datatype plan_err = PlanError error_code string | OtherError string

fun plan_err_text :: "plan_err \<Rightarrow> string" where
  "plan_err_text (PlanError _ r) = r"
| "plan_err_text (OtherError t) = t"

fun activation_plan_failure :: "plan_err option \<Rightarrow> refusal" where
  "activation_plan_failure (Some (PlanError c r)) = (c, r)"
| "activation_plan_failure (Some (OtherError _)) = (ErrActivationPlanWrite, ''activation plan write failed'')"
| "activation_plan_failure None = accept"

abbreviation pw_err :: "string \<Rightarrow> plan_err" where
  "pw_err r \<equiv> PlanError ErrActivationPlanWrite r"

definition atomic_write_json :: "string \<Rightarrow> string \<Rightarrow> world \<Rightarrow> (plan_err + unit) \<times> world" where
  "atomic_write_json final raw =
    (let tmp = final @ ''.tmp'' in
     io_or (OtherError ''context canceled'') os_call (\<lambda>_.
     io_or (pw_err ''create activation directory failed'') os_call (\<lambda>_.
     io_or (pw_err ''create activation temp failed'') (os_create_excl tmp) (\<lambda>_.
     io_or_clean (pw_err ''write activation temp failed'') (os_remove tmp) (os_write tmp raw) (\<lambda>_.
     io_or_clean (pw_err ''fsync activation temp failed'') (os_remove tmp) os_call (\<lambda>_.
     io_or_clean (pw_err ''close activation temp failed'') (os_remove tmp) os_call (\<lambda>_.
     io_or_clean (pw_err ''harden activation temp failed'') (os_remove tmp) os_call (\<lambda>_.
     io_or_clean (pw_err ''promote activation file failed'') (os_remove tmp) (os_rename tmp final) (\<lambda>_.
     io_or (pw_err ''harden activation file failed'') os_call (\<lambda>_. io_ret ()))))))))))"

definition write_activation_plan :: "env \<Rightarrow> activation_plan \<Rightarrow> world \<Rightarrow> (plan_err + unit) \<times> world" where
  "write_activation_plan E p =
    io_or (OtherError ''context canceled'') os_call (\<lambda>_.
      if fst (validate_activation_plan E p) \<noteq> ErrNone
      then io_fail (PlanError (fst (validate_activation_plan E p)) (snd (validate_activation_plan E p)))
      else (case env_enc_plan E p of
          None \<Rightarrow> io_fail (pw_err ''marshal activation plan failed'')
        | Some raw \<Rightarrow> atomic_write_json (ap_plan_path p) (raw @ [CHR 0x0A])))"

definition load_activation_plan ::
    "env \<Rightarrow> string \<Rightarrow> string \<Rightarrow> world \<Rightarrow> (refusal + activation_plan) \<times> world" where
  "load_activation_plan E root i =
    (if \<not> valid_staging_id i \<or> blank root
     then io_fail (ErrActivationPlanWrite, ''invalid activation plan locator'')
     else
       let path = activation_plan_name_for E (env_clean E root) i in
       io_or (ErrActivationPlanWrite, ''read activation plan failed'') (os_read_file path) (\<lambda>raw.
         case env_dec_plan E (strip_utf8_bom raw) of
           None \<Rightarrow> io_fail (ErrActivationPlanWrite, ''decode activation plan failed'')
         | Some p \<Rightarrow>
             if fst (validate_activation_plan E p) \<noteq> ErrNone then io_fail (validate_activation_plan E p)
             else if env_clean E (ap_plan_path p) \<noteq> env_clean E path
             then io_fail (ErrActivationPlanWrite, ''activation plan path mismatch'')
             else io_ret p))"

definition verify_activation_plan_ready ::
    "env \<Rightarrow> string \<Rightarrow> string \<Rightarrow> int \<Rightarrow> world \<Rightarrow> (refusal + activation_readiness) \<times> world" where
  "verify_activation_plan_ready E root i max_bytes =
    io_bind (load_activation_plan E root i) (\<lambda>p.
    io_or (ErrStagingIO, ''current binary is not readable'') (os_stat (ap_current_path p)) (\<lambda>_.
    io_bind (hash_file_with_limit (env_sha E) (ap_staged_path p) max_bytes) (\<lambda>h.
      if fst (verify_sha256_equal (hr_sha h) (ap_sha256 p)) \<noteq> ErrNone
      then io_fail (verify_sha256_equal (hr_sha h) (ap_sha256 p))
      else io_ret \<lparr>ry_plan_id = ap_plan_id p, ry_target_version = ap_target_version p,
                   ry_sha256 = ap_sha256 p, ry_signer = ap_signer p, ry_tier = ap_tier p,
                   ry_current_present = True, ry_staged_verified = True\<rparr>)))"

text \<open>\<open>copyBinaryWithExpectedHash\<close>; the byte count of a refused copy is dropped, no caller reads it.\<close>

definition copy_binary_with_expected_hash ::
    "env \<Rightarrow> string \<Rightarrow> string \<Rightarrow> string \<Rightarrow> int \<Rightarrow> world \<Rightarrow> (refusal + hash_result) \<times> world" where
  "copy_binary_with_expected_hash E src dst expected max_bytes =
    io_bind (hash_file_with_limit (env_sha E) src max_bytes) (\<lambda>h.
      let v = (if expected \<noteq> [] then verify_sha256_equal (hr_sha h) expected else accept) in
      if fst v \<noteq> ErrNone then io_fail v
      else
        io_or (ErrStagingIO, ''read binary failed'') (os_read_file src) (\<lambda>raw.
        if max_bytes < int (length raw) \<and> 0 < max_bytes
        then io_fail (ErrDownloadTooLarge, ''binary exceeded maxBytes'')
        else
          io_or (ErrStagingIO, ''write binary temp failed'') (os_create_excl dst) (\<lambda>_.
          io_or_clean (ErrStagingIO, ''write binary temp failed'') (os_remove dst) (os_write dst raw) (\<lambda>_.
          io_or_clean (ErrStagingIO, ''fsync binary temp failed'') (os_remove dst) os_call (\<lambda>_.
          io_or_clean (ErrStagingIO, ''close binary temp failed'') (os_remove dst) os_call (\<lambda>_.
          io_or_clean (ErrStagingIO, ''harden binary temp failed'') (os_remove dst) os_call (\<lambda>_.
          io_ret h)))))))"

definition replace_file :: "string \<Rightarrow> string \<Rightarrow> unit io" where
  "replace_file tmp final w =
    (case os_remove final w of (r, w1) \<Rightarrow>
       if (case r of Inl e \<Rightarrow> e \<noteq> NotExist | Inr _ \<Rightarrow> False) then (r, snd (os_remove tmp w1))
       else (case os_rename tmp final w1 of
           (Inl e, w2) \<Rightarrow> (Inl e, snd (os_remove tmp w2))
         | (Inr _, w2) \<Rightarrow> os_call w2))"

definition prepare_activation_helper ::
    "env \<Rightarrow> string \<Rightarrow> string \<Rightarrow> string \<Rightarrow> int \<Rightarrow> world \<Rightarrow> (refusal + string) \<times> world" where
  "prepare_activation_helper E exe0 root0 i max_bytes =
    io_or (ErrStagingIO, ''activation helper preparation canceled'') os_call (\<lambda>_.
      let exe = trim_space exe0; root = trim_space root0 in
      if exe = [] \<or> root = [] \<or> \<not> valid_staging_id i
      then io_fail (ErrActivationPlanWrite, ''activation helper inputs are invalid'')
      else
        let helper = activation_helper_name_for E (env_clean E root) i in
        if same_clean_path E exe helper
        then io_fail (ErrActivationPlanWrite, ''activation helper path overlaps executable'')
        else (\<lambda>w. case os_lstat helper w of
            (Inr _, w1) \<Rightarrow> (Inl (ErrStagingIO, ''activation helper target already exists''), w1)
          | (Inl e, w1) \<Rightarrow>
              if e \<noteq> NotExist
              then (Inl (ErrStagingIO, ''activation helper target check failed''), w1)
              else (case copy_binary_with_expected_hash E exe helper [] max_bytes w1 of
                  (Inl (code, reason), w2) \<Rightarrow> (Inl (code, ''activation helper copy failed: '' @ reason), w2)
                | (Inr _, w2) \<Rightarrow> (Inr helper, w2))))"

section \<open>Frames and effects of the file operations\<close>

lemma touches_case [frame]:
  "(\<And>a. touches S (f a)) \<Longrightarrow> touches S n \<Longrightarrow> touches S (case x of None \<Rightarrow> n | Some a \<Rightarrow> f a)"
  by (simp split: option.split)

lemma touches_atomic_write_json [frame]:
  "final \<in> S \<Longrightarrow> final @ ''.tmp'' \<in> S \<Longrightarrow> touches S (atomic_write_json final raw)"
  unfolding atomic_write_json_def Let_def by (intro frame)

lemma touches_write_activation_plan [frame]:
  "ap_plan_path p \<in> S \<Longrightarrow> ap_plan_path p @ ''.tmp'' \<in> S \<Longrightarrow> touches S (write_activation_plan E p)"
  unfolding write_activation_plan_def by (intro frame)

lemma touches_load [frame]: "touches S (load_activation_plan E root i)"
  unfolding load_activation_plan_def Let_def by (intro frame)

lemma touches_verify_ready [frame]: "touches S (verify_activation_plan_ready E root i m)"
  unfolding verify_activation_plan_ready_def by (intro frame)

lemma touches_copy [frame]: "dst \<in> S \<Longrightarrow> touches S (copy_binary_with_expected_hash E src dst e m)"
  unfolding copy_binary_with_expected_hash_def Let_def by (intro frame)

lemma touches_replace_file [frame]: "tmp \<in> S \<Longrightarrow> final \<in> S \<Longrightarrow> touches S (replace_file tmp final)"
  by (auto simp: touches_def replace_file_def os_defs only_def split: option.splits if_splits)

lemma atomic_write_json_Inr:
  assumes "atomic_write_json final raw w = (Inr u, w')"
  shows "file_bytes w' final = Some raw"
proof -
  have "final \<noteq> final @ ''.tmp''" by simp
  then show ?thesis
    using assms
    by (auto simp: atomic_write_json_def Let_def io_success os_defs file_bytes_def split: if_splits option.splits)
qed

lemma copy_Inr:
  assumes "copy_binary_with_expected_hash E src dst e m w = (Inr h, w')" and "m < 2 ^ 63 - 1"
  shows "\<exists>b. file_bytes w src = Some b \<and> file_bytes w' dst = Some b \<and> hr_sha h = env_sha E b \<and>
    (e \<noteq> [] \<longrightarrow> fst (verify_sha256_equal (env_sha E b) e) = ErrNone) \<and> src \<noteq> dst \<and> w_node w dst = None"
proof -
  obtain h1 w1 where h: "hash_file_with_limit (env_sha E) src m w = (Inr h1, w1)"
    using assms(1) by (auto simp: copy_binary_with_expected_hash_def io_success)
  have n1: "w_node w1 = w_node w" using touchesD [OF touches_hash_file h, of "{}"] by (auto simp: only_def)
  obtain b where b: "file_bytes w src = Some b" "hr_sha h1 = env_sha E b" using hash_file_Inr [OF h assms(2)] by blast
  have v: "e \<noteq> [] \<longrightarrow> fst (verify_sha256_equal (env_sha E b) e) = ErrNone"
    using assms(1) h b by (auto simp: copy_binary_with_expected_hash_def io_success Let_def split: if_splits)
  have rest: "\<exists>raw w2 w3 w4. os_read_file src w1 = (Inr raw, w2) \<and> os_create_excl dst w2 = (Inr (), w3) \<and>
      os_write dst raw w3 = (Inr (), w4) \<and> w_node w' = w_node w4 \<and> h = h1"
    using assms(1) h v b
    by (auto simp: copy_binary_with_expected_hash_def io_success Let_def dest!: os_call_Inr split: if_splits)
  then obtain raw w2 w3 w4 where r: "os_read_file src w1 = (Inr raw, w2)" "os_create_excl dst w2 = (Inr (), w3)"
      "os_write dst raw w3 = (Inr (), w4)" "w_node w' = w_node w4" "h = h1" by blast
  have raw: "raw = b" using os_read_file_Inr [OF r(1)] b n1 by (simp add: file_bytes_def)
  have "w_node w dst = None" using os_create_excl_Inr [OF r(2)] os_read_file_Inr [OF r(1)] n1 by simp
  moreover from this b have "src \<noteq> dst" by (auto simp: file_bytes_def)
  moreover have "file_bytes w' dst = Some b" using os_write_Inr [OF r(3)] r(4) raw by (simp add: file_bytes_def)
  ultimately show ?thesis using b v r(5) by auto
qed

lemma replace_file_cases:
  assumes "replace_file tmp final w = (r, w')" and "tmp \<noteq> final"
  shows "\<not> isl r \<Longrightarrow> w_node w' final = w_node w tmp \<and> w_node w tmp \<noteq> None"
    and "w_node w' final = w_node w final \<or> w_node w' final = None \<or> w_node w' final = w_node w tmp"
  using assms by (auto simp: replace_file_def os_defs split: if_splits option.splits)

section \<open>The interface to paths\<close>

lemma valid_id_simple:
  assumes "valid_staging_id i"
  shows "simple_name (''staged-'' @ i @ ''.bin'')" and "simple_name (''activation-'' @ i @ ''.json'')"
    and "simple_name (''activation-outcome-'' @ i @ ''.json'')" and "simple_name (''rollback-'' @ i @ ''.bin'')"
    and "simple_name (''activation-helper-'' @ i @ ''.exe'')"
proof -
  have "\<not> is_hex (CHR ''/'')" "\<not> is_hex (CHR 0x5C)" "\<not> is_hex (CHR '':'')" by code_simp+
  then have i: "CHR ''/'' \<notin> set i" "CHR 0x5C \<notin> set i" "CHR '':'' \<notin> set i"
    using assms by (auto simp: valid_staging_id_def list_all_iff)
  then show "simple_name (''staged-'' @ i @ ''.bin'')" "simple_name (''activation-'' @ i @ ''.json'')"
    "simple_name (''activation-outcome-'' @ i @ ''.json'')" "simple_name (''rollback-'' @ i @ ''.bin'')"
    "simple_name (''activation-helper-'' @ i @ ''.exe'')"
    by (simp_all add: simple_name_def)
qed

lemma load_Inr:
  assumes "load_activation_plan E root i w = (Inr p, w')"
  shows "fst (validate_activation_plan E p) = ErrNone" and "valid_staging_id i"
    and "env_clean E (ap_plan_path p) = env_clean E (activation_plan_name_for E (env_clean E root) i)"
    and "w' = tick w"
    and "\<exists>raw. file_bytes w (activation_plan_name_for E (env_clean E root) i) = Some raw \<and>
          env_dec_plan E (strip_utf8_bom raw) = Some p"
  using assms
  by (auto simp: load_activation_plan_def Let_def io_success dest!: os_read_file_Inr split: if_splits option.splits)

lemma validate_accept:
  assumes "fst (validate_activation_plan E p) = ErrNone"
  shows "valid_staging_id (ap_staging_id p)" and "ap_plan_id p = ap_staging_id p"
    and "env_clean E (ap_staged_path p) = env_clean E (staged_name_for E (env_dir E (ap_staged_path p)) (ap_staging_id p))"
    and "env_clean E (ap_plan_path p) = env_clean E (activation_plan_name_for E (env_dir E (ap_staged_path p)) (ap_staging_id p))"
    and "\<not> same_clean_path E (ap_current_path p) (ap_staged_path p)" and "is_sha256_hex (ap_sha256 p)"
  using assms by (auto simp: validate_activation_plan_def Let_def split: if_splits)

locale local_paths =
  fixes E :: env
  assumes laws: "path_laws E"
begin

lemma base_join: "simple_name n \<Longrightarrow> env_base E (env_join E r n) = n"
  and dir_join: "simple_name n \<Longrightarrow> env_dir E (env_join E r n) = env_clean E r"
  and clean_join: "simple_name n \<Longrightarrow> env_clean E (env_join E r n) = env_join E r n"
  and join_clean: "simple_name n \<Longrightarrow> env_join E (env_clean E r) n = env_join E r n"
  and clean_clean: "env_clean E (env_clean E r) = env_clean E r"
  and join_append: "simple_name n \<Longrightarrow> simple_name (n @ t) \<Longrightarrow> env_join E r n @ t = env_join E r (n @ t)"
  using laws by (auto simp: path_laws_def)

lemma join_inj:
  assumes "simple_name m" "simple_name n" "env_join E r m = env_join E s n"
  shows "m = n" and "env_clean E r = env_clean E s"
proof -
  show "m = n" using base_join [OF assms(1), of r] base_join [OF assms(2), of s] assms(3) by simp
  show "env_clean E r = env_clean E s"
    using dir_join [OF assms(1), of r] dir_join [OF assms(2), of s] assms(3) by simp
qed

text \<open>A loaded plan belongs to the id and the directory it was asked for.\<close>

lemma loaded_plan_root:
  assumes "load_activation_plan E root i w = (Inr p, w')"
  shows "ap_staging_id p = i" and "env_clean E (env_dir E (ap_staged_path p)) = env_clean E root"
    and "env_clean E (ap_staged_path p) = staged_name_for E root i"
    and "env_clean E (ap_plan_path p) = activation_plan_name_for E root i"
    and "activation_backup_name_for E (env_dir E (ap_staged_path p)) (ap_staging_id p) =
         activation_backup_name_for E root i"
proof -
  let ?d = "env_dir E (ap_staged_path p)"
  note v = validate_accept [OF load_Inr(1) [OF assms]]
  note i = load_Inr(2) [OF assms]
  note n = valid_id_simple [OF v(1)] and m = valid_id_simple [OF i]
  have e: "env_join E ?d (''activation-'' @ ap_staging_id p @ ''.json'') =
      env_join E root (''activation-'' @ i @ ''.json'')"
    using v(4) load_Inr(3) [OF assms] n(2) m(2)
    by (simp add: activation_plan_name_for_def clean_join join_clean)
  then show id: "ap_staging_id p = i" and r: "env_clean E ?d = env_clean E root"
    using join_inj [OF n(2) m(2) e] by auto
  have j: "env_join E ?d x = env_join E root x" if "simple_name x" for x
    using join_clean [OF that, of ?d] join_clean [OF that, of root] r by simp
  show "env_clean E (ap_staged_path p) = staged_name_for E root i"
    using v(3) n(1) j [OF m(1)] id by (simp add: staged_name_for_def clean_join)
  show "env_clean E (ap_plan_path p) = activation_plan_name_for E root i"
    using load_Inr(3) [OF assms] m(2) by (simp add: activation_plan_name_for_def clean_join join_clean)
  show "activation_backup_name_for E ?d (ap_staging_id p) = activation_backup_name_for E root i"
    using j [OF m(4)] id by (simp add: activation_backup_name_for_def)
qed

text \<open>A plan built for the name the stager commits to is one the loader accepts.\<close>

lemma built_plan_accepted:
  assumes b: "build_activation_plan E staged cur svc r = Inr p"
    and s: "staged = staged_name_for E root (sr_staging_id r)" "trim_space staged = staged"
    and sig: "\<not> blank (normalize_thumbprint (sr_signer r))"
    and nb: "\<not> blank (activation_plan_name_for E root (sr_staging_id r))"
  shows "fst (validate_activation_plan E p) = ErrNone" and "ap_staging_id p = sr_staging_id r"
    and "ap_plan_path p = activation_plan_name_for E root (sr_staging_id r)"
    and "ap_staged_path p = staged"
proof -
  let ?i = "sr_staging_id r"
  have i: "valid_staging_id ?i" "sr_plan_id r = ?i"
    using b by (auto simp: build_activation_plan_def split: if_splits)
  note n = valid_id_simple [OF i(1)]
  have d: "env_dir E staged = env_clean E root" using s(1) n(1) by (simp add: staged_name_for_def dir_join)
  have p: "p = \<lparr>ap_schema = 1, ap_staging_id = ?i, ap_plan_id = ?i, ap_service = trim_space svc,
      ap_current_path = trim_space cur, ap_staged_path = staged,
      ap_plan_path = activation_plan_name_for E root ?i, ap_target_version = sr_target_version r,
      ap_sha256 = to_lower (trim_space (sr_sha256 r)), ap_signer = normalize_thumbprint (sr_signer r),
      ap_tier = sr_tier r\<rparr>"
    using b i s(2) d n(2)
    by (auto simp: build_activation_plan_def Let_def activation_plan_schema_version_def
        activation_plan_name_for_def join_clean split: if_splits)
  have g: "trim_space cur \<noteq> []" "trim_space svc \<noteq> []" "staged \<noteq> []" "\<not> same_clean_path E staged (trim_space cur)"
      "is_sha256_hex (sr_sha256 r)" "\<not> blank (sr_target_version r)" "sr_tier r \<noteq> []"
    using b s(2) by (auto simp: build_activation_plan_def Let_def split: if_splits)
  have sha: "is_sha256_hex (to_lower (trim_space (sr_sha256 r)))"
    using g(5) sha256_hex_trim [OF g(5)] by (simp add: is_sha256_hex_lower)
  have same: "\<not> same_clean_path E (trim_space cur) staged"
    using g(4) s(2) by (simp add: same_clean_path_def eq_commute)
  have c: "staged_name_for E (env_dir E staged) ?i = staged"
    "activation_plan_name_for E (env_dir E staged) ?i = activation_plan_name_for E root ?i"
    using s(1) d n by (simp_all add: staged_name_for_def activation_plan_name_for_def join_clean)
  show "fst (validate_activation_plan E p) = ErrNone"
    using g(1-3,6,7) sha sig nb s(2) i same c unfolding p
    by (simp add: validate_activation_plan_def Let_def activation_plan_schema_version_def)
  show "ap_staging_id p = ?i" "ap_plan_path p = activation_plan_name_for E root ?i" "ap_staged_path p = staged"
    by (simp_all add: p)
qed

end

definition unix_env :: "env \<Rightarrow> env" where
  "unix_env X = X\<lparr>env_clean := fp_clean, env_dir := fp_dir, env_base := fp_base, env_join := fp_join\<rparr>"

interpretation unix: local_paths "unix_env X"
  by unfold_locales (simp add: path_laws_def unix_env_def fp_join_append fp_base_join fp_dir_join fp_clean_join fp_join_clean fp_clean_idem)

section \<open>Properties\<close>

lemma hex_digit_is_hex: "n < 16 \<Longrightarrow> is_hex (hex_digit n)"
proof -
  have "list_all (\<lambda>n. is_hex (hex_digit n)) [0 ..< 16]" by code_simp
  then show "n < 16 \<Longrightarrow> is_hex (hex_digit n)" by (simp only: list_all_iff set_upt) simp
qed

lemma hex_digit_inj: "m < 16 \<Longrightarrow> n < 16 \<Longrightarrow> hex_digit m = hex_digit n \<Longrightarrow> m = n"
proof -
  have "list_all (\<lambda>m. list_all (\<lambda>n. hex_digit m = hex_digit n \<longrightarrow> m = n) [0 ..< 16]) [0 ..< 16]" by code_simp
  then show "m < 16 \<Longrightarrow> n < 16 \<Longrightarrow> hex_digit m = hex_digit n \<Longrightarrow> m = n"
    by (simp only: list_all_iff set_upt) simp
qed

lemma byte_halves: "byte_of c div 16 < 16" "byte_of c mod 16 < 16"
  using byte_of_bound [of c] by auto

lemma hex_encode_hex: "list_all is_hex (hex_encode s) \<and> length (hex_encode s) = 2 * length s"
  by (induction s) (auto simp: hex_encode_def hex_digit_is_hex byte_halves)

lemma hex_encode_inj: "hex_encode s = hex_encode t \<Longrightarrow> s = t"
proof (induction s arbitrary: t)
  case Nil
  then show ?case by (cases t) (auto simp: hex_encode_def)
next
  case (Cons c s)
  then obtain d u where t: "t = d # u" by (cases t) (auto simp: hex_encode_def)
  have "byte_of c div 16 = byte_of d div 16" "byte_of c mod 16 = byte_of d mod 16"
    using Cons.prems t hex_digit_inj byte_halves by (auto simp: hex_encode_def)
  then have "byte_of c = byte_of d" by (metis div_mult_mod_eq)
  then show ?case using Cons t by (auto simp: hex_encode_def byte_of_def)
qed

text \<open>
  Fact: every identifier minted from 16 random bytes has the required shape of 32 hex
  digits, so no file name built from it leaves its directory, and different random bytes give
  different identifiers.
\<close>

theorem staging_ids_opaque:
  assumes "length b = 16" and "random_staging_id (Some b) = Some i"
  shows "valid_staging_id i \<and> simple_name (''staged-'' @ i @ ''.bin'') \<and>
    (\<forall>c. random_staging_id (Some c) = Some i \<longrightarrow> c = b)"
proof -
  have i: "valid_staging_id i" using assms hex_encode_hex [of b] by (simp add: random_staging_id_def valid_staging_id_def)
  then show ?thesis
    using assms valid_id_simple(1) [OF i] hex_encode_inj by (simp add: random_staging_id_def)
qed

theorem staging_ids_opaque_witness:
  "\<exists>i. random_staging_id (Some (replicate 16 (CHR 0xA7))) = Some i \<and> valid_staging_id i"
  using staging_ids_opaque [of "replicate 16 (CHR 0xA7)"] by (simp add: random_staging_id_def)

text \<open>
  Fact: a plan found on disk can only steer the helper inside the directory it was asked
  to look in: a loaded plan carries the requested identifier, its staged binary and its own path
  are the ones that identifier has in that directory, and the current binary is another file.
\<close>

theorem loaded_plan_confined:
  assumes "path_laws E" and "load_activation_plan E root i w = (Inr p, w')"
  shows "ap_staging_id p = i \<and> env_clean E (ap_staged_path p) = staged_name_for E root i \<and>
    env_clean E (ap_plan_path p) = activation_plan_name_for E root i \<and>
    \<not> same_clean_path E (ap_current_path p) (ap_staged_path p) \<and> is_sha256_hex (ap_sha256 p)"
  using local_paths.loaded_plan_root [OF local_paths.intro [OF assms(1)] assms(2)]
    validate_accept(5,6) [OF load_Inr(1) [OF assms(2)]] by simp

text \<open>
  Fact: the hand-over between staging and activation is lossless: the plan built for a
  staged binary, written without an error, is the plan the helper loads by its identifier, given
  that the JSON codec returns what it encoded.
\<close>

theorem activation_handoff_roundtrip:
  assumes "path_laws E" and "\<not> blank root"
    and "staged = staged_name_for E root (sr_staging_id r)" and "trim_space staged = staged"
    and "\<not> blank (normalize_thumbprint (sr_signer r))"
    and "\<not> blank (activation_plan_name_for E root (sr_staging_id r))"
    and "build_activation_plan E staged cur svc r = Inr p"
    and "env_enc_plan E p = Some raw" and "env_dec_plan E (strip_utf8_bom (raw @ [CHR 0x0A])) = Some p"
    and "write_activation_plan E p w = (Inr u, w')" and "\<not> faulty w'"
  shows "fst (load_activation_plan E root (sr_staging_id r) w') = Inr p"
proof -
  note P = local_paths.intro [OF assms(1)]
  note a = local_paths.built_plan_accepted [OF P assms(7,3,4,5,6)]
  have i: "valid_staging_id (sr_staging_id r)" using assms(7) by (auto simp: build_activation_plan_def split: if_splits)
  have n: "activation_plan_name_for E (env_clean E root) (sr_staging_id r) = ap_plan_path p"
    using a(3) local_paths.join_clean [OF P valid_id_simple(2) [OF i]] by (simp add: activation_plan_name_for_def)
  have "file_bytes w' (ap_plan_path p) = Some (raw @ [CHR 0x0A])"
    using assms(8,10) a(1)
    by (auto simp: write_activation_plan_def io_success dest!: os_call_Inr atomic_write_json_Inr)
  then have "os_read_file (ap_plan_path p) w' = (Inr (raw @ [CHR 0x0A]), tick w')"
    using assms(11) by (auto simp: os_read_file_def file_bytes_def split: option.splits node.splits)
  then show ?thesis
    using i assms(2,9) a(1) n by (simp add: load_activation_plan_def io_or_def io_ret_def Let_def)
qed

text \<open>
  Fact: preparing the helper executable is one-shot: it never succeeds while the helper
  file of that identifier exists, and when it succeeds the file exists with the bytes of the
  running executable.  Nothing in the program deletes it, so a second attempt for the same plan is refused.
\<close>

theorem helper_preparation_one_shot:
  assumes "m < 2 ^ 63 - 1" and "prepare_activation_helper E exe root i m w = (Inr h, w')"
  shows "w_node w h = None \<and> file_bytes w' h = file_bytes w (trim_space exe) \<and>
    file_bytes w' h \<noteq> None \<and>
    (\<forall>w'' exe'. w_node w'' h \<noteq> None \<longrightarrow> isl (fst (prepare_activation_helper E exe' root i m w'')))"
proof -
  let ?h = "activation_helper_name_for E (env_clean E (trim_space root)) i"
  obtain w1 w2 hr where h: "h = ?h" and c: "copy_binary_with_expected_hash E (trim_space exe) ?h [] m w1 = (Inr hr, w2)"
      and n: "w_node w1 = w_node w" "w' = w2"
    using assms(2)
    by (auto simp: prepare_activation_helper_def Let_def io_success os_lstat_def dest!: os_call_Inr
        split: if_splits prod.splits sum.splits option.splits)
  have "isl (fst (prepare_activation_helper E exe' root i m w''))" if "w_node w'' h \<noteq> None" for w'' exe'
    using that h
    by (auto simp: prepare_activation_helper_def Let_def io_or_def io_fail_def os_lstat_def os_call_def
        split: if_splits prod.splits sum.splits option.splits)
  then show ?thesis using copy_Inr [OF c assms(1)] n h by (auto simp: file_bytes_def)
qed

section \<open>Witnesses\<close>

definition sample_id :: string where
  "sample_id = replicate 32 (CHR ''a'')"

definition sample_sha :: "string \<Rightarrow> string" where
  "sample_sha b = replicate 62 (CHR ''0'') @ hex_encode [char_of (length b)]"

definition sample_ready :: stage_result where
  "sample_ready = zero_stage_result\<lparr>sr_status := StageReady, sr_staging_id := sample_id,
     sr_plan_id := sample_id, sr_target_version := ''1.3.0'', sr_sha256 := sample_sha ''new'',
     sr_signer := ''AB:CD'', sr_tier := TierTrusted\<rparr>"

definition sample_plan :: activation_plan where
  "sample_plan = \<lparr>ap_schema = 1, ap_staging_id = sample_id, ap_plan_id = sample_id,
     ap_service = ''agent'', ap_current_path = ''/bin/agent'',
     ap_staged_path = ''/s/staged-'' @ sample_id @ ''.bin'',
     ap_plan_path = ''/s/activation-'' @ sample_id @ ''.json'', ap_target_version = ''1.3.0'',
     ap_sha256 = sample_sha ''new'', ap_signer = ''ABCD'', ap_tier = TierTrusted\<rparr>"

definition sample_env :: env where
  "sample_env = unix_env \<lparr>env_clean = id, env_dir = id, env_base = id, env_join = (@),
     env_sha = sample_sha, env_enc_plan = (\<lambda>_. Some ''plan''),
     env_dec_plan = (\<lambda>s. if s = ''plan'' @ [CHR 0x0A] then Some sample_plan else None),
     env_enc_outcome = (\<lambda>x. Some (ao_status x)), env_dec_outcome = (\<lambda>_. None),
     env_enc_attempt = (\<lambda>_. None), env_dec_attempt = (\<lambda>_. None)\<rparr>"

lemma sample_path_laws: "path_laws sample_env"
  unfolding sample_env_def by (rule unix.laws)

definition update_world :: world where
  "update_world = sample_world\<lparr>w_node := [''/bin/agent'' \<mapsto> RegFile ''orig'' 5,
     ''/s/staged-'' @ sample_id @ ''.bin'' \<mapsto> RegFile ''new'' 6,
     ''/s/activation-'' @ sample_id @ ''.json'' \<mapsto> RegFile (''plan'' @ [CHR 0x0A]) 7]\<rparr>"

theorem loaded_plan_confined_witness:
  "\<exists>p. fst (load_activation_plan sample_env ''/s'' sample_id update_world) = Inr p \<and>
     env_clean sample_env (ap_staged_path p) = staged_name_for sample_env ''/s'' sample_id"
proof -
  obtain r w' where l: "load_activation_plan sample_env ''/s'' sample_id update_world = (r, w')" by fastforce
  have "fst (load_activation_plan sample_env ''/s'' sample_id update_world) = Inr sample_plan" by code_simp
  then have r: "r = Inr sample_plan" using l by simp
  show ?thesis using loaded_plan_confined [OF sample_path_laws l [unfolded r]] l r by auto
qed

theorem activation_handoff_roundtrip_witness:
  "\<exists>p w'. build_activation_plan sample_env (staged_name_for sample_env ''/s'' sample_id) '' /bin/agent'' ''agent'' sample_ready = Inr p \<and>
     write_activation_plan sample_env p sample_world = (Inr (), w') \<and>
     fst (load_activation_plan sample_env ''/s'' sample_id w') = Inr p"
proof -
  have b: "build_activation_plan sample_env (staged_name_for sample_env ''/s'' (sr_staging_id sample_ready))
      '' /bin/agent'' ''agent'' sample_ready = Inr sample_plan" by code_simp
  obtain r w' where w: "write_activation_plan sample_env sample_plan sample_world = (r, w')" by fastforce
  have "fst (write_activation_plan sample_env sample_plan sample_world) = Inr ()"
    and nf: "\<not> faulty (snd (write_activation_plan sample_env sample_plan sample_world))" by code_simp+
  then have r: "r = Inr ()" using w by simp
  have e: "env_enc_plan sample_env sample_plan = Some ''plan''"
    "env_dec_plan sample_env (strip_utf8_bom (''plan'' @ [CHR 0x0A])) = Some sample_plan" by code_simp+
  have i: "sr_staging_id sample_ready = sample_id" by (simp add: sample_ready_def)
  have c: "\<not> blank ''/s''" "\<not> blank (normalize_thumbprint (sr_signer sample_ready))"
    "\<not> blank (activation_plan_name_for sample_env ''/s'' (sr_staging_id sample_ready))"
    "trim_space (staged_name_for sample_env ''/s'' (sr_staging_id sample_ready)) =
       staged_name_for sample_env ''/s'' (sr_staging_id sample_ready)" by code_simp+
  have n: "\<not> faulty w'" using nf w by simp
  have "fst (load_activation_plan sample_env ''/s'' (sr_staging_id sample_ready) w') = Inr sample_plan"
    by (rule activation_handoff_roundtrip [OF sample_path_laws c(1) refl c(4) c(2) c(3) b e w [unfolded r] n])
  then show ?thesis using b w r unfolding i by blast
qed

theorem helper_preparation_one_shot_witness:
  "\<exists>w'. prepare_activation_helper sample_env ''/bin/agent'' ''/s'' sample_id 0 update_world =
       (Inr (''/s/activation-helper-'' @ sample_id @ ''.exe''), w') \<and>
     isl (fst (prepare_activation_helper sample_env ''/bin/agent'' ''/s'' sample_id 0 w'))"
proof -
  let ?h = "''/s/activation-helper-'' @ sample_id @ ''.exe''"
  obtain r w' where p: "prepare_activation_helper sample_env ''/bin/agent'' ''/s'' sample_id 0 update_world = (r, w')"
    by fastforce
  have "fst (prepare_activation_helper sample_env ''/bin/agent'' ''/s'' sample_id 0 update_world) = Inr ?h" by code_simp
  then have r: "r = Inr ?h" using p by simp
  have m: "(0::int) < 2 ^ 63 - 1" by simp
  note c = helper_preparation_one_shot [OF m p [unfolded r], THEN conjunct2, THEN conjunct2]
  note f = c [THEN conjunct1] and a = c [THEN conjunct2]
  have "w_node w' ?h \<noteq> None" using f by (rule file_bytes_node)
  then show ?thesis using p r a by blast
qed

end
