(* ===== verification/HighWater.thy ===== *)
theory HighWater
  imports HashFile Version
begin

text \<open>
  \<open>internal/selfupdate/state.go\<close>: the file that holds the highest version this device has
  activated.  The interface \<open>high_water\<close> is what the version policy relies on: a successful
  write records the version, a failed one leaves the record alone.  It is interpreted on the
  file store, for worlds in which CreateTemp does not pick the store's own path.
\<close>

section \<open>The file store\<close>

definition read_max_seen :: "string \<Rightarrow> world \<Rightarrow> (string + string) \<times> world" where
  "read_max_seen path w =
    (if blank path then (Inl ''high-water store path is empty'', w)
     else (case os_read_file path w of
         (Inl NotExist, w') \<Rightarrow> (Inr [], w') \<comment> \<open>first install\<close>
       | (Inl _, w') \<Rightarrow> (Inl ''read error'', w')
       | (Inr b, w') \<Rightarrow>
           let v = trim_space b in
           if v = [] then (Inl ''high-water file present but empty (corrupt)'', w') else (Inr v, w')))"

text \<open>Temp file, write, sync, close, rename; the deferred Remove runs on every exit after CreateTemp.\<close>

definition write_max_seen :: "string \<Rightarrow> string \<Rightarrow> world \<Rightarrow> (string + unit) \<times> world" where
  "write_max_seen path v =
    (if blank path then io_fail ''high-water store path is empty''
     else if parse_version v = None then io_fail ''refusing to persist unparseable high-water version''
     else io_or ''create temp'' os_create_temp (\<lambda>tmp.
       io_finally
         (io_or ''write'' (os_write tmp (trim_space v @ [CHR 0x0A])) (\<lambda>_.
          io_or ''sync'' os_call (\<lambda>_.
          io_or ''close'' os_call (\<lambda>_.
          io_or ''rename'' (os_rename tmp path) (\<lambda>_. io_ret ())))))
         (os_remove tmp)))"

definition recorded :: "string \<Rightarrow> world \<Rightarrow> string option" where
  "recorded path w = map_option trim_space (file_bytes w path)"

lemma touches_read_max_seen [frame]: "touches S (read_max_seen path)"
  unfolding touches_def
proof
  fix w
  obtain r w1 where r: "os_read_file path w = (r, w1)" by fastforce
  have "only S w w1" by (rule touchesD [OF touches_calls(1) r])
  then show "only S w (snd (read_max_seen path w))"
    using r by (cases r) (auto simp: read_max_seen_def Let_def split: io_err.splits)
qed

section \<open>The interface\<close>

locale high_water =
  fixes put :: "string \<Rightarrow> 'w \<Rightarrow> ('e + unit) \<times> 'w"
    and mark :: "'w \<Rightarrow> string option"
    and sane :: "'w \<Rightarrow> bool"
  assumes put_ok: "sane w \<Longrightarrow> put v w = (Inr u, w') \<Longrightarrow>
      parse_version v \<noteq> None \<and> mark w' = Some (trim_space v)"
    and put_failed: "sane w \<Longrightarrow> put v w = (Inl e, w') \<Longrightarrow> mark w' = mark w"
    and put_sane: "sane w \<Longrightarrow> put v w = (r, w') \<Longrightarrow> sane w'"
begin

text \<open>A run of writes: the mark is the last one that succeeded.\<close>

fun put_all :: "string list \<Rightarrow> 'w \<Rightarrow> bool list \<times> 'w" where
  "put_all [] w = ([], w)"
| "put_all (v # vs) w =
     (case put v w of (r, w') \<Rightarrow> (case put_all vs w' of (oks, w'') \<Rightarrow> ((\<not> isl r) # oks, w'')))"

lemma put_all_length: "put_all vs w = (oks, w') \<Longrightarrow> length oks = length vs"
  by (induction vs arbitrary: w oks w') (auto split: prod.splits)

lemma put_all_mark:
  "sane w \<Longrightarrow> put_all vs w = (oks, w') \<Longrightarrow>
     mark w' = (if True \<in> set oks
       then Some (trim_space (last (map fst (filter snd (zip vs oks))))) else mark w)"
proof (induction vs arbitrary: w oks w')
  case Nil
  then show ?case by simp
next
  case (Cons v vs)
  obtain r w1 where p: "put v w = (r, w1)" by fastforce
  obtain oks1 w2 where q: "put_all vs w1 = (oks1, w2)" by fastforce
  have len: "length oks1 = length vs" using put_all_length [OF q] .
  have e: "oks = (\<not> isl r) # oks1" "w' = w2" using Cons.prems(2) p q by auto
  have s: "sane w1" using put_sane Cons.prems(1) p .
  from Cons.IH [OF s q] have ih: "mark w2 = (if True \<in> set oks1
       then Some (trim_space (last (map fst (filter snd (zip vs oks1))))) else mark w1)" .
  have nonempty: "True \<in> set oks1 \<Longrightarrow> filter snd (zip vs oks1) \<noteq> []"
    using len by (fastforce simp: filter_empty_conv set_zip in_set_conv_nth)
  have none: "True \<notin> set oks1 \<Longrightarrow> filter snd (zip vs oks1) = []"
    by (auto simp: filter_empty_conv dest: set_zip_rightD)
  show ?case
  proof (cases r)
    case (Inl x)
    then show ?thesis using e ih put_failed [OF Cons.prems(1)] p by auto
  next
    case (Inr u)
    then show ?thesis using e ih put_ok [OF Cons.prems(1)] p nonempty none by auto
  qed
qed

lemma put_blocks_replay:
  assumes "sane w" "put v w = (Inr u, w')" "mark w' = Some m" "parse_version v = Some pv"
    and "parse_version t = Some tv" "compare_version tv pv \<le> 0"
  shows "\<not> vd_allowed (evaluate_version_policy c t m)"
proof
  assume a: "vd_allowed (evaluate_version_policy c t m)"
  have m: "m = trim_space v" using put_ok [OF assms(1,2)] assms(3) by simp
  have "parse_version (trim_space v) = Some (pv\<lparr>Raw := trim_space v\<rparr>)"
    using assms(4) by (auto simp: parse_version_def Let_def split: if_splits option.splits prod.splits)
  moreover have "\<not> blank m"
    using assms(4) m by (auto simp: parse_version_def Let_def)
  moreover have "compare_version tv (pv\<lparr>Raw := trim_space v\<rparr>) = compare_version tv pv"
    by (simp add: compare_version_def Let_def)
  ultimately have "0 < compare_version tv pv"
    using a assms(5) m
    by (auto simp: evaluate_version_policy_def refuse_version_def decide_version_allowed
        split: option.splits if_splits)
  then show False using assms(6) by simp
qed

end

section \<open>The file store meets the contract\<close>

definition temp_apart :: "string \<Rightarrow> world \<Rightarrow> bool" where
  "temp_apart path w \<longleftrightarrow> (\<forall>n. w_temp w n \<noteq> path)"

lemma temp_apart_only: "only S w w' \<Longrightarrow> temp_apart path w \<Longrightarrow> temp_apart path w'"
  by (simp add: only_def temp_apart_def)

lemma temp_apart_tick [simp]: "temp_apart path (tick w) = temp_apart path w"
  by (simp add: temp_apart_def)

lemma os_create_temp_cases:
  "os_create_temp w = (Inr tmp, w') \<Longrightarrow>
     tmp = w_temp w (w_tick w) \<and> only {tmp} w w' \<and> w_node w tmp = None"
  "os_create_temp w = (Inl e, w') \<Longrightarrow> w' = tick w"
  by (auto simp: os_create_temp_def Let_def only_def split: if_splits)

lemma touches_promote:
  "touches {tmp, path} (io_or ''write'' (os_write tmp b) (\<lambda>_.
          io_or ''sync'' os_call (\<lambda>_. io_or ''close'' os_call (\<lambda>_.
          io_or ''rename'' (os_rename tmp path) (\<lambda>_. io_ret ())))))"
  by (intro frame) auto

lemma promote_failed:
  assumes "io_or ''write'' (os_write tmp b) (\<lambda>_.
          io_or ''sync'' os_call (\<lambda>_. io_or ''close'' os_call (\<lambda>_.
          io_or ''rename'' (os_rename tmp path) (\<lambda>_. io_ret ())))) w = (Inl e, w')" and "tmp \<noteq> path"
  shows "w_node w' path = w_node w path"
  using assms by (auto simp: io_or_def io_ret_def os_defs split: if_splits option.splits)

lemma promote_ok:
  assumes "io_or ''write'' (os_write tmp b) (\<lambda>_.
          io_or ''sync'' os_call (\<lambda>_. io_or ''close'' os_call (\<lambda>_.
          io_or ''rename'' (os_rename tmp path) (\<lambda>_. io_ret ())))) w = (Inr u, w')" and "tmp \<noteq> path"
  shows "file_bytes w' path = Some b"
  using assms by (auto simp: io_success os_defs file_bytes_def split: if_splits option.splits)

lemma write_max_seen_early:
  "blank path \<or> parse_version v = None \<Longrightarrow> \<exists>e. write_max_seen path v w = (Inl e, w)"
  by (auto simp: write_max_seen_def io_fail_def)

lemma write_max_seen_cases:
  assumes "temp_apart path w" and "write_max_seen path v w = (r, w')"
  shows "temp_apart path w'"
    and "isl r \<Longrightarrow> w_node w' path = w_node w path"
    and "\<not> isl r \<Longrightarrow> parse_version v \<noteq> None \<and> file_bytes w' path = Some (trim_space v @ [CHR 0x0A])"
proof -
  let ?m = "\<lambda>tmp. io_or ''write'' (os_write tmp (trim_space v @ [CHR 0x0A])) (\<lambda>_.
          io_or ''sync'' os_call (\<lambda>_. io_or ''close'' os_call (\<lambda>_.
          io_or ''rename'' (os_rename tmp path) (\<lambda>_. io_ret ()))))"
  have "temp_apart path w' \<and> (isl r \<longrightarrow> w_node w' path = w_node w path) \<and>
     (\<not> isl r \<longrightarrow> parse_version v \<noteq> None \<and> file_bytes w' path = Some (trim_space v @ [CHR 0x0A]))"
  proof (cases "blank path \<or> parse_version v = None")
    case True
    then show ?thesis using assms write_max_seen_early [of path v w] by auto
  next
    case False
    obtain t w1 where t: "os_create_temp w = (t, w1)" by fastforce
    show ?thesis
    proof (cases t)
      case (Inl e)
      then show ?thesis
        using assms False t os_create_temp_cases(2) [of w e w1]
        by (auto simp: write_max_seen_def io_or_def)
    next
      case (Inr tmp)
      have ne: "tmp \<noteq> path" and o1: "only {tmp} w w1"
        using os_create_temp_cases(1) [of w tmp w1] t Inr assms(1) by (auto simp: temp_apart_def)
      obtain r2 w2 where m: "?m tmp w1 = (r2, w2)" by fastforce
      have o2: "only {tmp, path} w1 w2" using touchesD [OF touches_promote m] .
      obtain r3 w3 where rm: "os_remove tmp w2 = (r3, w3)" by fastforce
      have o3: "only {tmp} w2 w3" by (rule touchesD [OF touches_writes(3) rm]) simp
      have e: "r = r2" "w' = w3"
        using assms False t Inr m rm by (auto simp: write_max_seen_def io_or_def [of "''create temp''"] io_finally_def)
      have keep: "w_node w1 path = w_node w path" "w_node w3 path = w_node w2 path"
        using o1 o3 ne by (auto simp: only_def)
      have apart: "temp_apart path w'"
        using assms(1) o1 o2 o3 e temp_apart_only by blast
      show ?thesis
      proof (cases r2)
        case (Inl e2)
        then show ?thesis using promote_failed [of tmp _ path w1 e2 w2] m ne keep e apart by auto
      next
        case (Inr u)
        then show ?thesis
          using promote_ok [of tmp _ path w1 u w2] m ne keep e apart False by (auto simp: file_bytes_def)
      qed
    qed
  qed
  then show "temp_apart path w'" "isl r \<Longrightarrow> w_node w' path = w_node w path"
    "\<not> isl r \<Longrightarrow> parse_version v \<noteq> None \<and> file_bytes w' path = Some (trim_space v @ [CHR 0x0A])"
    by blast+
qed

lemma trim_newline: "space_head s = 0 \<Longrightarrow> space_last (rev s) = 0 \<Longrightarrow> s \<noteq> [] \<Longrightarrow> trim_space (s @ [CHR 0x0A]) = s"
proof -
  assume a: "space_head s = 0" "space_last (rev s) = 0" "s \<noteq> []"
  have n: "space_last (CHR 0x0A # rev s) = 1" by (simp add: space_last_def ascii_space_def)
  have "\<not> space2 c (CHR 0x0A)" "\<not> space3 b c (CHR 0x0A)" for b c
    by (simp_all add: space2_def space3_def less_eq_char_def)
  then have "space_head (s @ [CHR 0x0A]) = 0"
    using a by (auto simp: space_head_def split: list.splits if_splits)
  then show ?thesis
    using a n by (simp add: trim_space_def trim_left_nospace trim_right_rev.simps [of "CHR 0x0A # rev s"]
        trim_right_rev_nospace)
qed

lemma trim_stored: "trim_space v \<noteq> [] \<Longrightarrow> trim_space (trim_space v @ [CHR 0x0A]) = trim_space v"
  by (rule trim_newline) (simp_all add: space_head_trim_space, simp add: trim_space_def)

lemma parsed_not_blank: "parse_version v \<noteq> None \<Longrightarrow> trim_space v \<noteq> []"
  by (auto simp: parse_version_def Let_def)

interpretation file_high_water: high_water "write_max_seen path" "recorded path" "temp_apart path"
proof
  fix w v u w'
  assume s: "temp_apart path w" and p: "write_max_seen path v w = (Inr u, w')"
  then show "parse_version v \<noteq> None \<and> recorded path w' = Some (trim_space v)"
    using write_max_seen_cases(3) [OF s p] trim_stored parsed_not_blank by (simp add: recorded_def)
next
  fix w v e w'
  assume s: "temp_apart path w" and p: "write_max_seen path v w = (Inl e, w')"
  then show "recorded path w' = recorded path w"
    using write_max_seen_cases(2) [OF s p] by (simp add: recorded_def file_bytes_def)
next
  fix w v r w'
  assume "temp_apart path w" and "write_max_seen path v w = (r, w')"
  then show "temp_apart path w'" by (rule write_max_seen_cases(1))
qed

text \<open>
  Fact: once a version has been recorded as activated, the policy that reads the record
  allows no target at or below it, whatever version is running: a successful write closes the
  replay window for good.
\<close>

theorem recorded_version_blocks_replay:
  assumes "temp_apart path w" and "write_max_seen path v w = (Inr (), w')"
    and "recorded path w' = Some m" and "parse_version v = Some pv"
    and "parse_version t = Some tv" and "compare_version tv pv \<le> 0"
  shows "\<not> vd_allowed (evaluate_version_policy current t m)"
  using assms by (rule file_high_water.put_blocks_replay)

text \<open>
  Fact: writing the mark is atomic under every pattern of I/O faults: after a failed
  write the file holds what it held before, after a successful one it holds the version, and
  reading it back without a fault returns the version.
\<close>

theorem write_max_seen_atomic:
  assumes "temp_apart path w" and "write_max_seen path v w = (r, w')"
  shows "(isl r \<longrightarrow> w_node w' path = w_node w path) \<and>
    (\<not> isl r \<longrightarrow> parse_version v \<noteq> None \<and>
      (\<not> faulty w' \<longrightarrow> fst (read_max_seen path w') = Inr (trim_space v)))"
proof -
  have "fst (read_max_seen path w') = Inr (trim_space v)" if "\<not> isl r" "\<not> faulty w'"
  proof -
    have b: "\<not> blank path" using assms(2) that by (auto simp: write_max_seen_def io_fail_def)
    have f: "parse_version v \<noteq> None" "file_bytes w' path = Some (trim_space v @ [CHR 0x0A])"
      using write_max_seen_cases(3) [OF assms] that by auto
    then have "os_read_file path w' = (Inr (trim_space v @ [CHR 0x0A]), tick w')"
      using that by (auto simp: os_read_file_def file_bytes_def split: option.splits node.splits)
    then show ?thesis
      using b trim_stored [OF parsed_not_blank [OF f(1)]] parsed_not_blank [OF f(1)]
      by (simp add: read_max_seen_def)
  qed
  then show ?thesis using write_max_seen_cases(2,3) [OF assms] by auto
qed

theorem write_max_seen_atomic_witness:
  "\<exists>w'. write_max_seen ''hw'' '' v1.2.3 '' sample_world = (Inr (), w') \<and>
     fst (read_max_seen ''hw'' w') = Inr ''v1.2.3''"
proof -
  have a: "temp_apart ''hw'' sample_world" by (simp add: temp_apart_def sample_world_def)
  obtain r w' where w: "write_max_seen ''hw'' '' v1.2.3 '' sample_world = (r, w')" by fastforce
  have "\<not> isl (fst (write_max_seen ''hw'' '' v1.2.3 '' sample_world))" by code_simp
  then have r: "r = Inr ()" using w by (cases r) auto
  have "\<not> faulty (snd (write_max_seen ''hw'' '' v1.2.3 '' sample_world))" by code_simp
  moreover have "trim_space '' v1.2.3 '' = ''v1.2.3''" by code_simp
  ultimately show ?thesis using write_max_seen_atomic [OF a w] r w by auto
qed

theorem recorded_version_blocks_replay_witness:
  "\<exists>w'. write_max_seen ''hw'' ''1.2.3'' sample_world = (Inr (), w') \<and>
     \<not> vd_allowed (evaluate_version_policy ''1.0.0'' ''1.2.2'' ''1.2.3'')"
proof -
  have a: "temp_apart ''hw'' sample_world" by (simp add: temp_apart_def sample_world_def)
  obtain r w' where w: "write_max_seen ''hw'' ''1.2.3'' sample_world = (r, w')" by fastforce
  have "\<not> isl (fst (write_max_seen ''hw'' ''1.2.3'' sample_world))" by code_simp
  then have r: "r = Inr ()" using w by (cases r) auto
  have m: "recorded ''hw'' w' = Some ''1.2.3''"
  proof -
    have "recorded ''hw'' (snd (write_max_seen ''hw'' ''1.2.3'' sample_world)) = Some ''1.2.3''" by code_simp
    then show ?thesis using w by simp
  qed
  have v: "parse_version ''1.2.3'' = Some \<lparr>Major = 1, Minor = 2, Patch = 3, Prerelease = [], Build = [], Raw = ''1.2.3''\<rparr>"
    and t: "parse_version ''1.2.2'' = Some \<lparr>Major = 1, Minor = 2, Patch = 2, Prerelease = [], Build = [], Raw = ''1.2.2''\<rparr>"
    by code_simp+
  show ?thesis
    using recorded_version_blocks_replay [OF a w [unfolded r] m v t] w r by (auto simp: compare_version_def Let_def cmp_uint_def)
qed

end
