(* ===== verification/ActivationExecute.thy ===== *)
theory ActivationExecute
  imports ActivationPlan HighWater
begin

text \<open>
  \<open>internal/selfupdate/activation_execute.go\<close>: the helper that applies a staged update.  It backs
  the running binary up, stops the service, puts the staged binary in its place, starts the
  service, records the version and persists the outcome; any failure after the stop restores the
  backup.  \<open>svc\<close> says whether a service controller was given, \<open>hw\<close> is the optional writer of
  the high-water mark.
\<close>

definition ActivationActivated :: string where
  "ActivationActivated = ''ACTIVATED''"

definition ActivationRolledBack :: string where
  "ActivationRolledBack = ''ROLLED_BACK''"

definition ActivationFailed :: string where
  "ActivationFailed = ''ACTIVATION_FAILED''"

type_synonym high_water_writer = "string \<Rightarrow> world \<Rightarrow> (string + unit) \<times> world"

definition zero_outcome :: activation_outcome where
  "zero_outcome = \<lparr>ao_status = [], ao_plan_id = [], ao_target_version = [], ao_new_sha = [],
     ao_backup_sha = [], ao_running_verified = False, ao_persisted = False, ao_persist_error = [],
     ao_reason = []\<rparr>"

definition activation_failed :: "string \<Rightarrow> string \<Rightarrow> string \<Rightarrow> string \<Rightarrow> activation_outcome" where
  "activation_failed plan_id target backup reason =
     zero_outcome\<lparr>ao_status := ActivationFailed, ao_plan_id := plan_id, ao_target_version := target,
       ao_backup_sha := backup, ao_reason := sanitize_reason reason\<rparr>"

definition valid_activation_plan_id_or_empty :: "string \<Rightarrow> string" where
  "valid_activation_plan_id_or_empty i = (if \<not> valid_staging_id i then [] else i)"

definition write_activation_outcome ::
    "env \<Rightarrow> string \<Rightarrow> string \<Rightarrow> activation_outcome \<Rightarrow> world \<Rightarrow> (plan_err + unit) \<times> world" where
  "write_activation_outcome E root i out =
    (if \<not> valid_staging_id i then io_fail (pw_err ''invalid activation outcome identifier'')
     else (case env_enc_outcome E out of
         None \<Rightarrow> io_fail (pw_err ''marshal activation outcome failed'')
       | Some raw \<Rightarrow> atomic_write_json (activation_outcome_name_for E root i) (raw @ [CHR 0x0A])))"

definition load_activation_outcome ::
    "env \<Rightarrow> string \<Rightarrow> string \<Rightarrow> world \<Rightarrow> (refusal + activation_outcome) \<times> world" where
  "load_activation_outcome E root i =
    (if \<not> valid_staging_id i
     then io_fail (ErrActivationPlanWrite, ''invalid activation outcome identifier'')
     else io_or (ErrActivationPlanWrite, ''read activation outcome failed'')
       (os_read_file (activation_outcome_name_for E root i)) (\<lambda>raw.
         case env_dec_outcome E (strip_utf8_bom raw) of
           None \<Rightarrow> io_fail (ErrActivationPlanWrite, ''decode activation outcome failed'')
         | Some out \<Rightarrow>
             if ao_status out = [] then io_fail (ErrActivationPlanWrite, ''activation outcome missing status'')
             else io_ret out))"

definition persist_activation_outcome ::
    "env \<Rightarrow> string \<Rightarrow> string \<Rightarrow> activation_outcome \<Rightarrow> world \<Rightarrow> activation_outcome \<times> world" where
  "persist_activation_outcome E root i out =
    (if \<not> valid_staging_id i
     then Pair (out\<lparr>ao_persist_error := ''invalid activation outcome identifier''\<rparr>)
     else io_else (write_activation_outcome E root i (out\<lparr>ao_persisted := True\<rparr>))
       (\<lambda>e. Pair (out\<lparr>ao_persist_error :=
          sanitize_reason (''activation outcome persistence failed: '' @ plan_err_text e)\<rparr>))
       (\<lambda>_. Pair (out\<lparr>ao_persisted := True\<rparr>)))"

definition rollback_after_activation_failure ::
    "env \<Rightarrow> string \<Rightarrow> string \<Rightarrow> activation_plan \<Rightarrow> string \<Rightarrow> string \<Rightarrow> int \<Rightarrow>
     world \<Rightarrow> activation_outcome \<times> world" where
  "rollback_after_activation_failure E root i p backup_sha reason max_bytes =
    (let backup = activation_backup_name_for E (env_dir E (ap_staged_path p)) (ap_staging_id p);
         cur = ap_current_path p; tmp = cur @ ''.ag029.rollback.tmp'';
         failed = (\<lambda>r. persist_activation_outcome E root i
                     (activation_failed (ap_plan_id p) (ap_target_version p) backup_sha r)) in
     io_else (copy_binary_with_expected_hash E backup tmp backup_sha max_bytes)
       (\<lambda>e. failed (''rollback restore failed: '' @ snd e))
       (\<lambda>_. io_else (replace_file tmp cur)
         (\<lambda>_. failed ''rollback promote failed'')
         (\<lambda>_. io_else svc_start
           (\<lambda>_. failed ''rollback start failed'')
           (\<lambda>_. persist_activation_outcome E root i
              (zero_outcome\<lparr>ao_status := ActivationRolledBack, ao_plan_id := ap_plan_id p,
                 ao_target_version := ap_target_version p, ao_backup_sha := backup_sha,
                 ao_running_verified := True,
                 ao_reason := sanitize_reason (reason @ ''; rollback restored'')\<rparr>)))))"

text \<open>The end of a successful run, from the recording of the version on.\<close>

definition finish_activation ::
    "env \<Rightarrow> string \<Rightarrow> string \<Rightarrow> activation_plan \<Rightarrow> string \<Rightarrow> string \<Rightarrow> high_water_writer option \<Rightarrow>
     world \<Rightarrow> activation_outcome \<times> world" where
  "finish_activation E root i p backup_sha new_sha hw =
    io_else (case hw of None \<Rightarrow> io_ret () | Some put \<Rightarrow> put (ap_target_version p))
      (\<lambda>_. persist_activation_outcome E root i
         (activation_failed (ap_plan_id p) (ap_target_version p) backup_sha ''high-water persistence failed''))
      (\<lambda>_. let out = zero_outcome\<lparr>ao_status := ActivationActivated, ao_plan_id := ap_plan_id p,
                 ao_target_version := ap_target_version p, ao_new_sha := new_sha,
                 ao_backup_sha := backup_sha, ao_running_verified := True,
                 ao_reason := ''activation applied''\<rparr> in
         io_else (write_activation_outcome E root i (out\<lparr>ao_persisted := True\<rparr>))
           (\<lambda>_. Pair (out\<lparr>ao_status := ActivationFailed, ao_running_verified := True,
              ao_reason := ''activation applied but evidence persistence failed''\<rparr>))
           (\<lambda>_. Pair (out\<lparr>ao_persisted := True\<rparr>)))"

text \<open>The part between the stop of the service and its start.\<close>

definition swap_binary ::
    "env \<Rightarrow> string \<Rightarrow> string \<Rightarrow> activation_plan \<Rightarrow> string \<Rightarrow> int \<Rightarrow> high_water_writer option \<Rightarrow>
     world \<Rightarrow> activation_outcome \<times> world" where
  "swap_binary E root i p backup_sha max_bytes hw =
    (let cur = ap_current_path p; tmp = cur @ ''.ag029.tmp'';
         rollback = (\<lambda>r. rollback_after_activation_failure E root i p backup_sha r max_bytes) in
     io_else (copy_binary_with_expected_hash E (ap_staged_path p) tmp (ap_sha256 p) max_bytes)
       (\<lambda>e. rollback (''binary activation failed: '' @ snd e))
       (\<lambda>new. io_else (replace_file tmp cur)
         (\<lambda>_. rollback ''binary activation promote failed'')
         (\<lambda>_. io_else svc_start
           (\<lambda>_. rollback ''start service failed'')
           (\<lambda>_. finish_activation E root i p backup_sha (hr_sha new) hw))))"

definition activate_prepared_update ::
    "env \<Rightarrow> string \<Rightarrow> string \<Rightarrow> int \<Rightarrow> bool \<Rightarrow> high_water_writer option \<Rightarrow>
     world \<Rightarrow> activation_outcome \<times> world" where
  "activate_prepared_update E root i max_bytes svc hw =
    (if \<not> svc
     then persist_activation_outcome E root i
       (activation_failed (valid_activation_plan_id_or_empty i) [] [] ''activation service controller is required'')
     else
       io_else (load_activation_plan E root i)
         (\<lambda>e. persist_activation_outcome E root i (activation_failed i [] [] (snd e)))
         (\<lambda>p. let failed = (\<lambda>backup r. persist_activation_outcome E root i
                     (activation_failed (ap_plan_id p) (ap_target_version p) backup r)) in
           io_else (verify_activation_plan_ready E root i max_bytes)
             (\<lambda>e. failed [] (snd e))
             (\<lambda>_. io_else (copy_binary_with_expected_hash E (ap_current_path p)
                        (activation_backup_name_for E root i) [] max_bytes)
               (\<lambda>e. failed [] (snd e))
               (\<lambda>backup. io_else svc_stop
                 (\<lambda>_. failed (hr_sha backup) ''stop service failed'')
                 (\<lambda>_. swap_binary E root i p (hr_sha backup) max_bytes hw)))))"

section \<open>Frames\<close>

abbreviation outcome_path :: "env \<Rightarrow> string \<Rightarrow> string \<Rightarrow> string" where
  "outcome_path E root i \<equiv> activation_outcome_name_for E root i"

abbreviation outcome_paths :: "env \<Rightarrow> string \<Rightarrow> string \<Rightarrow> string set" where
  "outcome_paths E root i \<equiv> {outcome_path E root i, outcome_path E root i @ ''.tmp''}"

lemmas status_defs = ActivationActivated_def ActivationRolledBack_def ActivationFailed_def

lemma status_distinct [simp]:
  "ActivationActivated \<noteq> ActivationRolledBack" "ActivationRolledBack \<noteq> ActivationActivated"
  "ActivationActivated \<noteq> ActivationFailed" "ActivationFailed \<noteq> ActivationActivated"
  "ActivationRolledBack \<noteq> ActivationFailed" "ActivationFailed \<noteq> ActivationRolledBack"
  by (simp_all add: status_defs)

lemma activation_failed_status [simp]: "ao_status (activation_failed a b c d) = ActivationFailed"
  by (simp add: activation_failed_def)

lemma touches_Pair [frame]: "touches S (Pair r)"
  by (simp add: touches_def)

lemma touches_write_outcome [frame]: "outcome_paths E root i \<subseteq> S \<Longrightarrow> touches S (write_activation_outcome E root i out)"
  unfolding write_activation_outcome_def by (intro frame) auto

lemma touches_persist [frame]: "outcome_paths E root i \<subseteq> S \<Longrightarrow> touches S (persist_activation_outcome E root i out)"
  unfolding persist_activation_outcome_def by (intro frame)

lemma persist_status:
  "persist_activation_outcome E root i out w = (o', w') \<Longrightarrow>
     ao_status o' = ao_status out \<and> only (outcome_paths E root i) w w'"
  using touchesD [OF touches_persist [OF subset_refl], of E root i out w o' w']
  by (auto simp: persist_activation_outcome_def io_else_def split: if_splits prod.splits sum.splits)

lemma write_max_seen_frame:
  assumes "write_max_seen hp v w = (r, w')" and "q \<noteq> hp" and "temp_apart q w"
  shows "w_node w' q = w_node w q \<and> w_running w' = w_running w \<and> w_temp w' = w_temp w"
proof (cases "blank hp \<or> parse_version v = None")
  case True
  then show ?thesis using assms(1) write_max_seen_early [of hp v w] by auto
next
  case False
  obtain t w1 where t: "os_create_temp w = (t, w1)" by fastforce
  show ?thesis
  proof (cases t)
    case (Inl e)
    then show ?thesis
      using assms(1) False t os_create_temp_cases(2) [of w e w1] by (auto simp: write_max_seen_def io_or_def)
  next
    case (Inr tmp)
    have ne: "tmp \<noteq> q" and o1: "only {tmp, hp} w w1"
      using os_create_temp_cases(1) [of w tmp w1] t Inr assms(3) by (auto simp: temp_apart_def elim: only_mono)
    have "touches {tmp, hp} (io_finally (io_or ''write'' (os_write tmp (trim_space v @ [CHR 0x0A])) (\<lambda>_.
          io_or ''sync'' os_call (\<lambda>_. io_or ''close'' os_call (\<lambda>_.
          io_or ''rename'' (os_rename tmp hp) (\<lambda>_. io_ret ()))))) (os_remove tmp))"
      by (intro frame) auto
    then have o2: "only {tmp, hp} w1 w'"
      using assms(1) False t Inr by (auto simp: write_max_seen_def io_or_def [of "''create temp''"] intro: touchesD)
    have "only {tmp, hp} w w'" by (rule only_trans [OF o1 o2])
    then show ?thesis using ne assms(2) by (simp add: only_def)
  qed
qed

section \<open>What each phase does to the current binary\<close>

text \<open>The current binary and the high-water file are not among the files the helper writes besides them.\<close>

definition files_apart :: "env \<Rightarrow> string \<Rightarrow> string \<Rightarrow> string option \<Rightarrow> string \<Rightarrow> world \<Rightarrow> bool" where
  "files_apart E root i hp cur w \<longleftrightarrow> cur \<notin> outcome_paths E root i \<and>
     (\<forall>h. hp = Some h \<longrightarrow> h \<noteq> cur \<and> h \<notin> outcome_paths E root i \<and> temp_apart cur w \<and> temp_apart h w)"

lemma files_apart_temp: "files_apart E root i hp cur w \<Longrightarrow> w_temp w' = w_temp w \<Longrightarrow> files_apart E root i hp cur w'"
  by (simp add: files_apart_def temp_apart_def)

lemma finish_cases:
  assumes "finish_activation E root i p backup new (map_option write_max_seen hp) w = (out, w')"
    and a: "files_apart E root i hp (ap_current_path p) w"
  shows "ao_status out = ActivationActivated \<or> ao_status out = ActivationFailed"
    and "w_node w' (ap_current_path p) = w_node w (ap_current_path p)" and "w_running w' = w_running w"
    and "ao_status out = ActivationActivated \<Longrightarrow> ao_persisted out \<and> ao_new_sha out = new \<and>
      ao_running_verified out \<and> ao_target_version out = ap_target_version p \<and>
      (\<exists>raw. env_enc_outcome E out = Some raw \<and> file_bytes w' (outcome_path E root i) = Some (raw @ [CHR 0x0A])) \<and>
      (\<forall>h. hp = Some h \<longrightarrow> recorded h w' = Some (trim_space (ap_target_version p)))"
proof -
  let ?put = "case map_option write_max_seen hp of None \<Rightarrow> io_ret () | Some put \<Rightarrow> put (ap_target_version p)"
  let ?cur = "ap_current_path p"
  let ?out = "zero_outcome\<lparr>ao_status := ActivationActivated, ao_plan_id := ap_plan_id p,
                 ao_target_version := ap_target_version p, ao_new_sha := new,
                 ao_backup_sha := backup, ao_running_verified := True,
                 ao_reason := ''activation applied''\<rparr>"
  obtain r w1 where put: "?put w = (r, w1)" by fastforce
  have k: "w_node w1 ?cur = w_node w ?cur" "w_running w1 = w_running w" "w_temp w1 = w_temp w"
    using put a write_max_seen_frame [of _ "ap_target_version p" w r w1 ?cur]
    by (auto simp: files_apart_def io_ret_def split: option.splits)
  have rec: "\<forall>h. hp = Some h \<longrightarrow> recorded h w1 = Some (trim_space (ap_target_version p))" if "r = Inr ()"
    using put a that file_high_water.put_ok [of _ w "ap_target_version p" "()" w1]
    by (auto simp: files_apart_def)
  have "(ao_status out = ActivationActivated \<or> ao_status out = ActivationFailed) \<and>
      only (outcome_paths E root i) w1 w' \<and>
      (ao_status out = ActivationActivated \<longrightarrow> r = Inr () \<and> out = ?out\<lparr>ao_persisted := True\<rparr> \<and>
        (\<exists>raw. env_enc_outcome E out = Some raw \<and> file_bytes w' (outcome_path E root i) = Some (raw @ [CHR 0x0A])))"
  proof (cases r)
    case (Inl e)
    then show ?thesis
      using assms(1) put persist_status [of E root i _ w1 out w'] by (auto simp: finish_activation_def io_else_def)
  next
    case (Inr u)
    obtain r2 w2 where wr: "write_activation_outcome E root i (?out\<lparr>ao_persisted := True\<rparr>) w1 = (r2, w2)" by fastforce
    have o: "only (outcome_paths E root i) w1 w2" by (rule touchesD [OF touches_write_outcome wr]) simp
    show ?thesis
    proof (cases r2)
      case (Inl e)
      then show ?thesis using assms(1) put Inr wr o by (auto simp: finish_activation_def io_else_def Let_def)
    next
      case Inr2: (Inr u2)
      have e: "out = ?out\<lparr>ao_persisted := True\<rparr>" "w' = w2"
        using assms(1) put Inr wr Inr2 by (auto simp: finish_activation_def io_else_def Let_def)
      have "\<exists>raw. env_enc_outcome E out = Some raw \<and> file_bytes w' (outcome_path E root i) = Some (raw @ [CHR 0x0A])"
        using wr Inr2 e by (auto simp: write_activation_outcome_def io_fail_def dest: atomic_write_json_Inr split: if_splits option.splits)
      then show ?thesis using e o Inr by auto
    qed
  qed
  then have st: "ao_status out = ActivationActivated \<or> ao_status out = ActivationFailed"
    and o: "only (outcome_paths E root i) w1 w'"
    and act: "ao_status out = ActivationActivated \<Longrightarrow> r = Inr () \<and> out = ?out\<lparr>ao_persisted := True\<rparr> \<and>
        (\<exists>raw. env_enc_outcome E out = Some raw \<and> file_bytes w' (outcome_path E root i) = Some (raw @ [CHR 0x0A]))"
    by blast+
  show "ao_status out = ActivationActivated \<or> ao_status out = ActivationFailed" by (rule st)
  show "w_node w' ?cur = w_node w ?cur" "w_running w' = w_running w"
    using o k a by (auto simp: only_def files_apart_def)
  have rec': "recorded h w' = recorded h w1" if "hp = Some h" for h
    using o a that by (auto simp: only_bytes recorded_def files_apart_def)
  show "ao_persisted out \<and> ao_new_sha out = new \<and> ao_running_verified out \<and> ao_target_version out = ap_target_version p \<and>
      (\<exists>raw. env_enc_outcome E out = Some raw \<and> file_bytes w' (outcome_path E root i) = Some (raw @ [CHR 0x0A])) \<and>
      (\<forall>h. hp = Some h \<longrightarrow> recorded h w' = Some (trim_space (ap_target_version p)))"
    if "ao_status out = ActivationActivated"
    using act [OF that] rec rec' by auto
qed

lemma only_node: "only S w w' \<Longrightarrow> p \<notin> S \<Longrightarrow> w_node w' p = w_node w p"
  by (simp add: only_def)

lemma only_temp: "only S w w' \<Longrightarrow> w_temp w' = w_temp w"
  by (simp add: only_def)

lemma svc_frame:
  assumes "svc_start w = (r, w')"
  shows "w_node w' = w_node w" and "w_temp w' = w_temp w"
  using svc_node(2,4) [of w] assms by auto

text \<open>The current binary after a step that may replace it by a copy of \<open>b\<close>.\<close>

definition kept_or_put :: "string \<Rightarrow> string \<Rightarrow> world \<Rightarrow> world \<Rightarrow> bool" where
  "kept_or_put cur b w w' \<longleftrightarrow>
     w_node w' cur = w_node w cur \<or> w_node w' cur = None \<or> file_bytes w' cur = Some b"

text \<open>Copying a file next to the current binary and moving it there.\<close>

lemma install_cases:
  assumes "copy_binary_with_expected_hash E src tmp e m w = (Inr h, w1)" and "replace_file tmp cur w1 = (r, w2)"
    and "m < 2 ^ 63 - 1" and "file_bytes w src = Some b" and "tmp \<noteq> cur"
  shows "kept_or_put cur b w w2" and "\<not> isl r \<Longrightarrow> file_bytes w2 cur = Some b" and "hr_sha h = env_sha E b"
    and "e \<noteq> [] \<Longrightarrow> fst (verify_sha256_equal (env_sha E b) e) = ErrNone"
    and "only {tmp, cur} w w2" and "tmp \<noteq> src" and "w_node w tmp = None"
proof -
  have c: "file_bytes w1 tmp = Some b" "hr_sha h = env_sha E b" "src \<noteq> tmp" "w_node w tmp = None"
    "e \<noteq> [] \<Longrightarrow> fst (verify_sha256_equal (env_sha E b) e) = ErrNone"
    using copy_Inr [OF assms(1,3)] assms(4) by auto
  have o1: "only {tmp} w w1" by (rule touchesD [OF touches_copy assms(1)]) simp
  have o2: "only {tmp, cur} w1 w2" by (rule touchesD [OF touches_replace_file assms(2)]) simp_all
  have k: "w_node w1 cur = w_node w cur" using only_node [OF o1] assms(5) by simp
  show "kept_or_put cur b w w2"
    using replace_file_cases(2) [OF assms(2,5)] k c(1) by (auto simp: kept_or_put_def file_bytes_def)
  show "\<not> isl r \<Longrightarrow> file_bytes w2 cur = Some b"
    using replace_file_cases(1) [OF assms(2,5)] c(1) by (simp add: file_bytes_def)
  show "hr_sha h = env_sha E b" "tmp \<noteq> src" "w_node w tmp = None"
    "e \<noteq> [] \<Longrightarrow> fst (verify_sha256_equal (env_sha E b) e) = ErrNone" using c by auto
  show "only {tmp, cur} w w2" using only_trans [OF only_mono [OF o1] o2] by auto
qed

lemma rollback_cases:
  assumes "rollback_after_activation_failure E root i p sha reason m w = (out, w')" and "m < 2 ^ 63 - 1"
    and "file_bytes w (activation_backup_name_for E (env_dir E (ap_staged_path p)) (ap_staging_id p)) = Some c"
    and "ap_current_path p \<notin> outcome_paths E root i"
  shows "ao_status out = ActivationRolledBack \<or> ao_status out = ActivationFailed"
    and "kept_or_put (ap_current_path p) c w w'"
    and "ao_status out = ActivationRolledBack \<Longrightarrow> file_bytes w' (ap_current_path p) = Some c \<and> w_running w'"
proof -
  let ?bk = "activation_backup_name_for E (env_dir E (ap_staged_path p)) (ap_staging_id p)"
  let ?cur = "ap_current_path p" and ?tmp = "ap_current_path p @ ''.ag029.rollback.tmp''"
  have ne: "?tmp \<noteq> ?cur" by simp
  obtain r1 w1 where c1: "copy_binary_with_expected_hash E ?bk ?tmp sha m w = (r1, w1)" by fastforce
  have o1: "only {?tmp} w w1" by (rule touchesD [OF touches_copy c1]) simp
  have fin: "ao_status out' = ao_status x \<and> w_node w'' ?cur = w_node v ?cur \<and> w_running w'' = w_running v"
    if "persist_activation_outcome E root i x v = (out', w'')" for x v out' w''
    using persist_status [OF that] assms(4) by (auto simp: only_def)
  have "(ao_status out = ActivationRolledBack \<or> ao_status out = ActivationFailed) \<and> kept_or_put ?cur c w w' \<and>
    (ao_status out = ActivationRolledBack \<longrightarrow> file_bytes w' ?cur = Some c \<and> w_running w')"
  proof (cases r1)
    case (Inl e)
    then show ?thesis
      using assms(1) c1 fin [of _ w1 out w'] only_node [OF o1, of ?cur] ne
      by (auto simp: rollback_after_activation_failure_def Let_def io_else_def kept_or_put_def)
  next
    case (Inr h)
    obtain r2 w2 where c2: "replace_file ?tmp ?cur w1 = (r2, w2)" by fastforce
    note I = install_cases [OF c1 [unfolded Inr] c2 assms(2,3) ne]
    show ?thesis
    proof (cases r2)
      case (Inl e)
      then show ?thesis
        using assms(1) c1 c2 Inr fin [of _ w2 out w'] I(1)
        by (auto simp: rollback_after_activation_failure_def Let_def io_else_def kept_or_put_def file_bytes_def)
    next
      case Inr2: (Inr u)
      obtain r3 w3 where c3: "svc_start w2 = (r3, w3)" by fastforce
      have b: "file_bytes w3 ?cur = Some c" using I(2) Inr2 svc_frame(1) [OF c3] by (simp add: file_bytes_def)
      have "(ao_status out = ActivationRolledBack \<or> ao_status out = ActivationFailed) \<and>
          w_node w' ?cur = w_node w3 ?cur \<and> (ao_status out = ActivationRolledBack \<longrightarrow> w_running w')"
      proof (cases r3)
        case (Inl e)
        then show ?thesis
          using assms(1) c1 c2 c3 Inr Inr2 fin [of _ w3 out w']
          by (auto simp: rollback_after_activation_failure_def Let_def io_else_def)
      next
        case Inr3: (Inr u')
        then show ?thesis
          using assms(1) c1 c2 c3 Inr Inr2 fin [of _ w3 out w'] svc_Inr(2) [of w2 u' w3]
          by (auto simp: rollback_after_activation_failure_def Let_def io_else_def zero_outcome_def)
      qed
      then show ?thesis using b by (auto simp: kept_or_put_def file_bytes_def)
    qed
  qed
  then show "ao_status out = ActivationRolledBack \<or> ao_status out = ActivationFailed" "kept_or_put ?cur c w w'"
    "ao_status out = ActivationRolledBack \<Longrightarrow> file_bytes w' ?cur = Some c \<and> w_running w'" by blast+
qed

lemma copy_existing:
  assumes "copy_binary_with_expected_hash E src dst e m w = (r, w')" and "w_node w dst \<noteq> None"
  shows "isl r \<and> w_node w' = w_node w"
proof -
  obtain r1 w1 where h: "hash_file_with_limit (env_sha E) src m w = (r1, w1)" by fastforce
  have n1: "w_node w1 = w_node w" using touchesD [OF touches_hash_file h, of "{}"] by (auto simp: only_def)
  obtain r2 w2 where r: "os_read_file src w1 = (r2, w2)" by fastforce
  have n2: "w_node w2 = w_node w" using touchesD [OF touches_calls(1) r, of "{}"] n1 by (auto simp: only_def)
  obtain e3 w3 where c: "os_create_excl dst w2 = (Inl e3, w3)" "w_node w3 = w_node w"
  proof -
    have "\<exists>e. os_create_excl dst w2 = (Inl e, tick w2)" using n2 assms(2) by (auto simp: os_create_excl_def)
    then show ?thesis using that n2 by auto
  qed
  show ?thesis
    using assms(1) h r c n1 n2
    by (auto simp: copy_binary_with_expected_hash_def io_bind_def io_or_def io_fail_def Let_def
        split: sum.splits prod.splits if_splits)
qed

text \<open>What a run that got past the stop of the service promises; \<open>b\<close> staged, \<open>c\<close> backed up.\<close>

definition swap_contract ::
    "env \<Rightarrow> string \<Rightarrow> string \<Rightarrow> activation_plan \<Rightarrow> string option \<Rightarrow> string \<Rightarrow> string \<Rightarrow>
     activation_outcome \<Rightarrow> world \<Rightarrow> bool" where
  "swap_contract E root i p hp b c out w' \<longleftrightarrow>
     (if ao_status out = ActivationActivated
      then file_bytes w' (ap_current_path p) = Some b \<and> w_running w' \<and>
        fst (verify_sha256_equal (env_sha E b) (ap_sha256 p)) = ErrNone \<and> ao_new_sha out = env_sha E b \<and>
        ao_persisted out \<and>
        (\<exists>raw. env_enc_outcome E out = Some raw \<and> file_bytes w' (outcome_path E root i) = Some (raw @ [CHR 0x0A])) \<and>
        (\<forall>h. hp = Some h \<longrightarrow> recorded h w' = Some (trim_space (ap_target_version p)))
      else if ao_status out = ActivationRolledBack
      then file_bytes w' (ap_current_path p) = Some c \<and> w_running w'
      else ao_status out = ActivationFailed \<and>
        (w_node w' (ap_current_path p) = None \<or> file_bytes w' (ap_current_path p) = Some c \<or>
         file_bytes w' (ap_current_path p) = Some b \<and>
           fst (verify_sha256_equal (env_sha E b) (ap_sha256 p)) = ErrNone))"

lemma swap_rollback:
  assumes "rollback_after_activation_failure E root i p sha reason m w = (out, w')" and "m < 2 ^ 63 - 1"
    and "file_bytes w (activation_backup_name_for E (env_dir E (ap_staged_path p)) (ap_staging_id p)) = Some c"
    and "ap_current_path p \<notin> outcome_paths E root i"
    and "w_node w (ap_current_path p) = None \<or> file_bytes w (ap_current_path p) = Some c \<or>
      file_bytes w (ap_current_path p) = Some b \<and> fst (verify_sha256_equal (env_sha E b) (ap_sha256 p)) = ErrNone"
  shows "swap_contract E root i p hp b c out w'"
  using rollback_cases [OF assms(1-4)] assms(5)
  by (auto simp: swap_contract_def kept_or_put_def file_bytes_def)

lemma swap_binary_contract:
  assumes sw: "swap_binary E root i p sha m (map_option write_max_seen hp) w = (out, w')" and m: "m < 2 ^ 63 - 1"
    and bk: "file_bytes w (activation_backup_name_for E (env_dir E (ap_staged_path p)) (ap_staging_id p)) = Some c"
    and st: "file_bytes w (ap_staged_path p) = Some b" and cu: "file_bytes w (ap_current_path p) = Some c"
    and ne: "activation_backup_name_for E (env_dir E (ap_staged_path p)) (ap_staging_id p) \<noteq> ap_current_path p"
    and a: "files_apart E root i hp (ap_current_path p) w" and sh: "ap_sha256 p \<noteq> []"
  shows "swap_contract E root i p hp b c out w'"
proof -
  let ?bk = "activation_backup_name_for E (env_dir E (ap_staged_path p)) (ap_staging_id p)"
  let ?cur = "ap_current_path p" and ?tmp = "ap_current_path p @ ''.ag029.tmp''"
  have tc: "?tmp \<noteq> ?cur" by simp
  have co: "?cur \<notin> outcome_paths E root i" using a by (simp add: files_apart_def)
  obtain r1 w1 where c1: "copy_binary_with_expected_hash E (ap_staged_path p) ?tmp (ap_sha256 p) m w = (r1, w1)" by fastforce
  have o1: "only {?tmp} w w1" by (rule touchesD [OF touches_copy c1]) simp
  have b1: "file_bytes w1 ?bk = Some c"
  proof (cases "?bk = ?tmp")
    case True
    have "w_node w ?bk \<noteq> None" by (rule file_bytes_node) (simp add: bk)
    then have "w_node w1 = w_node w" using copy_existing [OF c1] True by simp
    then show ?thesis using bk by (simp add: file_bytes_def)
  next
    case False
    then show ?thesis using only_bytes [OF o1] bk by simp
  qed
  show ?thesis
  proof (cases r1)
    case (Inl e)
    have "file_bytes w1 ?cur = Some c" using only_bytes [OF o1] cu tc by simp
    then show ?thesis
      using sw c1 Inl swap_rollback [OF _ m b1 co] by (auto simp: swap_binary_def Let_def io_else_def)
  next
    case (Inr h)
    obtain r2 w2 where c2: "replace_file ?tmp ?cur w1 = (r2, w2)" by fastforce
    note I = install_cases [OF c1 [unfolded Inr] c2 m st tc]
    have "?bk \<noteq> ?tmp" using I(7) bk by (auto simp: file_bytes_def)
    then have b2: "file_bytes w2 ?bk = Some c" using only_bytes [OF I(5)] bk ne by simp
    have v: "fst (verify_sha256_equal (env_sha E b) (ap_sha256 p)) = ErrNone" using I(4) sh by blast
    show ?thesis
    proof (cases r2)
      case (Inl e)
      have "w_node w2 ?cur = None \<or> file_bytes w2 ?cur = Some c \<or> file_bytes w2 ?cur = Some b"
        using I(1) cu by (auto simp: kept_or_put_def file_bytes_def)
      then show ?thesis
        using sw c1 c2 Inr Inl v swap_rollback [OF _ m b2 co] by (auto simp: swap_binary_def Let_def io_else_def)
    next
      case Inr2: (Inr u)
      obtain r3 w3 where c3: "svc_start w2 = (r3, w3)" by fastforce
      have n3: "file_bytes w3 ?cur = Some b" "file_bytes w3 ?bk = Some c"
        using I(2) Inr2 b2 svc_frame(1) [OF c3] by (simp_all add: file_bytes_def)
      show ?thesis
      proof (cases r3)
        case (Inl e)
        then show ?thesis
          using sw c1 c2 c3 Inr Inr2 v n3 swap_rollback [OF _ m n3(2) co] by (auto simp: swap_binary_def Let_def io_else_def)
      next
        case Inr3: (Inr u')
        have f: "finish_activation E root i p sha (hr_sha h) (map_option write_max_seen hp) w3 = (out, w')"
          using sw c1 c2 c3 Inr Inr2 Inr3 by (simp add: swap_binary_def Let_def io_else_def)
        have a3: "files_apart E root i hp ?cur w3"
          using files_apart_temp [OF a] only_temp [OF I(5)] svc_frame(2) [OF c3] by simp
        note F = finish_cases [OF f a3]
        have "w_running w3" using c3 Inr3 svc_Inr(2) by blast
        then show ?thesis
          using F n3 v I(3) by (auto simp: swap_contract_def file_bytes_def)
      qed
    qed
  qed
qed

section \<open>A whole run\<close>

lemma load_deterministic:
  assumes "load_activation_plan E root i w = (Inr p, w1)" and "load_activation_plan E root i v = (Inr q, v1)"
    and "w_node v = w_node w"
  shows "q = p"
  using load_Inr(5) [OF assms(1)] load_Inr(5) [OF assms(2)] assms(3) by (auto simp: file_bytes_def)

lemma verify_ready_Inr:
  assumes "verify_activation_plan_ready E root i m w = (Inr y, w')" and "m < 2 ^ 63 - 1"
    and "load_activation_plan E root i v = (Inr p, v1)" and "w_node w = w_node v"
  shows "\<exists>b. file_bytes w (ap_staged_path p) = Some b \<and> fst (verify_sha256_equal (env_sha E b) (ap_sha256 p)) = ErrNone"
proof -
  obtain q w1 n w2 h w3 where l: "load_activation_plan E root i w = (Inr q, w1)"
    and s: "os_stat (ap_current_path q) w1 = (Inr n, w2)"
    and h: "hash_file_with_limit (env_sha E) (ap_staged_path q) m w2 = (Inr h, w3)"
    and v: "fst (verify_sha256_equal (hr_sha h) (ap_sha256 q)) = ErrNone"
    using assms(1) by (auto simp: verify_activation_plan_ready_def io_success split: if_splits)
  have q: "q = p" using load_deterministic [OF assms(3) l assms(4)] .
  have "only {} w w2" using touchesD [OF touches_load l] touchesD [OF touches_calls(3) s] by (rule only_trans)
  then have n: "file_bytes w2 x = file_bytes w x" for x by (simp add: only_bytes)
  show ?thesis using hash_file_Inr [OF h assms(2)] v q n by auto
qed

text \<open>Either nothing but the outcome and the backup was written and the service was at most asked to
  stop, or the run got past the stop.\<close>

lemma activate_cases:
  assumes run: "activate_prepared_update E root i m True (map_option write_max_seen hp) w = (out, w')"
    and P: "path_laws E" and L: "load_activation_plan E root i w = (Inr p, w0)" and m: "m < 2 ^ 63 - 1"
    and a: "files_apart E root i hp (ap_current_path p) w"
  shows "(ao_status out = ActivationFailed \<and> w_node w' (ap_current_path p) = w_node w (ap_current_path p)) \<or>
    (\<exists>b c. file_bytes w (ap_staged_path p) = Some b \<and> file_bytes w (ap_current_path p) = Some c \<and>
       swap_contract E root i p hp b c out w')"
proof -
  let ?cur = "ap_current_path p" and ?bk = "activation_backup_name_for E root i"
  have co: "?cur \<notin> outcome_paths E root i" using a by (simp add: files_apart_def)
  have fin: "ao_status out' = ao_status x \<and> w_node w'' ?cur = w_node v ?cur"
    if "persist_activation_outcome E root i x v = (out', w'')" for x v out' w''
    using persist_status [OF that] co by (auto simp: only_def)
  have n0: "w_node w0 = w_node w" using load_Inr(4) [OF L] by simp
  have t0: "w_temp w0 = w_temp w" using load_Inr(4) [OF L] by simp
  obtain r1 w1 where v: "verify_activation_plan_ready E root i m w0 = (r1, w1)" by fastforce
  have o1: "only {} w0 w1" using touchesD [OF touches_verify_ready v] .
  then have n1: "w_node w1 = w_node w" using n0 by (auto simp: only_def)
  show ?thesis
  proof (cases r1)
    case (Inl e)
    then show ?thesis
      using run L v fin [of _ w1 out w'] n1 by (auto simp: activate_prepared_update_def io_else_def Let_def)
  next
    case (Inr y)
    obtain b where b: "file_bytes w (ap_staged_path p) = Some b"
      using verify_ready_Inr [OF v [unfolded Inr] m L n0] n0 by (auto simp: file_bytes_def)
    obtain r2 w2 where c: "copy_binary_with_expected_hash E ?cur ?bk [] m w1 = (r2, w2)" by fastforce
    have o2: "only {?bk} w1 w2" by (rule touchesD [OF touches_copy c]) simp
    show ?thesis
    proof (cases r2)
      case (Inl e)
      have "w_node w2 ?cur = w_node w ?cur"
      proof (cases "?bk = ?cur \<and> w_node w1 ?bk = None")
        case True
        have "\<exists>e w'. hash_file_with_limit (env_sha E) ?cur m w1 = (Inl e, w') \<and> w_node w' = w_node w1"
          using True
          by (auto simp: hash_file_with_limit_def io_or_def os_stat_def split: if_splits)
        then have "w_node w2 = w_node w1"
          using c by (auto simp: copy_binary_with_expected_hash_def io_bind_def)
        then show ?thesis using n1 by simp
      next
        case False
        then show ?thesis
          using only_node [OF o2, of ?cur] copy_existing [OF c] n1 by (cases "?bk = ?cur") auto
      qed
      then show ?thesis
        using run L v c Inr Inl fin [of _ w2 out w'] by (auto simp: activate_prepared_update_def io_else_def Let_def)
    next
      case Inr2: (Inr h)
      obtain cb where cb: "file_bytes w1 ?cur = Some cb" "file_bytes w2 ?bk = Some cb" "?cur \<noteq> ?bk" "w_node w1 ?bk = None"
        using copy_Inr [OF c [unfolded Inr2] m] by blast
      have cur2: "w_node w2 ?cur = w_node w ?cur" using only_node [OF o2] cb(3) n1 by simp
      have cw: "file_bytes w ?cur = Some cb" using cb(1) n1 by (simp add: file_bytes_def)
      have "ap_staged_path p \<noteq> ?bk" using b cb(4) n1 by (auto simp: file_bytes_def)
      then have st2: "file_bytes w2 (ap_staged_path p) = Some b" using only_bytes [OF o2] b n1 by (simp add: file_bytes_def)
      obtain r3 w3 where s: "svc_stop w2 = (r3, w3)" by fastforce
      have n3: "w_node w3 = w_node w2" "w_temp w3 = w_temp w2" using svc_node(1,3) [of w2] s by auto
      show ?thesis
      proof (cases r3)
        case (Inl e)
        then show ?thesis
          using run L v c s Inr Inr2 fin [of _ w3 out w'] n3 cur2
          by (auto simp: activate_prepared_update_def io_else_def Let_def)
      next
        case Inr3: (Inr u)
        have sw: "swap_binary E root i p (hr_sha h) m (map_option write_max_seen hp) w3 = (out, w')"
          using run L v c s Inr Inr2 Inr3 by (auto simp: activate_prepared_update_def io_else_def Let_def)
        have bkn: "activation_backup_name_for E (env_dir E (ap_staged_path p)) (ap_staging_id p) = ?bk"
          using local_paths.loaded_plan_root(5) [OF local_paths.intro [OF P] L] .
        have "w_temp w3 = w_temp w" using n3 only_temp [OF o2] only_temp [OF o1] t0 by simp
        then have a3: "files_apart E root i hp ?cur w3" using files_apart_temp [OF a] by simp
        have sh: "ap_sha256 p \<noteq> []" using validate_accept(6) [OF load_Inr(1) [OF L]] by (auto simp: is_sha256_hex_def)
        have fb: "file_bytes w3 x = file_bytes w2 x" for x using n3(1) by (simp add: file_bytes_def)
        have cu3: "file_bytes w3 ?cur = Some cb" using fb cur2 cw by (simp add: file_bytes_def)
        have bk3: "file_bytes w3 (activation_backup_name_for E (env_dir E (ap_staged_path p)) (ap_staging_id p)) = Some cb"
          using fb cb(2) bkn by simp
        have st3: "file_bytes w3 (ap_staged_path p) = Some b" using fb st2 by simp
        have ne: "activation_backup_name_for E (env_dir E (ap_staged_path p)) (ap_staging_id p) \<noteq> ?cur"
          using bkn cb(3) by simp
        show ?thesis using swap_binary_contract [OF sw m bk3 st3 cu3 ne a3 sh] b cw by blast
      qed
    qed
  qed
qed

section \<open>Properties\<close>

text \<open>
  Property C1: ACTIVATED means activated.  Under every pattern of I/O and service faults, a run
  that reports ACTIVATED has left the staged bytes, whose SHA-256 is the plan's, in place of the
  running binary, with the service running, the outcome persisted, and the plan's version recorded as
  the highest one seen.
\<close>

theorem activated_means_installed:
  assumes "activate_prepared_update E root i m True (map_option write_max_seen hp) w = (out, w')"
    and "path_laws E" and "load_activation_plan E root i w = (Inr p, w0)" and "m < 2 ^ 63 - 1"
    and "files_apart E root i hp (ap_current_path p) w" and "ao_status out = ActivationActivated"
  shows "\<exists>b. file_bytes w (ap_staged_path p) = Some b \<and> file_bytes w' (ap_current_path p) = Some b \<and>
    fst (verify_sha256_equal (env_sha E b) (ap_sha256 p)) = ErrNone \<and> w_running w' \<and> ao_persisted out \<and>
    (\<exists>raw. env_enc_outcome E out = Some raw \<and> file_bytes w' (outcome_path E root i) = Some (raw @ [CHR 0x0A])) \<and>
    (\<forall>h. hp = Some h \<longrightarrow> recorded h w' = Some (trim_space (ap_target_version p)))"
  using activate_cases [OF assms(1-5)] assms(6) by (auto simp: swap_contract_def)

text \<open>
  Property C7: ROLLED_BACK means restored: the binary holds byte for byte what it held before the
  run, and the service runs.
\<close>

theorem rolled_back_means_restored:
  assumes "activate_prepared_update E root i m True (map_option write_max_seen hp) w = (out, w')"
    and "path_laws E" and "load_activation_plan E root i w = (Inr p, w0)" and "m < 2 ^ 63 - 1"
    and "files_apart E root i hp (ap_current_path p) w" and "ao_status out = ActivationRolledBack"
  shows "file_bytes w' (ap_current_path p) = file_bytes w (ap_current_path p) \<and>
    file_bytes w (ap_current_path p) \<noteq> None \<and> w_running w'"
  using activate_cases [OF assms(1-5)] assms(6) by (auto simp: swap_contract_def)

text \<open>
  Property C11: the binary is never torn.  Whatever fails and whatever is reported, after a run the
  binary is the one that was there, or the complete staged one with the plan's hash, or missing;
  it is never a partial or a foreign file.
\<close>

theorem binary_never_torn:
  assumes "activate_prepared_update E root i m True (map_option write_max_seen hp) w = (out, w')"
    and "path_laws E" and "load_activation_plan E root i w = (Inr p, w0)" and "m < 2 ^ 63 - 1"
    and "files_apart E root i hp (ap_current_path p) w"
  shows "w_node w' (ap_current_path p) = w_node w (ap_current_path p) \<or>
    w_node w' (ap_current_path p) = None \<or>
    file_bytes w' (ap_current_path p) = file_bytes w (ap_current_path p) \<or>
    (\<exists>b. file_bytes w (ap_staged_path p) = Some b \<and> file_bytes w' (ap_current_path p) = Some b \<and>
      fst (verify_sha256_equal (env_sha E b) (ap_sha256 p)) = ErrNone)"
  using activate_cases [OF assms(1-5)] by (auto simp: swap_contract_def split: if_splits)

text \<open>
  Fact: a staged binary that is missing or was altered after staging never costs the
  service: if its bytes do not have the plan's hash the run fails, and apart from the outcome file
  no file has changed and the service is as it was.
\<close>

theorem tampered_staging_leaves_service:
  assumes "activate_prepared_update E root i m svc hw w = (out, w')"
    and "load_activation_plan E root i w = (Inr p, w0)" and "m < 2 ^ 63 - 1"
    and "\<And>b. file_bytes w (ap_staged_path p) = Some b \<Longrightarrow>
      fst (verify_sha256_equal (env_sha E b) (ap_sha256 p)) \<noteq> ErrNone"
  shows "ao_status out = ActivationFailed \<and> only (outcome_paths E root i) w w'"
proof (cases svc)
  case False
  then show ?thesis using assms(1) persist_status [of E root i _ w out w'] by (auto simp: activate_prepared_update_def)
next
  case True
  obtain r1 w1 where v: "verify_activation_plan_ready E root i m w0 = (r1, w1)" by fastforce
  have n0: "w_node w0 = w_node w" using load_Inr(4) [OF assms(2)] by simp
  have o: "only {} w w1" using touchesD [OF touches_load assms(2)] touchesD [OF touches_verify_ready v] by (rule only_trans)
  obtain e where e: "r1 = Inl e"
    using verify_ready_Inr [of E root i m w0 _ w1 w p w0] v assms(2-4) n0
    by (cases r1) (auto simp: file_bytes_def)
  obtain x where x: "persist_activation_outcome E root i x w1 = (out, w')" "ao_status x = ActivationFailed"
    using assms(1,2) True v e by (auto simp: activate_prepared_update_def io_else_def Let_def)
  show ?thesis using persist_status [OF x(1)] x(2) only_trans [OF only_mono [OF o]] by auto
qed

section \<open>Witnesses\<close>

definition activate_sample :: "world \<Rightarrow> activation_outcome \<times> world" where
  "activate_sample = activate_prepared_update sample_env ''/s'' sample_id 0 True (map_option write_max_seen (Some ''/hw''))"

lemma sample_load:
  "w_node w = w_node update_world \<Longrightarrow> \<not> w_fault w (w_tick w) \<Longrightarrow>
     load_activation_plan sample_env ''/s'' sample_id w = (Inr sample_plan, tick w)"
proof -
  assume a: "w_node w = w_node update_world" "\<not> w_fault w (w_tick w)"
  have f: "file_bytes update_world (activation_plan_name_for sample_env (env_clean sample_env ''/s'') sample_id) =
      Some (''plan'' @ [CHR 0x0A])" by code_simp
  have r: "os_read_file (activation_plan_name_for sample_env (env_clean sample_env ''/s'') sample_id) w =
      (Inr (''plan'' @ [CHR 0x0A]), tick w)"
    using a f by (auto simp: os_read_file_def faulty_def file_bytes_def split: option.splits node.splits)
  have c: "valid_staging_id sample_id" "\<not> blank ''/s''" "fst (validate_activation_plan sample_env sample_plan) = ErrNone"
    "env_dec_plan sample_env (strip_utf8_bom (''plan'' @ [CHR 0x0A])) = Some sample_plan"
    "env_clean sample_env (ap_plan_path sample_plan) =
       env_clean sample_env (activation_plan_name_for sample_env (env_clean sample_env ''/s'') sample_id)"
    by code_simp+
  show ?thesis using c r by (simp add: load_activation_plan_def Let_def io_or_def io_ret_def)
qed

lemma sample_apart: "w_temp w = w_temp sample_world \<Longrightarrow>
    files_apart sample_env ''/s'' sample_id (Some ''/hw'') (ap_current_path sample_plan) w"
proof -
  assume t: "w_temp w = w_temp sample_world"
  have "ap_current_path sample_plan \<notin> outcome_paths sample_env ''/s'' sample_id \<and>
      ''/hw'' \<noteq> ap_current_path sample_plan \<and> ''/hw'' \<notin> outcome_paths sample_env ''/s'' sample_id \<and>
      ''tmp'' \<noteq> ap_current_path sample_plan" by code_simp
  then show ?thesis using t by (simp add: files_apart_def temp_apart_def sample_world_def)
qed

text \<open>The same run with a fault of the \<open>n\<close>-th call, and with an altered staged binary.\<close>

definition fault_at :: "nat \<Rightarrow> world" where
  "fault_at k = update_world\<lparr>w_fault := (\<lambda>n. n = k)\<rparr>"

definition tampered_world :: world where
  "tampered_world = set_node (''/s/staged-'' @ sample_id @ ''.bin'') (Some (RegFile ''evil!'' 6)) update_world"

theorem activated_means_installed_witness:
  "\<exists>out w'. activate_sample update_world = (out, w') \<and> w_running w' \<and>
     file_bytes w' (ap_current_path sample_plan) = file_bytes update_world (ap_staged_path sample_plan) \<and>
     recorded ''/hw'' w' = Some ''1.3.0''"
proof -
  obtain out w' where r: "activate_sample update_world = (out, w')" by fastforce
  have "ao_status (fst (activate_sample update_world)) = ActivationActivated" by code_simp
  then have st: "ao_status out = ActivationActivated" using r by simp
  have l: "load_activation_plan sample_env ''/s'' sample_id update_world = (Inr sample_plan, tick update_world)"
    by (rule sample_load) (simp_all add: update_world_def sample_world_def)
  have a: "files_apart sample_env ''/s'' sample_id (Some ''/hw'') (ap_current_path sample_plan) update_world"
    by (rule sample_apart) (simp add: update_world_def)
  have m: "(0::int) < 2 ^ 63 - 1" by simp
  have t: "trim_space (ap_target_version sample_plan) = ''1.3.0''" by code_simp
  show ?thesis
    using activated_means_installed [OF r [unfolded activate_sample_def] sample_path_laws l m a st] r t by auto
qed

theorem rolled_back_means_restored_witness:
  "\<exists>out w'. activate_sample (fault_at 25) = (out, w') \<and> w_running w' \<and>
     file_bytes w' (ap_current_path sample_plan) = file_bytes (fault_at 25) (ap_current_path sample_plan)"
proof -
  obtain out w' where r: "activate_sample (fault_at 25) = (out, w')" by fastforce
  have "ao_status (fst (activate_sample (fault_at 25))) = ActivationRolledBack" by code_simp
  then have st: "ao_status out = ActivationRolledBack" using r by simp
  have l: "load_activation_plan sample_env ''/s'' sample_id (fault_at 25) = (Inr sample_plan, tick (fault_at 25))"
    by (rule sample_load) (simp_all add: fault_at_def update_world_def sample_world_def)
  have a: "files_apart sample_env ''/s'' sample_id (Some ''/hw'') (ap_current_path sample_plan) (fault_at 25)"
    by (rule sample_apart) (simp add: fault_at_def update_world_def)
  have m: "(0::int) < 2 ^ 63 - 1" by simp
  show ?thesis
    using rolled_back_means_restored [OF r [unfolded activate_sample_def] sample_path_laws l m a st] r by blast
qed

theorem binary_never_torn_witness:
  "w_node (snd (activate_sample (fault_at 20))) (ap_current_path sample_plan) \<noteq> Some (RegFile ''ne'' 0)"
proof -
  obtain out w' where r: "activate_sample (fault_at 20) = (out, w')" by fastforce
  have l: "load_activation_plan sample_env ''/s'' sample_id (fault_at 20) = (Inr sample_plan, tick (fault_at 20))"
    by (rule sample_load) (simp_all add: fault_at_def update_world_def sample_world_def)
  have a: "files_apart sample_env ''/s'' sample_id (Some ''/hw'') (ap_current_path sample_plan) (fault_at 20)"
    by (rule sample_apart) (simp add: fault_at_def update_world_def)
  have m: "(0::int) < 2 ^ 63 - 1" by simp
  have b: "w_node (fault_at 20) (ap_current_path sample_plan) = Some (RegFile ''orig'' 5)"
    "file_bytes (fault_at 20) (ap_staged_path sample_plan) = Some ''new''" by code_simp+
  show ?thesis
    using binary_never_torn [OF r [unfolded activate_sample_def] sample_path_laws l m a] b r
    by (auto simp: file_bytes_def)
qed

theorem tampered_staging_leaves_service_witness:
  "w_running (snd (activate_sample tampered_world)) \<and>
   ao_status (fst (activate_sample tampered_world)) = ActivationFailed"
proof -
  obtain out w' where r: "activate_sample tampered_world = (out, w')" by fastforce
  have "fst (load_activation_plan sample_env ''/s'' sample_id tampered_world) = Inr sample_plan" by code_simp
  then obtain w0 where l: "load_activation_plan sample_env ''/s'' sample_id tampered_world = (Inr sample_plan, w0)"
    by (metis prod.collapse)
  have m: "(0::int) < 2 ^ 63 - 1" by simp
  have b: "file_bytes tampered_world (ap_staged_path sample_plan) = Some ''evil!''"
    "fst (verify_sha256_equal (env_sha sample_env ''evil!'') (ap_sha256 sample_plan)) \<noteq> ErrNone"
    "w_running tampered_world" by code_simp+
  have t: "fst (verify_sha256_equal (env_sha sample_env x) (ap_sha256 sample_plan)) \<noteq> ErrNone"
    if "file_bytes tampered_world (ap_staged_path sample_plan) = Some x" for x
    using that b by simp
  show ?thesis
    using tampered_staging_leaves_service [OF r [unfolded activate_sample_def] l m t] b(3) r
    by (simp add: only_def)
qed

end
