(* ===== verification/ActivationPending.thy ===== *)
theory ActivationPending
  imports ActivationExecute
begin

text \<open>
  \<open>internal/selfupdate/activation_pending.go\<close> and the hook and sweep of
  \<open>cmd/endpoint-agent/selfupdate_activation.go\<close>: finding the plan whose helper never ran, pacing
  the attempts, and starting the helper.  The answer of ReadDir is a parameter (\<open>names\<close>, each with
  whether it is a directory): the theorems hold for every listing, also one that is out of date.
  Times are in nanoseconds since 1970, file modification times as the file system has them.
\<close>

section \<open>Finding a pending plan\<close>

definition activation_attempt_name_for :: "env \<Rightarrow> string \<Rightarrow> string \<Rightarrow> string" where
  "activation_attempt_name_for E root i = env_join E root (''activation-attempt-'' @ i @ ''.json'')"

definition trim_prefix :: "string \<Rightarrow> string \<Rightarrow> string" where
  "trim_prefix s p = (if has_prefix s p then drop (length p) s else s)"

definition trim_suffix :: "string \<Rightarrow> string \<Rightarrow> string" where
  "trim_suffix s p = (if has_suffix s p then take (length s - length p) s else s)"

text \<open>The id in the name of a plan file; \<open>None\<close> for every other entry.\<close>

definition plan_entry_id :: "string \<times> bool \<Rightarrow> string option" where
  "plan_entry_id e =
    (case e of (name, is_dir) \<Rightarrow>
       let i = trim_suffix (trim_prefix name ''activation-'') ''.json'' in
       if is_dir \<or> \<not> has_prefix name ''activation-'' \<or> \<not> has_suffix name ''.json'' \<or> \<not> valid_staging_id i
       then None else Some i)"

fun node_mtime :: "node \<Rightarrow> int" where
  "node_mtime (RegFile _ t) = t"
| "node_mtime _ = 0"

definition pending_stage :: "string \<Rightarrow> activation_plan \<Rightarrow> stage_result" where
  "pending_stage i p = zero_stage_result\<lparr>sr_status := StageReady, sr_staging_id := i, sr_plan_id := i,
     sr_target_version := ap_target_version p, sr_sha256 := ap_sha256 p\<rparr>"

text \<open>The end of a turn: only a target above the running version and above the floor is a candidate.\<close>

definition pending_check ::
    "env \<Rightarrow> string \<Rightarrow> version \<Rightarrow> version option \<Rightarrow> string \<Rightarrow> string \<times> bool \<Rightarrow> activation_plan \<Rightarrow>
     world \<Rightarrow> (unit + stage_result \<times> int) \<times> world" where
  "pending_check E root cur floor i e p =
    (case parse_version (ap_target_version p) of
       None \<Rightarrow> io_fail ()
     | Some target \<Rightarrow>
         if compare_version target cur \<le> 0 then io_fail ()
         else if (case floor of None \<Rightarrow> False | Some f \<Rightarrow> compare_version target f \<le> 0) then io_fail ()
         else io_or () (os_lstat (env_join E root (fst e))) (\<lambda>n. io_ret (pending_stage i p, node_mtime n)))"

text \<open>One turn of the loop: \<open>Inl\<close> is \<open>continue\<close>, \<open>Inr\<close> a candidate and its modification time.\<close>

definition pending_candidate ::
    "env \<Rightarrow> string \<Rightarrow> int \<Rightarrow> version \<Rightarrow> version option \<Rightarrow> string \<times> bool \<Rightarrow>
     world \<Rightarrow> (unit + stage_result \<times> int) \<times> world" where
  "pending_candidate E root max_bytes cur floor e =
    (case plan_entry_id e of
       None \<Rightarrow> io_fail ()
     | Some i \<Rightarrow>
         io_else (os_lstat (activation_outcome_name_for E root i))
           (\<lambda>_. io_else (load_activation_plan E root i) (\<lambda>_. io_fail ()) (\<lambda>p.
              io_else (verify_activation_plan_ready E root i max_bytes) (\<lambda>_. io_fail ()) (\<lambda>_. pending_check E root cur floor i e p)))
           (\<lambda>_. io_fail ())) \<comment> \<open>consumed\<close>"

definition newer :: "(stage_result \<times> int) option \<Rightarrow> stage_result \<times> int \<Rightarrow> (stage_result \<times> int) option" where
  "newer best c = (case best of None \<Rightarrow> Some c | Some (_, t) \<Rightarrow> if t < snd c then Some c else best)"

fun pending_loop ::
    "env \<Rightarrow> string \<Rightarrow> int \<Rightarrow> version \<Rightarrow> version option \<Rightarrow> (stage_result \<times> int) option \<Rightarrow>
     (string \<times> bool) list \<Rightarrow> world \<Rightarrow> (stage_result \<times> int) option \<times> world" where
  "pending_loop E root max_bytes cur floor best [] w = (best, w)"
| "pending_loop E root max_bytes cur floor best (e # es) w =
     (case pending_candidate E root max_bytes cur floor e w of
        (Inl _, w') \<Rightarrow> pending_loop E root max_bytes cur floor best es w'
      | (Inr c, w') \<Rightarrow> pending_loop E root max_bytes cur floor (newer best c) es w')"

definition find_pending_activation ::
    "env \<Rightarrow> (io_err + (string \<times> bool) list) \<Rightarrow> string \<Rightarrow> int \<Rightarrow> string \<Rightarrow>
     (world \<Rightarrow> (string + string) \<times> world) option \<Rightarrow> world \<Rightarrow> stage_result option \<times> world" where
  "find_pending_activation E names root0 max_bytes current hw =
    (let root = trim_space root0 in
     if root = [] then Pair None
     else (case parse_version current of
         None \<Rightarrow> Pair None
       | Some cur \<Rightarrow>
           let scan = (\<lambda>floor w. case names of
                 Inl _ \<Rightarrow> (None, w)
               | Inr es \<Rightarrow> (case pending_loop E root max_bytes cur floor None es w of (b, w') \<Rightarrow> (map_option fst b, w'))) in
           (case hw of
              None \<Rightarrow> scan None
            | Some read \<Rightarrow> io_else read
                (\<lambda>_. Pair None)
                (\<lambda>raw. if blank raw then scan None
                   else (case parse_version (trim_space raw) of None \<Rightarrow> Pair None | Some f \<Rightarrow> scan (Some f))))))"

section \<open>Pacing\<close>

definition default_activation_retry_interval :: int where
  "default_activation_retry_interval = 15 * 60 * 10 ^ 9"

text \<open>\<open>now.Sub(time.Unix(sec, 0))\<close>: the seconds wrap around the internal epoch, the difference saturates.\<close>

definition time_since_unix :: "int \<Rightarrow> int \<Rightarrow> int" where
  "time_since_unix now sec =
     (let u = int64 (sec + 62135596800) - 62135596800 in
      max (- (2 ^ 63)) (min (2 ^ 63 - 1) (now - u * 10 ^ 9)))"

definition should_attempt_activation_retry ::
    "env \<Rightarrow> string \<Rightarrow> string \<Rightarrow> int \<Rightarrow> int \<Rightarrow> world \<Rightarrow> bool \<times> world" where
  "should_attempt_activation_retry E root i now min_interval =
    (if \<not> valid_staging_id i then Pair False
     else io_else (os_read_file (activation_attempt_name_for E (trim_space root) i))
       (\<lambda>_. Pair True)
       (\<lambda>raw. Pair (case env_dec_attempt E (strip_utf8_bom raw) of
            None \<Rightarrow> True
          | Some rec \<Rightarrow> at_last_unix rec \<le> 0 \<or> min_interval \<le> time_since_unix now (at_last_unix rec))))"

definition record_activation_attempt :: "env \<Rightarrow> string \<Rightarrow> string \<Rightarrow> int \<Rightarrow> world \<Rightarrow> unit \<times> world" where
  "record_activation_attempt E root i now =
    (if \<not> valid_staging_id i then Pair ()
     else
       let path = activation_attempt_name_for E (trim_space root) i in
       (\<lambda>w. case os_read_file path w of (r, w1) \<Rightarrow>
          let prev = (case r of Inl _ \<Rightarrow> 0
                | Inr raw \<Rightarrow> (case env_dec_attempt E (strip_utf8_bom raw) of None \<Rightarrow> 0 | Some rec \<Rightarrow> at_attempts rec));
              rec = \<lparr>at_schema = 1, at_plan_id = i, at_last_unix = now div 10 ^ 9, at_attempts = int64 (prev + 1)\<rparr> in
          (case env_enc_attempt E rec of
             None \<Rightarrow> ((), w1)
           | Some raw \<Rightarrow> ((), snd (os_write path raw w1)))))"

section \<open>The hook and the sweep\<close>

record update_config =
  uc_auto_activate :: bool
  uc_executable :: string \<comment> \<open>\<open>currentExecutablePath()\<close>, empty if it is not known\<close>
  uc_staging_root :: string
  uc_timeout :: string \<comment> \<open>\<open>timeout.String()\<close>, after the default of two minutes\<close>
  uc_hard_max_bytes :: int
  uc_service_name :: string
  uc_agent_version :: string

definition default_service_name :: string where
  "default_service_name = ''EndpointAgent''"

definition effective_hook_max :: "update_config \<Rightarrow> int" where
  "effective_hook_max c = (if uc_hard_max_bytes c \<le> 0 then default_max_update_bytes else uc_hard_max_bytes c)"

definition start_activation_helper_process :: "string \<Rightarrow> string list \<Rightarrow> world \<Rightarrow> (string + unit) \<times> world" where
  "start_activation_helper_process exe args =
     io_or ''context canceled'' os_call (\<lambda>_. io_or ''start failed'' (os_spawn exe args) (\<lambda>_. io_ret ()))"

definition helper_args :: "update_config \<Rightarrow> string \<Rightarrow> string list" where
  "helper_args c i =
     [''self-update'', ''activate'', ''--staging-root'', uc_staging_root c, ''--staging-id'', i,
      ''--max-bytes'', format_nat (nat (effective_hook_max c)), ''--timeout'', uc_timeout c,
      ''--service-name'', (if uc_service_name c = [] then default_service_name else uc_service_name c)]"

definition activation_hook ::
    "env \<Rightarrow> update_config \<Rightarrow> (stage_result \<Rightarrow> world \<Rightarrow> (string + unit) \<times> world) option" where
  "activation_hook E c =
    (if \<not> uc_auto_activate c then None
     else Some (\<lambda>stage.
       if uc_executable c = [] then io_fail ''self-update activation helper executable path is empty''
       else if uc_staging_root c = [] then io_fail ''self-update staging root is empty''
       else io_else (prepare_activation_helper E (uc_executable c) (uc_staging_root c) (sr_plan_id stage) (effective_hook_max c))
         (\<lambda>e. io_fail (''prepare self-update activation helper failed code='' @ wire_code (fst e) @ '' reason='' @ snd e))
         (\<lambda>helper. start_activation_helper_process helper (helper_args c (sr_plan_id stage)))))"

definition pending_sweep ::
    "env \<Rightarrow> update_config \<Rightarrow> (io_err + (string \<times> bool) list) \<Rightarrow> int \<Rightarrow> (world \<Rightarrow> unit \<times> world) option" where
  "pending_sweep E c names now =
    (case activation_hook E c of
       None \<Rightarrow> None
     | Some hook \<Rightarrow> Some (\<lambda>w.
         case find_pending_activation E names (uc_staging_root c) (effective_hook_max c) (uc_agent_version c) None w of
           (None, w1) \<Rightarrow> ((), w1)
         | (Some stage, w1) \<Rightarrow>
             (case should_attempt_activation_retry E (uc_staging_root c) (sr_plan_id stage) now
                     default_activation_retry_interval w1 of
                (False, w2) \<Rightarrow> ((), w2)
              | (True, w2) \<Rightarrow>
                  (case record_activation_attempt E (uc_staging_root c) (sr_plan_id stage) now w2 of
                     (_, w3) \<Rightarrow> ((), snd (hook stage w3))))))"

section \<open>Facts\<close>

lemma touches_candidate [frame]: "touches S (pending_candidate E root m cur floor e)"
  unfolding pending_candidate_def pending_check_def by (intro frame)

lemma touches_should_attempt [frame]: "touches S (should_attempt_activation_retry E root i now d)"
  unfolding should_attempt_activation_retry_def by (intro frame)

definition pending_plan ::
    "env \<Rightarrow> string \<Rightarrow> version \<Rightarrow> version option \<Rightarrow> world \<Rightarrow> stage_result \<Rightarrow> bool" where
  "pending_plan E root cur floor w s \<longleftrightarrow>
     (\<exists>i p v v' b target. s = pending_stage i p \<and> valid_staging_id i \<and> w_node v = w_node w \<and>
        load_activation_plan E root i v = (Inr p, v') \<and>
        file_bytes w (ap_staged_path p) = Some b \<and>
        fst (verify_sha256_equal (env_sha E b) (ap_sha256 p)) = ErrNone \<and>
        parse_version (ap_target_version p) = Some target \<and> 0 < compare_version target cur \<and>
        (\<forall>f. floor = Some f \<longrightarrow> 0 < compare_version target f))"

lemma pending_plan_node: "w_node w' = w_node w \<Longrightarrow> pending_plan E root cur floor w' s = pending_plan E root cur floor w s"
  by (simp add: pending_plan_def file_bytes_def)

lemma plan_entry_id_valid: "plan_entry_id e = Some i \<Longrightarrow> valid_staging_id i"
  by (auto simp: plan_entry_id_def Let_def split: prod.splits if_splits)

lemma candidate_pending:
  assumes "pending_candidate E root m cur floor e w = (Inr (s, t), w')" and "m < 2 ^ 63 - 1"
  shows "pending_plan E root cur floor w s"
proof -
  obtain i where i: "plan_entry_id e = Some i"
    using assms(1) by (auto simp: pending_candidate_def io_fail_def split: option.splits)
  have c: "io_else (os_lstat (activation_outcome_name_for E root i))
           (\<lambda>_. io_else (load_activation_plan E root i) (\<lambda>_. io_fail ()) (\<lambda>p.
              io_else (verify_activation_plan_ready E root i m) (\<lambda>_. io_fail ()) (\<lambda>_.
                pending_check E root cur floor i e p))) (\<lambda>_. io_fail ()) w = (Inr (s, t), w')"
    using assms(1) i by (simp add: pending_candidate_def)
  then obtain x w1 where o: "os_lstat (activation_outcome_name_for E root i) w = (Inl x, w1)"
    and c1: "io_else (load_activation_plan E root i) (\<lambda>_. io_fail ()) (\<lambda>p.
              io_else (verify_activation_plan_ready E root i m) (\<lambda>_. io_fail ()) (\<lambda>_.
                pending_check E root cur floor i e p)) w1 = (Inr (s, t), w')"
    unfolding io_else_split [of "os_lstat _"] by (auto simp: io_fail_def)
  obtain p w2 where l: "load_activation_plan E root i w1 = (Inr p, w2)"
    and c2: "io_else (verify_activation_plan_ready E root i m) (\<lambda>_. io_fail ()) (\<lambda>_.
                pending_check E root cur floor i e p) w2 = (Inr (s, t), w')"
    using c1 unfolding io_else_split [of "load_activation_plan E root i"] by (auto simp: io_fail_def)
  obtain y w3 where v: "verify_activation_plan_ready E root i m w2 = (Inr y, w3)"
    and c3: "pending_check E root cur floor i e p w3 = (Inr (s, t), w')"
    using c2 unfolding io_else_split by (auto simp: io_fail_def)
  obtain target where t: "parse_version (ap_target_version p) = Some target" "\<not> compare_version target cur \<le> 0"
      "\<not> (case floor of None \<Rightarrow> False | Some f \<Rightarrow> compare_version target f \<le> 0)" "s = pending_stage i p"
    using c3 by (cases "parse_version (ap_target_version p)")
      (auto simp: pending_check_def io_fail_def io_or_Inr io_ret_def split: if_splits)
  have n1: "w_node w1 = w_node w" using touchesD [OF touches_calls(2) o, of "{}"] by (auto simp: only_def)
  have n2: "w_node w2 = w_node w1" using load_Inr(4) [OF l] by simp
  obtain b where "file_bytes w2 (ap_staged_path p) = Some b"
    "fst (verify_sha256_equal (env_sha E b) (ap_sha256 p)) = ErrNone"
    using verify_ready_Inr [OF v assms(2) l n2] by blast
  then show ?thesis
    unfolding pending_plan_def using t l n1 n2 plan_entry_id_valid [OF i]
    by (intro exI [of _ i] exI [of _ p] exI [of _ w1] exI [of _ w2] exI [of _ b] exI [of _ target])
      (auto simp: file_bytes_def split: option.splits)
qed

lemma pending_loop_found:
  assumes "pending_loop E root m cur floor best es w = (Some (s, t), w')" and "m < 2 ^ 63 - 1"
    and "\<And>s t. best = Some (s, t) \<Longrightarrow> pending_plan E root cur floor w s"
  shows "pending_plan E root cur floor w s"
  using assms(1,3)
proof (induction es arbitrary: best w)
  case Nil
  then show ?case by simp
next
  case (Cons e es)
  obtain r w1 where c: "pending_candidate E root m cur floor e w = (r, w1)" by fastforce
  have n: "w_node w1 = w_node w" using touchesD [OF touches_candidate c, of "{}"] by (auto simp: only_def)
  show ?case
  proof (cases r)
    case (Inl u)
    then have "pending_loop E root m cur floor best es w1 = (Some (s, t), w')" using Cons.prems(1) c by simp
    from Cons.IH [OF this] show ?thesis using Cons.prems(2) pending_plan_node [OF n] by auto
  next
    case (Inr x)
    obtain s1 t1 where x: "x = (s1, t1)" by fastforce
    have p1: "pending_plan E root cur floor w s1" using candidate_pending [OF c [unfolded Inr x] assms(2)] .
    have "pending_loop E root m cur floor (newer best (s1, t1)) es w1 = (Some (s, t), w')"
      using Cons.prems(1) c Inr x by simp
    moreover have "pending_plan E root cur floor w1 s2" if "newer best (s1, t1) = Some (s2, t2)" for s2 t2
      using that p1 Cons.prems(2) pending_plan_node [OF n] by (auto simp: newer_def split: option.splits if_splits)
    ultimately show ?thesis using Cons.IH pending_plan_node [OF n] by blast
  qed
qed

definition listed_ids :: "(string \<times> bool) list \<Rightarrow> string set" where
  "listed_ids es = {i. \<exists>e \<in> set es. plan_entry_id e = Some i}"

lemma pending_check_stage:
  assumes "pending_check E root cur floor i e p w = (Inr (s, t), w')"
  shows "sr_plan_id s = i"
proof -
  have "s = pending_stage i p"
    using assms by (cases "parse_version (ap_target_version p)")
      (auto simp: pending_check_def io_fail_def io_or_Inr io_ret_def split: if_splits)
  then show ?thesis by (simp add: pending_stage_def)
qed

lemma candidate_id:
  "pending_candidate E root m cur floor e w = (Inr (s, t), w') \<Longrightarrow> plan_entry_id e = Some (sr_plan_id s)"
  by (auto simp: pending_candidate_def io_else_split io_fail_def dest!: pending_check_stage split: option.splits)

lemma pending_loop_id:
  assumes "pending_loop E root m cur floor best es w = (Some (s, t), w')"
  shows "sr_plan_id s \<in> listed_ids es \<or> best = Some (s, t)"
  using assms
proof (induction es arbitrary: best w)
  case (Cons e es)
  obtain r w1 where c: "pending_candidate E root m cur floor e w = (r, w1)" by fastforce
  show ?case
  proof (cases r)
    case (Inl u)
    then show ?thesis using Cons c by (auto simp: listed_ids_def)
  next
    case (Inr x)
    obtain s1 t1 where x: "x = (s1, t1)" by fastforce
    have "sr_plan_id s1 \<in> listed_ids (e # es)" using candidate_id [OF c [unfolded Inr x]] by (auto simp: listed_ids_def)
    moreover have "sr_plan_id s \<in> listed_ids es \<or> newer best (s1, t1) = Some (s, t)"
      using Cons.IH Cons.prems c Inr x by auto
    moreover have "listed_ids es \<subseteq> listed_ids (e # es)" by (auto simp: listed_ids_def)
    ultimately show ?thesis by (auto simp: newer_def split: option.splits if_splits)
  qed
qed simp

lemma pending_loop_frame: "pending_loop E root m cur floor best es w = (b, w') \<Longrightarrow> only {} w w'"
proof (induction es arbitrary: best w)
  case (Cons e es)
  obtain r w1 where c: "pending_candidate E root m cur floor e w = (r, w1)" by fastforce
  have "only {} w w1" using touchesD [OF touches_candidate c] .
  then show ?case using Cons c by (cases r) (auto intro: only_trans)
qed simp

lemma find_pending_found:
  assumes "find_pending_activation E names root m current hw w = (Some s, w')" and "m < 2 ^ 63 - 1"
    and "\<forall>read v. hw = Some read \<longrightarrow> w_node (snd (read v)) = w_node v"
  shows "\<exists>cur floor. parse_version current = Some cur \<and> pending_plan E (trim_space root) cur floor w s \<and>
    (\<forall>read. hw = Some read \<longrightarrow> (\<exists>raw. fst (read w) = Inr raw \<and>
       (blank raw \<or> (\<exists>f. floor = Some f \<and> parse_version (trim_space raw) = Some f))))"
proof -
  obtain cur where cur: "parse_version current = Some cur" and ne: "\<not> blank root"
    using assms(1) by (auto simp: find_pending_activation_def Let_def split: if_splits option.splits)
  let ?scan = "\<lambda>floor w. case names of Inl _ \<Rightarrow> (None, w)
     | Inr es \<Rightarrow> (case pending_loop E (trim_space root) m cur floor None es w of (b, w') \<Rightarrow> (map_option fst b, w'))"
  have found: "pending_plan E (trim_space root) cur floor v s" if "?scan floor v = (Some s, w')" for floor v
    using that pending_loop_found [OF _ assms(2), of E "trim_space root" cur floor None _ v s]
    by (auto split: sum.splits prod.splits)
  show ?thesis
  proof (cases hw)
    case None
    then have "?scan None w = (Some s, w')" using assms(1) cur ne by (simp add: find_pending_activation_def Let_def)
    then show ?thesis using found cur None by blast
  next
    case (Some read)
    obtain r w1 where r: "read w = (r, w1)" by fastforce
    have n: "w_node w1 = w_node w" using assms(3) Some r by (metis snd_conv)
    obtain raw where raw: "r = Inr raw"
      using assms(1) cur ne Some r
      by (cases r) (auto simp: find_pending_activation_def Let_def io_else_def)
    show ?thesis
    proof (cases "blank raw")
      case True
      then have "?scan None w1 = (Some s, w')"
        using assms(1) cur ne Some r raw by (simp add: find_pending_activation_def Let_def io_else_def)
      then show ?thesis using found [where v = w1 and floor = None] cur Some r raw True pending_plan_node [OF n] by auto
    next
      case False
      then obtain f where f: "parse_version (trim_space raw) = Some f" "?scan (Some f) w1 = (Some s, w')"
        using assms(1) cur ne Some r raw
        by (auto simp: find_pending_activation_def Let_def io_else_def split: option.splits)
      then show ?thesis using found [OF f(2)] cur Some r raw pending_plan_node [OF n] by auto
    qed
  qed
qed

lemma find_pending_frame:
  "find_pending_activation E names root m current None w = (r, w') \<Longrightarrow> only {} w w'"
  using pending_loop_frame
  by (auto simp: find_pending_activation_def Let_def split: if_splits option.splits sum.splits prod.splits)

lemma find_pending_id:
  "find_pending_activation E (Inr es) root m current None w = (Some s, w') \<Longrightarrow> sr_plan_id s \<in> listed_ids es"
  using pending_loop_id [of E "trim_space root" m _ None None es w]
  by (fastforce simp: find_pending_activation_def Let_def split: if_splits option.splits prod.splits)

lemma record_attempt_grows:
  "record_activation_attempt E root i now w = (u, w') \<Longrightarrow>
     w_spawned w' = w_spawned w \<and> (w_node w x \<noteq> None \<longrightarrow> w_node w' x \<noteq> None)"
  by (auto simp: record_activation_attempt_def Let_def os_read_file_def os_write_def
      split: if_splits option.splits prod.splits sum.splits node.splits)

lemma prepare_blocked:
  assumes "w_node w (activation_helper_name_for E (env_clean E (trim_space root)) i) \<noteq> None"
  shows "isl (fst (prepare_activation_helper E exe root i m w))"
  using assms
  by (auto simp: prepare_activation_helper_def Let_def io_or_def io_fail_def os_lstat_def os_call_def
      split: if_splits prod.splits sum.splits option.splits)

lemma prepare_Inr:
  assumes "prepare_activation_helper E exe root i m w = (Inr h, w')"
  shows "h = activation_helper_name_for E (env_clean E (trim_space root)) i" and "valid_staging_id i"
  using assms
  by (auto simp: prepare_activation_helper_def Let_def io_success os_lstat_def dest!: os_call_Inr
      split: if_splits prod.splits sum.splits option.splits)

lemma prepare_frame:
  assumes "prepare_activation_helper E exe root i m w = (r, w')"
  shows "w_spawned w' = w_spawned w"
proof -
  let ?h = "activation_helper_name_for E (env_clean E (trim_space root)) i"
  obtain r1 w1 where l: "os_lstat ?h (tick w) = (r1, w1)" by fastforce
  have s1: "w_spawned w1 = w_spawned w" using touchesD [OF touches_calls(2) l, of "{}"] by (simp add: only_def)
  obtain r2 w2 where c: "copy_binary_with_expected_hash E (trim_space exe) ?h [] m w1 = (r2, w2)" by fastforce
  have "touches {?h} (copy_binary_with_expected_hash E (trim_space exe) ?h [] m)" by (intro frame) simp
  from touchesD [OF this c] have s2: "w_spawned w2 = w_spawned w1" by (simp add: only_def)
  show ?thesis
    using assms l c s1 s2
    by (auto simp: prepare_activation_helper_def Let_def io_or_def io_fail_def os_call_def
        split: if_splits sum.splits prod.splits)
qed

text \<open>The hook starts at most one process, the helper it has just written.\<close>

lemma hook_spawns:
  assumes "activation_hook E c = Some hook" and "hook stage w = (r, w')"
  shows "w_spawned w' = w_spawned w \<or>
    (\<exists>h w1. prepare_activation_helper E (uc_executable c) (uc_staging_root c) (sr_plan_id stage) (effective_hook_max c) w = (Inr h, w1) \<and>
       w_spawned w' = w_spawned w @ [(h, helper_args c (sr_plan_id stage))])"
proof -
  obtain r1 w1 where p: "prepare_activation_helper E (uc_executable c) (uc_staging_root c) (sr_plan_id stage)
      (effective_hook_max c) w = (r1, w1)" by fastforce
  have s: "w_spawned w1 = w_spawned w" by (rule prepare_frame [OF p])
  show ?thesis
    using assms p s
    by (auto simp: activation_hook_def io_else_def io_fail_def start_activation_helper_process_def io_or_def
        io_ret_def os_call_def os_spawn_def split: if_splits sum.splits)
qed

lemma sweep_cases:
  assumes "pending_sweep E c names now = Some sweep" and "sweep w = (u, w')"
  shows "w_spawned w' = w_spawned w \<or>
    (\<exists>stage w1 w3 h w4. find_pending_activation E names (uc_staging_root c) (effective_hook_max c) (uc_agent_version c) None w
        = (Some stage, w1) \<and>
       (\<forall>x. w_node w x \<noteq> None \<longrightarrow> w_node w3 x \<noteq> None) \<and>
       prepare_activation_helper E (uc_executable c) (uc_staging_root c) (sr_plan_id stage) (effective_hook_max c) w3 = (Inr h, w4) \<and>
       w_spawned w' = w_spawned w @ [(h, helper_args c (sr_plan_id stage))])"
proof -
  obtain hook where h: "activation_hook E c = Some hook"
    using assms(1) by (auto simp: pending_sweep_def split: option.splits)
  obtain s w1 where f: "find_pending_activation E names (uc_staging_root c) (effective_hook_max c) (uc_agent_version c) None w
      = (s, w1)" by fastforce
  have o1: "only {} w w1" by (rule find_pending_frame [OF f])
  show ?thesis
  proof (cases s)
    case None
    then show ?thesis using assms h f o1 by (auto simp: pending_sweep_def only_def)
  next
    case (Some stage)
    obtain b w2 where a: "should_attempt_activation_retry E (uc_staging_root c) (sr_plan_id stage) now
        default_activation_retry_interval w1 = (b, w2)" by fastforce
    have o2: "only {} w1 w2" by (rule touchesD [OF touches_should_attempt a])
    obtain x w3 where r: "record_activation_attempt E (uc_staging_root c) (sr_plan_id stage) now w2 = (x, w3)" by (metis surj_pair)
    have sp: "w_spawned w2 = w_spawned w" "w_spawned w3 = w_spawned w"
      using o1 o2 record_attempt_grows [OF r] by (auto simp: only_def)
    have gr: "w_node w3 y \<noteq> None" if "w_node w y \<noteq> None" for y
      using that o1 o2 record_attempt_grows [OF r, of y] by (auto simp: only_def)
    show ?thesis
    proof (cases b)
      case False
      then show ?thesis using assms h f Some a sp by (auto simp: pending_sweep_def)
    next
      case True
      obtain y w5 where k: "hook stage w3 = (y, w5)" by fastforce
      have "w' = w5" using assms h f Some a True r k by (auto simp: pending_sweep_def)
      then consider "w_spawned w' = w_spawned w"
        | h1 w4 where "prepare_activation_helper E (uc_executable c) (uc_staging_root c) (sr_plan_id stage) (effective_hook_max c) w3
              = (Inr h1, w4)" "w_spawned w' = w_spawned w @ [(h1, helper_args c (sr_plan_id stage))]"
        using hook_spawns [OF h k] sp by auto
      then show ?thesis
      proof cases
        case 2
        then show ?thesis using f Some gr by blast
      qed blast
    qed
  qed
qed

lemma read_max_seen_node: "w_node (snd (read_max_seen path w)) = w_node w"
  using touches_read_max_seen [of "{}" path] by (auto simp: touches_def only_def)

section \<open>Properties\<close>

text \<open>
  Property C25: the recovery never re-runs history.  Whatever listing of the staging root it is
  given, the plan it picks is a validated plan of its identifier whose staged bytes still have the
  recorded hash, and its target is strictly newer than the running version and than the recorded
  high-water mark.
\<close>

theorem pending_never_reruns_history:
  assumes "find_pending_activation E names root m current (map_option read_max_seen hp) w = (Some s, w')"
    and "m < 2 ^ 63 - 1"
  shows "\<exists>i p v v' b cur target. s = pending_stage i p \<and> valid_staging_id i \<and>
    load_activation_plan E (trim_space root) i v = (Inr p, v') \<and> w_node v = w_node w \<and>
    file_bytes w (ap_staged_path p) = Some b \<and> fst (verify_sha256_equal (env_sha E b) (ap_sha256 p)) = ErrNone \<and>
    parse_version current = Some cur \<and> parse_version (ap_target_version p) = Some target \<and>
    0 < compare_version target cur \<and>
    (\<forall>h m f. hp = Some h \<and> fst (read_max_seen h w) = Inr m \<and> \<not> blank m \<and> parse_version (trim_space m) = Some f \<longrightarrow>
       0 < compare_version target f)"
proof -
  have fr: "\<forall>read v. map_option read_max_seen hp = Some read \<longrightarrow> w_node (snd (read v)) = w_node v"
    using read_max_seen_node by auto
  obtain cur floor where c: "parse_version current = Some cur" "pending_plan E (trim_space root) cur floor w s"
    and f: "\<forall>read. map_option read_max_seen hp = Some read \<longrightarrow> (\<exists>raw. fst (read w) = Inr raw \<and>
       (blank raw \<or> (\<exists>f. floor = Some f \<and> parse_version (trim_space raw) = Some f)))"
    using find_pending_found [OF assms fr] by (elim exE conjE) (rule that; assumption)
  have fl: "floor = Some f" if "hp = Some h" "fst (read_max_seen h w) = Inr m" "\<not> blank m" "parse_version (trim_space m) = Some f" for h m f
    using f that by auto
  obtain i p v v' b target where "s = pending_stage i p" "valid_staging_id i" "w_node v = w_node w"
    "load_activation_plan E (trim_space root) i v = (Inr p, v')" "file_bytes w (ap_staged_path p) = Some b"
    "fst (verify_sha256_equal (env_sha E b) (ap_sha256 p)) = ErrNone"
    "parse_version (ap_target_version p) = Some target" "0 < compare_version target cur"
    "\<forall>f. floor = Some f \<longrightarrow> 0 < compare_version target f"
    using c(2) unfolding pending_plan_def by blast
  then show ?thesis using c(1) fl by blast
qed

text \<open>
  Fact: a sweep starts at most one process, and only the helper it has just written for a
  plan whose target is strictly newer than the running version.
\<close>

theorem sweep_starts_only_newer:
  assumes "pending_sweep E c names now = Some sweep" and "sweep w = (u, w')"
    and "effective_hook_max c < 2 ^ 63 - 1"
  shows "w_spawned w' = w_spawned w \<or>
    (\<exists>i p v v' cur target. w_spawned w' = w_spawned w @
        [(activation_helper_name_for E (env_clean E (trim_space (uc_staging_root c))) i, helper_args c i)] \<and>
       load_activation_plan E (trim_space (uc_staging_root c)) i v = (Inr p, v') \<and> w_node v = w_node w \<and>
       parse_version (uc_agent_version c) = Some cur \<and> parse_version (ap_target_version p) = Some target \<and>
       0 < compare_version target cur)"
proof -
  have found: "\<exists>i p v v' cur target. sr_plan_id stage = i \<and>
       load_activation_plan E (trim_space (uc_staging_root c)) i v = (Inr p, v') \<and> w_node v = w_node w \<and>
       parse_version (uc_agent_version c) = Some cur \<and> parse_version (ap_target_version p) = Some target \<and>
       0 < compare_version target cur"
    if "find_pending_activation E names (uc_staging_root c) (effective_hook_max c) (uc_agent_version c) None w = (Some stage, w1)"
    for stage w1
  proof -
    have id: "sr_plan_id (pending_stage i p) = i" for i p by (simp add: pending_stage_def)
    note fp = that
    have nohw: "\<forall>read v. None = Some read \<longrightarrow> w_node (snd ((read :: world \<Rightarrow> (string + string) \<times> world) v)) = w_node v" by simp
    obtain cur floor where c: "parse_version (uc_agent_version c) = Some cur"
      "pending_plan E (trim_space (uc_staging_root c)) cur floor w stage"
      using find_pending_found [OF fp assms(3) nohw] by (elim exE conjE) (rule that; assumption)
    then obtain i p v v' target where "stage = pending_stage i p" "w_node v = w_node w"
      "load_activation_plan E (trim_space (uc_staging_root c)) i v = (Inr p, v')"
      "parse_version (ap_target_version p) = Some target" "0 < compare_version target cur"
      unfolding pending_plan_def by blast
    then show ?thesis using id c(1) by blast
  qed
  show ?thesis
    using sweep_cases [OF assms(1,2)]
  proof
    assume "\<exists>stage w1 w3 h w4. find_pending_activation E names (uc_staging_root c) (effective_hook_max c) (uc_agent_version c) None w
        = (Some stage, w1) \<and> (\<forall>x. w_node w x \<noteq> None \<longrightarrow> w_node w3 x \<noteq> None) \<and>
       prepare_activation_helper E (uc_executable c) (uc_staging_root c) (sr_plan_id stage) (effective_hook_max c) w3 = (Inr h, w4) \<and>
       w_spawned w' = w_spawned w @ [(h, helper_args c (sr_plan_id stage))]"
    then obtain stage w1 w3 h w4 where f: "find_pending_activation E names (uc_staging_root c) (effective_hook_max c)
        (uc_agent_version c) None w = (Some stage, w1)"
      and p: "prepare_activation_helper E (uc_executable c) (uc_staging_root c) (sr_plan_id stage) (effective_hook_max c) w3 = (Inr h, w4)"
      and s: "w_spawned w' = w_spawned w @ [(h, helper_args c (sr_plan_id stage))]" by blast
    then show ?thesis using found [OF f] prepare_Inr(1) [OF p] by blast
  qed simp
qed

text \<open>
  Fact: the recovery lane wedges.  Once the helper executable of every listed plan is on
  disk, which is the state a first start leaves behind, no sweep starts any process: the
  preparation of the helper refuses the existing file, although the retry is meant to go on forever.
\<close>

theorem sweep_wedged_by_helper_file:
  assumes "pending_sweep E c (Inr es) now = Some sweep"
    and "\<And>e i. e \<in> set es \<Longrightarrow> plan_entry_id e = Some i \<Longrightarrow>
      w_node w (activation_helper_name_for E (env_clean E (trim_space (uc_staging_root c))) i) \<noteq> None"
  shows "w_spawned (snd (sweep w)) = w_spawned w"
proof -
  obtain u w' where s: "sweep w = (u, w')" by (metis surj_pair)
  have "\<not> (prepare_activation_helper E (uc_executable c) (uc_staging_root c) (sr_plan_id stage) (effective_hook_max c) w3 = (Inr h, w4))"
    if "find_pending_activation E (Inr es) (uc_staging_root c) (effective_hook_max c) (uc_agent_version c) None w = (Some stage, w1)"
      and "\<forall>x. w_node w x \<noteq> None \<longrightarrow> w_node w3 x \<noteq> None" for stage w1 w3 h w4
  proof -
    note fp = that(1) and keep = that(2)
    obtain e where "e \<in> set es" "plan_entry_id e = Some (sr_plan_id stage)"
      using find_pending_id [OF fp] by (auto simp: listed_ids_def)
    then have "w_node w3 (activation_helper_name_for E (env_clean E (trim_space (uc_staging_root c))) (sr_plan_id stage)) \<noteq> None"
      using assms(2) keep by blast
    then show ?thesis using prepare_blocked [of w3 E "uc_staging_root c" "sr_plan_id stage"] by (metis fst_conv sum.disc(2))
  qed
  then show ?thesis using sweep_cases [OF assms(1) s] s by auto
qed

lemma time_since_unix_exact:
  assumes "0 < now" "now < 2 ^ 62" "0 \<le> t" "t < 2 ^ 62"
  shows "time_since_unix t (now div 10 ^ 9) = t - now div 10 ^ 9 * 10 ^ 9"
proof -
  have s: "0 \<le> now div 10 ^ 9" "now div 10 ^ 9 \<le> now" "now div 10 ^ 9 * 10 ^ 9 \<le> now"
    using assms(1) by (auto simp: div_le_dividend)
  have "int64 (now div 10 ^ 9 + 62135596800) = now div 10 ^ 9 + 62135596800"
    by (rule int64_id) (use s assms(2) in auto)
  then show ?thesis using s assms by (simp add: time_since_unix_def Let_def)
qed

text \<open>
  Fact: retries are paced.  After an attempt was recorded at time \<open>now\<close>, the retry is refused
  exactly until the interval has passed since the second of that attempt, given that the JSON
  codec returns the recorded time.
\<close>

theorem retry_paced_by_record:
  assumes "record_activation_attempt E root i now w = (u, w1)" and "valid_staging_id i"
    and "\<And>n. \<not> w_fault w n" and "w_node w2 = w_node w1" and "\<not> faulty w2"
    and "\<And>r. at_last_unix r = now div 10 ^ 9 \<Longrightarrow> \<exists>raw r'. env_enc_attempt E r = Some raw \<and>
      env_dec_attempt E (strip_utf8_bom raw) = Some r' \<and> at_last_unix r' = now div 10 ^ 9"
    and "10 ^ 9 \<le> now" "now < 2 ^ 62" "0 \<le> t" "t < 2 ^ 62"
  shows "fst (should_attempt_activation_retry E root i t d w2) = (d \<le> t - now div 10 ^ 9 * 10 ^ 9)"
proof -
  let ?path = "activation_attempt_name_for E (trim_space root) i"
  obtain r0 w0 where r0: "os_read_file ?path w = (r0, w0)" by fastforce
  have nf: "\<not> faulty w0" using r0 assms(3) by (auto simp: os_read_file_def faulty_def)
  let ?prev = "case r0 of Inl _ \<Rightarrow> 0
    | Inr raw \<Rightarrow> (case env_dec_attempt E (strip_utf8_bom raw) of None \<Rightarrow> 0 | Some rec \<Rightarrow> at_attempts rec)"
  let ?rec = "\<lparr>at_schema = 1, at_plan_id = i, at_last_unix = now div 10 ^ 9, at_attempts = int64 (?prev + 1)\<rparr>"
  obtain raw r' where enc: "env_enc_attempt E ?rec = Some raw" "env_dec_attempt E (strip_utf8_bom raw) = Some r'"
      "at_last_unix r' = now div 10 ^ 9"
    using assms(6) [of ?rec] by auto
  have "w1 = snd (os_write ?path raw w0)"
    using assms(1,2) r0 enc(1) by (simp add: record_activation_attempt_def Let_def)
  then have "file_bytes w2 ?path = Some raw" using nf assms(4) by (simp add: os_write_def file_bytes_def)
  then have "os_read_file ?path w2 = (Inr raw, tick w2)"
    using assms(5) by (auto simp: os_read_file_def file_bytes_def split: option.splits node.splits)
  moreover have "0 < now div 10 ^ 9" using assms(7) by (simp add: pos_imp_zdiv_pos_iff)
  ultimately show ?thesis
    using assms(2,7-10) enc(2,3) time_since_unix_exact [of now t]
    by (simp add: should_attempt_activation_retry_def io_else_def)
qed

section \<open>Witnesses\<close>

definition sample_config :: update_config where
  "sample_config = \<lparr>uc_auto_activate = True, uc_executable = ''/bin/agent'', uc_staging_root = ''/s'',
     uc_timeout = ''2m0s'', uc_hard_max_bytes = 0, uc_service_name = [], uc_agent_version = ''1.2.0''\<rparr>"

definition sample_listing :: "(string \<times> bool) list" where
  "sample_listing = [(''activation-'' @ sample_id @ ''.json'', False), (''staged-'' @ sample_id @ ''.bin'', False)]"

theorem pending_never_reruns_history_witness:
  "\<exists>s w'. find_pending_activation sample_env (Inr sample_listing) ''/s'' 0 ''1.2.0'' (map_option read_max_seen (Some ''/hw'')) update_world
      = (Some s, w') \<and> (\<exists>t c. parse_version ''1.2.0'' = Some c \<and> 0 < compare_version t c)"
proof -
  obtain r w' where f: "find_pending_activation sample_env (Inr sample_listing) ''/s'' 0 ''1.2.0''
      (map_option read_max_seen (Some ''/hw'')) update_world = (r, w')" by fastforce
  have "fst (find_pending_activation sample_env (Inr sample_listing) ''/s'' 0 ''1.2.0''
      (map_option read_max_seen (Some ''/hw'')) update_world) = Some (pending_stage sample_id sample_plan)" by code_simp
  then have r: "r = Some (pending_stage sample_id sample_plan)" using f by simp
  have m: "(0::int) < 2 ^ 63 - 1" by simp
  show ?thesis using pending_never_reruns_history [OF f [unfolded r] m] f r by blast
qed

theorem sweep_starts_only_newer_witness:
  "\<exists>sweep. pending_sweep sample_env sample_config (Inr sample_listing) 0 = Some sweep \<and>
     w_spawned (snd (sweep update_world)) =
       [(''/s/activation-helper-'' @ sample_id @ ''.exe'', helper_args sample_config sample_id)]"
proof -
  obtain sweep where s: "pending_sweep sample_env sample_config (Inr sample_listing) 0 = Some sweep"
    by (simp add: pending_sweep_def activation_hook_def sample_config_def)
  obtain u w' where r: "sweep update_world = (u, w')" by (metis surj_pair)
  have m: "effective_hook_max sample_config < 2 ^ 63 - 1"
    by (simp add: effective_hook_max_def sample_config_def default_max_update_bytes_def)
  have "w_spawned (snd (the (pending_sweep sample_env sample_config (Inr sample_listing) 0) update_world)) =
      [(''/s/activation-helper-'' @ sample_id @ ''.exe'', helper_args sample_config sample_id)]" by code_simp
  then have e: "w_spawned (snd (sweep update_world)) =
      [(''/s/activation-helper-'' @ sample_id @ ''.exe'', helper_args sample_config sample_id)]" using s by simp
  show ?thesis using sweep_starts_only_newer [OF s r m] s e by blast
qed

theorem sweep_wedged_by_helper_file_witness:
  "\<exists>sweep. pending_sweep sample_env sample_config (Inr sample_listing) 0 = Some sweep \<and>
     w_spawned (snd (sweep (set_node (''/s/activation-helper-'' @ sample_id @ ''.exe'') (Some (RegFile [] 0)) update_world))) = []"
proof -
  let ?w = "set_node (''/s/activation-helper-'' @ sample_id @ ''.exe'') (Some (RegFile [] 0)) update_world"
  obtain sweep where s: "pending_sweep sample_env sample_config (Inr sample_listing) 0 = Some sweep"
    by (simp add: pending_sweep_def activation_hook_def sample_config_def)
  have ids: "list_all (\<lambda>e. case plan_entry_id e of None \<Rightarrow> True | Some i \<Rightarrow> i = sample_id) sample_listing"
    and h: "activation_helper_name_for sample_env (env_clean sample_env (trim_space (uc_staging_root sample_config))) sample_id =
      ''/s/activation-helper-'' @ sample_id @ ''.exe''" by code_simp+
  have ex: "w_node ?w (activation_helper_name_for sample_env (env_clean sample_env (trim_space (uc_staging_root sample_config))) i) \<noteq> None"
    if "e \<in> set sample_listing" "plan_entry_id e = Some i" for e i
  proof -
    have "i = sample_id" using ids that by (auto simp: list_all_iff)
    then show ?thesis using h by simp
  qed
  have "w_spawned (snd (sweep ?w)) = w_spawned ?w"
    by (rule sweep_wedged_by_helper_file [OF s]) (rule ex)
  moreover have "w_spawned ?w = []" by (simp add: update_world_def sample_world_def)
  ultimately show ?thesis using s by auto
qed

definition attempt_env :: env where
  "attempt_env = sample_env\<lparr>env_enc_attempt := (\<lambda>r. Some (format_nat (nat (at_last_unix r)))),
     env_dec_attempt := (\<lambda>s. map_option (\<lambda>n. \<lparr>at_schema = 1, at_plan_id = sample_id, at_last_unix = int (unat n), at_attempts = 1\<rparr>)
        (parse_uint64 s))\<rparr>"

theorem retry_paced_by_record_witness:
  "\<exists>w1. record_activation_attempt attempt_env ''/s'' sample_id (5 * 10 ^ 9) update_world = ((), w1) \<and>
     \<not> fst (should_attempt_activation_retry attempt_env ''/s'' sample_id (8 * 10 ^ 9) (4 * 10 ^ 9) w1) \<and>
     fst (should_attempt_activation_retry attempt_env ''/s'' sample_id (9 * 10 ^ 9) (4 * 10 ^ 9) w1)"
proof -
  obtain w1 where r: "record_activation_attempt attempt_env ''/s'' sample_id (5 * 10 ^ 9) update_world = ((), w1)"
    by (metis surj_pair unit.exhaust)
  have v: "valid_staging_id sample_id" by code_simp
  have nf: "\<not> w_fault update_world n" for n by (simp add: update_world_def sample_world_def)
  have "\<not> faulty (snd (record_activation_attempt attempt_env ''/s'' sample_id (5 * 10 ^ 9) update_world))" by code_simp
  then have nf1: "\<not> faulty w1" using r by simp
  have d: "format_nat 5 = ''5''" "strip_utf8_bom ''5'' = ''5''" "parse_uint64 ''5'' = Some 5" by code_simp+
  have q: "(5 * 10 ^ 9 :: int) div 10 ^ 9 = 5" by simp
  have cod: "\<exists>raw r'. env_enc_attempt attempt_env r = Some raw \<and>
      env_dec_attempt attempt_env (strip_utf8_bom raw) = Some r' \<and> at_last_unix r' = 5 * 10 ^ 9 div 10 ^ 9"
    if "at_last_unix r = 5 * 10 ^ 9 div 10 ^ 9" for r
    using that unfolding q by (simp add: attempt_env_def d)
  have b: "(10 ^ 9 :: int) \<le> 5 * 10 ^ 9" "(5 * 10 ^ 9 :: int) < 2 ^ 62" "(0::int) \<le> 8 * 10 ^ 9" "(8 * 10 ^ 9 :: int) < 2 ^ 62"
    "(0::int) \<le> 9 * 10 ^ 9" "(9 * 10 ^ 9 :: int) < 2 ^ 62" by simp_all
  show ?thesis
    using retry_paced_by_record [OF r v nf refl nf1 cod b(1,2,3,4)] retry_paced_by_record [OF r v nf refl nf1 cod b(1,2,5,6)] r q
    by simp
qed

end
