(* ===== verification/Preflight.thy ===== *)
theory Preflight
  imports SignerPolicy UrlPolicy
begin

text \<open>
  \<open>internal/selfupdate/policy.go\<close>: the policy gates that run before anything is downloaded, in
  their canonical order (platform, payload shape, tier, version, URL).
\<close>

record preflight_input =
  pi_platform :: string
  pi_current_version :: string
  pi_max_seen_version :: string
  pi_payload :: update_payload
  pi_url_policy :: url_policy
  pi_tier_policy :: tier_policy

record preflight_evidence =
  pe_old_version :: string
  pe_target_version :: string
  pe_signing_tier :: signing_tier

record preflight_decision =
  pd_proceed :: bool
  pd_noop :: bool
  pd_result :: stage_result
  pd_evidence :: preflight_evidence

definition no_evidence :: preflight_evidence where
  "no_evidence = \<lparr>pe_old_version = [], pe_target_version = [], pe_signing_tier = []\<rparr>"

definition fail_preflight :: "error_code \<Rightarrow> string \<Rightarrow> preflight_decision" where
  "fail_preflight code reason =
     \<lparr>pd_proceed = False, pd_noop = False, pd_result = stage_failed code reason,
      pd_evidence = no_evidence\<rparr>"

definition evaluate_preflight :: "url_lib \<Rightarrow> preflight_input \<Rightarrow> preflight_decision" where
  "evaluate_preflight L i =
    (if \<not> equal_fold (trim_space (pi_platform i)) ''windows''
     then fail_preflight ErrUnsupportedPlatform ''self-update is windows-only in v1''
     else
       let (code, reason) = validate_shape (pi_payload i) in
       if code \<noteq> ErrNone then fail_preflight code reason
       else
         let d = evaluate_tier_policy (up_signing_tier (pi_payload i)) (pi_tier_policy i) in
         if \<not> gd_allowed d then fail_preflight (gd_code d) (gd_reason d)
         else
           let vd = evaluate_version_policy (pi_current_version i)
                      (up_target_version (pi_payload i)) (pi_max_seen_version i) in
           if vd_noop vd
           then \<lparr>pd_proceed = False, pd_noop = True, pd_result = stage_noop (pi_current_version i),
                 pd_evidence = no_evidence\<rparr>
           else if \<not> vd_allowed vd then fail_preflight (vd_code vd) (vd_reason vd)
           else (case check_url L (up_binary_url (pi_payload i)) (pi_url_policy i) of
               Inl (code, reason) \<Rightarrow> fail_preflight code reason
             | Inr _ \<Rightarrow>
                 \<lparr>pd_proceed = True, pd_noop = False, pd_result = zero_stage_result,
                  pd_evidence = \<lparr>pe_old_version = pi_current_version i,
                                 pe_target_version = up_target_version (pi_payload i),
                                 pe_signing_tier = up_signing_tier (pi_payload i)\<rparr>\<rparr>))"

lemma validate_shape_code:
  "fst (validate_shape p) \<in> {ErrNone, ErrVersionUnparseable, ErrURLRejected, ErrHashMismatch, ErrLabTierRefused}"
  by (simp add: validate_shape_def)

lemma fail_preflight_simps [simp]:
  "\<not> pd_proceed (fail_preflight c r)" "\<not> pd_noop (fail_preflight c r)"
  "pd_result (fail_preflight c r) = stage_failed c r"
  by (simp_all add: fail_preflight_def)

text \<open>The gates in order, as the facts a clean preflight rests on.\<close>

definition preflight_gates :: "url_lib \<Rightarrow> preflight_input \<Rightarrow> bool list" where
  "preflight_gates L i =
     [equal_fold (trim_space (pi_platform i)) ''windows'',
      fst (validate_shape (pi_payload i)) = ErrNone,
      gd_allowed (evaluate_tier_policy (up_signing_tier (pi_payload i)) (pi_tier_policy i)),
      vd_allowed (evaluate_version_policy (pi_current_version i)
                    (up_target_version (pi_payload i)) (pi_max_seen_version i)),
      (\<exists>c. check_url L (up_binary_url (pi_payload i)) (pi_url_policy i) = Inr c)]"

lemma proceed_iff: "pd_proceed (evaluate_preflight L i) \<longleftrightarrow> list_all id (preflight_gates L i)"
  using policy_not_both [of "pi_current_version i" "up_target_version (pi_payload i)" "pi_max_seen_version i"]
  by (auto simp: evaluate_preflight_def preflight_gates_def Let_def split: prod.splits sum.splits)

lemma result_known:
  "pd_proceed (evaluate_preflight L i) \<or> is_known_stage_status (sr_status (pd_result (evaluate_preflight L i)))"
  by (auto simp: evaluate_preflight_def Let_def is_known_stage_status_def split: prod.splits sum.splits)

lemma refused_code:
  assumes "\<not> pd_proceed (evaluate_preflight L i)" and "\<not> pd_noop (evaluate_preflight L i)"
  shows "sr_status (pd_result (evaluate_preflight L i)) = StageFailed \<and>
    sr_code (pd_result (evaluate_preflight L i)) \<noteq> ErrNone"
proof -
  let ?d = "evaluate_tier_policy (up_signing_tier (pi_payload i)) (pi_tier_policy i)"
  let ?v = "evaluate_version_policy (pi_current_version i) (up_target_version (pi_payload i)) (pi_max_seen_version i)"
  have "\<not> gd_allowed ?d \<Longrightarrow> gd_code ?d \<noteq> ErrNone" using tier_code by simp
  moreover have "\<not> vd_noop ?v \<Longrightarrow> \<not> vd_allowed ?v \<Longrightarrow> vd_code ?v \<noteq> ErrNone" using policy_code by blast
  moreover have "check_url L (up_binary_url (pi_payload i)) (pi_url_policy i) = Inl (c, r) \<Longrightarrow> c \<noteq> ErrNone" for c r
    using check_url_code by fastforce
  ultimately show ?thesis
    using assms by (auto simp: evaluate_preflight_def Let_def split: prod.splits sum.splits if_splits)
qed

lemma preflight_noop_result:
  "pd_noop (evaluate_preflight L i) \<Longrightarrow> pd_result (evaluate_preflight L i) = stage_noop (pi_current_version i)"
  by (auto simp: evaluate_preflight_def Let_def split: prod.splits sum.splits if_splits)

text \<open>
  Fact: preflight proceeds exactly when every gate of the canonical list holds, and
  otherwise it ends in a bounded staging outcome: the no-op, or a FAILED_STAGE that carries an
  error code.  Proceeding and the no-op exclude each other.
\<close>

theorem preflight_proceeds_iff_gates:
  "pd_proceed (evaluate_preflight L i) = list_all id (preflight_gates L i) \<and>
   (pd_proceed (evaluate_preflight L i) \<or>
    (if pd_noop (evaluate_preflight L i)
     then pd_result (evaluate_preflight L i) = stage_noop (pi_current_version i)
     else sr_status (pd_result (evaluate_preflight L i)) = StageFailed \<and>
          sr_code (pd_result (evaluate_preflight L i)) \<noteq> ErrNone))"
  using preflight_noop_result proceed_iff refused_code by auto

text \<open>
  Fact: the backend's claims carry no authority.  Changing the claimed hash (to another
  non-blank one), the claimed signer, the lab-tier consent, the channel, ring or release id of
  a payload changes nothing of the preflight decision.
\<close>

theorem preflight_ignores_claims:
  assumes "blank sha = blank (up_claimed_sha256 (pi_payload i))"
  shows "evaluate_preflight L (i\<lparr>pi_payload := (pi_payload i)\<lparr>up_claimed_sha256 := sha,
           up_claimed_signer := signer, up_claimed_accept_lab_only := consent,
           up_channel := ch, up_ring := ring, up_release_id := rel\<rparr>\<rparr>) = evaluate_preflight L i"
  using assms by (simp add: evaluate_preflight_def validate_shape_def Let_def split: sum.split)

definition sample_payload :: update_payload where
  "sample_payload = \<lparr>up_release_id = ''r1'', up_channel = ''stable'', up_ring = [],
     up_target_version = ''1.2.4'', up_binary_url = ''https://GitHub.com/a.exe'',
     up_claimed_sha256 = ''aa'', up_claimed_signer = ''bb'', up_signing_tier = TierTrusted,
     up_max_bytes = 0, up_claimed_accept_lab_only = False\<rparr>"

definition sample_input :: preflight_input where
  "sample_input = \<lparr>pi_platform = ''windows'', pi_current_version = ''1.2.3'',
     pi_max_seen_version = [], pi_payload = sample_payload, pi_url_policy = sample_url_policy,
     pi_tier_policy = \<lparr>allow_lab_only = False, domain_joined = True\<rparr>\<rparr>"

theorem preflight_ignores_claims_witness:
  "pd_proceed (evaluate_preflight sample_url_lib
     (sample_input\<lparr>pi_payload := sample_payload\<lparr>up_claimed_sha256 := ''ff'',
        up_claimed_signer := ''evil'', up_claimed_accept_lab_only := True\<rparr>\<rparr>))"
proof -
  have b: "blank ''ff'' = blank (up_claimed_sha256 (pi_payload sample_input))" by code_simp
  have "pd_proceed (evaluate_preflight sample_url_lib sample_input)" by code_simp
  then show ?thesis
    using preflight_ignores_claims [OF b, where L = sample_url_lib and signer = "''evil''"
        and consent = True and ch = "''stable''" and ring = "[]" and rel = "''r1''"]
    by (simp add: sample_input_def sample_payload_def)
qed

end
