(* ===== verification/Staging.thy ===== *)
theory Staging
  imports ActivationPlan
begin

text \<open>
  The staging stores: \<open>staging_windows.go\<close> (production) and \<open>staging_portable.go\<close> (other systems).
  A store moves the verified temp file to the name its identifier has in the staging root.  The
  interface \<open>staging_store\<close> is what the stager relies on; both stores meet it.

  A reparse point is a link node; the security descriptor a hardening call sets is not modelled, only
  that the call may fail.  \<open>program_data\<close> is the environment variable of that name.
\<close>

section \<open>The portable store\<close>

definition portable_commit :: "env \<Rightarrow> string \<Rightarrow> string \<Rightarrow> string \<Rightarrow> world \<Rightarrow> (string + string) \<times> world" where
  "portable_commit E root tmp i =
    (if root = [] then io_fail ''staging root is empty''
     else if i = [] then io_fail ''staging id is empty''
     else io_or ''lstat root'' (os_lstat root) (\<lambda>n.
       if n = LinkNode then io_fail ''staging root is a symlink''
       else if n \<noteq> DirNode then io_fail ''staging root is not a directory''
       else
         let staged = staged_name_for E root i in
         if env_dir E staged \<noteq> env_clean E root then io_fail ''staged path escapes the staging root''
         else io_else (os_lstat staged)
           (\<lambda>e. if e \<noteq> NotExist then io_fail ''lstat staged''
                else io_or ''rename'' (os_rename tmp staged) (\<lambda>_. io_ret staged))
           (\<lambda>_. io_fail ''staged target already exists'')))"

section \<open>The Windows store\<close>

definition default_windows_staging_root :: "env \<Rightarrow> string \<Rightarrow> string" where
  "default_windows_staging_root E program_data =
    (let root = (if program_data = [] then ''C:'' @ [CHR 0x5C] @ ''ProgramData'' else program_data) in
     env_join E (env_join E (env_join E root ''EndpointAgent'') ''self-update'') ''staging'')"

definition default_windows_high_water_path :: "env \<Rightarrow> string \<Rightarrow> string" where
  "default_windows_high_water_path E program_data =
    (let root = (if program_data = [] then ''C:'' @ [CHR 0x5C] @ ''ProgramData'' else program_data) in
     env_join E (env_join E (env_join E root ''EndpointAgent'') ''self-update'') ''max-activated-version.txt'')"

definition reject_reparse_point :: "string \<Rightarrow> world \<Rightarrow> (string + unit) \<times> world" where
  "reject_reparse_point path =
    (if path = [] then io_fail ''path is empty''
     else io_or ''attributes'' (os_lstat path) (\<lambda>n.
       if n = LinkNode then io_fail ''path is a reparse point'' else io_ret ()))"

text \<open>MkdirAll leaves an existing directory alone; a missing root becomes a directory.\<close>

definition os_mkdir_all :: "string \<Rightarrow> unit io" where
  "os_mkdir_all p w =
    (if faulty w then (Inl IoFail, tick w)
     else (case w_node w p of
         None \<Rightarrow> (Inr (), set_node p (Some DirNode) (tick w))
       | Some DirNode \<Rightarrow> (Inr (), tick w)
       | Some (RegFile _ _) \<Rightarrow> (Inl IoFail, tick w)
       | Some LinkNode \<Rightarrow> (Inr (), tick w)))"

definition ensure_hardened_directory :: "string \<Rightarrow> world \<Rightarrow> (string + unit) \<times> world" where
  "ensure_hardened_directory path =
     io_or ''mkdir root'' (os_mkdir_all path) (\<lambda>_.
     io_or ''lstat root'' (os_lstat path) (\<lambda>n.
       if n = LinkNode then io_fail ''staging root is a symlink''
       else if n \<noteq> DirNode then io_fail ''staging root is not a directory''
       else io_or ''harden root acl'' os_call (\<lambda>_. io_ret ())))"

definition windows_root :: "env \<Rightarrow> string \<Rightarrow> string \<Rightarrow> string" where
  "windows_root E program_data root0 =
     (if root0 = [] then default_windows_staging_root E program_data else root0)"

definition windows_commit ::
    "env \<Rightarrow> string \<Rightarrow> string \<Rightarrow> string \<Rightarrow> string \<Rightarrow> world \<Rightarrow> (string + string) \<times> world" where
  "windows_commit E program_data root0 tmp i =
    io_or ''context'' os_call (\<lambda>_.
      let root = windows_root E program_data root0 in
      if i = [] then io_fail ''staging id is empty''
      else io_bind (ensure_hardened_directory root) (\<lambda>_.
        io_bind (reject_reparse_point root) (\<lambda>_.
        let staged = staged_name_for E root i in
        if env_dir E staged \<noteq> env_clean E root then io_fail ''staged path escapes the staging root''
        else io_bind (reject_reparse_point tmp) (\<lambda>_.
          io_else (os_lstat staged)
            (\<lambda>e. if e \<noteq> NotExist then io_fail ''lstat staged''
              else io_or ''atomic move'' (os_move_new tmp staged) (\<lambda>_.
                io_bind (reject_reparse_point staged) (\<lambda>_.
                io_or ''harden staged file'' os_call (\<lambda>_. io_ret staged))))
            (\<lambda>_. io_fail ''staged target already exists'')))))"

definition windows_prepare_temp_dir :: "env \<Rightarrow> string \<Rightarrow> string \<Rightarrow> world \<Rightarrow> (string + string) \<times> world" where
  "windows_prepare_temp_dir E program_data root0 =
    io_or ''context'' os_call (\<lambda>_.
      let root = windows_root E program_data root0 in
      io_bind (ensure_hardened_directory root) (\<lambda>_.
      io_bind (reject_reparse_point root) (\<lambda>_. io_ret root)))"

section \<open>The interface\<close>

text \<open>
  \<open>name i\<close> is the place the identifier has.  A commit never overwrites: it succeeds only where
  nothing was, and then the temp file's content is there and the temp file is gone.
\<close>

locale staging_store =
  fixes commit :: "string \<Rightarrow> string \<Rightarrow> world \<Rightarrow> (string + string) \<times> world"
    and name :: "string \<Rightarrow> string" and root :: string
  assumes commit_ok: "commit tmp i w = (Inr staged, w') \<Longrightarrow> tmp \<noteq> root \<Longrightarrow>
      staged = name i \<and> w_node w staged = None \<and> w_node w tmp \<noteq> None \<and>
      w_node w' staged = w_node w tmp \<and> w_node w' tmp = None"
    and commit_frame: "touches {tmp, name i, root} (commit tmp i)"
begin

lemma committed_bytes:
  "commit tmp i w = (Inr staged, w') \<Longrightarrow> tmp \<noteq> root \<Longrightarrow> file_bytes w' (name i) = file_bytes w tmp"
  using commit_ok by (simp add: file_bytes_def)

text \<open>Cleaning the temp file up afterwards does not lose the staged one.\<close>

lemma committed_survives_cleanup:
  assumes "commit tmp i w = (Inr staged, w')" and "tmp \<noteq> root"
  shows "file_bytes (snd (os_remove tmp w')) (name i) = file_bytes w tmp"
proof -
  have "tmp \<noteq> name i" using commit_ok [OF assms] by auto
  moreover obtain r w2 where r: "os_remove tmp w' = (r, w2)" by fastforce
  moreover have "only {tmp} w' w2" by (rule touchesD [OF touches_writes(3) r]) simp
  ultimately show ?thesis using committed_bytes [OF assms] only_bytes by force
qed

text \<open>An identifier is committed at most once.\<close>

lemma commit_once:
  assumes "commit tmp i w = (Inr staged, w')" "tmp \<noteq> root" "w_node v (name i) = w_node w' (name i)" "tmp' \<noteq> root"
  shows "isl (fst (commit tmp' i v))"
proof (rule ccontr)
  assume "\<not> isl (fst (commit tmp' i v))"
  then obtain s v' where "commit tmp' i v = (Inr s, v')" by (metis obj_sumE prod.collapse sum.disc(1))
  from commit_ok [OF this assms(4)] commit_ok [OF assms(1,2)] assms(3) show False by auto
qed

end

section \<open>Both stores meet it\<close>

lemma touches_mkdir_all [frame]: "p \<in> S \<Longrightarrow> touches S (os_mkdir_all p)"
  by (auto simp: touches_def only_def os_mkdir_all_def split: option.splits node.splits)

lemma touches_ensure [frame]: "p \<in> S \<Longrightarrow> touches S (ensure_hardened_directory p)"
  unfolding ensure_hardened_directory_def by (intro frame)

lemma touches_reject [frame]: "touches S (reject_reparse_point p)"
  unfolding reject_reparse_point_def by (intro frame)

lemma os_move_new_Inr:
  "os_move_new a b w = (Inr u, w') \<Longrightarrow>
     w_node w a \<noteq> None \<and> w_node w b = None \<and> w_node w' b = w_node w a \<and> w_node w' a = None \<and> a \<noteq> b"
  by (auto simp: os_move_new_def split: if_splits option.splits)

lemma lstat_missing: "os_lstat p w = (Inl NotExist, w') \<Longrightarrow> w_node w p = None \<and> w_node w' = w_node w"
  by (auto simp: os_lstat_def split: if_splits option.splits)

lemma ensure_Inr:
  assumes "ensure_hardened_directory p w = (Inr u, w')"
  shows "w_node w' p = Some DirNode" and "only {p} w w'"
proof -
  show "only {p} w w'" by (rule touchesD [OF touches_ensure assms]) simp
  show "w_node w' p = Some DirNode"
    using assms
    by (auto simp: ensure_hardened_directory_def io_success os_lstat_def dest!: os_call_Inr split: if_splits option.splits)
qed

lemma portable_commit_ok:
  assumes "portable_commit E root tmp i w = (Inr staged, w')"
  shows "staged = staged_name_for E root i \<and> w_node w staged = None \<and> w_node w tmp \<noteq> None \<and>
      w_node w' staged = w_node w tmp \<and> w_node w' tmp = None"
proof -
  let ?s = "staged_name_for E root i"
  obtain n w1 where l: "os_lstat root w = (Inr n, w1)"
    and c: "io_else (os_lstat ?s)
           (\<lambda>e. if e \<noteq> NotExist then io_fail ''lstat staged''
                else io_or ''rename'' (os_rename tmp ?s) (\<lambda>_. io_ret ?s))
           (\<lambda>_. io_fail ''staged target already exists'') w1 = (Inr staged, w')"
    using assms by (auto simp: portable_commit_def io_success Let_def split: if_splits)
  have n1: "w_node w1 = w_node w" using touchesD [OF touches_calls(2) l, of "{}"] by (auto simp: only_def)
  obtain w2 where m: "os_lstat ?s w1 = (Inl NotExist, w2)"
    and r: "io_or ''rename'' (os_rename tmp ?s) (\<lambda>_. io_ret ?s) w2 = (Inr staged, w')"
    using c by (auto simp: io_else_split io_fail_def split: if_splits)
  have n2: "w_node w2 = w_node w" "w_node w ?s = None" using lstat_missing [OF m] n1 by auto
  obtain u where mv: "os_rename tmp ?s w2 = (Inr u, w')" and e: "staged = ?s" using r by (auto simp: io_success)
  show ?thesis using os_rename_Inr [OF mv] n2 e by auto
qed

lemma windows_commit_ok:
  assumes "windows_commit E pd root0 tmp i w = (Inr staged, w')" and "tmp \<noteq> windows_root E pd root0"
  shows "staged = staged_name_for E (windows_root E pd root0) i \<and> w_node w staged = None \<and> w_node w tmp \<noteq> None \<and>
      w_node w' staged = w_node w tmp \<and> w_node w' tmp = None"
proof -
  let ?root = "windows_root E pd root0"
  let ?s = "staged_name_for E ?root i"
  obtain u1 w1 u2 w2 u3 w3 where
    e: "ensure_hardened_directory ?root (tick w) = (Inr u1, w1)"
    and j1: "reject_reparse_point ?root w1 = (Inr u2, w2)" and j2: "reject_reparse_point tmp w2 = (Inr u3, w3)"
    and c: "io_else (os_lstat ?s)
            (\<lambda>e. if e \<noteq> NotExist then io_fail ''lstat staged''
              else io_or ''atomic move'' (os_move_new tmp ?s) (\<lambda>_.
                io_bind (reject_reparse_point ?s) (\<lambda>_.
                io_or ''harden staged file'' os_call (\<lambda>_. io_ret ?s))))
            (\<lambda>_. io_fail ''staged target already exists'') w3 = (Inr staged, w')"
    using assms(1) by (auto simp: windows_commit_def io_success Let_def dest!: os_call_Inr split: if_splits)
  have n3: "w_node w3 = w_node w1"
    using touchesD [OF touches_reject j1, of "{}"] touchesD [OF touches_reject j2, of "{}"] by (auto simp: only_def)
  obtain w4 where m: "os_lstat ?s w3 = (Inl NotExist, w4)"
    and r: "io_or ''atomic move'' (os_move_new tmp ?s) (\<lambda>_.
                io_bind (reject_reparse_point ?s) (\<lambda>_.
                io_or ''harden staged file'' os_call (\<lambda>_. io_ret ?s))) w4 = (Inr staged, w')"
    using c by (auto simp: io_else_split io_fail_def split: if_splits)
  have n4: "w_node w4 = w_node w1" "w_node w1 ?s = None" using lstat_missing [OF m] n3 by auto
  obtain u5 w5 u6 w6 where mv: "os_move_new tmp ?s w4 = (Inr u5, w5)" and j3: "reject_reparse_point ?s w5 = (Inr u6, w6)"
    and f: "w' = tick w6" "staged = ?s"
    using r by (auto simp: io_success dest!: os_call_Inr)
  have n5: "w_node w' = w_node w5" using touchesD [OF touches_reject j3, of "{}"] f by (auto simp: only_def)
  have "?s \<noteq> ?root" using ensure_Inr(1) [OF e] n4(2) by auto
  then have "w_node w1 ?s = w_node w ?s" "w_node w1 tmp = w_node w tmp"
    using ensure_Inr(2) [OF e] assms(2) by (auto simp: only_def)
  then show ?thesis using os_move_new_Inr [OF mv] n4 n5 f by auto
qed

interpretation portable_store: staging_store "portable_commit E root" "staged_name_for E root" root
proof
  fix tmp i w staged w'
  assume "portable_commit E root tmp i w = (Inr staged, w')"
  then show "staged = staged_name_for E root i \<and> w_node w staged = None \<and> w_node w tmp \<noteq> None \<and>
      w_node w' staged = w_node w tmp \<and> w_node w' tmp = None" by (rule portable_commit_ok)
next
  fix tmp i
  show "touches {tmp, staged_name_for E root i, root} (portable_commit E root tmp i)"
    unfolding portable_commit_def Let_def by (intro frame) auto
qed

interpretation windows_store: staging_store "windows_commit E pd root0"
    "staged_name_for E (windows_root E pd root0)" "windows_root E pd root0"
proof
  fix tmp i w staged w'
  assume "windows_commit E pd root0 tmp i w = (Inr staged, w')" "tmp \<noteq> windows_root E pd root0"
  then show "staged = staged_name_for E (windows_root E pd root0) i \<and> w_node w staged = None \<and> w_node w tmp \<noteq> None \<and>
      w_node w' staged = w_node w tmp \<and> w_node w' tmp = None" by (rule windows_commit_ok)
next
  fix tmp i
  show "touches {tmp, staged_name_for E (windows_root E pd root0) i, windows_root E pd root0} (windows_commit E pd root0 tmp i)"
    unfolding windows_commit_def Let_def by (intro frame) auto
qed

section \<open>Properties\<close>

text \<open>
  Fact: the production store never overwrites and never loses what it staged: a successful
  commit found nothing under the identifier's name, leaves there exactly the verified file, survives the
  stager's clean-up of the temp file, and no later commit of the same identifier succeeds while the staged file is there.
\<close>

theorem windows_staging_no_overwrite:
  assumes "windows_commit E pd root0 tmp i w = (Inr staged, w')" and "tmp \<noteq> windows_root E pd root0"
  shows "w_node w staged = None \<and> file_bytes (snd (os_remove tmp w')) staged = file_bytes w tmp \<and>
    (\<forall>v tmp'. w_node v staged = w_node w' staged \<and> tmp' \<noteq> windows_root E pd root0 \<longrightarrow>
       isl (fst (windows_commit E pd root0 tmp' i v)))"
proof -
  have s: "staged = staged_name_for E (windows_root E pd root0) i" "w_node w staged = None"
    using windows_store.commit_ok [OF assms] by auto
  show ?thesis
    using windows_store.committed_survives_cleanup [OF assms] windows_store.commit_once [OF assms] s by blast
qed

theorem windows_staging_no_overwrite_witness:
  "\<exists>staged w'. windows_commit sample_env [] ''/s'' ''/s/tmp'' sample_id
       (set_node ''/s/tmp'' (Some (RegFile ''new'' 1)) sample_world) = (Inr staged, w') \<and>
     file_bytes (snd (os_remove ''/s/tmp'' w')) staged = Some ''new''"
proof -
  let ?w = "set_node ''/s/tmp'' (Some (RegFile ''new'' 1)) sample_world"
  obtain r w' where c: "windows_commit sample_env [] ''/s'' ''/s/tmp'' sample_id ?w = (r, w')" by fastforce
  have "\<not> isl (fst (windows_commit sample_env [] ''/s'' ''/s/tmp'' sample_id ?w))" by code_simp
  then obtain staged where r: "r = Inr staged" using c by (cases r) auto
  have n: "''/s/tmp'' \<noteq> windows_root sample_env [] ''/s''" by (simp add: windows_root_def)
  have "file_bytes ?w ''/s/tmp'' = Some ''new''" by (simp add: file_bytes_def)
  then show ?thesis using windows_staging_no_overwrite [OF c [unfolded r] n] c r by auto
qed

end
