(* ===== verification/Stager.thy ===== *)
theory Stager
  imports Preflight HighWater Staging
begin

text \<open>
  \<open>internal/selfupdate/stager.go\<close>: the pipeline that verifies and stages an update.  The record
  \<open>stager\<close> has the fields of the struct, a collaborator that may be nil is an option.  The verifier and the
  version reader only read the world; the downloader delivers the bytes it wrote before it
  returned and its verdict.
\<close>

record store_ops =
  so_commit :: "string \<Rightarrow> string \<Rightarrow> world \<Rightarrow> (string + string) \<times> world"
  so_prepare :: "(world \<Rightarrow> (string + string) \<times> world) option" \<comment> \<open>PrepareTempDir, if implemented\<close>

record stager =
  sg_verifier :: "(string \<Rightarrow> world \<Rightarrow> unit + authenticode_evidence) option"
  sg_version_reader :: "(string \<Rightarrow> world \<Rightarrow> unit + string) option"
  sg_downloader :: "(string \<Rightarrow> url_policy \<Rightarrow> int \<Rightarrow> string \<times> refusal) option"
  sg_high_water :: "(world \<Rightarrow> (string + string) \<times> world) option"
  sg_staging :: "store_ops option"
  sg_plan_writer :: "(activation_plan \<Rightarrow> world \<Rightarrow> (plan_err + unit) \<times> world) option"
  sg_allowlist :: signer_allowlist
  sg_tier_policy :: tier_policy
  sg_url_policy :: url_policy
  sg_hard_max_bytes :: i64
  sg_goos :: string
  sg_default_goos :: string \<comment> \<open>runtime.GOOS\<close>
  sg_new_staging_id :: "string option" \<comment> \<open>what an injected generator returns\<close>
  sg_random :: "string option" \<comment> \<open>16 bytes from the system, or its failure\<close>
  sg_expected_hash :: string
  sg_current_path :: string
  sg_service :: string

definition stager_read_max_seen :: "stager \<Rightarrow> world \<Rightarrow> (string + string) \<times> world" where
  "stager_read_max_seen s = (case sg_high_water s of None \<Rightarrow> io_ret [] | Some read \<Rightarrow> read)"

definition stager_goos :: "stager \<Rightarrow> string" where
  "stager_goos s = (if sg_goos s \<noteq> [] then sg_goos s else sg_default_goos s)"

definition effective_max_bytes :: "stager \<Rightarrow> i64 \<Rightarrow> i64" where
  "effective_max_bytes s payload_max =
     (if 0 <s payload_max \<and> payload_max <s sg_hard_max_bytes s then payload_max else sg_hard_max_bytes s)"

definition mint_staging_id :: "stager \<Rightarrow> string option" where
  "mint_staging_id s =
     (case sg_new_staging_id s of Some i \<Rightarrow> Some i | None \<Rightarrow> random_staging_id (sg_random s))"

abbreviation failed_stage :: "error_code \<Rightarrow> string \<Rightarrow> world \<Rightarrow> stage_result \<times> world" where
  "failed_stage code reason \<equiv> Pair (stage_failed code reason)"

text \<open>The evidence that goes on the wire when everything passed.\<close>

definition stage_ready :: "string \<Rightarrow> update_payload \<Rightarrow> string \<Rightarrow> string \<Rightarrow> string \<Rightarrow> stage_result" where
  "stage_ready current p i sha signer =
     zero_stage_result\<lparr>sr_status := StageReady, sr_staging_id := i, sr_plan_id := i, sr_old_version := current,
       sr_target_version := up_target_version p, sr_sha256 := sha, sr_signer := signer,
       sr_tier := up_signing_tier p, sr_reason := ''verified and staged; awaiting activation''\<rparr>"

text \<open>From the minting of the identifier to the end.\<close>

definition commit_and_plan ::
    "env \<Rightarrow> stager \<Rightarrow> store_ops \<Rightarrow> update_payload \<Rightarrow> string \<Rightarrow> string \<Rightarrow> string \<Rightarrow> string \<Rightarrow>
     world \<Rightarrow> stage_result \<times> world" where
  "commit_and_plan E s st p current tmp sha signer =
    (case mint_staging_id s of
       None \<Rightarrow> failed_stage ErrStagingIO ''could not mint an opaque staging id''
     | Some i \<Rightarrow>
         if \<not> valid_staging_id i then failed_stage ErrStagingIO ''could not mint an opaque staging id''
         else io_else (so_commit st tmp i)
           (\<lambda>_. failed_stage ErrStagingIO ''could not stage the verified binary'')
           (\<lambda>staged.
              let ready = stage_ready current p i sha signer in
              case sg_plan_writer s of
                None \<Rightarrow> Pair ready
              | Some write \<Rightarrow>
                  (case build_activation_plan E staged (sg_current_path s) (sg_service s) ready of
                     Inl (code, reason) \<Rightarrow> failed_stage code reason
                   | Inr plan \<Rightarrow> io_else (write plan)
                       (\<lambda>e. failed_stage (fst (activation_plan_failure (Some e))) (snd (activation_plan_failure (Some e))))
                       (\<lambda>_. Pair ready))))"

text \<open>The gates on the downloaded temp file.\<close>

definition verify_and_commit ::
    "env \<Rightarrow> stager \<Rightarrow> store_ops \<Rightarrow> (string \<Rightarrow> world \<Rightarrow> unit + authenticode_evidence) \<Rightarrow>
     (string \<Rightarrow> world \<Rightarrow> unit + string) \<Rightarrow> update_payload \<Rightarrow> string \<Rightarrow> string \<Rightarrow> string \<Rightarrow>
     world \<Rightarrow> stage_result \<times> world" where
  "verify_and_commit E s st verify read_version p current tmp sha w =
    (if sg_expected_hash s \<noteq> [] \<and> \<not> equal_fold (trim_space (sg_expected_hash s)) sha
     then failed_stage ErrHashMismatch ''staged bytes do not match the trusted local expected hash'' w
     else (case verify tmp w of
         Inl _ \<Rightarrow> failed_stage ErrSignatureInvalid ''authenticode verification failed'' w
       | Inr ev \<Rightarrow>
           let ad = evaluate_authenticode_policy ev (up_signing_tier p) in
           if \<not> gd_allowed ad then failed_stage (gd_code ad) (gd_reason ad) w
           else
             let sd = evaluate_signer_policy (ae_signer ev) (sg_allowlist s) in
             if \<not> gd_allowed sd then failed_stage (gd_code sd) (gd_reason sd) w
             else (case read_version tmp w of
                 Inl _ \<Rightarrow> failed_stage ErrCatalogMismatch ''could not read the binary version stamp'' w
               | Inr pe \<Rightarrow>
                   let (code, reason) = evaluate_artifact_version_binding pe (up_target_version p) in
                   if code \<noteq> ErrNone then failed_stage code reason w
                   else commit_and_plan E s st p current tmp sha (ae_signer ev) w)))"

text \<open>The download into the temp file; whatever happens, the temp name is removed at the end.\<close>

definition download_and_verify ::
    "env \<Rightarrow> stager \<Rightarrow> store_ops \<Rightarrow> (string \<Rightarrow> world \<Rightarrow> unit + authenticode_evidence) \<Rightarrow>
     (string \<Rightarrow> world \<Rightarrow> unit + string) \<Rightarrow> (string \<Rightarrow> url_policy \<Rightarrow> int \<Rightarrow> string \<times> refusal) \<Rightarrow>
     update_payload \<Rightarrow> string \<Rightarrow> string \<Rightarrow> world \<Rightarrow> stage_result \<times> world" where
  "download_and_verify E s st verify read_version download p current tmp =
    (let (body, code, reason) = download (up_binary_url p) (sg_url_policy s) (sint (effective_max_bytes s (up_max_bytes p))) in
     io_else (os_write tmp body)
       (\<lambda>_. failed_stage ErrDownloadFailed ''error reading download body'')
       (\<lambda>_. if code \<noteq> ErrNone then failed_stage code reason
            else io_else os_call
              (\<lambda>_. failed_stage ErrStagingIO ''could not flush temp download file'')
              (\<lambda>_. io_else os_call
                (\<lambda>_. failed_stage ErrStagingIO ''could not close temp download file'')
                (\<lambda>_. verify_and_commit E s st verify read_version p current tmp (env_sha E body)))))"

definition with_cleanup :: "string \<Rightarrow> (world \<Rightarrow> 'r \<times> world) \<Rightarrow> world \<Rightarrow> 'r \<times> world" where
  "with_cleanup tmp m w = (case m w of (r, w') \<Rightarrow> (r, snd (os_remove tmp w')))"

definition stage :: "env \<Rightarrow> url_lib \<Rightarrow> stager \<Rightarrow> update_payload \<Rightarrow> string \<Rightarrow> world \<Rightarrow> stage_result \<times> world" where
  "stage E L s p current =
    io_else (stager_read_max_seen s)
      (\<lambda>_. failed_stage ErrVersionUnparseable ''high-water state unreadable; failing closed'')
      (\<lambda>max_seen.
        let pre = evaluate_preflight L \<lparr>pi_platform = stager_goos s, pi_current_version = current,
              pi_max_seen_version = max_seen, pi_payload = p, pi_url_policy = sg_url_policy s,
              pi_tier_policy = sg_tier_policy s\<rparr> in
        if pd_noop pre then Pair (pd_result pre)
        else if \<not> pd_proceed pre then Pair (pd_result pre)
        else if \<not> 0 <s sg_hard_max_bytes s
        then failed_stage ErrStagingIO ''stager misconfigured: no download cap''
        else (case (sg_downloader s, sg_verifier s, sg_version_reader s, sg_staging s) of
            (Some download, Some verify, Some read_version, Some st) \<Rightarrow>
              if max_redirects (sg_url_policy s) < 0
              then failed_stage ErrStagingIO ''stager misconfigured: negative redirect cap''
              else io_else (case so_prepare st of None \<Rightarrow> io_ret [] | Some prepare \<Rightarrow> prepare)
                (\<lambda>_. failed_stage ErrStagingIO ''could not prepare hardened temp directory'')
                (\<lambda>_. io_else os_create_temp
                  (\<lambda>_. failed_stage ErrStagingIO ''could not create temp download file'')
                  (\<lambda>tmp. with_cleanup tmp (download_and_verify E s st verify read_version download p current tmp)))
          | _ \<Rightarrow> failed_stage ErrStagingIO ''stager misconfigured: missing collaborator''))"

section \<open>What STAGED_ACTIVATION_READY rests on\<close>

lemma stage_ready_simps [simp]:
  "sr_status (stage_ready c p i sha sg) = StageReady" "sr_plan_id (stage_ready c p i sha sg) = i"
  "sr_staging_id (stage_ready c p i sha sg) = i" "sr_sha256 (stage_ready c p i sha sg) = sha"
  "sr_signer (stage_ready c p i sha sg) = sg" "sr_target_version (stage_ready c p i sha sg) = up_target_version p"
  by (simp_all add: stage_ready_def)

lemma commit_and_plan_ready:
  assumes "commit_and_plan E s st p current tmp sha signer w = (r, w')" and "sr_status r = StageReady"
  shows "\<exists>i staged w1. mint_staging_id s = Some i \<and> valid_staging_id i \<and>
    so_commit st tmp i w = (Inr staged, w1) \<and> r = stage_ready current p i sha signer \<and>
    (case sg_plan_writer s of None \<Rightarrow> w' = w1
     | Some write \<Rightarrow> \<exists>plan u. build_activation_plan E staged (sg_current_path s) (sg_service s) r = Inr plan \<and>
         write plan w1 = (Inr u, w'))"
proof -
  obtain i where i: "mint_staging_id s = Some i" "valid_staging_id i"
    using assms by (auto simp: commit_and_plan_def split: option.splits if_splits)
  obtain staged w1 where c: "so_commit st tmp i w = (Inr staged, w1)"
    and k: "(let ready = stage_ready current p i sha signer in
              case sg_plan_writer s of
                None \<Rightarrow> Pair ready
              | Some write \<Rightarrow>
                  (case build_activation_plan E staged (sg_current_path s) (sg_service s) ready of
                     Inl (code, reason) \<Rightarrow> failed_stage code reason
                   | Inr plan \<Rightarrow> io_else (write plan)
                       (\<lambda>e. failed_stage (fst (activation_plan_failure (Some e))) (snd (activation_plan_failure (Some e))))
                       (\<lambda>_. Pair ready))) w1 = (r, w')"
    using assms i by (auto simp: commit_and_plan_def io_else_split)
  show ?thesis
  proof (cases "sg_plan_writer s")
    case None
    then show ?thesis using i c k by (auto simp: Let_def)
  next
    case (Some wr)
    let ?b = "build_activation_plan E staged (sg_current_path s) (sg_service s) (stage_ready current p i sha signer)"
    obtain plan where b: "?b = Inr plan"
      using k Some assms(2) by (cases ?b) (auto simp: Let_def)
    then obtain u where "wr plan w1 = (Inr u, w')" "r = stage_ready current p i sha signer"
      using k Some assms(2) by (auto simp: Let_def io_else_split)
    then show ?thesis using i c b Some by auto
  qed
qed

lemma verify_and_commit_ready:
  assumes "verify_and_commit E s st verify rd p current tmp sha w = (r, w')" and "sr_status r = StageReady"
  shows "\<exists>ev pe. verify tmp w = Inr ev \<and> gd_allowed (evaluate_authenticode_policy ev (up_signing_tier p)) \<and>
    gd_allowed (evaluate_signer_policy (ae_signer ev) (sg_allowlist s)) \<and> rd tmp w = Inr pe \<and>
    fst (evaluate_artifact_version_binding pe (up_target_version p)) = ErrNone \<and>
    (sg_expected_hash s = [] \<or> equal_fold (trim_space (sg_expected_hash s)) sha) \<and>
    commit_and_plan E s st p current tmp sha (ae_signer ev) w = (r, w')"
  using assms
  by (cases "verify tmp w"; cases "rd tmp w")
    (auto simp: verify_and_commit_def Let_def split: if_splits prod.splits)

lemma download_and_verify_ready:
  assumes "download_and_verify E s st verify rd download p current tmp w = (r, w')" and "sr_status r = StageReady"
  shows "\<exists>body reason w1.
    download (up_binary_url p) (sg_url_policy s) (sint (effective_max_bytes s (up_max_bytes p))) = (body, ErrNone, reason) \<and>
    file_bytes w1 tmp = Some body \<and> only {tmp} w w1 \<and>
    verify_and_commit E s st verify rd p current tmp (env_sha E body) w1 = (r, w')"
proof -
  obtain body code reason where d:
    "download (up_binary_url p) (sg_url_policy s) (sint (effective_max_bytes s (up_max_bytes p))) = (body, code, reason)"
    by (cases "download (up_binary_url p) (sg_url_policy s) (sint (effective_max_bytes s (up_max_bytes p)))") auto
  obtain u w1 where w: "os_write tmp body w = (Inr u, w1)" and c: "code = ErrNone"
    and v: "verify_and_commit E s st verify rd p current tmp (env_sha E body) (tick (tick w1)) = (r, w')"
    using assms d by (auto simp: download_and_verify_def io_else_split Let_def dest!: os_call_Inr split: if_splits)
  have "only {tmp} w w1" by (rule touchesD [OF touches_writes(2) w]) simp
  then have "only {tmp} w (tick (tick w1))" by (simp add: only_def)
  moreover have "file_bytes (tick (tick w1)) tmp = Some body" using os_write_Inr [OF w] by simp
  ultimately show ?thesis using d c v by blast
qed

text \<open>All gates of a run that reached its end; \<open>tmp\<close> holds \<open>body\<close> in \<open>w2\<close>.\<close>

definition stage_passed ::
    "env \<Rightarrow> url_lib \<Rightarrow> stager \<Rightarrow> update_payload \<Rightarrow> string \<Rightarrow> string \<Rightarrow> string \<Rightarrow> world \<Rightarrow>
     authenticode_evidence \<Rightarrow> bool" where
  "stage_passed E L s p current max_seen body w2 ev \<longleftrightarrow>
     list_all id (preflight_gates L \<lparr>pi_platform = stager_goos s, pi_current_version = current,
       pi_max_seen_version = max_seen, pi_payload = p, pi_url_policy = sg_url_policy s,
       pi_tier_policy = sg_tier_policy s\<rparr>) \<and>
     0 <s sg_hard_max_bytes s \<and> 0 \<le> max_redirects (sg_url_policy s) \<and>
     (\<exists>download reason. sg_downloader s = Some download \<and>
        download (up_binary_url p) (sg_url_policy s) (sint (effective_max_bytes s (up_max_bytes p))) = (body, ErrNone, reason)) \<and>
     (sg_expected_hash s = [] \<or> equal_fold (trim_space (sg_expected_hash s)) (env_sha E body)) \<and>
     gd_allowed (evaluate_authenticode_policy ev (up_signing_tier p)) \<and>
     gd_allowed (evaluate_signer_policy (ae_signer ev) (sg_allowlist s)) \<and>
     (\<exists>tmp verify rd pe. sg_verifier s = Some verify \<and> verify tmp w2 = Inr ev \<and> sg_version_reader s = Some rd \<and>
        rd tmp w2 = Inr pe \<and> file_bytes w2 tmp = Some body \<and>
        fst (evaluate_artifact_version_binding pe (up_target_version p)) = ErrNone)"

lemma stage_ready_gates:
  assumes "stage E L s p current w = (r, w')" and "sr_status r = StageReady"
  shows "\<exists>max_seen w0 st tmp body w2 ev w3. stager_read_max_seen s w = (Inr max_seen, w0) \<and>
    sg_staging s = Some st \<and> stage_passed E L s p current max_seen body w2 ev \<and> file_bytes w2 tmp = Some body \<and>
    (\<exists>w1 v d. (case so_prepare st of None \<Rightarrow> io_ret [] | Some prepare \<Rightarrow> prepare) w0 = (Inr d, w1) \<and>
       os_create_temp w1 = (Inr tmp, v) \<and> only {tmp} v w2) \<and>
    commit_and_plan E s st p current tmp (env_sha E body) (ae_signer ev) w2 = (r, w3) \<and> w' = snd (os_remove tmp w3)"
proof -
  obtain ms w0 where ms: "stager_read_max_seen s w = (Inr ms, w0)"
    using assms by (auto simp: stage_def io_else_split)
  let ?i = "\<lparr>pi_platform = stager_goos s, pi_current_version = current, pi_max_seen_version = ms, pi_payload = p,
     pi_url_policy = sg_url_policy s, pi_tier_policy = sg_tier_policy s\<rparr>"
  let ?pre = "evaluate_preflight L ?i"
  have noop: "\<not> pd_noop ?pre"
  proof
    assume a: "pd_noop ?pre"
    then have "\<not> pd_proceed ?pre"
      by (auto simp: evaluate_preflight_def Let_def split: prod.splits sum.splits if_splits)
    then have "sr_status (pd_result ?pre) = StageNoopCurrent"
      using preflight_noop_result [OF a] by simp
    then show False using assms ms a by (auto simp: stage_def io_else_def Let_def)
  qed
  have pro: "pd_proceed ?pre"
  proof (rule ccontr)
    assume a: "\<not> pd_proceed ?pre"
    then show False using refused_code [OF a noop] assms ms noop by (auto simp: stage_def io_else_def Let_def)
  qed
  have hm: "0 <s sg_hard_max_bytes s" using assms ms noop pro by (auto simp: stage_def io_else_def Let_def split: if_splits)
  obtain download verify rd st where col: "sg_downloader s = Some download" "sg_verifier s = Some verify"
      "sg_version_reader s = Some rd" "sg_staging s = Some st"
    using assms ms noop pro hm by (auto simp: stage_def io_else_def Let_def split: option.splits)
  have red: "0 \<le> max_redirects (sg_url_policy s)"
    using assms ms noop pro hm col by (auto simp: stage_def io_else_def Let_def split: if_splits)
  obtain d w1 tmp v where prep: "(case so_prepare st of None \<Rightarrow> io_ret [] | Some prepare \<Rightarrow> prepare) w0 = (Inr d, w1)"
    and t: "os_create_temp w1 = (Inr tmp, v)"
    and k: "with_cleanup tmp (download_and_verify E s st verify rd download p current tmp) v = (r, w')"
    using assms ms noop pro hm col red by (auto simp: stage_def io_else_def [of "stager_read_max_seen s"] Let_def io_else_split)
  obtain w3 where dv: "download_and_verify E s st verify rd download p current tmp v = (r, w3)" and e: "w' = snd (os_remove tmp w3)"
    using k by (auto simp: with_cleanup_def split: prod.splits)
  obtain body reason w2 where b: "download (up_binary_url p) (sg_url_policy s) (sint (effective_max_bytes s (up_max_bytes p))) = (body, ErrNone, reason)"
    "file_bytes w2 tmp = Some body" "only {tmp} v w2"
    "verify_and_commit E s st verify rd p current tmp (env_sha E body) w2 = (r, w3)"
    using download_and_verify_ready [OF dv assms(2)] by blast
  obtain ev pe where g: "verify tmp w2 = Inr ev" "gd_allowed (evaluate_authenticode_policy ev (up_signing_tier p))"
    "gd_allowed (evaluate_signer_policy (ae_signer ev) (sg_allowlist s))" "rd tmp w2 = Inr pe"
    "fst (evaluate_artifact_version_binding pe (up_target_version p)) = ErrNone"
    "sg_expected_hash s = [] \<or> equal_fold (trim_space (sg_expected_hash s)) (env_sha E body)"
    "commit_and_plan E s st p current tmp (env_sha E body) (ae_signer ev) w2 = (r, w3)"
    using verify_and_commit_ready [OF b(4) assms(2)] by blast
  have "stage_passed E L s p current ms body w2 ev"
    unfolding stage_passed_def using proceed_iff [of L ?i] pro hm red col b g by blast
  then show ?thesis using ms col(4) b(2,3) prep t g(7) e by blast
qed

lemma effective_max_bounds:
  assumes "0 <s sg_hard_max_bytes s"
  shows "0 < sint (effective_max_bytes s m)" and "sint (effective_max_bytes s m) \<le> sint (sg_hard_max_bytes s)"
    and "0 <s m \<Longrightarrow> sint (effective_max_bytes s m) \<le> sint m"
    and "effective_max_bytes s m = sg_hard_max_bytes s \<or> effective_max_bytes s m = m"
  using assms by (auto simp: effective_max_bytes_def word_sless_alt)

section \<open>Properties\<close>

text \<open>
  Property C12: STAGED_ACTIVATION_READY is the conjunction of every gate.  Whatever the collaborators
  do and whatever I/O fails, a run that reports it has passed the preflight with the version mark it read,
  downloaded the binary under the local cap, matched the trusted hash if there is one, and had the
  verified signature, the local signer allow-list and the version stamp of the very file accepted; the
  reported hash and signer are the ones computed from that file, and the identifier is opaque.
\<close>

theorem staged_ready_passed_every_gate:
  assumes "stage E L s p current w = (r, w')" and "sr_status r = StageReady"
  shows "\<exists>max_seen w0 body w2 ev i. stager_read_max_seen s w = (Inr max_seen, w0) \<and>
    stage_passed E L s p current max_seen body w2 ev \<and>
    r = stage_ready current p i (env_sha E body) (ae_signer ev) \<and> mint_staging_id s = Some i \<and> valid_staging_id i"
proof -
  obtain max_seen w0 st tmp body w2 ev w3 where a: "stager_read_max_seen s w = (Inr max_seen, w0)"
    "stage_passed E L s p current max_seen body w2 ev"
    "commit_and_plan E s st p current tmp (env_sha E body) (ae_signer ev) w2 = (r, w3)"
    using stage_ready_gates [OF assms] by blast
  then show ?thesis using commit_and_plan_ready [OF a(3) assms(2)] by blast
qed

text \<open>
  Fact: the backend can lower the download cap and never raise it: with the HTTP downloader,
  a staged binary is no longer than the local hard cap, and no longer than the payload's cap when
  that is positive; both are 64-bit signed numbers.
\<close>

theorem staged_within_local_cap:
  assumes "stage E L s p current w = (r, w')" and "sr_status r = StageReady"
    and "sg_downloader s = Some (\<lambda>u pol m. http_download L ok u pol m hops reply)"
  shows "\<exists>body. sr_sha256 r = env_sha E body \<and> int (length body) \<le> sint (sg_hard_max_bytes s) \<and>
    (0 <s up_max_bytes p \<longrightarrow> int (length body) \<le> sint (up_max_bytes p)) \<and>
    (\<exists>rs. reply = Reply 200 rs \<and> body = bytes_until_eof rs)"
proof -
  obtain max_seen w0 st tmp body w2 ev w3 where a: "stage_passed E L s p current max_seen body w2 ev"
    "commit_and_plan E s st p current tmp (env_sha E body) (ae_signer ev) w2 = (r, w3)"
    using stage_ready_gates [OF assms(1,2)] by blast
  have hm: "0 <s sg_hard_max_bytes s" using a(1) by (simp add: stage_passed_def)
  obtain reason where d: "http_download L ok (up_binary_url p) (sg_url_policy s) (sint (effective_max_bytes s (up_max_bytes p))) hops reply
      = (body, ErrNone, reason)"
    using a(1) assms(3) by (auto simp: stage_passed_def)
  obtain rs err where "reply = Reply 200 rs" "int (length body) \<le> sint (effective_max_bytes s (up_max_bytes p))"
    "copy_capped (int64 (sint (effective_max_bytes s (up_max_bytes p)) + 1)) rs = (body, CopyOk)"
    using http_download_shape [OF d] by auto
  moreover have "sr_sha256 r = env_sha E body" using commit_and_plan_ready [OF a(2) assms(2)] by auto
  ultimately show ?thesis
    using effective_max_bounds(2,3) [OF hm, of "up_max_bytes p"] copy_capped_ok by force
qed

section \<open>A sample run\<close>

definition sample_stager :: stager where
  "sample_stager = \<lparr>sg_verifier = Some (\<lambda>_ _. Inr \<lparr>ae_chain_valid = True, ae_code_signing_eku = True,
       ae_signer = ''AB:CD'', ae_timestamped = True, ae_signing_time_valid = True, ae_current_time_valid = False\<rparr>),
     sg_version_reader = Some (\<lambda>_ _. Inr ''1.3.0.0''),
     sg_downloader = Some (\<lambda>u pol m. http_download sample_url_lib (\<lambda>_. True) u pol m []
        (Reply 200 [\<lparr>rs_data = ''new'', rs_err = ReadEOF, rs_sink_ok = True\<rparr>])),
     sg_high_water = Some (read_max_seen ''/hw''),
     sg_staging = Some \<lparr>so_commit = windows_commit sample_env [] ''/s'', so_prepare = Some (windows_prepare_temp_dir sample_env [] ''/s'')\<rparr>,
     sg_plan_writer = Some (write_activation_plan sample_env),
     sg_allowlist = [''abcd''], sg_tier_policy = \<lparr>allow_lab_only = False, domain_joined = True\<rparr>,
     sg_url_policy = sample_url_policy, sg_hard_max_bytes = 100, sg_goos = [], sg_default_goos = ''windows'',
     sg_new_staging_id = Some sample_id, sg_random = None, sg_expected_hash = [],
     sg_current_path = ''/bin/agent'', sg_service = ''agent''\<rparr>"

definition stage_payload :: update_payload where
  "stage_payload = sample_payload\<lparr>up_target_version := ''1.3.0'', up_max_bytes := 50\<rparr>"

definition stage_world :: world where
  "stage_world = sample_world\<lparr>w_node := [''/bin/agent'' \<mapsto> RegFile ''orig'' 5], w_temp := (\<lambda>_. ''/s/agent-update-1.tmp'')\<rparr>"

lemma sample_stage_run:
  "case stage sample_env sample_url_lib sample_stager stage_payload ''1.2.0'' stage_world of (r, w') \<Rightarrow>
     sr_status r = StageReady \<and> sr_staging_id r = sample_id \<and> \<not> faulty w' \<and>
     build_activation_plan sample_env (staged_name_for sample_env ''/s'' sample_id) ''/bin/agent'' ''agent'' r = Inr sample_plan"
  by code_simp

theorem staged_ready_passed_every_gate_witness:
  "\<exists>r w'. stage sample_env sample_url_lib sample_stager stage_payload ''1.2.0'' stage_world = (r, w') \<and>
     (\<exists>body. sr_sha256 r = env_sha sample_env body) \<and> sr_staging_id r = sample_id"
proof -
  obtain r w' where s: "stage sample_env sample_url_lib sample_stager stage_payload ''1.2.0'' stage_world = (r, w')" by fastforce
  have st: "sr_status r = StageReady" using sample_stage_run s by simp
  have "mint_staging_id sample_stager = Some sample_id" by (simp add: mint_staging_id_def sample_stager_def)
  then show ?thesis using staged_ready_passed_every_gate [OF s st] s by auto
qed

theorem staged_within_local_cap_witness:
  "\<exists>r w'. stage sample_env sample_url_lib sample_stager stage_payload ''1.2.0'' stage_world = (r, w') \<and>
     (\<exists>body. sr_sha256 r = env_sha sample_env body \<and> int (length body) \<le> 50)"
proof -
  obtain r w' where s: "stage sample_env sample_url_lib sample_stager stage_payload ''1.2.0'' stage_world = (r, w')" by fastforce
  have st: "sr_status r = StageReady" using sample_stage_run s by simp
  have d: "sg_downloader sample_stager = Some (\<lambda>u pol m. http_download sample_url_lib (\<lambda>_. True) u pol m []
        (Reply 200 [\<lparr>rs_data = ''new'', rs_err = ReadEOF, rs_sink_ok = True\<rparr>]))" by (simp add: sample_stager_def)
  have m: "0 <s up_max_bytes stage_payload" "sint (up_max_bytes stage_payload) = 50"
    by (simp_all add: stage_payload_def word_sless_alt)
  show ?thesis using staged_within_local_cap [OF s st d] m s by auto
qed

end
