(* ===== verification/Wire.thy ===== *)
theory Wire
  imports Prelude
begin

text \<open>
  What the agent uses of Go's \<open>encoding/binary\<close>: fixed-width big-endian integers in a byte
  string.  \<open>be_bytes k n\<close> are the \<open>k\<close> low bytes of \<open>n\<close>, most significant first, and
  \<open>be_val\<close> reads them back; the reading of a written integer is the integer modulo its width.
  \<open>take_bytes\<close> is a bounds-checked read of a prefix, on which the readers of the protocols
  are built.
\<close>

fun be_bytes :: "nat \<Rightarrow> nat \<Rightarrow> string" where
  "be_bytes 0 n = []"
| "be_bytes (Suc k) n = be_bytes k (n div 256) @ [char_of (n mod 256)]"

definition be_val :: "string \<Rightarrow> nat" where
  "be_val s = foldl (\<lambda>n c. n * 256 + byte_of c) 0 s"

definition put_uint16 :: "16 word \<Rightarrow> string" where
  "put_uint16 v = be_bytes 2 (unat v)"

definition put_uint32 :: "u32 \<Rightarrow> string" where
  "put_uint32 v = be_bytes 4 (unat v)"

definition put_uint64 :: "u64 \<Rightarrow> string" where
  "put_uint64 v = be_bytes 8 (unat v)"

definition get_uint16 :: "string \<Rightarrow> 16 word" where
  "get_uint16 s = word_of_nat (be_val (take 2 s))"

definition get_uint32 :: "string \<Rightarrow> u32" where
  "get_uint32 s = word_of_nat (be_val (take 4 s))"

definition get_uint64 :: "string \<Rightarrow> u64" where
  "get_uint64 s = word_of_nat (be_val (take 8 s))"

lemma length_be_bytes [simp]: "length (be_bytes k n) = k"
  by (induction k arbitrary: n) auto

lemma length_put [simp]:
  "length (put_uint16 v) = 2" "length (put_uint32 w) = 4" "length (put_uint64 x) = 8"
  by (simp_all add: put_uint16_def put_uint32_def put_uint64_def)

lemma be_val_snoc: "be_val (s @ [c]) = be_val s * 256 + byte_of c"
  by (simp add: be_val_def)

lemma be_val_Nil [simp]: "be_val [] = 0"
  by (simp add: be_val_def)

lemma be_val_bytes: "be_val (be_bytes k n) = n mod 256 ^ k"
proof (induction k arbitrary: n)
  case (Suc k)
  have "byte_of (char_of (n mod 256)) = n mod 256" by (simp add: byte_of_def)
  with Suc show ?case
    by (simp add: be_val_snoc) (metis mod_mult2_eq mult.commute add.commute)
qed simp

lemma be_val_bound: "be_val s < 256 ^ length s"
proof (induction s rule: rev_induct)
  case (snoc c s)
  then have "be_val s * 256 + byte_of c < (be_val s + 1) * 256"
    using byte_of_bound [of c] by simp
  also have "... \<le> 256 ^ length s * 256" using snoc by (intro mult_le_mono1) simp
  finally show ?case by (simp add: be_val_snoc mult.commute)
qed simp

lemma be_bytes_val: "be_bytes (length s) (be_val s) = s"
proof (induction s rule: rev_induct)
  case (snoc c s)
  have "(be_val s * 256 + byte_of c) div 256 = be_val s"
       "(be_val s * 256 + byte_of c) mod 256 = byte_of c"
    using byte_of_bound [of c] by simp_all
  with snoc show ?case by (simp add: be_val_snoc) (simp add: byte_of_def)
qed simp

text \<open>Reading back what was written.\<close>

lemma unat_bound: "unat (v :: 'a::len word) < 2 ^ LENGTH('a)"
  by (rule unsigned_less)

lemma get_put_uint16 [simp]: "get_uint16 (put_uint16 v @ s) = v"
  using unat_bound [of v] by (simp add: get_uint16_def put_uint16_def be_val_bytes)

lemma get_put_uint32 [simp]: "get_uint32 (put_uint32 v @ s) = v"
  using unat_bound [of v] by (simp add: get_uint32_def put_uint32_def be_val_bytes)

lemma get_put_uint64 [simp]: "get_uint64 (put_uint64 v @ s) = v"
  using unat_bound [of v] by (simp add: get_uint64_def put_uint64_def be_val_bytes)

lemma unat_get:
  "unat (get_uint16 s) = be_val (take 2 s)" "unat (get_uint32 s) = be_val (take 4 s)"
proof -
  have b: "be_val (take k s) < 256 ^ k" for k
    using be_val_bound [of "take k s"]
    by (rule less_le_trans) (simp add: power_increasing)
  from b [of 2] show "unat (get_uint16 s) = be_val (take 2 s)"
    unfolding get_uint16_def unsigned_of_nat by (simp add: take_bit_eq_mod)
  from b [of 4] show "unat (get_uint32 s) = be_val (take 4 s)"
    unfolding get_uint32_def unsigned_of_nat by (simp add: take_bit_eq_mod)
qed

lemma put_get_uint16: "2 \<le> length s \<Longrightarrow> put_uint16 (get_uint16 s) = take 2 s"
  using be_bytes_val [of "take 2 s"] by (simp add: put_uint16_def unat_get min_absorb2)

lemma put_get_uint32: "4 \<le> length s \<Longrightarrow> put_uint32 (get_uint32 s) = take 4 s"
  using be_bytes_val [of "take 4 s"] by (simp add: put_uint32_def unat_get min_absorb2)

text \<open>The first \<open>n\<close> bytes and the rest, when there are so many.\<close>

definition take_bytes :: "nat \<Rightarrow> string \<Rightarrow> (string \<times> string) option" where
  "take_bytes n s = (if n \<le> length s then Some (take n s, drop n s) else None)"

lemma take_bytes_append [simp]: "length x = n \<Longrightarrow> take_bytes n (x @ s) = Some (x, s)"
  by (simp add: take_bytes_def)

lemma take_bytes_Some: "take_bytes n s = Some (x, r) \<longleftrightarrow> s = x @ r \<and> length x = n"
  by (auto simp: take_bytes_def)

end
