(* ===== verification/OperationPermit.thy ===== *)
theory OperationPermit
  imports Wire "HOL-Library.Monad_Syntax"
begin

text \<open>
  The broker-signed operation permit and the canonical command
  (\<open>src/internal/remotebridge/operation/permit.go\<close> and \<open>command.go\<close>): the bytes the
  broker signs, the freshness window on 64-bit milliseconds, the verifier with its reasons, and
  the canonicalisation and hash of a command line.

  Cryptography, base64 and the parsing of a public key are the operations of the record
  \<open>crypto\<close>, a parameter; \<open>cr_lower\<close> is \<open>strings.ToLower\<close> on a string that is not
  ASCII.  A permit is verified by \<open>verify_with_reason\<close>; what a verdict means is stated by
  \<open>permit_valid\<close>, in integers.  The signed bytes are read back by \<open>read_permit\<close>, so two
  permits with the same signed bytes agree in every signed field.
\<close>

section \<open>Cryptography as a parameter\<close>

datatype 'k public_key = EcdsaP256 'k | EcdsaOtherCurve | NotEcdsa

record 'k crypto =
  cr_base64 :: "string \<Rightarrow> string option" \<comment> \<open>\<open>base64.StdEncoding.DecodeString\<close>\<close>
  cr_spki :: "string \<Rightarrow> 'k public_key option" \<comment> \<open>\<open>x509.ParsePKIXPublicKey\<close>\<close>
  cr_sha256 :: "string \<Rightarrow> string" \<comment> \<open>\<open>sha256.Sum256\<close>, the digest's bytes\<close>
  cr_hex :: "string \<Rightarrow> string" \<comment> \<open>\<open>hex.EncodeToString\<close>\<close>
  cr_ecdsa :: "'k \<Rightarrow> string \<Rightarrow> string \<Rightarrow> bool" \<comment> \<open>\<open>ecdsa.VerifyASN1\<close>\<close>
  cr_lower :: "string \<Rightarrow> string" \<comment> \<open>\<open>strings.ToLower\<close>, on a non-ASCII string\<close>

section \<open>Byte-exact serialization\<close>

definition write_int32 :: "u32 \<Rightarrow> string" where
  "write_int32 v = put_uint32 v"

definition write_int64 :: "i64 \<Rightarrow> string" where
  "write_int64 v = put_uint64 v"

text \<open>The length is narrowed to an int32, as in the code.\<close>

definition write_field :: "string \<Rightarrow> string" where
  "write_field s = write_int32 (word_of_nat (length s)) @ s"

definition field_fits :: "string \<Rightarrow> bool" where
  "field_fits s \<longleftrightarrow> length s < 2 ^ 32"

text \<open>Reading a field back.\<close>

definition read_field :: "string \<Rightarrow> (string \<times> string) option" where
  "read_field s = (if length s < 4 then None else take_bytes (unat (get_uint32 s)) (drop 4 s))"

definition read_int32 :: "string \<Rightarrow> (u32 \<times> string) option" where
  "read_int32 s = (if length s < 4 then None else Some (get_uint32 s, drop 4 s))"

definition read_int64 :: "string \<Rightarrow> (i64 \<times> string) option" where
  "read_int64 s = (if length s < 8 then None else Some (get_uint64 s, drop 8 s))"

lemma read_write_field [simp]: "field_fits s \<Longrightarrow> read_field (write_field s @ r) = Some (s, r)"
  by (simp add: read_field_def write_field_def write_int32_def field_fits_def
      unsigned_of_nat take_bit_eq_mod)

lemma read_write_int32 [simp]: "read_int32 (write_int32 v @ r) = Some (v, r)"
  by (simp add: read_int32_def write_int32_def)

lemma read_write_int64 [simp]: "read_int64 (write_int64 v @ r) = Some (v, r)"
  by (simp add: read_int64_def write_int64_def)

lemma write_field_append_inject:
  "field_fits s \<Longrightarrow> field_fits t \<Longrightarrow> write_field s @ r = write_field t @ q \<longleftrightarrow> s = t \<and> r = q"
  by (metis option.inject prod.inject read_write_field)

section \<open>The canonical command\<close>

record canonical_command =
  cc_id :: string
  cc_argv :: "string list"

definition le_space :: "char \<Rightarrow> bool" where
  "le_space c \<longleftrightarrow> c \<le> CHR '' ''"

text \<open>A rune up to U+0020 is a single byte, so trimming runes is trimming bytes.\<close>

definition java_trim :: "string \<Rightarrow> string" where
  "java_trim s = rev (dropWhile le_space (rev (dropWhile le_space s)))"

definition split_space_runs :: "string \<Rightarrow> string list" where
  "split_space_runs s = filter (\<lambda>p. p \<noteq> []) (split_on CHR '' '' s)"

definition go_lower :: "'k crypto \<Rightarrow> string \<Rightarrow> string" where
  "go_lower C s = (if list_all is_ascii_char s then to_lower s else cr_lower C s)"

text \<open>\<open>tokens[0]\<close> would panic on an empty list; \<open>tokens_not_Nil\<close> shows there is a token.\<close>

definition parse_command :: "'k crypto \<Rightarrow> string \<Rightarrow> canonical_command" where
  "parse_command C command_line =
    (let line = java_trim command_line in
     if line = [] then \<lparr>cc_id = [], cc_argv = []\<rparr>
     else (case split_space_runs line of
         [] \<Rightarrow> \<lparr>cc_id = [], cc_argv = []\<rparr>
       | tok # args \<Rightarrow> \<lparr>cc_id = go_lower C (java_trim tok), cc_argv = args\<rparr>))"

definition cc_is_empty :: "canonical_command \<Rightarrow> bool" where
  "cc_is_empty c \<longleftrightarrow> cc_id c = []"

definition command_domain :: string where
  "command_domain = ''RemoteBridgeCommand:v1''"

definition command_bytes :: "canonical_command \<Rightarrow> string" where
  "command_bytes c =
     write_field command_domain @ write_field (cc_id c) @ concat (map write_field (cc_argv c))"

definition command_hash :: "'k crypto \<Rightarrow> canonical_command \<Rightarrow> string" where
  "command_hash C c = cr_hex C (cr_sha256 C (command_bytes c))"

definition command_fits :: "canonical_command \<Rightarrow> bool" where
  "command_fits c \<longleftrightarrow> list_all field_fits (cc_id c # cc_argv c)"

lemma command_domain_fits [simp]: "field_fits command_domain"
  by (simp add: field_fits_def command_domain_def)

lemma write_field_not_Nil [simp]: "write_field s \<noteq> []"
  by (metis append_is_Nil_conv length_greater_0_conv length_put(2) list.size(3) write_field_def
      write_int32_def zero_less_numeral)

lemma concat_fields_inject:
  "list_all field_fits xs \<Longrightarrow> list_all field_fits ys \<Longrightarrow>
   concat (map write_field xs) = concat (map write_field ys) \<longleftrightarrow> xs = ys"
proof (induction xs arbitrary: ys)
  case (Cons x xs)
  then show ?case by (cases ys) (auto simp: write_field_append_inject)
qed (auto simp: concat_eq_Nil_conv)

lemma command_bytes_inject:
  "command_fits c \<Longrightarrow> command_fits d \<Longrightarrow> command_bytes c = command_bytes d \<longleftrightarrow> c = d"
  by (auto simp: command_bytes_def command_fits_def write_field_append_inject concat_fields_inject)

subsection \<open>Tokens\<close>

lemma java_trim_le: "length (java_trim s) \<le> length s"
  unfolding java_trim_def
  by (metis length_dropWhile_le length_rev order_trans)

lemma java_trim_first: "java_trim s = c # t \<Longrightarrow> \<not> le_space c"
proof -
  assume a: "java_trim s = c # t"
  let ?d = "dropWhile le_space s"
  have "\<exists>p. ?d = java_trim s @ p"
    unfolding java_trim_def
    by (metis rev_append rev_rev_ident takeWhile_dropWhile_id)
  then obtain p where "?d = (c # t) @ p" using a by auto
  then show "\<not> le_space c" by (metis append_Cons dropWhile_eq_Cons_conv)
qed

lemma java_trim_last: "java_trim s \<noteq> [] \<Longrightarrow> \<not> le_space (last (java_trim s))"
  unfolding java_trim_def by (simp add: last_rev hd_dropWhile)

lemma java_trim_id:
  "(s \<noteq> [] \<Longrightarrow> \<not> le_space (hd s) \<and> \<not> le_space (last s)) \<Longrightarrow> java_trim s = s"
  by (cases s) (auto simp: java_trim_def hd_rev dropWhile_eq_self_iff simp flip: hd_rev)

lemma java_trim_idem [simp]: "java_trim (java_trim s) = java_trim s"
  by (rule java_trim_id) (metis java_trim_first java_trim_last list.collapse)

lemma split_space_runs_Cons:
  "c \<noteq> CHR '' '' \<Longrightarrow> \<exists>u us. split_space_runs (c # s) = (c # u) # us"
  by (auto simp: split_space_runs_def split: list.splits)

lemma tokens_not_Nil: "java_trim s \<noteq> [] \<Longrightarrow> split_space_runs (java_trim s) \<noteq> []"
proof -
  assume "java_trim s \<noteq> []"
  then obtain c t where t: "java_trim s = c # t" by (cases "java_trim s") auto
  then have "c \<noteq> CHR '' ''" using java_trim_first [OF t] by (auto simp: le_space_def)
  then show ?thesis using t split_space_runs_Cons by (metis list.distinct(1))
qed

lemma token_chars: "t \<in> set (split_space_runs s) \<Longrightarrow> t \<noteq> [] \<and> CHR '' '' \<notin> set t \<and> set t \<subseteq> set s"
  using set_split_on by (auto simp: split_space_runs_def)

lemma command_empty_iff:
  assumes "\<And>s. cr_lower C s = [] \<longleftrightarrow> s = []"
  shows "cc_is_empty (parse_command C line) \<longleftrightarrow> java_trim line = []"
proof (cases "java_trim line")
  case (Cons c t)
  then have nc: "\<not> le_space c" by (rule java_trim_first)
  then obtain u us where u: "split_space_runs (c # t) = (c # u) # us"
    using split_space_runs_Cons [of c t] by (auto simp: le_space_def)
  have "java_trim (c # u) \<noteq> []"
    using nc by (auto simp: java_trim_def)
  then show ?thesis
    using Cons u assms by (auto simp: parse_command_def cc_is_empty_def go_lower_def to_lower_def)
qed (simp add: parse_command_def cc_is_empty_def)

section \<open>The permit\<close>

record operation_permit =
  op_alg :: string
  op_kid :: string
  op_permit_version :: u32
  op_policy_version :: string
  op_decision_id :: string
  op_session_id :: string
  op_operation_id :: string
  op_device_id :: string
  op_operator_subject :: string
  op_capability :: string
  op_command_hash :: string
  op_issued_at :: i64
  op_expires_at :: i64
  op_seq :: i64
  op_signature :: string

definition permit_domain :: string where
  "permit_domain = ''RemoteBridgeOperationPermit:v1''"

definition canonical_payload :: "operation_permit \<Rightarrow> string" where
  "canonical_payload p =
     write_field permit_domain @ write_field (op_alg p) @ write_field (op_kid p) @
     write_int32 (op_permit_version p) @ write_field (op_policy_version p) @
     write_field (op_decision_id p) @ write_field (op_session_id p) @
     write_field (op_operation_id p) @ write_field (op_device_id p) @
     write_field (op_operator_subject p) @ write_field (op_capability p) @
     write_field (op_command_hash p) @ write_int64 (op_issued_at p) @
     write_int64 (op_expires_at p) @ write_int64 (op_seq p)"

definition permit_fits :: "operation_permit \<Rightarrow> bool" where
  "permit_fits p \<longleftrightarrow> list_all field_fits [op_alg p, op_kid p, op_policy_version p, op_decision_id p,
     op_session_id p, op_operation_id p, op_device_id p, op_operator_subject p, op_capability p,
     op_command_hash p]"

text \<open>The reader of the signed bytes: the domain, every field in order, and nothing after it.\<close>

definition read_permit :: "string \<Rightarrow> operation_permit option" where
  "read_permit s0 =
    do {
      (dom, s) \<leftarrow> read_field s0;
      (alg, s) \<leftarrow> read_field s;
      (kid, s) \<leftarrow> read_field s;
      (ver, s) \<leftarrow> read_int32 s;
      (pol, s) \<leftarrow> read_field s;
      (dec, s) \<leftarrow> read_field s;
      (ses, s) \<leftarrow> read_field s;
      (opn, s) \<leftarrow> read_field s;
      (dev, s) \<leftarrow> read_field s;
      (sub, s) \<leftarrow> read_field s;
      (cap, s) \<leftarrow> read_field s;
      (hsh, s) \<leftarrow> read_field s;
      (iss, s) \<leftarrow> read_int64 s;
      (ex, s) \<leftarrow> read_int64 s;
      (sq, s) \<leftarrow> read_int64 s;
      if dom = permit_domain \<and> s = [] then
        Some \<lparr>op_alg = alg, op_kid = kid, op_permit_version = ver, op_policy_version = pol,
          op_decision_id = dec, op_session_id = ses, op_operation_id = opn, op_device_id = dev,
          op_operator_subject = sub, op_capability = cap, op_command_hash = hsh,
          op_issued_at = iss, op_expires_at = ex, op_seq = sq, op_signature = []\<rparr>
      else None }"

lemma permit_domain_fits [simp]: "field_fits permit_domain"
  by (simp add: field_fits_def permit_domain_def)

lemma read_canonical: "permit_fits p \<Longrightarrow> read_permit (canonical_payload p) = Some (p\<lparr>op_signature := []\<rparr>)"
  using read_write_int64 [of "op_seq p" "[]"]
  by (simp add: read_permit_def canonical_payload_def permit_fits_def)

section \<open>Freshness\<close>

definition max_validity_millis :: i64 where
  "max_validity_millis = 15 * 60 * 1000"

definition clock_skew_millis :: i64 where
  "clock_skew_millis = 2 * 60 * 1000"

definition is_fresh :: "operation_permit \<Rightarrow> i64 \<Rightarrow> bool" where
  "is_fresh p now \<longleftrightarrow>
     0 <s op_issued_at p \<and> 0 <s op_expires_at p \<and>
     op_issued_at p <s op_expires_at p \<and>
     op_expires_at p - op_issued_at p \<le>s max_validity_millis \<and>
     op_issued_at p \<le>s now + clock_skew_millis \<and>
     now <s op_expires_at p + clock_skew_millis"

text \<open>The window in integers.\<close>

definition within_window :: "operation_permit \<Rightarrow> int \<Rightarrow> bool" where
  "within_window p now \<longleftrightarrow>
     (let i = sint (op_issued_at p); e = sint (op_expires_at p) in
      0 < i \<and> i < e \<and> e - i \<le> 900000 \<and> i - 120000 \<le> now \<and> now < e + 120000)"

section \<open>The verifier\<close>

datatype reason =
    NoReason
  | PermitInvalid | PermitVerifierUnavailable | PermitKidMismatch | PermitAlgMismatch
  | PermitSignatureMissing | PermitVersionMismatch | PermitDeviceMismatch | PermitNotFresh
  | PermitSignatureDecode | PermitSignatureInvalid
  | CapabilityNotPTY | CommandTooLong | EmptyCommand | CommandMismatch | SeqInvalid | SeqReplay
  | CapabilityNotViewOnly | CommandHashPresent | MissingSessionID | MissingOperationID

fun reason_code :: "reason \<Rightarrow> string" where
  "reason_code NoReason = []"
| "reason_code PermitInvalid = ''permit-invalid''"
| "reason_code PermitVerifierUnavailable = ''permit-invalid:verifier-unavailable''"
| "reason_code PermitKidMismatch = ''permit-invalid:kid-mismatch''"
| "reason_code PermitAlgMismatch = ''permit-invalid:alg-mismatch''"
| "reason_code PermitSignatureMissing = ''permit-invalid:signature-missing''"
| "reason_code PermitVersionMismatch = ''permit-invalid:version-mismatch''"
| "reason_code PermitDeviceMismatch = ''permit-invalid:device-mismatch''"
| "reason_code PermitNotFresh = ''permit-invalid:not-fresh''"
| "reason_code PermitSignatureDecode = ''permit-invalid:signature-decode-failed''"
| "reason_code PermitSignatureInvalid = ''permit-invalid:signature-invalid''"
| "reason_code CapabilityNotPTY = ''capability-not-pty''"
| "reason_code CommandTooLong = ''command-too-long''"
| "reason_code EmptyCommand = ''empty-command''"
| "reason_code CommandMismatch = ''command-mismatch''"
| "reason_code SeqInvalid = ''seq-invalid''"
| "reason_code SeqReplay = ''seq-replay''"
| "reason_code CapabilityNotViewOnly = ''capability-not-view-only''"
| "reason_code CommandHashPresent = ''command-hash-present''"
| "reason_code MissingSessionID = ''missing-session-id''"
| "reason_code MissingOperationID = ''missing-operation-id''"

record 'k verifier =
  vf_pub :: "'k option" \<comment> \<open>None: a nil key\<close>
  vf_kid :: string
  vf_device :: string

datatype verifier_error =
    KidBlank | DeviceBlank | KeyNotBase64 | KeyNotSpki | KeyNotP256

definition new_verifier :: "'k crypto \<Rightarrow> string \<Rightarrow> string \<Rightarrow> string \<Rightarrow> verifier_error + 'k verifier" where
  "new_verifier C key_b64 kid device =
    (if blank kid then Inl KidBlank
     else if blank device then Inl DeviceBlank
     else (case cr_base64 C key_b64 of
         None \<Rightarrow> Inl KeyNotBase64
       | Some der \<Rightarrow> (case cr_spki C der of
           None \<Rightarrow> Inl KeyNotSpki
         | Some (EcdsaP256 k) \<Rightarrow> Inr \<lparr>vf_pub = Some k, vf_kid = kid, vf_device = device\<rparr>
         | Some _ \<Rightarrow> Inl KeyNotP256)))"

definition permit_alg :: string where
  "permit_alg = ''SHA256withECDSA''"

definition permit_version_pinned :: u32 where
  "permit_version_pinned = 1"

definition verify_with_reason ::
  "'k crypto \<Rightarrow> 'k verifier option \<Rightarrow> operation_permit \<Rightarrow> i64 \<Rightarrow> bool \<times> reason" where
  "verify_with_reason C v p now =
    (case Option.bind v vf_pub of
       None \<Rightarrow> (False, PermitVerifierUnavailable)
     | Some pub \<Rightarrow>
       if op_kid p \<noteq> vf_kid (the v) then (False, PermitKidMismatch)
       else if op_alg p \<noteq> permit_alg then (False, PermitAlgMismatch)
       else if op_signature p = [] then (False, PermitSignatureMissing)
       else if op_permit_version p \<noteq> permit_version_pinned then (False, PermitVersionMismatch)
       else if op_device_id p \<noteq> vf_device (the v) then (False, PermitDeviceMismatch)
       else if \<not> is_fresh p now then (False, PermitNotFresh)
       else (case cr_base64 C (op_signature p) of
           None \<Rightarrow> (False, PermitSignatureDecode)
         | Some sig \<Rightarrow>
             if sig = [] then (False, PermitSignatureDecode)
             else if \<not> cr_ecdsa C pub (cr_sha256 C (canonical_payload p)) sig
             then (False, PermitSignatureInvalid)
             else (True, NoReason)))"

definition verify_permit :: "'k crypto \<Rightarrow> 'k verifier option \<Rightarrow> operation_permit \<Rightarrow> i64 \<Rightarrow> bool" where
  "verify_permit C v p now = fst (verify_with_reason C v p now)"

text \<open>What a verified permit is: the signature of the pinned key, over these very fields.\<close>

definition permit_valid :: "'k crypto \<Rightarrow> 'k verifier \<Rightarrow> operation_permit \<Rightarrow> int \<Rightarrow> bool" where
  "permit_valid C v p now \<longleftrightarrow>
     op_kid p = vf_kid v \<and> op_device_id p = vf_device v \<and>
     op_alg p = ''SHA256withECDSA'' \<and> op_permit_version p = 1 \<and> within_window p now \<and>
     (\<exists>pub sig. vf_pub v = Some pub \<and> cr_base64 C (op_signature p) = Some sig \<and> sig \<noteq> [] \<and>
        cr_ecdsa C pub (cr_sha256 C (canonical_payload p)) sig)"

section \<open>Freshness, with the wrap-around of 64-bit milliseconds\<close>

lemma sint_bounds64: "- (2 ^ 63) \<le> sint (x :: i64)" "sint (x :: i64) < 2 ^ 63"
  using sint_range_size [of x] by (simp_all add: word_size)

lemma sint_sub_pos:
  fixes a b :: i64
  assumes "0 < sint a" and "0 < sint b"
  shows "sint (b - a) = sint b - sint a"
  using assms sint_bounds64 [of a] sint_bounds64 [of b]
  by (simp add: sint_word_ariths signed_take_bit_int_eq_self)

text \<open>Adding the skew is exact, or it wraps to a negative number.\<close>

lemma sint_add_skew:
  fixes a :: i64
  shows "sint (a + clock_skew_millis) =
     (if sint a < 2 ^ 63 - 120000 then sint a + 120000 else sint a + 120000 - 2 ^ 64)"
proof -
  have "sint (a + clock_skew_millis) = signed_take_bit 63 (sint a + 120000)"
    by (simp add: clock_skew_millis_def sint_word_ariths signed_take_bit_add)
  then show ?thesis
    using sint_bounds64 [of a]
    by (simp add: signed_take_bit_eq_take_bit_shift take_bit_eq_mod)
       (smt (verit) mod_pos_pos_trivial minus_mod_self2)
qed

lemma is_fresh_int:
  "is_fresh p now \<longleftrightarrow> within_window p (sint now) \<and>
     sint now < 2 ^ 63 - 120000 \<and> sint (op_expires_at p) < 2 ^ 63 - 120000"
  unfolding is_fresh_def within_window_def Let_def word_sless_alt word_sle_eq sint_add_skew
  using sint_sub_pos [of "op_issued_at p" "op_expires_at p"] sint_bounds64 [of now]
    sint_bounds64 [of "op_expires_at p"]
  by (auto simp: max_validity_millis_def split: if_splits)

end
