(* ===== verification/OperationGate.thy ===== *)
theory OperationGate
  imports OperationPermit
begin

text \<open>
  The execution gate (\<open>src/internal/remotebridge/operation/gate.go\<close>): \<open>authorize\<close> for
  the constrained pseudo-console and \<open>authorize_view_only\<close> for screen observation, over one
  map of the last accepted sequence number per session.  A nil gate answers as one with a nil
  verifier, so it is not a separate value.

  The locale \<open>replay_guard\<close> is the contract of such a map; its client lemma is that the numbers
  spent in one session increase strictly.  It is interpreted on \<open>spend_seq\<close>, the guard both
  handlers share.  \<open>gate_run\<close> is the step relation of a gate that serves requests of both kinds
  in any order, as they take the mutex; the facts about a run are proved by induction on it.
\<close>

section \<open>State and constructors\<close>

type_synonym verify_fn = "operation_permit \<Rightarrow> i64 \<Rightarrow> bool \<times> reason"

record decision =
  dc_allowed :: bool
  dc_reason :: reason

record authorizer =
  az_verify :: "verify_fn option"
  az_last_seq :: "string \<Rightarrow> i64 option"

definition new_reasoned_authorizer :: "verify_fn option \<Rightarrow> authorizer" where
  "new_reasoned_authorizer fn = \<lparr>az_verify = fn, az_last_seq = (\<lambda>_. None)\<rparr>"

definition new_authorizer :: "'k crypto \<Rightarrow> 'k verifier option \<Rightarrow> authorizer" where
  "new_authorizer C v =
     new_reasoned_authorizer (case v of None \<Rightarrow> None | Some _ \<Rightarrow> Some (verify_with_reason C v))"

definition new_authorizer_bool :: "(operation_permit \<Rightarrow> i64 \<Rightarrow> bool) option \<Rightarrow> authorizer" where
  "new_authorizer_bool verify =
     (case verify of
        None \<Rightarrow> new_reasoned_authorizer None
      | Some v \<Rightarrow> new_reasoned_authorizer
          (Some (\<lambda>p now. if v p now then (True, NoReason) else (False, PermitInvalid))))"

definition capability_constrained_pty :: string where
  "capability_constrained_pty = ''CONSTRAINED_PTY''"

definition capability_view_only :: string where
  "capability_view_only = ''VIEW_ONLY''"

definition max_command_line :: nat where
  "max_command_line = 4096"

section \<open>The replay guard\<close>

text \<open>A missing entry of a Go map reads as 0.\<close>

definition last_seq :: "authorizer \<Rightarrow> string \<Rightarrow> i64" where
  "last_seq az sid = (case az_last_seq az sid of Some n \<Rightarrow> n | None \<Rightarrow> 0)"

definition deny :: "reason \<Rightarrow> decision" where
  "deny r = \<lparr>dc_allowed = False, dc_reason = r\<rparr>"

definition allow :: decision where
  "allow = \<lparr>dc_allowed = True, dc_reason = NoReason\<rparr>"

definition spend_seq :: "operation_permit \<Rightarrow> authorizer \<Rightarrow> decision \<times> authorizer" where
  "spend_seq p az =
    (if op_seq p \<le>s last_seq az (op_session_id p) then (deny SeqReplay, az)
     else (allow, az\<lparr>az_last_seq := (az_last_seq az)(op_session_id p \<mapsto> op_seq p)\<rparr>))"

section \<open>The two handlers\<close>

definition verify_reason :: "reason \<Rightarrow> reason" where
  "verify_reason r = (if r = NoReason then PermitInvalid else r)"

definition authorize ::
  "'k crypto \<Rightarrow> operation_permit \<Rightarrow> string \<Rightarrow> i64 \<Rightarrow> authorizer \<Rightarrow> decision \<times> authorizer" where
  "authorize C p command_line now az =
    (case az_verify az of
       None \<Rightarrow> (deny PermitVerifierUnavailable, az)
     | Some verify \<Rightarrow>
       (case verify p now of (ok, r) \<Rightarrow>
        if \<not> ok then (deny (verify_reason r), az)
        else if op_capability p \<noteq> capability_constrained_pty then (deny CapabilityNotPTY, az)
        else if length command_line > max_command_line then (deny CommandTooLong, az)
        else let cmd = parse_command C command_line in
          if cc_is_empty cmd then (deny EmptyCommand, az)
          else if command_hash C cmd \<noteq> op_command_hash p then (deny CommandMismatch, az)
          else if op_seq p \<le>s 0 then (deny SeqInvalid, az)
          else spend_seq p az))"

definition authorize_view_only ::
  "operation_permit \<Rightarrow> i64 \<Rightarrow> authorizer \<Rightarrow> decision \<times> authorizer" where
  "authorize_view_only p now az =
    (case az_verify az of
       None \<Rightarrow> (deny PermitVerifierUnavailable, az)
     | Some verify \<Rightarrow>
       (case verify p now of (ok, r) \<Rightarrow>
        if \<not> ok then (deny (verify_reason r), az)
        else if op_capability p \<noteq> capability_view_only then (deny CapabilityNotViewOnly, az)
        else if op_command_hash p \<noteq> [] then (deny CommandHashPresent, az)
        else if op_session_id p = [] then (deny MissingSessionID, az)
        else if op_operation_id p = [] then (deny MissingOperationID, az)
        else if op_seq p \<le>s 0 then (deny SeqInvalid, az)
        else spend_seq p az))"

section \<open>The contract of a replay guard\<close>

locale replay_guard =
  fixes spend :: "'p \<Rightarrow> 's \<Rightarrow> bool \<times> 's"
    and session :: "'p \<Rightarrow> string"
    and seq_of :: "'p \<Rightarrow> int"
    and spent :: "'s \<Rightarrow> string \<Rightarrow> int"
  assumes spend_greater: "fst (spend p s) \<longleftrightarrow> spent s (session p) < seq_of p"
    and spend_advances: "fst (spend p s) \<Longrightarrow> spent (snd (spend p s)) (session p) = seq_of p"
    and spend_other: "sid \<noteq> session p \<Longrightarrow> spent (snd (spend p s)) sid = spent s sid"
    and spend_refused: "\<not> fst (spend p s) \<Longrightarrow> snd (spend p s) = s"
begin

text \<open>The permits a sequence of spends accepts, with the state after it.\<close>

fun spend_all :: "'p list \<Rightarrow> 's \<Rightarrow> 'p list \<times> 's" where
  "spend_all [] s = ([], s)"
| "spend_all (p # ps) s =
     (let r = spend p s; rest = spend_all ps (snd r) in
      (if fst r then p # fst rest else fst rest, snd rest))"

definition session_seqs :: "string \<Rightarrow> 'p list \<Rightarrow> int list" where
  "session_seqs sid ps = map seq_of (filter (\<lambda>p. session p = sid) ps)"

lemma spent_mono: "spent s sid \<le> spent (snd (spend p s)) sid"
proof (cases "sid = session p \<and> fst (spend p s)")
  case True
  then show ?thesis using spend_greater spend_advances by (metis order_less_imp_le)
next
  case False
  then show ?thesis using spend_other spend_refused by (metis order_refl)
qed

lemma seqs_increase:
  "sorted_wrt (<) (session_seqs sid (fst (spend_all ps s))) \<and>
   (\<forall>n \<in> set (session_seqs sid (fst (spend_all ps s))). spent s sid < n)"
proof (induction ps arbitrary: s)
  case (Cons p ps)
  let ?s = "snd (spend p s)"
  note IH = Cons.IH [of ?s]
  show ?case
  proof (cases "fst (spend p s) \<and> session p = sid")
    case True
    then have "spent ?s sid = seq_of p" and "spent s sid < seq_of p"
      using spend_advances spend_greater by auto
    with True IH show ?thesis by (auto simp: session_seqs_def Let_def)
  next
    case False
    then have "session_seqs sid (fst (spend_all (p # ps) s)) = session_seqs sid (fst (spend_all ps ?s))"
      by (auto simp: session_seqs_def Let_def)
    then show ?thesis using IH spent_mono [of s sid p] by (auto intro: le_less_trans)
  qed
qed (simp add: session_seqs_def)

lemma seqs_distinct: "distinct (session_seqs sid (fst (spend_all ps s)))"
  using seqs_increase [of sid ps s] strict_sorted_iff by blast

end

definition spend_bool :: "operation_permit \<Rightarrow> authorizer \<Rightarrow> bool \<times> authorizer" where
  "spend_bool p az = (case spend_seq p az of (d, az') \<Rightarrow> (dc_allowed d, az'))"

definition spent_seq :: "authorizer \<Rightarrow> string \<Rightarrow> int" where
  "spent_seq az sid = sint (last_seq az sid)"

abbreviation permit_seq :: "operation_permit \<Rightarrow> int" where
  "permit_seq p \<equiv> sint (op_seq p)"

interpretation gate: replay_guard spend_bool op_session_id permit_seq spent_seq
  by unfold_locales
    (auto simp: spend_bool_def spend_seq_def spent_seq_def last_seq_def allow_def deny_def word_sle_eq
      split: option.splits)

section \<open>Each handler is its checks followed by the guard\<close>

lemma allow_deny [simp]: "dc_allowed allow" "\<not> dc_allowed (deny r)" "dc_reason allow = NoReason"
    "dc_reason (deny r) = r"
  by (simp_all add: allow_def deny_def)

text \<open>The checks of the pseudo-console gate before the guard; they do not read the state.\<close>

definition pty_checks :: "'k crypto \<Rightarrow> verify_fn option \<Rightarrow> operation_permit \<Rightarrow> string \<Rightarrow> i64 \<Rightarrow> bool" where
  "pty_checks C fn p command_line now \<longleftrightarrow>
     (\<exists>verify. fn = Some verify \<and> fst (verify p now)) \<and>
     op_capability p = ''CONSTRAINED_PTY'' \<and> length command_line \<le> 4096 \<and>
     \<not> cc_is_empty (parse_command C command_line) \<and>
     command_hash C (parse_command C command_line) = op_command_hash p \<and> 0 < permit_seq p"

definition view_checks :: "verify_fn option \<Rightarrow> operation_permit \<Rightarrow> i64 \<Rightarrow> bool" where
  "view_checks fn p now \<longleftrightarrow>
     (\<exists>verify. fn = Some verify \<and> fst (verify p now)) \<and>
     op_capability p = ''VIEW_ONLY'' \<and> op_command_hash p = [] \<and> op_session_id p \<noteq> [] \<and>
     op_operation_id p \<noteq> [] \<and> 0 < permit_seq p"

lemma authorize_checked: "pty_checks C (az_verify az) p line now \<Longrightarrow> authorize C p line now az = spend_seq p az"
  by (auto simp: pty_checks_def authorize_def capability_constrained_pty_def max_command_line_def
      word_sle_eq Let_def split: prod.splits)

lemma authorize_unchecked:
  assumes "\<not> pty_checks C (az_verify az) p line now"
  shows "\<exists>r. r \<noteq> NoReason \<and> authorize C p line now az = (deny r, az)"
  using assms
  by (simp add: pty_checks_def authorize_def capability_constrained_pty_def max_command_line_def
      word_sle_eq verify_reason_def Let_def split: option.splits prod.splits if_splits) auto

lemma view_checked: "view_checks (az_verify az) p now \<Longrightarrow> authorize_view_only p now az = spend_seq p az"
  by (auto simp: view_checks_def authorize_view_only_def capability_view_only_def word_sle_eq
      split: prod.splits)

lemma view_unchecked:
  assumes "\<not> view_checks (az_verify az) p now"
  shows "\<exists>r. r \<noteq> NoReason \<and> authorize_view_only p now az = (deny r, az)"
  using assms
  by (simp add: view_checks_def authorize_view_only_def capability_view_only_def word_sle_eq
      verify_reason_def split: option.splits prod.splits if_splits) auto

lemma spend_seq_cases:
  "spend_seq p az = (d, az') \<Longrightarrow>
   (dc_allowed d \<and> d = allow \<and> spent_seq az (op_session_id p) < permit_seq p \<and>
      az' = az\<lparr>az_last_seq := (az_last_seq az)(op_session_id p \<mapsto> op_seq p)\<rparr>) \<or>
   (d = deny SeqReplay \<and> permit_seq p \<le> spent_seq az (op_session_id p) \<and> az' = az)"
  by (auto simp: spend_seq_def spent_seq_def word_sle_eq split: if_splits)

section \<open>Runs of a gate\<close>

datatype request =
    PtyRequest operation_permit string i64
  | ViewRequest operation_permit i64

fun req_permit :: "request \<Rightarrow> operation_permit" where
  "req_permit (PtyRequest p _ _) = p"
| "req_permit (ViewRequest p _) = p"

fun serve :: "'k crypto \<Rightarrow> request \<Rightarrow> authorizer \<Rightarrow> decision \<times> authorizer" where
  "serve C (PtyRequest p line now) az = authorize C p line now az"
| "serve C (ViewRequest p now) az = authorize_view_only p now az"

inductive gate_run :: "'k crypto \<Rightarrow> authorizer \<Rightarrow> (request \<times> decision) list \<Rightarrow> authorizer \<Rightarrow> bool"
  for C :: "'k crypto" where
  gate_idle: "gate_run C az [] az"
| gate_serve: "serve C q az = (d, az') \<Longrightarrow> gate_run C az' tr az'' \<Longrightarrow> gate_run C az ((q, d) # tr) az''"

inductive_cases gate_run_NilE: "gate_run C az [] az'"
inductive_cases gate_run_ConsE: "gate_run C az (s # tr) az'"

definition accepted :: "(request \<times> decision) list \<Rightarrow> operation_permit list" where
  "accepted tr = map (req_permit \<circ> fst) (filter (dc_allowed \<circ> snd) tr)"

fun serve_checks :: "'k crypto \<Rightarrow> verify_fn option \<Rightarrow> request \<Rightarrow> bool" where
  "serve_checks C fn (PtyRequest p line now) = pty_checks C fn p line now"
| "serve_checks C fn (ViewRequest p now) = view_checks fn p now"

lemma serve_checked: "serve_checks C (az_verify az) q \<Longrightarrow> serve C q az = spend_seq (req_permit q) az"
  by (cases q) (simp_all add: authorize_checked view_checked)

lemma serve_unchecked:
  "\<not> serve_checks C (az_verify az) q \<Longrightarrow> \<exists>r. r \<noteq> NoReason \<and> serve C q az = (deny r, az)"
  by (cases q) (simp_all add: authorize_unchecked view_unchecked)

lemma serve_allowed:
  assumes "serve C q az = (d, az')" and "dc_allowed d"
  shows "serve_checks C (az_verify az) q" and "d = allow"
    and "spent_seq az (op_session_id (req_permit q)) < permit_seq (req_permit q)"
proof -
  show c: "serve_checks C (az_verify az) q" using assms serve_unchecked [of C az q] by force
  then have "spend_seq (req_permit q) az = (d, az')" using assms(1) by (simp add: serve_checked)
  from spend_seq_cases [OF this] assms(2)
  show "d = allow" and "spent_seq az (op_session_id (req_permit q)) < permit_seq (req_permit q)" by auto
qed

lemma serve_denied:
  assumes "serve C q az = (d, az')" and "\<not> dc_allowed d"
  shows "az' = az" and "dc_reason d \<noteq> NoReason"
proof (atomize (full), cases "serve_checks C (az_verify az) q")
  case True
  then have "spend_seq (req_permit q) az = (d, az')" using assms(1) by (simp add: serve_checked)
  from spend_seq_cases [OF this] assms(2) show "az' = az \<and> dc_reason d \<noteq> NoReason" by auto
next
  case False
  from serve_unchecked [OF this] assms show "az' = az \<and> dc_reason d \<noteq> NoReason" by auto
qed

lemma serve_verify: "serve C q az = (d, az') \<Longrightarrow> az_verify az' = az_verify az"
proof (cases "serve_checks C (az_verify az) q")
  case True
  assume "serve C q az = (d, az')"
  with True have "spend_seq (req_permit q) az = (d, az')" by (simp add: serve_checked)
  from spend_seq_cases [OF this] show ?thesis by auto
next
  case False
  assume "serve C q az = (d, az')"
  with serve_unchecked [OF False] show ?thesis by auto
qed

text \<open>A run spends the numbers of the requests that passed the checks, and no others.\<close>

lemma run_spends:
  "gate_run C az tr az' \<Longrightarrow>
   \<exists>ps. accepted tr = fst (gate.spend_all ps az) \<and> az' = snd (gate.spend_all ps az)"
proof (induction rule: gate_run.induct)
  case (gate_idle az)
  have "accepted [] = fst (gate.spend_all [] az) \<and> az = snd (gate.spend_all [] az)"
    by (simp add: accepted_def)
  then show ?case by blast
next
  case (gate_serve q az d az' tr az'')
  then obtain ps where ps: "accepted tr = fst (gate.spend_all ps az')" "az'' = snd (gate.spend_all ps az')"
    by blast
  show ?case
  proof (cases "serve_checks C (az_verify az) q")
    case True
    then have "spend_bool (req_permit q) az = (dc_allowed d, az')"
      using gate_serve.hyps(1) by (simp add: serve_checked spend_bool_def)
    then have "accepted ((q, d) # tr) = fst (gate.spend_all (req_permit q # ps) az) \<and>
        az'' = snd (gate.spend_all (req_permit q # ps) az)"
      using ps by (simp add: accepted_def Let_def)
    then show ?thesis by blast
  next
    case False
    then have "\<not> dc_allowed d" "az' = az" using serve_unchecked gate_serve.hyps(1) by fastforce+
    then show ?thesis using ps by (auto simp: accepted_def)
  qed
qed

lemma run_verify: "gate_run C az tr az' \<Longrightarrow> az_verify az' = az_verify az"
  by (induction rule: gate_run.induct) (auto dest: serve_verify)

lemma run_checked:
  "gate_run C az tr az' \<Longrightarrow> (q, d) \<in> set tr \<Longrightarrow> dc_allowed d \<Longrightarrow> serve_checks C (az_verify az) q"
  by (induction rule: gate_run.induct) (auto dest: serve_verify serve_allowed)

lemma verified_valid:
  "fst (verify_with_reason C v p now) \<longleftrightarrow>
     (\<exists>w. v = Some w \<and> permit_valid C w p (sint now)) \<and> op_signature p \<noteq> [] \<and>
     sint now < 2 ^ 63 - 120000 \<and> sint (op_expires_at p) < 2 ^ 63 - 120000"
  by (cases v) (auto simp: verify_with_reason_def permit_valid_def permit_alg_def
      permit_version_pinned_def is_fresh_int split: option.splits)

lemma run_permits_valid:
  assumes "gate_run C (new_authorizer C v) tr az" and "(q, d) \<in> set tr" and "dc_allowed d"
  shows "\<exists>w now. v = Some w \<and> permit_valid C w (req_permit q) now"
proof -
  have "serve_checks C (az_verify (new_authorizer C v)) q" using run_checked assms by blast
  then show ?thesis
    by (cases q; cases v)
      (auto simp: pty_checks_def view_checks_def new_authorizer_def new_reasoned_authorizer_def verified_valid)
qed

section \<open>A gate to run the theorems on\<close>

definition sample_crypto :: "string crypto" where
  "sample_crypto = \<lparr>cr_base64 = Some, cr_spki = (\<lambda>_. Some (EcdsaP256 ''K'')), cr_sha256 = (\<lambda>s. s),
     cr_hex = (\<lambda>s. s), cr_ecdsa = (\<lambda>k _ sig. sig = k), cr_lower = (\<lambda>s. s)\<rparr>"

definition sample_verifier :: "string verifier" where
  "sample_verifier = \<lparr>vf_pub = Some ''K'', vf_kid = ''kid-1'', vf_device = ''dev-1''\<rparr>"

definition sample_line :: string where
  "sample_line = ''ping host''"

definition sample_permit :: "i64 \<Rightarrow> operation_permit" where
  "sample_permit n = \<lparr>op_alg = permit_alg, op_kid = ''kid-1'', op_permit_version = 1,
     op_policy_version = ''p1'', op_decision_id = ''d'', op_session_id = ''s'', op_operation_id = ''o'',
     op_device_id = ''dev-1'', op_operator_subject = ''ada'', op_capability = ''CONSTRAINED_PTY'',
     op_command_hash = command_hash sample_crypto (parse_command sample_crypto sample_line),
     op_issued_at = 1000, op_expires_at = 61000, op_seq = n, op_signature = ''K''\<rparr>"

lemma sample_valid: "verify_with_reason sample_crypto (Some sample_verifier) (sample_permit n) 2000 = (True, NoReason)"
  by (simp add: verify_with_reason_def sample_verifier_def sample_permit_def sample_crypto_def
      permit_version_pinned_def is_fresh_def max_validity_millis_def clock_skew_millis_def
      word_sless_alt word_sle_eq)

lemma sample_parse: "parse_command sample_crypto sample_line = \<lparr>cc_id = ''ping'', cc_argv = [''host'']\<rparr>"
  unfolding sample_line_def sample_crypto_def by code_simp

lemma sample_checks:
  "0 < sint n \<Longrightarrow> pty_checks sample_crypto (Some (verify_with_reason sample_crypto (Some sample_verifier)))
     (sample_permit n) sample_line 2000"
  unfolding pty_checks_def
  by (simp add: sample_valid sample_parse cc_is_empty_def) (simp add: sample_permit_def sample_parse, simp add: sample_line_def)

definition sample_gate :: authorizer where
  "sample_gate = new_authorizer sample_crypto (Some sample_verifier)"

definition sample_gate_spent :: authorizer where
  "sample_gate_spent = sample_gate\<lparr>az_last_seq := [''s'' \<mapsto> 1]\<rparr>"

lemma sample_serve:
  "serve sample_crypto (PtyRequest (sample_permit 1) sample_line 2000) sample_gate = (allow, sample_gate_spent)"
proof -
  have v: "az_verify sample_gate = Some (verify_with_reason sample_crypto (Some sample_verifier))"
    by (simp add: sample_gate_def new_authorizer_def new_reasoned_authorizer_def)
  have s: "spend_seq (sample_permit 1) sample_gate = (allow, sample_gate_spent)"
    by (simp add: spend_seq_def sample_permit_def sample_gate_spent_def sample_gate_def new_authorizer_def
        new_reasoned_authorizer_def last_seq_def word_sle_eq)
  show ?thesis using sample_checks [of 1] v s by (simp add: authorize_checked)
qed

lemma sample_replay:
  "serve sample_crypto (PtyRequest (sample_permit 1) sample_line 2000) sample_gate_spent =
     (deny SeqReplay, sample_gate_spent)"
proof -
  have v: "az_verify sample_gate_spent = Some (verify_with_reason sample_crypto (Some sample_verifier))"
    by (simp add: sample_gate_spent_def sample_gate_def new_authorizer_def new_reasoned_authorizer_def)
  have s: "spend_seq (sample_permit 1) sample_gate_spent = (deny SeqReplay, sample_gate_spent)"
    by (simp add: spend_seq_def sample_permit_def sample_gate_spent_def last_seq_def)
  show ?thesis using sample_checks [of 1] v s by (simp add: authorize_checked)
qed

lemma sample_run:
  "gate_run sample_crypto sample_gate
     [(PtyRequest (sample_permit 1) sample_line 2000, allow),
      (PtyRequest (sample_permit 1) sample_line 2000, deny SeqReplay)] sample_gate_spent"
  by (rule gate_serve [OF sample_serve], rule gate_serve [OF sample_replay], rule gate_idle)

section \<open>Properties\<close>

text \<open>
  Property C6: over any sequence of pseudo-console and screen requests, in whatever order they take
  the lock, the sequence numbers a gate accepts in one session increase strictly, so no number is
  accepted twice, across both capabilities.
\<close>

theorem accepted_seqs_increase:
  assumes "gate_run C az tr az'"
  shows "sorted_wrt (<) (map permit_seq (filter (\<lambda>p. op_session_id p = sid) (accepted tr)))"
proof -
  from run_spends [OF assms] obtain ps where "accepted tr = fst (gate.spend_all ps az)" by blast
  then show ?thesis using gate.seqs_increase [of sid ps az] by (simp add: gate.session_seqs_def)
qed

theorem accepted_seqs_increase_witness:
  "sorted_wrt (<) (map permit_seq (filter (\<lambda>p. op_session_id p = ''s'')
     (accepted [(PtyRequest (sample_permit 1) sample_line 2000, allow),
      (PtyRequest (sample_permit 1) sample_line 2000, deny SeqReplay)])))"
  by (rule accepted_seqs_increase [OF sample_run])



text \<open>
  Fact: the gate fails closed and without a trace: a refused request leaves the gate as it was
  and carries a reason, an accepted one carries none.
\<close>

theorem refused_request_leaves_gate:
  assumes "serve C q az = (d, az')"
  shows "(dc_allowed d \<longleftrightarrow> dc_reason d = NoReason) \<and> (az' = az \<longleftrightarrow> \<not> dc_allowed d)"
proof (cases "dc_allowed d")
  case True
  have "spent_seq az (op_session_id (req_permit q)) < permit_seq (req_permit q)" and a: "d = allow"
    using serve_allowed [OF assms True] by auto
  moreover have "spent_seq az' (op_session_id (req_permit q)) = permit_seq (req_permit q)"
  proof -
    have "spend_seq (req_permit q) az = (d, az')"
      using serve_checked serve_allowed(1) [OF assms True] assms by metis
    then show ?thesis using gate.spend_advances [of "req_permit q" az] True by (simp add: spend_bool_def)
  qed
  ultimately show ?thesis using a by auto
next
  case False
  then show ?thesis using serve_denied [OF assms] by auto
qed

theorem refused_request_leaves_gate_witness:
  "dc_allowed (deny SeqReplay) \<longleftrightarrow> dc_reason (deny SeqReplay) = NoReason"
  using refused_request_leaves_gate [OF sample_replay] by (rule conjunct1)

text \<open>
  Property C27: the broker's signature covers every field of the permit: from the signed bytes all
  fields but the signature are read back, so no two different permits share their signed bytes.
\<close>

theorem signed_bytes_determine_permit:
  assumes "permit_fits p"
  shows "read_permit (canonical_payload p) = Some (p\<lparr>op_signature := []\<rparr>)"
  by (rule read_canonical [OF assms])

theorem signed_bytes_determine_permit_witness:
  "read_permit (canonical_payload (sample_permit 7)) = Some (sample_permit 7\<lparr>op_signature := []\<rparr>)"
proof (rule signed_bytes_determine_permit)
  have "command_hash sample_crypto (parse_command sample_crypto sample_line) =
      command_bytes \<lparr>cc_id = ''ping'', cc_argv = [''host'']\<rparr>"
    unfolding sample_parse by (simp add: command_hash_def sample_crypto_def)
  then show "permit_fits (sample_permit 7)"
    by (simp add: permit_fits_def sample_permit_def field_fits_def permit_alg_def command_bytes_def
        write_field_def write_int32_def command_domain_def)
qed

text \<open>
  Fact: the freshness check on wrapping 64-bit milliseconds is the window issued - skew to
  expires + skew of the integers, for a validity of at most fifteen minutes; where adding the skew
  would wrap, the permit is not fresh.
\<close>

theorem freshness_is_the_window:
  "is_fresh p now \<longleftrightarrow> within_window p (sint now) \<and>
     sint now < 2 ^ 63 - 120000 \<and> sint (op_expires_at p) < 2 ^ 63 - 120000"
  by (rule is_fresh_int)

text \<open>
  Fact: two command lines accepted under the same signed hash are the same canonical command,
  token for token, or the byte strings of these two commands are a collision of SHA-256.
\<close>

theorem signed_hash_binds_command:
  assumes "pty_checks C fn p line now" and "pty_checks C fn q line' now'"
    and "op_command_hash p = op_command_hash q"
    and "command_fits (parse_command C line)" and "command_fits (parse_command C line')"
  shows "parse_command C line = parse_command C line' \<or>
     (command_bytes (parse_command C line) \<noteq> command_bytes (parse_command C line') \<and>
      cr_hex C (cr_sha256 C (command_bytes (parse_command C line))) =
      cr_hex C (cr_sha256 C (command_bytes (parse_command C line'))))"
  using assms command_bytes_inject [OF assms(4,5)] by (simp add: pty_checks_def command_hash_def)

theorem signed_hash_binds_command_witness:
  "parse_command sample_crypto sample_line = parse_command sample_crypto sample_line \<or>
     (command_bytes (parse_command sample_crypto sample_line) \<noteq> command_bytes (parse_command sample_crypto sample_line) \<and>
      cr_hex sample_crypto (cr_sha256 sample_crypto (command_bytes (parse_command sample_crypto sample_line))) =
      cr_hex sample_crypto (cr_sha256 sample_crypto (command_bytes (parse_command sample_crypto sample_line))))"
  by (rule signed_hash_binds_command [OF sample_checks [of 1] sample_checks [of 2]])
    (simp_all add: sample_parse command_fits_def field_fits_def, simp add: sample_permit_def)

end
