(* ===== verification/Cmdline.thy ===== *)
theory Cmdline
  imports Prelude
begin

text \<open>
  The quoting of a Windows command line (\<open>src/internal/remotebridge/cmdline/cmdline.go\<close>), and
  the reader it is for: \<open>win_command_line\<close> states the documented rules by which a program's
  runtime splits its command line (2n backslashes before a quote are n backslashes, an odd one
  escapes the quote, blanks separate arguments outside quotes).  The loop of \<open>QuoteArg\<close> runs
  over runes; \<open>quote_bytes\<close> is the same loop over bytes, equal on well-formed UTF-8.
\<close>

abbreviation bslash :: char where "bslash \<equiv> CHR 0x5C"
abbreviation dquote :: char where "dquote \<equiv> CHR 0x22"

definition needs_quotes :: "char \<Rightarrow> bool" where
  "needs_quotes c \<longleftrightarrow> c \<in> {CHR '' '', CHR 0x09, CHR 0x0A, CHR 0x0B, dquote}"

function quote_loop :: "nat \<Rightarrow> string \<Rightarrow> string" where
  "quote_loop bs [] = replicate (bs * 2) bslash"
| "quote_loop bs (c # s) =
    (if c = bslash then quote_loop (Suc bs) s
     else if c = dquote then replicate (bs * 2 + 1) bslash @ dquote # quote_loop 0 s
     else if rune_len (c # s) = 0 then replicate bs bslash @ replacement_rune @ quote_loop 0 s
     else replicate bs bslash @ take (rune_len (c # s)) (c # s) @ quote_loop 0 (drop (rune_len (c # s)) (c # s)))"
  by pat_completeness auto
termination
  by (relation "measure (length \<circ> snd)") auto

definition quote_arg :: "string \<Rightarrow> string" where
  "quote_arg s =
    (if s \<noteq> [] \<and> \<not> list_ex needs_quotes s then s
     else dquote # quote_loop 0 s @ [dquote])"

definition build_command_line :: "string \<Rightarrow> string list \<Rightarrow> string" where
  "build_command_line exe args = quote_arg exe @ concat (map (\<lambda>a. CHR '' '' # quote_arg a) args)"

section \<open>The reader of a command line\<close>

definition win_blank :: "char \<Rightarrow> bool" where
  "win_blank c \<longleftrightarrow> c = CHR '' '' \<or> c = CHR 0x09"

text \<open>One argument, from inside or outside quotes, after \<open>bs\<close> backslashes.\<close>

fun win_arg :: "bool \<Rightarrow> nat \<Rightarrow> string \<Rightarrow> string \<Rightarrow> string \<times> string" where
  "win_arg q bs acc [] = (acc @ replicate bs bslash, [])"
| "win_arg q bs acc (c # s) =
    (if c = bslash then win_arg q (Suc bs) acc s
     else if c = dquote then
       (if even bs then win_arg (\<not> q) 0 (acc @ replicate (bs div 2) bslash) s
        else win_arg q 0 (acc @ replicate (bs div 2) bslash @ [dquote]) s)
     else if \<not> q \<and> win_blank c then (acc @ replicate bs bslash, s)
     else win_arg q 0 (acc @ replicate bs bslash @ [c]) s)"

lemma win_arg_shorter: "length (snd (win_arg q bs acc s)) \<le> length s"
proof (induction q bs acc s rule: win_arg.induct)
  case (2 q bs acc c s)
  then show ?case by (auto intro: le_SucI)
qed simp

lemma length_win_arg: "win_arg q bs acc (c # s) = (a, r) \<Longrightarrow> length r < Suc (length s)"
proof -
  assume w: "win_arg q bs acc (c # s) = (a, r)"
  have "\<exists>q' bs' acc'. win_arg q bs acc (c # s) = win_arg q' bs' acc' s \<or> snd (win_arg q bs acc (c # s)) = s"
    by auto
  then have "length (snd (win_arg q bs acc (c # s))) \<le> length s"
    using win_arg_shorter by (metis order_refl)
  then show ?thesis using w by simp
qed

function win_args :: "string \<Rightarrow> string list" where
  "win_args [] = []"
| "win_args (c # s) =
    (if win_blank c then win_args s
     else fst (win_arg False 0 [] (c # s)) # win_args (snd (win_arg False 0 [] (c # s))))"
  by pat_completeness auto
termination
  by (relation "measure length") (auto simp del: win_arg.simps intro: length_win_arg [OF surjective_pairing])

text \<open>The program's name: a quoted one ends at the next quote, another at a blank.\<close>

definition win_command_line :: "string \<Rightarrow> string \<times> string list" where
  "win_command_line s =
    (case s of
       [] \<Rightarrow> ([], [])
     | c # t \<Rightarrow>
        if c = dquote then (before_byte dquote t, win_args (after_byte dquote t))
        else (takeWhile (\<lambda>x. \<not> win_blank x) s, win_args (dropWhile (\<lambda>x. \<not> win_blank x) s)))"

section \<open>The loop over runes is the loop over bytes\<close>

fun quote_bytes :: "nat \<Rightarrow> string \<Rightarrow> string" where
  "quote_bytes bs [] = replicate (bs * 2) bslash"
| "quote_bytes bs (c # s) =
    (if c = bslash then quote_bytes (Suc bs) s
     else if c = dquote then replicate (bs * 2 + 1) bslash @ dquote # quote_bytes 0 s
     else replicate bs bslash @ c # quote_bytes 0 s)"

function valid_utf8 :: "string \<Rightarrow> bool" where
  "valid_utf8 s =
    (if s = [] then True else if rune_len s = 0 then False else valid_utf8 (drop (rune_len s) s))"
  by pat_completeness auto
termination
  by (relation "measure length") auto

declare valid_utf8.simps [simp del]

lemma quote_bytes_plain:
  "bslash \<notin> set x \<Longrightarrow> dquote \<notin> set x \<Longrightarrow> quote_bytes 0 (x @ s) = x @ quote_bytes 0 s"
  by (induction x) auto

definition second_lo :: "char \<Rightarrow> char" where
  "second_lo a = (if a = CHR 0xE0 then CHR 0xA0 else if a = CHR 0xF0 then CHR 0x90 else CHR 0x80)"

definition second_ok :: "char \<Rightarrow> char \<Rightarrow> bool" where
  "second_ok a b \<longleftrightarrow>
     second_lo a \<le> b \<and> b \<le> (if a = CHR 0xED then CHR 0x9F else if a = CHR 0xF4 then CHR 0x8F else CHR 0xBF)"

lemma second_high: "second_ok a b \<Longrightarrow> 128 \<le> byte_of b" "is_cont b \<Longrightarrow> 128 \<le> byte_of b"
  by (auto simp: second_ok_def second_lo_def char_le_byte is_cont_def split: if_splits)
     (simp_all add: byte_of_def)

lemma rune_len_shape:
  "rune_len (a # t) =
    (if a \<le> CHR 0x7F then 1
     else if a < CHR 0xC2 \<or> CHR 0xF4 < a then 0
     else if a \<le> CHR 0xDF then (case t of b # _ \<Rightarrow> if is_cont b then 2 else 0 | [] \<Rightarrow> 0)
     else if a \<le> CHR 0xEF then
       (case t of b # c # _ \<Rightarrow> if second_ok a b \<and> is_cont c then 3 else 0 | _ \<Rightarrow> 0)
     else
       (case t of b # c # d # _ \<Rightarrow> if second_ok a b \<and> is_cont c \<and> is_cont d then 4 else 0 | _ \<Rightarrow> 0))"
proof -
  have "a \<noteq> CHR 0xF0 \<and> a \<noteq> CHR 0xF4" if "a \<le> CHR 0xEF"
    using that by (auto simp: char_le_byte byte_of_def)
  moreover have "a \<noteq> CHR 0xE0 \<and> a \<noteq> CHR 0xED" if "\<not> a \<le> CHR 0xEF"
    using that by (auto simp: char_le_byte byte_of_def)
  ultimately show ?thesis
    by (simp add: rune_len_def second_ok_def second_lo_def split: list.split)
qed

lemma rune_conts: "x \<in> set (take (rune_len (c # s) - 1) s) \<Longrightarrow> 128 \<le> byte_of x"
  by (auto simp: rune_len_shape second_high split: if_splits list.splits)

lemma rune_high:
  assumes "rune_len (c # s) \<noteq> 0" and "c \<noteq> bslash" and "c \<noteq> dquote"
  shows "bslash \<notin> set (take (rune_len (c # s)) (c # s)) \<and> dquote \<notin> set (take (rune_len (c # s)) (c # s))"
proof -
  have "bslash \<notin> set (take (rune_len (c # s) - 1) s)" "dquote \<notin> set (take (rune_len (c # s) - 1) s)"
    using rune_conts [of bslash c s] rune_conts [of dquote c s] by (auto simp: byte_of_def)
  then show ?thesis using assms by (auto simp: take_Cons')
qed

lemma quote_bytes_take:
  assumes "0 < n" and "n \<le> length (c # s)" and "c \<noteq> bslash" and "c \<noteq> dquote"
    and "bslash \<notin> set (take n (c # s)) \<and> dquote \<notin> set (take n (c # s))"
  shows "quote_bytes bs (c # s) = replicate bs bslash @ take n (c # s) @ quote_bytes 0 (drop n (c # s))"
proof -
  obtain m where n: "n = Suc m" using assms(1) by (cases n) auto
  have "quote_bytes 0 s = take m s @ quote_bytes 0 (drop m s)"
    using quote_bytes_plain [of "take m s" "drop m s"] assms(5) n by simp
  then show ?thesis using assms n by simp
qed

lemma quote_loop_bytes: "valid_utf8 s \<Longrightarrow> quote_loop bs s = quote_bytes bs s"
proof (induction bs s rule: quote_loop.induct)
  case (2 bs c s)
  let ?n = "rune_len (c # s)"
  have v: "?n \<noteq> 0" "valid_utf8 (drop ?n (c # s))"
    using "2.prems" by (simp_all add: valid_utf8.simps [of "c # s"] split: if_splits)
  have one: "valid_utf8 s" if "byte_of c < 128"
    using v(2) rune_len_ascii [OF that, of s] by simp
  show ?case
  proof (cases "c = bslash \<or> c = dquote")
    case True
    then have "valid_utf8 s" by (intro one) (auto simp: byte_of_def)
    with True "2.IH" show ?thesis by auto
  next
    case False
    then show ?thesis
      using v "2.IH"(4) quote_bytes_take [of ?n c s bs] rune_high [of c s] rune_len_le(1) [of "c # s"]
      by simp
  qed
qed simp

section \<open>Reading back one argument\<close>

lemma win_arg_backslashes: "win_arg q bs acc (replicate n bslash @ s) = win_arg q (bs + n) acc s"
  by (induction n arbitrary: bs) auto

lemma replicate_snoc_same: "replicate (Suc n) x @ s = replicate n x @ x # s"
  by (simp add: replicate_app_Cons_same)

lemma win_arg_quoted:
  "win_arg True 0 acc (quote_bytes bs s @ dquote # r) = win_arg False 0 (acc @ replicate bs bslash @ s) r"
proof (induction bs s arbitrary: acc rule: quote_bytes.induct)
  case (1 bs)
  then show ?case by (simp add: win_arg_backslashes)
next
  case (2 bs c s)
  then show ?case
    by (cases "c = bslash"; cases "c = dquote") (simp_all add: win_arg_backslashes replicate_app_Cons_same)
qed

lemma win_arg_plain:
  "\<not> list_ex needs_quotes s \<Longrightarrow> (r = [] \<and> r' = [] \<or> r = CHR '' '' # r') \<Longrightarrow>
   win_arg False bs acc (s @ r) = (acc @ replicate bs bslash @ s, r')"
proof (induction s arbitrary: bs acc)
  case Nil
  then show ?case by (auto simp: win_blank_def)
next
  case (Cons c s)
  then show ?case
    by (auto simp: needs_quotes_def win_blank_def replicate_app_Cons_same)
qed

text \<open>A quoted argument reads back as the argument; so does one that needs no quotes.\<close>

lemma win_arg_quote_arg:
  assumes "valid_utf8 a" and "r = [] \<and> r' = [] \<or> r = CHR '' '' # r'"
  shows "win_arg False 0 [] (quote_arg a @ r) = (a, r')"
proof (cases "a \<noteq> [] \<and> \<not> list_ex needs_quotes a")
  case True
  then show ?thesis using win_arg_plain [of a r r' 0 "[]"] assms(2) by (simp add: quote_arg_def)
next
  case False
  then have "win_arg False 0 [] (quote_arg a @ r) = win_arg False 0 a r"
    using win_arg_quoted [of "[]" 0 a r] by (auto simp: quote_arg_def quote_loop_bytes [OF assms(1)])
  then show ?thesis using assms(2) by (auto simp: win_blank_def)
qed

lemma quote_arg_first: "\<exists>c t. quote_arg a = c # t \<and> \<not> win_blank c"
  by (cases a) (auto simp: quote_arg_def needs_quotes_def win_blank_def)

lemma win_args_quoted:
  "list_all valid_utf8 args \<Longrightarrow> win_args (concat (map (\<lambda>a. CHR '' '' # quote_arg a) args)) = args"
proof (induction args)
  case (Cons a args)
  let ?r = "concat (map (\<lambda>a. CHR '' '' # quote_arg a) args)"
  obtain c t where q: "quote_arg a = c # t" "\<not> win_blank c" using quote_arg_first by blast
  obtain r' where r': "?r = [] \<and> r' = [] \<or> ?r = CHR '' '' # r'" by (cases args) auto
  have "win_arg False 0 [] (quote_arg a @ ?r) = (a, r')"
    using win_arg_quote_arg Cons.prems r' by simp
  moreover have "win_args r' = win_args ?r" using r' by (auto simp: win_blank_def)
  ultimately show ?case using Cons q by (simp add: win_blank_def del: win_arg.simps)
qed simp

text \<open>The whole line: a program path without quotes that does not end in a backslash.\<close>

definition exe_path_ok :: "string \<Rightarrow> bool" where
  "exe_path_ok exe \<longleftrightarrow> exe \<noteq> [] \<and> \<not> list_ex needs_quotes exe"

lemma command_line_rule:
  assumes "exe_path_ok exe" and "list_all valid_utf8 args"
  shows "win_command_line (build_command_line exe args) = (exe, args)"
proof -
  let ?r = "concat (map (\<lambda>a. CHR '' '' # quote_arg a) args)"
  have b: "build_command_line exe args = exe @ ?r"
    using assms(1) by (simp add: build_command_line_def quote_arg_def exe_path_ok_def)
  obtain c t where c: "exe = c # t" "c \<noteq> dquote"
    using assms(1) by (cases exe) (auto simp: exe_path_ok_def needs_quotes_def)
  have n: "\<forall>x \<in> set exe. \<not> win_blank x"
    using assms(1) by (auto simp: exe_path_ok_def list_ex_iff needs_quotes_def win_blank_def)
  have r: "?r = [] \<or> win_blank (hd ?r)" by (cases args) (auto simp: win_blank_def)
  have "takeWhile (\<lambda>x. \<not> win_blank x) (exe @ ?r) = exe" "dropWhile (\<lambda>x. \<not> win_blank x) (exe @ ?r) = ?r"
    using n r by (auto simp: takeWhile_append2 dropWhile_append2 takeWhile_eq_Nil_iff dropWhile_eq_self_iff)
  then show ?thesis
    using b c win_args_quoted [OF assms(2)] by (simp add: win_command_line_def)
qed

end
