(* ===== verification/PtyPolicy.thy ===== *)
theory PtyPolicy
  imports OperationGate Cmdline
begin

text \<open>
  The argument grammar of the constrained pseudo-console and the execution plan
  (\<open>src/internal/remotebridge/ptyexec/argpolicy.go\<close> and \<open>plan.go\<close>).  A command's grammar is
  the record \<open>arg_command_spec\<close>; \<open>evaluate\<close> is the one-pass loop over the tokens with its four
  refusals.  \<open>arg_item\<close> is the declarative reading: an accepted line is a sequence of flags,
  flags with a value and operands, each of which the grammar admits.

  A Go set of strings is a set, a map a partial function; a nil map is the empty one.  The two
  regular expressions are written out on bytes.
\<close>

section \<open>The argument policy\<close>

datatype arg_error = ForbiddenFlag | UnknownFlag | DisallowedValue | DisallowedOperand | MalformedToken

definition arg_max_value_len :: nat where
  "arg_max_value_len = 64"

definition host_char :: "char \<Rightarrow> bool" where
  "host_char c \<longleftrightarrow> is_upper c \<or> is_lower c \<or> is_digit c \<or> c \<in> {CHR ''.'', CHR ''_'', CHR '':'', CHR ''-''}"

definition arg_host_pattern :: "string \<Rightarrow> bool" where
  "arg_host_pattern s \<longleftrightarrow> 1 \<le> length s \<and> length s \<le> 253 \<and> list_all host_char s"

definition arg_uint_pattern :: "string \<Rightarrow> bool" where
  "arg_uint_pattern s \<longleftrightarrow> 1 \<le> length s \<and> length s \<le> 18 \<and> list_all is_digit s"

datatype arg_operand_rule = OperandNone | OperandOptionalHost | OperandRequiredHost

record arg_value_spec =
  vs_integer :: bool
  vs_min :: int
  vs_max :: int
  vs_enum :: "string set"
  vs_sensitive :: bool

definition ascii_lower :: "string \<Rightarrow> string" where
  "ascii_lower s = to_lower s"

definition int_range :: "int \<Rightarrow> int \<Rightarrow> arg_value_spec" where
  "int_range lo hi = \<lparr>vs_integer = True, vs_min = lo, vs_max = hi, vs_enum = {}, vs_sensitive = False\<rparr>"

definition one_of :: "string list \<Rightarrow> arg_value_spec" where
  "one_of vs = \<lparr>vs_integer = False, vs_min = 0, vs_max = 0, vs_enum = set (map ascii_lower vs),
     vs_sensitive = False\<rparr>"

text \<open>\<open>strconv.ParseInt\<close> in base 10 on digits, with its range error.\<close>

definition parse_int64 :: "string \<Rightarrow> int option" where
  "parse_int64 s = (if int (digits_val s) < 2 ^ 63 then Some (int (digits_val s)) else None)"

definition value_accepts :: "arg_value_spec \<Rightarrow> string \<Rightarrow> bool" where
  "value_accepts vs v =
    (if v = [] \<or> length v > arg_max_value_len then False
     else if vs_integer vs then
       (if \<not> arg_uint_pattern v then False
        else (case parse_int64 v of None \<Rightarrow> False | Some n \<Rightarrow> vs_min vs \<le> n \<and> n \<le> vs_max vs))
     else ascii_lower v \<in> vs_enum vs)"

record arg_command_spec =
  cs_valueless :: "string set"
  cs_value_flags :: "string \<Rightarrow> arg_value_spec option"
  cs_forbidden :: "string set"
  cs_operand_rule :: arg_operand_rule
  cs_max_operands :: nat

definition is_arg_flag :: "string \<Rightarrow> bool" where
  "is_arg_flag token \<longleftrightarrow> has_prefix token ''/'' \<or> has_prefix token ''-''"

fun evaluate_loop :: "arg_command_spec \<Rightarrow> nat \<Rightarrow> string list \<Rightarrow> arg_error + nat" where
  "evaluate_loop spec n [] = Inr n"
| "evaluate_loop spec n (tok # rest) =
    (if tok = [] \<or> length tok > arg_max_value_len then Inl MalformedToken
     else if is_arg_flag tok then
       (let flag = ascii_lower tok in
        if flag \<in> cs_forbidden spec then Inl ForbiddenFlag
        else if flag \<in> cs_valueless spec then evaluate_loop spec n rest
        else (case cs_value_flags spec flag of
            None \<Rightarrow> Inl UnknownFlag
          | Some vs \<Rightarrow> (case rest of
              [] \<Rightarrow> Inl MalformedToken
            | v # rest' \<Rightarrow>
                if v = [] \<or> is_arg_flag v \<or> \<not> value_accepts vs v then Inl DisallowedValue
                else evaluate_loop spec n rest')))
     else if cs_operand_rule spec = OperandNone \<or> Suc n > cs_max_operands spec then Inl DisallowedOperand
     else if \<not> arg_host_pattern tok then Inl DisallowedOperand
     else evaluate_loop spec (Suc n) rest)"

definition evaluate :: "arg_command_spec \<Rightarrow> string list \<Rightarrow> arg_error option" where
  "evaluate spec args =
    (case evaluate_loop spec 0 args of
       Inl e \<Rightarrow> Some e
     | Inr n \<Rightarrow> if cs_operand_rule spec = OperandRequiredHost \<and> n = 0 then Some DisallowedOperand else None)"

definition string_set :: "string list \<Rightarrow> string set" where
  "string_set items = set (map ascii_lower items)"

definition empty_spec :: arg_command_spec where
  "empty_spec = \<lparr>cs_valueless = {}, cs_value_flags = (\<lambda>_. None), cs_forbidden = {},
     cs_operand_rule = OperandNone, cs_max_operands = 0\<rparr>"

definition whoami_spec :: arg_command_spec where
  "whoami_spec = empty_spec
     \<lparr>cs_valueless := string_set [''/all'', ''/groups'', ''/priv'', ''/user'', ''/fqdn'', ''/upn'', ''/logonid'', ''/nh''],
      cs_value_flags := [''/fo'' \<mapsto> one_of [''csv'', ''table'', ''list'']]\<rparr>"

definition netstat_spec :: arg_command_spec where
  "netstat_spec = empty_spec
     \<lparr>cs_valueless := string_set [''-a'', ''-n'', ''-o'', ''-r'', ''-s'', ''-e'', ''-b'', ''-q'', ''-f'', ''-y''],
      cs_value_flags := [''-p'' \<mapsto> one_of [''tcp'', ''udp'', ''tcpv6'', ''udpv6'', ''ip'', ''ipv6'', ''icmp'', ''icmpv6'']]\<rparr>"

definition ping_spec :: arg_command_spec where
  "ping_spec = empty_spec
     \<lparr>cs_valueless := string_set [''-a'', ''-4'', ''-6'', ''-f''],
      cs_value_flags := [''-n'' \<mapsto> int_range 1 10, ''-w'' \<mapsto> int_range 1 60000,
        ''-l'' \<mapsto> int_range 1 8192, ''-i'' \<mapsto> int_range 1 255],
      cs_forbidden := string_set [''-t''],
      cs_operand_rule := OperandRequiredHost, cs_max_operands := 1\<rparr>"

definition tracert_spec :: arg_command_spec where
  "tracert_spec = empty_spec
     \<lparr>cs_valueless := string_set [''-d'', ''-4'', ''-6''],
      cs_value_flags := [''-h'' \<mapsto> int_range 1 255, ''-w'' \<mapsto> int_range 1 60000],
      cs_operand_rule := OperandRequiredHost, cs_max_operands := 1\<rparr>"

definition pilot_arg_policies :: "string \<Rightarrow> arg_command_spec option" where
  "pilot_arg_policies = [''hostname'' \<mapsto> empty_spec, ''whoami'' \<mapsto> whoami_spec,
     ''netstat'' \<mapsto> netstat_spec, ''ping'' \<mapsto> ping_spec, ''tracert'' \<mapsto> tracert_spec]"

section \<open>The execution plan\<close>

record exec_plan =
  ep_command_id :: string
  ep_exe_path :: string
  ep_args :: "string list"
  ep_command_line :: string

record allow_rule =
  ar_exe_path :: string
  ar_arg_policy :: "(string list \<Rightarrow> arg_error option) option"

datatype plan_error =
    PlanEmptyCommand | PlanNotAllowlisted string | PlanExeNotAbs string | PlanArgPolicy arg_error

definition is_windows_abs :: "string \<Rightarrow> bool" where
  "is_windows_abs p =
    (case p of
       c # d # e # _ \<Rightarrow> (is_upper c \<or> is_lower c) \<and> d = CHR '':'' \<and> (e = bslash \<or> e = CHR ''/'')
     | _ \<Rightarrow> False)"

definition build_exec_plan ::
  "canonical_command \<Rightarrow> (string \<Rightarrow> allow_rule option) \<Rightarrow> plan_error + exec_plan" where
  "build_exec_plan cmd allowlist =
    (if cc_is_empty cmd then Inl PlanEmptyCommand
     else (case allowlist (cc_id cmd) of
         None \<Rightarrow> Inl (PlanNotAllowlisted (cc_id cmd))
       | Some rule \<Rightarrow>
           if \<not> is_windows_abs (ar_exe_path rule) then Inl (PlanExeNotAbs (ar_exe_path rule))
           else (case Option.bind (ar_arg_policy rule) (\<lambda>policy. policy (cc_argv cmd)) of
               Some e \<Rightarrow> Inl (PlanArgPolicy e)
             | None \<Rightarrow> Inr \<lparr>ep_command_id = cc_id cmd, ep_exe_path = ar_exe_path rule,
                 ep_args = cc_argv cmd,
                 ep_command_line = build_command_line (ar_exe_path rule) (cc_argv cmd)\<rparr>)))"

definition system32 :: string where
  "system32 = ''C:'' @ [bslash] @ ''Windows'' @ [bslash] @ ''System32'' @ [bslash]"

definition pilot_commands :: "string list" where
  "pilot_commands = [''hostname'', ''whoami'', ''netstat'', ''ping'', ''tracert'']"

text \<open>A missing policy would be the zero spec, whose evaluation admits no argument.\<close>

definition pilot_rule :: "string \<Rightarrow> allow_rule" where
  "pilot_rule name = \<lparr>ar_exe_path = system32 @ name @ ''.exe'',
     ar_arg_policy = Some (evaluate (case pilot_arg_policies name of Some s \<Rightarrow> s | None \<Rightarrow> empty_spec))\<rparr>"

definition default_allowlist :: "string \<Rightarrow> allow_rule option" where
  "default_allowlist =
     [''hostname'' \<mapsto> pilot_rule ''hostname'', ''whoami'' \<mapsto> pilot_rule ''whoami'',
      ''netstat'' \<mapsto> pilot_rule ''netstat'', ''ping'' \<mapsto> pilot_rule ''ping'',
      ''tracert'' \<mapsto> pilot_rule ''tracert'']"

section \<open>The grammar the loop decides\<close>

datatype arg_item = Flag string | FlagValue string string | Operand string

fun item_tokens :: "arg_item \<Rightarrow> string list" where
  "item_tokens (Flag f) = [f]"
| "item_tokens (FlagValue f v) = [f, v]"
| "item_tokens (Operand h) = [h]"

definition flag_token :: "string \<Rightarrow> bool" where
  "flag_token f \<longleftrightarrow> f \<noteq> [] \<and> length f \<le> 64 \<and> is_arg_flag f"

fun item_ok :: "arg_command_spec \<Rightarrow> arg_item \<Rightarrow> bool" where
  "item_ok s (Flag f) \<longleftrightarrow> flag_token f \<and> to_lower f \<in> cs_valueless s - cs_forbidden s"
| "item_ok s (FlagValue f v) \<longleftrightarrow>
     flag_token f \<and> to_lower f \<notin> cs_valueless s \<union> cs_forbidden s \<and> v \<noteq> [] \<and> \<not> is_arg_flag v \<and>
     (\<exists>vs. cs_value_flags s (to_lower f) = Some vs \<and> value_accepts vs v)"
| "item_ok s (Operand h) \<longleftrightarrow>
     cs_operand_rule s \<noteq> OperandNone \<and> length h \<le> 64 \<and> \<not> is_arg_flag h \<and> arg_host_pattern h"

definition operands :: "arg_item list \<Rightarrow> string list" where
  "operands items = concat (map (\<lambda>i. case i of Operand h \<Rightarrow> [h] | _ \<Rightarrow> []) items)"

definition tokens :: "arg_item list \<Rightarrow> string list" where
  "tokens items = concat (map item_tokens items)"

lemma tokens_simps [simp]:
  "tokens [] = []" "tokens (i # is) = item_tokens i @ tokens is"
  "operands [] = []" "operands (Flag f # is) = operands is" "operands (FlagValue f v # is) = operands is"
  "operands (Operand h # is) = h # operands is"
  by (simp_all add: tokens_def operands_def)

text \<open>Every accepted line is a sequence of admitted items.\<close>

lemma loop_items:
  "evaluate_loop spec n args = Inr m \<Longrightarrow> n \<le> cs_max_operands spec \<Longrightarrow>
   \<exists>items. args = tokens items \<and> list_all (item_ok spec) items \<and>
     m = n + length (operands items) \<and> m \<le> cs_max_operands spec"
proof (induction spec n args arbitrary: m rule: evaluate_loop.induct)
  case (1 spec n)
  then have "[] = tokens [] \<and> list_all (item_ok spec) [] \<and> m = n + length (operands []) \<and> m \<le> cs_max_operands spec"
    by simp
  then show ?case by blast
next
  case (2 spec n tok rest)
  let ?f = "ascii_lower tok"
  have t: "tok \<noteq> []" "length tok \<le> 64" using "2.prems"(1) by (auto simp: arg_max_value_len_def split: if_splits)
  show ?case
  proof (cases "is_arg_flag tok")
    case True
    note flag = True
    have nf: "?f \<notin> cs_forbidden spec" using "2.prems"(1) flag t by (auto simp: Let_def split: if_splits)
    show ?thesis
    proof (cases "?f \<in> cs_valueless spec")
      case True
      have "evaluate_loop spec n rest = Inr m"
        using "2.prems"(1) flag t nf True by (simp add: arg_max_value_len_def Let_def)
      with "2.IH"(1) [OF _ flag refl nf True _ "2.prems"(2)] t obtain items where
        "rest = tokens items" "list_all (item_ok spec) items" "m = n + length (operands items)"
        "m \<le> cs_max_operands spec" by (auto simp: arg_max_value_len_def)
      then have "tok # rest = tokens (Flag tok # items) \<and> list_all (item_ok spec) (Flag tok # items) \<and>
          m = n + length (operands (Flag tok # items)) \<and> m \<le> cs_max_operands spec"
        using flag t nf True by (simp add: flag_token_def ascii_lower_def)
      then show ?thesis by blast
    next
      case False
      then obtain vs v rest' where v: "cs_value_flags spec ?f = Some vs" "rest = v # rest'"
        and a: "v \<noteq> []" "\<not> is_arg_flag v" "value_accepts vs v" and e: "evaluate_loop spec n rest' = Inr m"
        using "2.prems"(1) flag t nf
        by (auto simp: arg_max_value_len_def Let_def split: option.splits list.splits if_splits)
      from "2.IH"(2) [OF _ flag refl nf False v(1) v(2) _ e "2.prems"(2)] a t obtain items where
        "rest' = tokens items" "list_all (item_ok spec) items" "m = n + length (operands items)"
        "m \<le> cs_max_operands spec" by (auto simp: arg_max_value_len_def)
      then have "tok # rest = tokens (FlagValue tok v # items) \<and> list_all (item_ok spec) (FlagValue tok v # items) \<and>
          m = n + length (operands (FlagValue tok v # items)) \<and> m \<le> cs_max_operands spec"
        using flag t nf False v a by (simp add: flag_token_def ascii_lower_def)
      then show ?thesis by blast
    qed
  next
    case False
    then have o: "cs_operand_rule spec \<noteq> OperandNone" "Suc n \<le> cs_max_operands spec" "arg_host_pattern tok"
      and e: "evaluate_loop spec (Suc n) rest = Inr m"
      using "2.prems"(1) t by (auto simp: arg_max_value_len_def split: if_splits)
    from "2.IH"(3) [OF _ False _ _ e o(2)] o t obtain items where
      "rest = tokens items" "list_all (item_ok spec) items" "m = Suc n + length (operands items)"
      "m \<le> cs_max_operands spec" by (auto simp: arg_max_value_len_def)
    then have "tok # rest = tokens (Operand tok # items) \<and> list_all (item_ok spec) (Operand tok # items) \<and>
        m = n + length (operands (Operand tok # items)) \<and> m \<le> cs_max_operands spec"
      using False t o by simp
    then show ?thesis by blast
  qed
qed

text \<open>And every such sequence is accepted.\<close>

lemma items_loop:
  "list_all (item_ok spec) items \<Longrightarrow> n + length (operands items) \<le> cs_max_operands spec \<Longrightarrow>
   evaluate_loop spec n (tokens items) = Inr (n + length (operands items))"
proof (induction items arbitrary: n)
  case (Cons i items)
  show ?case
  proof (cases i)
    case (Flag f)
    then show ?thesis using Cons by (simp add: flag_token_def arg_max_value_len_def ascii_lower_def)
  next
    case (FlagValue f v)
    then show ?thesis using Cons by (auto simp: flag_token_def arg_max_value_len_def ascii_lower_def)
  next
    case (Operand h)
    then show ?thesis
      using Cons by (auto simp: arg_max_value_len_def arg_host_pattern_def)
  qed
qed simp

lemma evaluate_accepts:
  "evaluate spec args = None \<longleftrightarrow>
     (\<exists>items. args = tokens items \<and> list_all (item_ok spec) items \<and>
        length (operands items) \<le> cs_max_operands spec \<and>
        (cs_operand_rule spec = OperandRequiredHost \<longrightarrow> operands items \<noteq> []))"
  (is "?l \<longleftrightarrow> ?r")
proof
  assume ?l
  then obtain n where "evaluate_loop spec 0 args = Inr n"
    and "cs_operand_rule spec = OperandRequiredHost \<longrightarrow> n \<noteq> 0"
    by (auto simp: evaluate_def split: sum.splits if_splits)
  then show ?r using loop_items [of spec 0 args n] by fastforce
next
  assume ?r
  then show ?l using items_loop [of spec _ 0] by (fastforce simp: evaluate_def)
qed

section \<open>Accepted tokens need no quoting\<close>

definition safe_char :: "char \<Rightarrow> bool" where
  "safe_char c \<longleftrightarrow> byte_of c < 128 \<and> \<not> needs_quotes c"

definition safe_token :: "string \<Rightarrow> bool" where
  "safe_token s \<longleftrightarrow> list_all safe_char s"

lemma safe_classes: "is_upper c \<Longrightarrow> safe_char c" "host_char c \<Longrightarrow> safe_char c" "is_digit c \<Longrightarrow> safe_char c"
    "safe_char (lower_char c) \<Longrightarrow> safe_char c"
proof -
  have "list_all (\<lambda>c. (is_upper c \<longrightarrow> safe_char c) \<and> (host_char c \<longrightarrow> safe_char c) \<and>
      (is_digit c \<longrightarrow> safe_char c) \<and> (safe_char (lower_char c) \<longrightarrow> safe_char c)) (map char_of [0 ..< (256::nat)])"
    by code_simp
  note all_chars [OF this, of c]
  then show "is_upper c \<Longrightarrow> safe_char c" "host_char c \<Longrightarrow> safe_char c" "is_digit c \<Longrightarrow> safe_char c"
    "safe_char (lower_char c) \<Longrightarrow> safe_char c" by blast+
qed

lemma safe_lower: "safe_token (to_lower s) \<Longrightarrow> safe_token s"
  by (auto simp: safe_token_def to_lower_def list_all_iff intro: safe_classes)

lemma safe_host: "arg_host_pattern s \<Longrightarrow> safe_token s"
  by (auto simp: safe_token_def arg_host_pattern_def list_all_iff intro: safe_classes)

lemma safe_uint: "arg_uint_pattern s \<Longrightarrow> safe_token s"
  by (auto simp: safe_token_def arg_uint_pattern_def list_all_iff intro: safe_classes)

lemma safe_utf8: "safe_token s \<Longrightarrow> valid_utf8 s"
proof (induction s)
  case (Cons c s)
  then show ?case
    by (subst valid_utf8.simps) (simp add: safe_token_def safe_char_def rune_len_ascii)
qed (simp add: valid_utf8.simps)

definition spec_safe :: "arg_command_spec \<Rightarrow> bool" where
  "spec_safe s \<longleftrightarrow> (\<forall>f \<in> cs_valueless s. safe_token f) \<and>
     (\<forall>f vs. cs_value_flags s f = Some vs \<longrightarrow> safe_token f \<and> (\<forall>v \<in> vs_enum vs. safe_token v))"

lemma value_safe: "value_accepts vs v \<Longrightarrow> \<forall>e \<in> vs_enum vs. safe_token e \<Longrightarrow> safe_token v"
  by (auto simp: value_accepts_def ascii_lower_def intro: safe_uint safe_lower split: if_splits)

lemma item_safe: "spec_safe s \<Longrightarrow> item_ok s i \<Longrightarrow> list_all safe_token (item_tokens i)"
  by (cases i) (auto simp: spec_safe_def intro: safe_lower safe_host value_safe)

lemma items_safe: "spec_safe s \<Longrightarrow> list_all (item_ok s) items \<Longrightarrow> list_all safe_token (tokens items)"
  by (induction items) (auto simp: item_safe)

lemma pilot_specs_safe: "pilot_arg_policies name = Some s \<Longrightarrow> spec_safe s"
proof -
  have "list_all safe_token [''/fo'', ''-p'', ''-n'', ''-w'', ''-l'', ''-i'', ''-h'']" by code_simp
  moreover have "\<forall>v \<in> vs_enum (one_of [''csv'', ''table'', ''list'']). safe_token v"
    "\<forall>v \<in> vs_enum (one_of [''tcp'', ''udp'', ''tcpv6'', ''udpv6'', ''ip'', ''ipv6'', ''icmp'', ''icmpv6'']). safe_token v"
    "\<forall>f \<in> cs_valueless whoami_spec. safe_token f" "\<forall>f \<in> cs_valueless netstat_spec. safe_token f"
    "\<forall>f \<in> cs_valueless ping_spec. safe_token f" "\<forall>f \<in> cs_valueless tracert_spec. safe_token f"
    by code_simp+
  moreover have "vs_enum (int_range a b) = {}" for a b by (simp add: int_range_def)
  ultimately have "spec_safe empty_spec" "spec_safe whoami_spec" "spec_safe netstat_spec"
    "spec_safe ping_spec" "spec_safe tracert_spec"
    by (auto simp: spec_safe_def empty_spec_def whoami_spec_def netstat_spec_def ping_spec_def tracert_spec_def
        split: if_splits)
  then show "pilot_arg_policies name = Some s \<Longrightarrow> spec_safe s"
    by (auto simp: pilot_arg_policies_def split: if_splits)
qed

lemma pilot_exe_ok: "name \<in> set pilot_commands \<Longrightarrow> exe_path_ok (system32 @ name @ ''.exe'')"
proof -
  have "list_all (\<lambda>name. exe_path_ok (system32 @ name @ ''.exe'')) pilot_commands" by code_simp
  then show "name \<in> set pilot_commands \<Longrightarrow> exe_path_ok (system32 @ name @ ''.exe'')"
    by (simp add: list_all_iff)
qed

text \<open>What a plan over the default allowlist is.\<close>

lemma default_plan:
  assumes "build_exec_plan cmd default_allowlist = Inr plan"
  obtains s where "pilot_arg_policies (cc_id cmd) = Some s" and "cc_id cmd \<in> set pilot_commands"
    and "evaluate s (cc_argv cmd) = None"
    and "plan = \<lparr>ep_command_id = cc_id cmd, ep_exe_path = system32 @ cc_id cmd @ ''.exe'', ep_args = cc_argv cmd,
      ep_command_line = build_command_line (system32 @ cc_id cmd @ ''.exe'') (cc_argv cmd)\<rparr>"
proof -
  obtain rule where rule: "default_allowlist (cc_id cmd) = Some rule"
    using assms by (auto simp: build_exec_plan_def split: if_splits option.splits)
  then have name: "cc_id cmd \<in> set pilot_commands" and r: "rule = pilot_rule (cc_id cmd)"
    by (auto simp: default_allowlist_def pilot_commands_def split: if_splits)
  obtain s where s: "pilot_arg_policies (cc_id cmd) = Some s"
    using name by (fastforce simp: pilot_commands_def pilot_arg_policies_def)
  show ?thesis
  proof (rule that [OF s name])
    show "evaluate s (cc_argv cmd) = None"
      using assms rule r s
      by (auto simp: build_exec_plan_def pilot_rule_def split: if_splits option.splits)
    show "plan = \<lparr>ep_command_id = cc_id cmd, ep_exe_path = system32 @ cc_id cmd @ ''.exe'', ep_args = cc_argv cmd,
      ep_command_line = build_command_line (system32 @ cc_id cmd @ ''.exe'') (cc_argv cmd)\<rparr>"
      using assms rule r
      by (auto simp: build_exec_plan_def pilot_rule_def split: if_splits option.splits)
  qed
qed

section \<open>Properties\<close>

text \<open>
  Property C14: the one-pass evaluation accepts exactly the lines of the grammar: sequences of
  admitted flags, value flags with an admitted value, and host operands, in the number the command
  allows.
\<close>

theorem evaluation_decides_grammar:
  "evaluate spec args = None \<longleftrightarrow>
     (\<exists>items. args = tokens items \<and> list_all (item_ok spec) items \<and>
        length (operands items) \<le> cs_max_operands spec \<and>
        (cs_operand_rule spec = OperandRequiredHost \<longrightarrow> operands items \<noteq> []))"
  by (rule evaluate_accepts)

theorem evaluation_decides_grammar_witness:
  "\<exists>items. [''-N'', ''4'', ''host''] = tokens items \<and> list_all (item_ok ping_spec) items \<and> operands items \<noteq> []"
proof -
  have "evaluate ping_spec [''-N'', ''4'', ''host''] = None" and r: "cs_operand_rule ping_spec = OperandRequiredHost"
    by code_simp+
  then show ?thesis
    using evaluation_decides_grammar [of ping_spec "[''-N'', ''4'', ''host'']"] by blast
qed

text \<open>
  Property C15: whatever the broker signs, a plan over the default allowlist runs one of five System32
  programs, and the program's runtime reads its command line back as that path and exactly the
  command's arguments: no argument is split, merged or reinterpreted.
\<close>

theorem planned_line_reads_back:
  assumes "build_exec_plan cmd default_allowlist = Inr plan"
  shows "cc_id cmd \<in> set pilot_commands \<and> ep_exe_path plan = system32 @ cc_id cmd @ ''.exe'' \<and>
     win_command_line (ep_command_line plan) = (ep_exe_path plan, cc_argv cmd)"
proof -
  obtain s where s: "pilot_arg_policies (cc_id cmd) = Some s" "cc_id cmd \<in> set pilot_commands"
      "evaluate s (cc_argv cmd) = None"
    and p: "plan = \<lparr>ep_command_id = cc_id cmd, ep_exe_path = system32 @ cc_id cmd @ ''.exe'', ep_args = cc_argv cmd,
      ep_command_line = build_command_line (system32 @ cc_id cmd @ ''.exe'') (cc_argv cmd)\<rparr>"
    using default_plan [OF assms] .
  obtain items where "cc_argv cmd = tokens items" "list_all (item_ok s) items"
    using s(3) evaluate_accepts by blast
  then have "list_all safe_token (cc_argv cmd)"
    using items_safe pilot_specs_safe [OF s(1)] by simp
  then have "list_all valid_utf8 (cc_argv cmd)" by (simp add: list_all_iff safe_utf8)
  then show ?thesis
    using p s(2) command_line_rule [OF pilot_exe_ok [OF s(2)]] by simp
qed

theorem planned_line_reads_back_witness:
  "win_command_line (system32 @ ''ping.exe -n 3 host'') = (system32 @ ''ping.exe'', [''-n'', ''3'', ''host''])"
proof -
  have "build_exec_plan \<lparr>cc_id = ''ping'', cc_argv = [''-n'', ''3'', ''host'']\<rparr> default_allowlist =
      Inr \<lparr>ep_command_id = ''ping'', ep_exe_path = system32 @ ''ping.exe'', ep_args = [''-n'', ''3'', ''host''],
        ep_command_line = system32 @ ''ping.exe -n 3 host''\<rparr>"
    by code_simp
  from planned_line_reads_back [OF this] show ?thesis by simp
qed

text \<open>
  Fact: a planned ping names exactly one host, sends at most ten echoes of at most 8192 bytes,
  and never carries the endless -t flag, in any spelling of its case.
\<close>

theorem planned_ping_is_bounded:
  assumes "build_exec_plan cmd default_allowlist = Inr plan" and "cc_id cmd = ''ping''"
  shows "\<exists>items. ep_args plan = tokens items \<and> length (operands items) = 1 \<and>
     (\<forall>i \<in> set items. case i of
         Flag f \<Rightarrow> to_lower f \<in> {''-a'', ''-4'', ''-6'', ''-f''}
       | FlagValue f v \<Rightarrow> to_lower f \<in> {''-n'', ''-w'', ''-l'', ''-i''} \<and>
           (to_lower f = ''-n'' \<longrightarrow> 1 \<le> digits_val v \<and> digits_val v \<le> 10) \<and>
           (to_lower f = ''-l'' \<longrightarrow> digits_val v \<le> 8192)
       | Operand h \<Rightarrow> arg_host_pattern h)"
proof -
  obtain s where s: "pilot_arg_policies (cc_id cmd) = Some s" "evaluate s (cc_argv cmd) = None"
    and p: "ep_args plan = cc_argv cmd"
    using default_plan [OF assms(1)] by (metis exec_plan.select_convs(3))
  have sp: "s = ping_spec" using s(1) assms(2) by (simp add: pilot_arg_policies_def)
  obtain items where i: "cc_argv cmd = tokens items" "list_all (item_ok ping_spec) items"
      "length (operands items) = 1"
    using s(2) evaluate_accepts [of ping_spec "cc_argv cmd"] unfolding sp
    by (auto simp: ping_spec_def le_Suc_eq)
  have "case i of
         Flag f \<Rightarrow> to_lower f \<in> {''-a'', ''-4'', ''-6'', ''-f''}
       | FlagValue f v \<Rightarrow> to_lower f \<in> {''-n'', ''-w'', ''-l'', ''-i''} \<and>
           (to_lower f = ''-n'' \<longrightarrow> 1 \<le> digits_val v \<and> digits_val v \<le> 10) \<and>
           (to_lower f = ''-l'' \<longrightarrow> digits_val v \<le> 8192)
       | Operand h \<Rightarrow> arg_host_pattern h" if item: "item_ok ping_spec i" for i
  proof (cases i)
    case (Flag f)
    have "cs_valueless ping_spec = {''-a'', ''-4'', ''-6'', ''-f''}" by code_simp
    then show ?thesis using that Flag by simp
  next
    case (FlagValue f v)
    then obtain vs where vs: "cs_value_flags ping_spec (to_lower f) = Some vs" "value_accepts vs v"
      using item by auto
    then have "vs_integer vs" by (auto simp: ping_spec_def int_range_def split: if_splits)
    then show ?thesis using vs FlagValue
      by (auto simp: ping_spec_def empty_spec_def int_range_def value_accepts_def parse_int64_def split: if_splits)
  next
    case (Operand h)
    then show ?thesis using that by simp
  qed
  then show ?thesis using i p by (auto simp: list_all_iff)
qed

theorem planned_ping_is_bounded_witness:
  "\<exists>items. [''-n'', ''3'', ''host''] = tokens items \<and> length (operands items) = 1"
proof -
  have "build_exec_plan \<lparr>cc_id = ''ping'', cc_argv = [''-n'', ''3'', ''host'']\<rparr> default_allowlist =
      Inr \<lparr>ep_command_id = ''ping'', ep_exe_path = system32 @ ''ping.exe'', ep_args = [''-n'', ''3'', ''host''],
        ep_command_line = system32 @ ''ping.exe -n 3 host''\<rparr>"
    by code_simp
  from planned_ping_is_bounded [OF this] show ?thesis by auto
qed

end
