(* ===== verification/PtyStream.thy ===== *)
theory PtyStream
  imports PtyPolicy
begin

text \<open>
  The output of a pseudo-console as frames of the DATA stream, and the gated execution that
  produces it (\<open>src/internal/remotebridge/ptyexec/outstream.go\<close>, \<open>executor.go\<close>, \<open>ptyop.go\<close>).
  Sending a frame is a function on a channel state, of any type; the loop of \<open>Write\<close> is a
  partial function, since with a chunk of 0 it would not end.

  The locale \<open>frame_sink\<close> is the contract of a DATA channel: a successful send appends the
  frame, a failing one appends nothing.  Its client lemmas say what a stream has put on the channel,
  whatever fails on the way.  The dispatcher's channel is its interpretation (\<open>Dispatch\<close>).
\<close>

section \<open>The output streamer\<close>

record data_frame =
  df_stream_id :: string
  df_frame_seq :: i64
  df_content_type :: string
  df_payload :: string
  df_end_stream :: bool

text \<open>Sending a frame: an error's text, or None.\<close>

type_synonym 'c send_fn = "data_frame \<Rightarrow> 'c \<Rightarrow> string option \<times> 'c"

record 'c output_streamer =
  os_stream_id :: string
  os_content_type :: string
  os_chunk :: nat
  os_send :: "'c send_fn"
  os_seq :: i64
  os_closed :: bool

datatype stream_error =
    EmptyStreamID | NilSend | StreamerClosed | SendFailed string | ReadFailed string

definition default_chunk :: int where
  "default_chunk = 16 * 1024"

definition max_chunk :: int where
  "max_chunk = 64 * 1024"

definition pty_content_type :: string where
  "pty_content_type = ''application/x-conpty-stream''"

definition new_output_streamer ::
  "string \<Rightarrow> string \<Rightarrow> int \<Rightarrow> 'c send_fn option \<Rightarrow> stream_error + 'c output_streamer" where
  "new_output_streamer stream_id content_type chunk send =
    (if stream_id = [] then Inl EmptyStreamID
     else (case send of
         None \<Rightarrow> Inl NilSend
       | Some snd_fn \<Rightarrow>
         (let chunk' = (if chunk \<le> 0 then default_chunk else if chunk > max_chunk then max_chunk else chunk);
              ct = (if content_type = [] then pty_content_type else content_type) in
          Inr \<lparr>os_stream_id = stream_id, os_content_type = ct, os_chunk = nat chunk', os_send = snd_fn,
            os_seq = 0, os_closed = False\<rparr>)))"

definition data_frame_of :: "'c output_streamer \<Rightarrow> string \<Rightarrow> data_frame" where
  "data_frame_of s payload = \<lparr>df_stream_id = os_stream_id s, df_frame_seq = os_seq s,
     df_content_type = os_content_type s, df_payload = payload, df_end_stream = False\<rparr>"

definition end_frame_of :: "'c output_streamer \<Rightarrow> data_frame" where
  "end_frame_of s = \<lparr>df_stream_id = os_stream_id s, df_frame_seq = os_seq s,
     df_content_type = os_content_type s, df_payload = [], df_end_stream = True\<rparr>"

definition bump_seq :: "'c output_streamer \<Rightarrow> 'c output_streamer" where
  "bump_seq s = s\<lparr>os_seq := os_seq s + 1\<rparr>"

partial_function (option) write_loop ::
  "'c output_streamer \<Rightarrow> string \<Rightarrow> nat \<Rightarrow> 'c \<Rightarrow> (nat \<times> stream_error option \<times> 'c output_streamer \<times> 'c) option" where
  "write_loop s p written c =
    (if p = [] then Some (written, None, s, c)
     else (case os_send s (data_frame_of s (take (os_chunk s) p)) c of
         (Some e, c') \<Rightarrow> Some (written, Some (SendFailed e), s, c')
       | (None, c') \<Rightarrow> write_loop (bump_seq s) (drop (os_chunk s) p)
           (written + min (length p) (os_chunk s)) c'))"

definition streamer_write ::
  "'c output_streamer \<Rightarrow> string \<Rightarrow> 'c \<Rightarrow> (nat \<times> stream_error option \<times> 'c output_streamer \<times> 'c) option" where
  "streamer_write s p c =
    (if os_closed s then Some (0, Some StreamerClosed, s, c) else write_loop s p 0 c)"

definition streamer_close :: "'c output_streamer \<Rightarrow> 'c \<Rightarrow> stream_error option \<times> 'c output_streamer \<times> 'c" where
  "streamer_close s c =
    (if os_closed s then (None, s, c)
     else (case os_send s (end_frame_of s) c of
         (Some e, c') \<Rightarrow> (Some (SendFailed e), s\<lparr>os_closed := True\<rparr>, c')
       | (None, c') \<Rightarrow> (None, s\<lparr>os_closed := True\<rparr>, c')))"

text \<open>A source is the pieces its reads return and the error that ends it, if any; \<open>io.Copy\<close>
  writes piece after piece.  A \<open>bytes.Reader\<close> is one piece, or none when it is empty.\<close>

record reader =
  rd_pieces :: "string list"
  rd_error :: "string option"

definition bytes_reader :: "string \<Rightarrow> reader" where
  "bytes_reader b = \<lparr>rd_pieces = (if b = [] then [] else [b]), rd_error = None\<rparr>"

fun io_copy ::
  "'c output_streamer \<Rightarrow> string list \<Rightarrow> string option \<Rightarrow> 'c \<Rightarrow>
   (stream_error option \<times> 'c output_streamer \<times> 'c) option" where
  "io_copy s [] rerr c = Some (map_option ReadFailed rerr, s, c)"
| "io_copy s (p # ps) rerr c =
    (case streamer_write s p c of
       None \<Rightarrow> None
     | Some (_, Some e, s', c') \<Rightarrow> Some (Some e, s', c')
     | Some (_, None, s', c') \<Rightarrow> io_copy s' ps rerr c')"

definition stream_output ::
  "string \<Rightarrow> string \<Rightarrow> int \<Rightarrow> reader \<Rightarrow> 'c send_fn option \<Rightarrow> 'c \<Rightarrow> (stream_error option \<times> 'c) option" where
  "stream_output stream_id content_type chunk src send c =
    (case new_output_streamer stream_id content_type chunk send of
       Inl e \<Rightarrow> Some (Some e, c)
     | Inr s \<Rightarrow> (case io_copy s (rd_pieces src) (rd_error src) c of
         None \<Rightarrow> None
       | Some (Some e, s', c') \<Rightarrow> (case streamer_close s' c' of (_, _, c'') \<Rightarrow> Some (Some e, c''))
       | Some (None, s', c') \<Rightarrow> (case streamer_close s' c' of (r, _, c'') \<Rightarrow> Some (r, c''))))"

section \<open>The gated executor\<close>

record exec_result =
  er_output :: string
  er_exit_code :: u32

datatype run_error = RunEmptyOutput | RunOutputCap | RunOther string

datatype exec_error =
    NotAuthorized reason | PlanFailed plan_error | RunFailed run_error | ConPTYEmptyOutput

text \<open>A runner changes the machine \<open>'w\<close>: the plan, the console's size, a deadline; output, exit code
  and an error.\<close>

type_synonym 'w runner = "exec_plan \<Rightarrow> 16 word \<Rightarrow> 16 word \<Rightarrow> int \<Rightarrow> 'w \<Rightarrow> (string \<times> u32 \<times> run_error option) \<times> 'w"

text \<open>The Windows runner: the helper in the active session, then direct capture when the first left
  no output, no output-cap error and no expired deadline; both consoles are outside the model.\<close>

definition should_use_fallback :: "bool \<Rightarrow> string \<Rightarrow> run_error option \<Rightarrow> bool" where
  "should_use_fallback ctx_done out err \<longleftrightarrow> out = [] \<and> \<not> ctx_done \<and> err \<noteq> Some RunOutputCap"

definition default_conpty_runner :: "('w \<Rightarrow> bool) \<Rightarrow> 'w runner \<Rightarrow> 'w runner \<Rightarrow> 'w runner" where
  "default_conpty_runner ctx_done in_session direct plan cols rows deadline w =
    (case in_session plan cols rows deadline w of ((out, code, err), w') \<Rightarrow>
      if \<not> should_use_fallback (ctx_done w') out err then ((out, code, err), w')
      else (case direct plan cols rows deadline w' of ((out2, code2, err2), w'') \<Rightarrow>
        if \<not> should_use_fallback (ctx_done w'') out2 err2 then ((out2, code2, err2), w'')
        else ((out2, code2, Some RunEmptyOutput), w'')))"

record 'w executor =
  ex_allowlist :: "string \<Rightarrow> allow_rule option"
  ex_cols :: "16 word"
  ex_rows :: "16 word"
  ex_run :: "'w runner option"

definition empty_result :: exec_result where
  "empty_result = \<lparr>er_output = [], er_exit_code = 0\<rparr>"

text \<open>The gate is shared by pointer, so it is threaded beside the machine; None is a nil gate.\<close>

definition execute ::
  "'k crypto \<Rightarrow> 'w executor \<Rightarrow> int \<Rightarrow> operation_permit \<Rightarrow> string \<Rightarrow> i64 \<Rightarrow> authorizer option \<times> 'w \<Rightarrow>
   (exec_result \<times> exec_error option) \<times> authorizer option \<times> 'w" where
  "execute C ex deadline p line now st =
    (case st of (authz, w) \<Rightarrow>
     (case (ex_run ex, authz) of
        (Some run, Some az) \<Rightarrow>
          (case authorize C p line now az of (d, az') \<Rightarrow>
           if \<not> dc_allowed d then ((empty_result, Some (NotAuthorized (dc_reason d))), Some az', w)
           else (case build_exec_plan (parse_command C line) (ex_allowlist ex) of
               Inl e \<Rightarrow> ((empty_result, Some (PlanFailed e)), Some az', w)
             | Inr plan \<Rightarrow>
                 (case run plan (ex_cols ex) (ex_rows ex) deadline w of ((out, code, err), w') \<Rightarrow>
                  ((\<lparr>er_output = out, er_exit_code = code\<rparr>,
                    case err of Some e \<Rightarrow> Some (RunFailed e)
                    | None \<Rightarrow> if out = [] then Some ConPTYEmptyOutput else None), Some az', w'))))
      | _ \<Rightarrow> ((empty_result, Some (NotAuthorized NoReason)), authz, w)))"

section \<open>The operation handler\<close>

datatype handle_error =
    NilHandler | HandlerNilSend | InvalidOperation | ExecError exec_error | StreamError stream_error

record 'w pty_handler =
  ph_exec :: "'w executor option"
  ph_chunk :: int
  ph_exec_timeout :: int

definition default_exec_timeout :: int where
  "default_exec_timeout = 30 * 10 ^ 9" \<comment> \<open>nanoseconds\<close>

definition new_pty_handler :: "'w executor option \<Rightarrow> int \<Rightarrow> int \<Rightarrow> 'w pty_handler option" where
  "new_pty_handler ex chunk timeout =
    (case ex of
       None \<Rightarrow> None
     | Some e \<Rightarrow> Some \<lparr>ph_exec = Some e, ph_chunk = (if chunk \<le> 0 then default_chunk else chunk),
         ph_exec_timeout = (if timeout \<le> 0 then default_exec_timeout else timeout)\<rparr>)"

definition opt_list :: "'a option \<Rightarrow> 'a list" where
  "opt_list x = (case x of None \<Rightarrow> [] | Some a \<Rightarrow> [a])"

text \<open>\<open>errors.Join\<close> is the list of the errors joined, nil the empty one.\<close>

definition handle ::
  "'k crypto \<Rightarrow> 'w pty_handler option \<Rightarrow> operation_permit \<Rightarrow> string \<Rightarrow> string \<Rightarrow> 'c send_fn option \<Rightarrow> i64 \<Rightarrow>
   authorizer option \<times> 'w \<Rightarrow> 'c \<Rightarrow> ((exec_result \<times> handle_error list) \<times> (authorizer option \<times> 'w) \<times> 'c) option" where
  "handle C h p line stream_id send now st c =
    (case Option.bind h ph_exec of
       None \<Rightarrow> Some ((empty_result, [NilHandler]), st, c)
     | Some ex \<Rightarrow>
       if send = None then Some ((empty_result, [HandlerNilSend]), st, c)
       else if blank stream_id then Some ((empty_result, [InvalidOperation]), st, c)
       else if blank line then
         (case stream_output stream_id pty_content_type (ph_chunk (the h)) (bytes_reader []) send c of
            None \<Rightarrow> None
          | Some (e, c') \<Rightarrow> Some ((empty_result, InvalidOperation # map StreamError (opt_list e)), st, c'))
       else
         (case execute C ex (ph_exec_timeout (the h)) p line now st of ((res, eerr), st') \<Rightarrow>
          (case stream_output stream_id pty_content_type (ph_chunk (the h)) (bytes_reader (er_output res)) send c of
             None \<Rightarrow> None
           | Some (serr, c') \<Rightarrow>
               Some ((res, map ExecError (opt_list eerr) @ map StreamError (opt_list serr)), st', c'))))"

section \<open>The frames of an output\<close>

text \<open>What a streamer is meant to send for a text, from a sequence number on.\<close>

function frames_of :: "'c output_streamer \<Rightarrow> string \<Rightarrow> data_frame list" where
  "frames_of s p =
    (if p = [] \<or> os_chunk s = 0 then []
     else data_frame_of s (take (os_chunk s) p) # frames_of (bump_seq s) (drop (os_chunk s) p))"
  by pat_completeness auto
termination
  by (relation "measure (length \<circ> snd)") auto

declare frames_of.simps [simp del]

lemma frames_Nil [simp]: "frames_of s [] = []"
  by (simp add: frames_of.simps)

definition after_frames :: "nat \<Rightarrow> 'c output_streamer \<Rightarrow> 'c output_streamer" where
  "after_frames k s = s\<lparr>os_seq := os_seq s + word_of_nat k\<rparr>"

lemma bump_simps [simp]:
  "os_chunk (bump_seq s) = os_chunk s" "os_send (bump_seq s) = os_send s"
  "os_stream_id (bump_seq s) = os_stream_id s" "os_content_type (bump_seq s) = os_content_type s"
  "os_closed (bump_seq s) = os_closed s" "os_seq (bump_seq s) = os_seq s + 1"
  by (simp_all add: bump_seq_def)

lemma after_frames_simps [simp]:
  "os_chunk (after_frames k s) = os_chunk s" "os_send (after_frames k s) = os_send s"
  "os_closed (after_frames k s) = os_closed s" "os_stream_id (after_frames k s) = os_stream_id s"
  "os_content_type (after_frames k s) = os_content_type s"
  "os_seq (after_frames k s) = os_seq s + word_of_nat k"
  by (simp_all add: after_frames_def)

lemma after_frames_bump: "after_frames k (bump_seq s) = after_frames (Suc k) s"
  by (simp add: after_frames_def bump_seq_def ac_simps)

lemma after_frames_0 [simp]: "after_frames 0 s = s"
  by (simp add: after_frames_def)

lemma after_frames_add: "after_frames j (after_frames k s) = after_frames (k + j) s"
  by (simp add: after_frames_def ac_simps)

lemma frames_payload: "0 < os_chunk s \<Longrightarrow> concat (map df_payload (frames_of s p)) = p"
proof (induction s p rule: frames_of.induct)
  case (1 s p)
  then show ?case by (cases "p = []") (simp_all add: frames_of.simps [of s p] data_frame_of_def)
qed

lemma frames_nth:
  "k < length (frames_of s p) \<Longrightarrow>
     df_frame_seq (frames_of s p ! k) = os_seq s + word_of_nat k \<and>
     df_stream_id (frames_of s p ! k) = os_stream_id s \<and>
     \<not> df_end_stream (frames_of s p ! k) \<and>
     df_payload (frames_of s p ! k) \<noteq> [] \<and> length (df_payload (frames_of s p ! k)) \<le> os_chunk s"
proof (induction s p arbitrary: k rule: frames_of.induct)
  case (1 s p)
  have ne: "\<not> (p = [] \<or> os_chunk s = 0)" using "1.prems" by (auto simp: frames_of.simps [of s p] split: if_splits)
  show ?case
  proof (cases k)
    case 0
    then show ?thesis using ne by (simp add: frames_of.simps [of s p] data_frame_of_def)
  next
    case (Suc j)
    then have "j < length (frames_of (bump_seq s) (drop (os_chunk s) p))"
      using "1.prems" ne by (simp add: frames_of.simps [of s p])
    from "1.IH" [OF ne this] show ?thesis
      using ne Suc by (simp add: frames_of.simps [of s p] ac_simps)
  qed
qed

section \<open>The contract of a DATA channel\<close>

locale frame_sink =
  fixes send :: "'c send_fn"
    and sent :: "'c \<Rightarrow> data_frame list"
  assumes send_ok: "fst (send f c) = None \<Longrightarrow> sent (snd (send f c)) = sent c @ [f]"
    and send_fails: "fst (send f c) \<noteq> None \<Longrightarrow> sent (snd (send f c)) = sent c"
begin

text \<open>\<open>Write\<close> returns, having sent the text's frames up to the first send that fails.\<close>

lemma write_loop_sends:
  assumes "os_send s = send" and "0 < os_chunk s"
  shows "\<exists>n e k c'. write_loop s p w c = Some (n, e, after_frames k s, c') \<and>
     k \<le> length (frames_of s p) \<and> sent c' = sent c @ take k (frames_of s p) \<and>
     (e = None \<longleftrightarrow> k = length (frames_of s p))"
  using assms
proof (induction s p arbitrary: w c rule: frames_of.induct)
  case (1 s p)
  show ?case
  proof (cases "p = []")
    case True
    then have "write_loop s p w c = Some (w, None, after_frames 0 s, c)" "frames_of s p = []"
      by (simp_all add: write_loop.simps)
    then show ?thesis by (intro exI [of _ w] exI [of _ None] exI [of _ 0] exI [of _ c]) simp
  next
    case False
    let ?f = "data_frame_of s (take (os_chunk s) p)" and ?p = "drop (os_chunk s) p"
    have fr: "frames_of s p = ?f # frames_of (bump_seq s) ?p"
      using False "1.prems" by (simp add: frames_of.simps [of s p])
    obtain r c1 where sc: "send ?f c = (r, c1)" by (cases "send ?f c")
    show ?thesis
    proof (cases r)
      case (Some e)
      then have "write_loop s p w c = Some (w, Some (SendFailed e), after_frames 0 s, c1)"
        using False sc "1.prems" by (simp add: write_loop.simps)
      moreover have "sent c1 = sent c @ take 0 (frames_of s p)"
        using send_fails [of ?f c] sc Some by simp
      ultimately show ?thesis
        by (intro exI [of _ w] exI [of _ "Some (SendFailed e)"] exI [of _ 0] exI [of _ c1]) (simp add: fr)
    next
      case None
      have wl: "write_loop s p w c = write_loop (bump_seq s) ?p (w + min (length p) (os_chunk s)) c1"
        using False sc None "1.prems" by (subst write_loop.simps) simp
      have s1: "sent c1 = sent c @ [?f]" using send_ok [of ?f c] sc None by simp
      obtain n e k c' where IH:
        "write_loop (bump_seq s) ?p (w + min (length p) (os_chunk s)) c1 = Some (n, e, after_frames k (bump_seq s), c')"
        "k \<le> length (frames_of (bump_seq s) ?p)" "sent c' = sent c1 @ take k (frames_of (bump_seq s) ?p)"
        "e = None \<longleftrightarrow> k = length (frames_of (bump_seq s) ?p)"
        using "1.IH" [of "w + min (length p) (os_chunk s)" c1] False "1.prems" by auto
      have "write_loop s p w c = Some (n, e, after_frames (Suc k) s, c')"
        using wl IH(1) by (simp add: after_frames_bump)
      moreover have "sent c' = sent c @ take (Suc k) (frames_of s p)" using IH(3) s1 fr by simp
      ultimately show ?thesis
        using IH(2,4) fr by (intro exI [of _ n] exI [of _ e] exI [of _ "Suc k"] exI [of _ c']) simp
    qed
  qed
qed

lemma close_sends:
  assumes "os_send s = send" and "\<not> os_closed s"
  shows "\<exists>e s' c'. streamer_close s c = (e, s', c') \<and>
     sent c' = sent c @ (if e = None then [end_frame_of s] else [])"
  using assms send_ok [of "end_frame_of s" c] send_fails [of "end_frame_of s" c]
  by (cases "send (end_frame_of s) c") (auto simp: streamer_close_def split: option.splits)

text \<open>A whole output: what is on the channel is a prefix of its frames, then perhaps an end mark with
  the next number; everything and the mark exactly when no error is returned.\<close>

lemma stream_output_sends:
  assumes "new_output_streamer sid ct chunk (Some send) = Inr s"
  shows "\<exists>e c' k m. stream_output sid ct chunk (bytes_reader out) (Some send) c = Some (e, c') \<and>
     k \<le> length (frames_of s out) \<and>
     sent c' = sent c @ take k (frames_of s out) @ (if m then [end_frame_of (after_frames k s)] else []) \<and>
     (e = None \<longleftrightarrow> k = length (frames_of s out) \<and> m)"
proof -
  have s: "os_send s = send" "0 < os_chunk s" "\<not> os_closed s"
    using assms by (auto simp: new_output_streamer_def Let_def default_chunk_def max_chunk_def split: if_splits)
  obtain e k c1 where copy: "io_copy s (rd_pieces (bytes_reader out)) (rd_error (bytes_reader out)) c =
      Some (e, after_frames k s, c1)" and k: "k \<le> length (frames_of s out)"
      "sent c1 = sent c @ take k (frames_of s out)" "e = None \<longleftrightarrow> k = length (frames_of s out)"
  proof (cases "out = []")
    case True
    then show ?thesis
      by (intro that [of None 0 c]) (simp_all add: bytes_reader_def frames_of.simps)
  next
    case False
    obtain n e k c' where w: "write_loop s out 0 c = Some (n, e, after_frames k s, c')"
      "k \<le> length (frames_of s out)" "sent c' = sent c @ take k (frames_of s out)"
      "e = None \<longleftrightarrow> k = length (frames_of s out)"
      using write_loop_sends [OF s(1,2)] by blast
    then show ?thesis
      using False s(3) by (intro that [of e k c']) (auto simp: bytes_reader_def streamer_write_def split: option.splits)
  qed
  obtain e2 s2 c2 where close: "streamer_close (after_frames k s) c1 = (e2, s2, c2)"
      "sent c2 = sent c1 @ (if e2 = None then [end_frame_of (after_frames k s)] else [])"
    using close_sends [of "after_frames k s" c1] s by auto
  show ?thesis
  proof (cases e)
    case None
    then have "stream_output sid ct chunk (bytes_reader out) (Some send) c = Some (e2, c2)"
      using assms copy close by (simp add: stream_output_def)
    then show ?thesis using None k close(2)
      by (intro exI [of _ e2] exI [of _ c2] exI [of _ k] exI [of _ "e2 = None"]) auto
  next
    case (Some err)
    then have "stream_output sid ct chunk (bytes_reader out) (Some send) c = Some (Some err, c2)"
      using assms copy close by (simp add: stream_output_def)
    then show ?thesis using Some k close(2)
      by (intro exI [of _ "Some err"] exI [of _ c2] exI [of _ k] exI [of _ "e2 = None"]) auto
  qed
qed

end

end
