(* ===== verification/Bridge.thy ===== *)
theory Bridge
  imports PtyStream
begin

text \<open>
  The envelopes of the remote bridge and the agent's serialized CONTROL sender
  (\<open>src/internal/remotebridge/proto/remote_bridge.proto\<close>,
  \<open>src/internal/remotebridge/harness/sender.go\<close>).  A gRPC stream is a \<open>transport\<close>: the
  envelopes the transport took, in order, and an arbitrary schedule of failing sends, with the
  clock that stamps them.  The mutex of the sender makes every send one step.

  \<open>sender_ok\<close> is the sender's invariant: what is on the wire is numbered without a gap from 0, on
  the CONTROL channel, and only of the payloads an agent may send.
\<close>

section \<open>Envelopes\<close>

datatype capability = CapUnspecified | CapViewOnly | CapConstrainedPty | CapUnknown int

text \<open>\<open>Capability.String()\<close>: the enum's name, or the number of an unknown value.\<close>

fun capability_name :: "capability \<Rightarrow> string" where
  "capability_name CapUnspecified = ''CAPABILITY_UNSPECIFIED''"
| "capability_name CapViewOnly = ''VIEW_ONLY''"
| "capability_name CapConstrainedPty = ''CONSTRAINED_PTY''"
| "capability_name (CapUnknown n) = format_int n"

datatype channel_type = ChannelUnspecified | ChannelControl | ChannelData

record pb_permit =
  pp_alg :: string
  pp_kid :: string
  pp_permit_version :: u32
  pp_policy_version :: string
  pp_decision_id :: string
  pp_session_id :: string
  pp_operation_id :: string
  pp_device_id :: string
  pp_operator_subject :: string
  pp_capability :: capability
  pp_command_hash :: string
  pp_issued_at :: i64
  pp_expires_at :: i64
  pp_seq :: i64
  pp_signature :: string

record consent_prompt =
  cp_session_id :: string
  cp_operator :: string
  cp_reason :: string
  cp_capabilities :: "capability list"
  cp_expiry :: i64

record consent_result =
  cr_session_id :: string
  cr_granted :: bool
  cr_interactive_session :: string
  cr_granted_at :: i64
  cr_expiry :: i64

record heartbeat =
  hb_interval :: i64
  hb_lease_expires :: i64
  hb_protocol :: string

record agent_hello =
  ah_version :: string
  ah_device_id :: string
  ah_cert_fingerprint :: string
  ah_attestation :: string
  ah_protocol :: string
  ah_capabilities :: "capability list"

record device_key_challenge =
  dk_challenge_id :: string
  dk_nonce_b64 :: string
  dk_issued_at :: i64
  dk_expires_at :: i64
  dk_peer_key :: string
  dk_protocol :: string

record device_key_response =
  dr_challenge_id :: string
  dr_schema :: string
  dr_device_key_pub :: string
  dr_ak_pub :: string
  dr_ak_name :: string
  dr_ek_pub :: string
  dr_ek_cert :: string
  dr_ek_chain :: "string list"
  dr_certify_info :: string
  dr_certify_sig :: string
  dr_quote :: string
  dr_quote_sig :: string
  dr_binding_context :: string
  dr_device_key_sig :: string
  dr_signed_at :: i64

datatype payload =
    AgentHello agent_hello
  | SessionRequest
  | ConsentPrompt consent_prompt
  | ConsentResult consent_result
  | OperationRequest
  | OperationPermitMsg pb_permit
  | Kill string string \<comment> \<open>session id, reason\<close>
  | AuditEvent string string string i64 \<comment> \<open>session id, type, content hash, millis\<close>
  | Heartbeat heartbeat
  | DataFrame data_frame
  | ErrorFrame string bool \<comment> \<open>code, retryable\<close>
  | OperationDispatch "pb_permit option" string
  | DeviceKeyChallenge device_key_challenge
  | DeviceKeyResponse device_key_response
  | NoPayload

record envelope =
  ev_session_id :: string
  ev_channel :: channel_type
  ev_frame_seq :: i64
  ev_stream_id :: string
  ev_sent_at :: i64
  ev_payload :: payload

definition empty_envelope :: envelope where
  "empty_envelope = \<lparr>ev_session_id = [], ev_channel = ChannelUnspecified, ev_frame_seq = 0,
     ev_stream_id = [], ev_sent_at = 0, ev_payload = NoPayload\<rparr>"

section \<open>A stream that can fail\<close>

record transport =
  tp_sent :: "envelope list"
  tp_fault :: "nat \<Rightarrow> bool"
  tp_tick :: nat
  tp_clock :: "nat \<Rightarrow> i64" \<comment> \<open>milliseconds at each call\<close>

definition tp_now :: "transport \<Rightarrow> i64" where
  "tp_now tp = tp_clock tp (tp_tick tp)"

definition stream_send :: "envelope \<Rightarrow> transport \<Rightarrow> string option \<times> transport" where
  "stream_send env tp =
    (if tp_fault tp (tp_tick tp) then (Some ''transport is closing'', tp\<lparr>tp_tick := Suc (tp_tick tp)\<rparr>)
     else (None, tp\<lparr>tp_tick := Suc (tp_tick tp), tp_sent := tp_sent tp @ [env]\<rparr>))"

section \<open>The CONTROL sender\<close>

record control_sender =
  cs_stream :: transport
  cs_next_seq :: i64

definition agent_may_send :: "payload \<Rightarrow> bool" where
  "agent_may_send p =
    (case p of AgentHello _ \<Rightarrow> True | ConsentResult _ \<Rightarrow> True | AuditEvent _ _ _ _ \<Rightarrow> True
     | Heartbeat _ \<Rightarrow> True | ErrorFrame _ _ \<Rightarrow> True | DeviceKeyResponse _ \<Rightarrow> True | _ \<Rightarrow> False)"

datatype send_error = NotAgentSendable | StreamSend string

definition control_send :: "envelope \<Rightarrow> control_sender \<Rightarrow> send_error option \<times> control_sender" where
  "control_send env cs =
    (if \<not> agent_may_send (ev_payload env) then (Some NotAgentSendable, cs)
     else (case stream_send (env\<lparr>ev_channel := ChannelControl, ev_frame_seq := cs_next_seq cs,
                ev_sent_at := tp_now (cs_stream cs)\<rparr>) (cs_stream cs) of
         (Some e, tp) \<Rightarrow> (Some (StreamSend e), cs\<lparr>cs_stream := tp\<rparr>)
       | (None, tp) \<Rightarrow> (None, cs\<lparr>cs_stream := tp, cs_next_seq := cs_next_seq cs + 1\<rparr>)))"

definition send_hello :: "agent_hello \<Rightarrow> control_sender \<Rightarrow> send_error option \<times> control_sender" where
  "send_hello h = control_send (empty_envelope\<lparr>ev_payload := AgentHello h\<rparr>)"

definition send_error_frame :: "string \<Rightarrow> bool \<Rightarrow> control_sender \<Rightarrow> send_error option \<times> control_sender" where
  "send_error_frame code retryable = control_send (empty_envelope\<lparr>ev_payload := ErrorFrame code retryable\<rparr>)"

definition send_session_error ::
  "string \<Rightarrow> string \<Rightarrow> bool \<Rightarrow> control_sender \<Rightarrow> send_error option \<times> control_sender" where
  "send_session_error sid code retryable =
     control_send (empty_envelope\<lparr>ev_session_id := sid, ev_payload := ErrorFrame code retryable\<rparr>)"

definition send_consent_result :: "consent_result \<Rightarrow> control_sender \<Rightarrow> send_error option \<times> control_sender" where
  "send_consent_result r =
     control_send (empty_envelope\<lparr>ev_session_id := cr_session_id r, ev_payload := ConsentResult r\<rparr>)"

definition send_heartbeat :: "heartbeat \<Rightarrow> control_sender \<Rightarrow> send_error option \<times> control_sender" where
  "send_heartbeat hb = control_send (empty_envelope\<lparr>ev_payload := Heartbeat
     \<lparr>hb_interval = hb_interval hb, hb_lease_expires = hb_lease_expires hb, hb_protocol = hb_protocol hb\<rparr>\<rparr>)"

definition audit_canonical :: "string \<Rightarrow> string \<Rightarrow> i64 \<Rightarrow> string" where
  "audit_canonical sid event_type at =
     sid @ CHR 0x0A # event_type @ CHR 0x0A # format_int (sint at)"

definition send_audit_event ::
  "'k crypto \<Rightarrow> string \<Rightarrow> string \<Rightarrow> control_sender \<Rightarrow> send_error option \<times> control_sender" where
  "send_audit_event C sid event_type cs =
    (let at = tp_now (cs_stream cs) in
     control_send (empty_envelope\<lparr>ev_session_id := sid,
       ev_payload := AuditEvent sid event_type (cr_hex C (cr_sha256 C (audit_canonical sid event_type at))) at\<rparr>) cs)"

definition send_device_key_response ::
  "string \<Rightarrow> device_key_response \<Rightarrow> control_sender \<Rightarrow> send_error option \<times> control_sender" where
  "send_device_key_response sid r =
     control_send (empty_envelope\<lparr>ev_session_id := sid, ev_payload := DeviceKeyResponse r\<rparr>)"

definition new_sender :: "transport \<Rightarrow> control_sender" where
  "new_sender tp = \<lparr>cs_stream = tp, cs_next_seq = 0\<rparr>"

section \<open>The wire discipline\<close>

definition numbered :: "envelope list \<Rightarrow> bool" where
  "numbered es \<longleftrightarrow> (\<forall>i < length es. ev_frame_seq (es ! i) = word_of_nat i)"

definition sender_ok :: "control_sender \<Rightarrow> bool" where
  "sender_ok cs \<longleftrightarrow>
     numbered (tp_sent (cs_stream cs)) \<and> cs_next_seq cs = word_of_nat (length (tp_sent (cs_stream cs))) \<and>
     list_all (\<lambda>e. ev_channel e = ChannelControl \<and> agent_may_send (ev_payload e)) (tp_sent (cs_stream cs))"

lemma numbered_snoc: "numbered es \<Longrightarrow> ev_frame_seq e = word_of_nat (length es) \<Longrightarrow> numbered (es @ [e])"
  by (auto simp: numbered_def nth_append less_Suc_eq)

lemma control_send_ok: "sender_ok cs \<Longrightarrow> control_send env cs = (r, cs') \<Longrightarrow> sender_ok cs'"
  by (auto simp: sender_ok_def control_send_def stream_send_def intro!: numbered_snoc split: if_splits)

text \<open>The inputs of a sender: any of its sends.\<close>

datatype control_op =
    OpHello agent_hello | OpError string bool | OpSessionError string string bool
  | OpConsent consent_result | OpHeartbeat heartbeat | OpAudit string string
  | OpDeviceKey string device_key_response | OpRaw envelope

fun control_step :: "'k crypto \<Rightarrow> control_op \<Rightarrow> control_sender \<Rightarrow> send_error option \<times> control_sender" where
  "control_step C (OpHello h) cs = send_hello h cs"
| "control_step C (OpError c r) cs = send_error_frame c r cs"
| "control_step C (OpSessionError s c r) cs = send_session_error s c r cs"
| "control_step C (OpConsent r) cs = send_consent_result r cs"
| "control_step C (OpHeartbeat h) cs = send_heartbeat h cs"
| "control_step C (OpAudit s t) cs = send_audit_event C s t cs"
| "control_step C (OpDeviceKey s r) cs = send_device_key_response s r cs"
| "control_step C (OpRaw e) cs = control_send e cs"

inductive sender_reach :: "'k crypto \<Rightarrow> transport \<Rightarrow> control_sender \<Rightarrow> bool"
  for C :: "'k crypto" and tp :: transport where
  sender_new: "sender_reach C tp (new_sender tp)"
| sender_step: "sender_reach C tp cs \<Longrightarrow> control_step C q cs = (r, cs') \<Longrightarrow> sender_reach C tp cs'"

lemmas sender_ops = send_hello_def send_error_frame_def send_session_error_def send_consent_result_def
  send_heartbeat_def send_audit_event_def send_device_key_response_def

lemma control_step_ok: "sender_ok cs \<Longrightarrow> control_step C q cs = (r, cs') \<Longrightarrow> sender_ok cs'"
  by (cases q) (auto simp: sender_ops Let_def intro: control_send_ok)

lemma sender_reach_ok: "sender_reach C tp cs \<Longrightarrow> tp_sent tp = [] \<Longrightarrow> sender_ok cs"
proof (induction rule: sender_reach.induct)
  case sender_new
  then show ?case by (simp add: sender_ok_def new_sender_def numbered_def)
next
  case (sender_step cs q r cs')
  then show ?case using control_step_ok by blast
qed

text \<open>
  Fact: whatever the agent sends on its CONTROL stream, in any order and with any sends
  failing, the frames on the wire are numbered from 0 without a gap, all on the CONTROL channel, and
  none carries a payload that only the broker or an operator may send.
\<close>

theorem control_frames_contiguous:
  assumes "sender_reach C tp cs" and "tp_sent tp = []" and "i < length (tp_sent (cs_stream cs))"
  shows "ev_frame_seq (tp_sent (cs_stream cs) ! i) = word_of_nat i \<and>
     ev_channel (tp_sent (cs_stream cs) ! i) = ChannelControl \<and>
     agent_may_send (ev_payload (tp_sent (cs_stream cs) ! i))"
  using sender_reach_ok [OF assms(1,2)] assms(3) by (simp add: sender_ok_def numbered_def list_all_length)

definition sample_transport :: transport where
  "sample_transport = \<lparr>tp_sent = [], tp_fault = (\<lambda>n. n = 1), tp_tick = 0, tp_clock = (\<lambda>_. 5)\<rparr>"

theorem control_frames_contiguous_witness:
  "ev_frame_seq (tp_sent (cs_stream (snd (control_step sample_crypto (OpError ''b'' True)
     (snd (control_step sample_crypto (OpError ''a'' True)
       (snd (control_step sample_crypto (OpError ''x'' False) (new_sender sample_transport)))))))) ! 1) =
   word_of_nat 1"
proof -
  let ?s1 = "snd (control_step sample_crypto (OpError ''x'' False) (new_sender sample_transport))"
  let ?s2 = "snd (control_step sample_crypto (OpError ''a'' True) ?s1)"
  let ?s3 = "snd (control_step sample_crypto (OpError ''b'' True) ?s2)"
  have "sender_reach sample_crypto sample_transport ?s3"
    by (rule sender_step [OF sender_step [OF sender_step [OF sender_new surjective_pairing]
        surjective_pairing] surjective_pairing])
  moreover have "length (tp_sent (cs_stream ?s3)) = 2"
    by (simp add: sender_ops control_send_def stream_send_def sample_transport_def new_sender_def
        empty_envelope_def agent_may_send_def tp_now_def)
  ultimately show ?thesis
    using control_frames_contiguous [of sample_crypto sample_transport ?s3 1]
    by (simp add: sample_transport_def)
qed

end
