(* ===== verification/Dispatch.thy ===== *)
theory Dispatch
  imports Bridge
begin

text \<open>
  The dispatch of one operation the broker pushed
  (\<open>src/internal/remotebridge/harness/dispatch.go\<close>): decoding the protobuf permit, the device
  check, the DATA stream, the handler, and the bounded code reported on CONTROL.

  \<open>data_send\<close> wraps a frame in its DATA envelope; it interprets the contract \<open>frame_sink\<close>, so what
  \<open>PtyStream\<close> proves of any channel holds of the dispatcher's.  Cancelling, closing and draining
  the stream change none of the state modelled here.
\<close>

section \<open>Decoding\<close>

definition permit_of_pb :: "pb_permit \<Rightarrow> operation_permit" where
  "permit_of_pb p = \<lparr>op_alg = pp_alg p, op_kid = pp_kid p, op_permit_version = pp_permit_version p,
     op_policy_version = pp_policy_version p, op_decision_id = pp_decision_id p,
     op_session_id = pp_session_id p, op_operation_id = pp_operation_id p, op_device_id = pp_device_id p,
     op_operator_subject = pp_operator_subject p, op_capability = capability_name (pp_capability p),
     op_command_hash = pp_command_hash p, op_issued_at = pp_issued_at p, op_expires_at = pp_expires_at p,
     op_seq = pp_seq p, op_signature = pp_signature p\<rparr>"

definition decode_operation_permit :: "pb_permit option \<Rightarrow> operation_permit option" where
  "decode_operation_permit p =
    (case p of
       None \<Rightarrow> None
     | Some q \<Rightarrow> if pp_operation_id q = [] \<or> pp_session_id q = [] then None else Some (permit_of_pb q))"

definition decode_dispatch :: "(pb_permit option \<times> string) option \<Rightarrow> (operation_permit \<times> string) option" where
  "decode_dispatch d =
    (case d of
       None \<Rightarrow> None
     | Some (None, _) \<Rightarrow> None
     | Some (Some p, line) \<Rightarrow>
         if pp_operation_id p = [] then None
         else if pp_session_id p = [] then None
         else Some (permit_of_pb p, line))"

section \<open>The DATA stream\<close>

definition data_send :: "operation_permit \<Rightarrow> transport send_fn" where
  "data_send p f tp = stream_send
     \<lparr>ev_session_id = op_session_id p, ev_channel = ChannelData, ev_frame_seq = 0,
      ev_stream_id = op_operation_id p, ev_sent_at = tp_now tp, ev_payload = DataFrame f\<rparr> tp"

definition frames_sent :: "transport \<Rightarrow> data_frame list" where
  "frames_sent tp = concat (map (\<lambda>e. case ev_payload e of DataFrame f \<Rightarrow> [f] | _ \<Rightarrow> []) (tp_sent tp))"

interpretation data_sink: frame_sink "data_send p" frames_sent for p
  by unfold_locales (auto simp: data_send_def stream_send_def frames_sent_def split: if_splits)

section \<open>The code reported on CONTROL\<close>

fun stream_error_text :: "stream_error \<Rightarrow> string" where
  "stream_error_text EmptyStreamID = ''ptyexec: empty streamID''"
| "stream_error_text NilSend = ''ptyexec: nil send''"
| "stream_error_text StreamerClosed = ''ptyexec: output streamer already closed''"
| "stream_error_text (SendFailed e) = e"
| "stream_error_text (ReadFailed e) = e"

definition not_authorized_text :: "reason \<Rightarrow> string" where
  "not_authorized_text r =
     (if r = NoReason then ''ptyexec: command not authorized''
      else ''ptyexec: command not authorized: '' @ reason_code r)"

text \<open>The text of the other errors is \<open>T\<close>; no decision reads it.\<close>

definition error_text :: "(handle_error \<Rightarrow> string) \<Rightarrow> handle_error \<Rightarrow> string" where
  "error_text T e =
    (case e of
       ExecError (NotAuthorized r) \<Rightarrow> not_authorized_text r
     | StreamError s \<Rightarrow> stream_error_text s
     | _ \<Rightarrow> T e)"

definition joined_text :: "(handle_error \<Rightarrow> string) \<Rightarrow> handle_error list \<Rightarrow> string" where
  "joined_text T es = join_with (CHR 0x0A) (map (error_text T) es)"

definition authz_reasons :: "reason list" where
  "authz_reasons = [PermitVerifierUnavailable, PermitKidMismatch, PermitAlgMismatch, PermitSignatureMissing,
     PermitVersionMismatch, PermitDeviceMismatch, PermitNotFresh, PermitSignatureDecode,
     PermitSignatureInvalid, PermitInvalid, CapabilityNotPTY, CommandTooLong, EmptyCommand,
     CommandMismatch, SeqInvalid, SeqReplay]"

definition authz_reason_code :: "string \<Rightarrow> string" where
  "authz_reason_code msg =
    (case find (\<lambda>r. contains msg (reason_code r)) authz_reasons of
       Some r \<Rightarrow> reason_code r
     | None \<Rightarrow> ''not-authorized'')"

definition is_not_authorized :: "handle_error \<Rightarrow> bool" where
  "is_not_authorized e = (case e of ExecError (NotAuthorized _) \<Rightarrow> True | _ \<Rightarrow> False)"

definition is_not_allowlisted :: "handle_error \<Rightarrow> bool" where
  "is_not_allowlisted e = (case e of ExecError (PlanFailed (PlanNotAllowlisted _)) \<Rightarrow> True | _ \<Rightarrow> False)"

definition is_arg_policy :: "handle_error \<Rightarrow> bool" where
  "is_arg_policy e = (case e of ExecError (PlanFailed (PlanArgPolicy _)) \<Rightarrow> True | _ \<Rightarrow> False)"

definition is_empty_output :: "handle_error \<Rightarrow> bool" where
  "is_empty_output e =
     (case e of ExecError ConPTYEmptyOutput \<Rightarrow> True | ExecError (RunFailed RunEmptyOutput) \<Rightarrow> True | _ \<Rightarrow> False)"

definition dispatch_failed :: "string \<Rightarrow> string" where
  "dispatch_failed code = ''operation-dispatch-failed:'' @ code"

definition dispatch_error_code :: "(handle_error \<Rightarrow> string) \<Rightarrow> handle_error list \<Rightarrow> string" where
  "dispatch_error_code T es =
    (if es = [] then []
     else if list_ex is_not_authorized es then dispatch_failed (authz_reason_code (joined_text T es))
     else if list_ex is_not_allowlisted es then dispatch_failed ''not-allowlisted''
     else if list_ex is_arg_policy es then dispatch_failed ''arg-policy''
     else if InvalidOperation \<in> set es then dispatch_failed ''invalid-operation''
     else if list_ex is_empty_output es then dispatch_failed ''empty-output''
     else dispatch_failed ''exec-failed'')"

section \<open>Dispatching\<close>

text \<open>\<open>data\<close> is the fresh DATA stream, None when it cannot be opened; the result holds the DATA
  stream after the operation, the gate with the machine, and the CONTROL sender.\<close>

definition dispatch_operation ::
  "'k crypto \<Rightarrow> (handle_error \<Rightarrow> string) \<Rightarrow> 'w pty_handler option \<Rightarrow> operation_permit \<Rightarrow> string \<Rightarrow> string \<Rightarrow>
   transport option \<Rightarrow> i64 \<Rightarrow> authorizer option \<times> 'w \<Rightarrow> control_sender \<Rightarrow>
   (transport option \<times> (authorizer option \<times> 'w) \<times> control_sender) option" where
  "dispatch_operation C T h p line device_id data now st cs =
    (if device_id = [] \<or> op_device_id p \<noteq> device_id then
       Some (data, st, snd (send_session_error (op_session_id p) ''operation-device-mismatch'' False cs))
     else (case data of
         None \<Rightarrow> Some (None, st, snd (send_session_error (op_session_id p) ''data-stream-open-failed'' True cs))
       | Some tp \<Rightarrow>
           (case handle C h p line (op_operation_id p) (Some (data_send p)) now st tp of
              None \<Rightarrow> None
            | Some ((_, es), st', tp') \<Rightarrow>
                Some (Some tp', st',
                  if es = [] then cs
                  else snd (send_session_error (op_session_id p) (dispatch_error_code T es) False cs)))))"

section \<open>What the executor did\<close>

lemma execute_cases:
  assumes "execute C ex d p line now (authz, w) = ((res, e), (authz', w'))"
  obtains
    (refused) "res = empty_result" "e \<noteq> None" "w' = w"
  | (ran) az az' run plan out code err where
      "authz = Some az" "ex_run ex = Some run" "pty_checks C (az_verify az) p line now"
      "spent_seq az (op_session_id p) < permit_seq p" "authz' = Some az'"
      "spent_seq az' (op_session_id p) = permit_seq p"
      "build_exec_plan (parse_command C line) (ex_allowlist ex) = Inr plan"
      "run plan (ex_cols ex) (ex_rows ex) d w = ((out, code, err), w')"
      "er_output res = out" "e = None \<longrightarrow> out \<noteq> []"
proof (cases "ex_run ex")
  case None
  then show ?thesis using assms refused by (auto simp: execute_def)
next
  case (Some run)
  note run = Some
  show ?thesis
  proof (cases authz)
    case None
    then show ?thesis using assms refused run by (auto simp: execute_def)
  next
    case (Some az)
    obtain dc az' where a: "authorize C p line now az = (dc, az')" by (cases "authorize C p line now az")
    show ?thesis
    proof (cases "dc_allowed dc")
      case False
      then show ?thesis using assms refused run Some a by (auto simp: execute_def)
    next
      case True
      have srv: "serve C (PtyRequest p line now) az = (dc, az')" using a by simp
      from serve_allowed [OF srv True]
      have checks: "pty_checks C (az_verify az) p line now" and less: "spent_seq az (op_session_id p) < permit_seq p"
        by auto
      have "spend_seq p az = (dc, az')" using authorize_checked [OF checks] a by simp
      then have adv: "spent_seq az' (op_session_id p) = permit_seq p"
        using gate.spend_advances [of p az] True by (simp add: spend_bool_def)
      show ?thesis
      proof (cases "build_exec_plan (parse_command C line) (ex_allowlist ex)")
        case (Inl pe)
        then show ?thesis using assms refused run Some a True by (auto simp: execute_def)
      next
        case (Inr plan)
        obtain out code err w2 where r: "run plan (ex_cols ex) (ex_rows ex) d w = ((out, code, err), w2)"
          by (metis surj_pair)
        then have eq: "res = \<lparr>er_output = out, er_exit_code = code\<rparr>" "authz' = Some az'" "w' = w2"
          "e = (case err of Some e \<Rightarrow> Some (RunFailed e) | None \<Rightarrow> if out = [] then Some ConPTYEmptyOutput else None)"
          using assms run Some a True Inr by (simp_all add: execute_def)
        show ?thesis
          by (rule ran [of az run az' plan out code err])
            (use Some run checks less eq adv Inr r in \<open>auto split: option.splits if_splits\<close>)
      qed
    qed
  qed
qed

section \<open>What a handled operation leaves behind\<close>

text \<open>The frames of one operation: a prefix of its output's frames, then perhaps the end mark.\<close>

definition op_frames :: "'c output_streamer \<Rightarrow> string \<Rightarrow> nat \<Rightarrow> bool \<Rightarrow> data_frame list" where
  "op_frames s out k m = take k (frames_of s out) @ (if m then [end_frame_of (after_frames k s)] else [])"

context frame_sink begin

lemma handle_sends:
  assumes "new_output_streamer sid pty_content_type (ph_chunk h) (Some send) = Inr s"
    and "ph_exec h = Some ex" and "\<not> blank sid"
  shows "\<exists>res es st' c' k m. handle C (Some h) pm line sid (Some send) now st c = Some ((res, es), st', c') \<and>
     k \<le> length (frames_of s (er_output res)) \<and> sent c' = sent c @ op_frames s (er_output res) k m \<and>
     (es = [] \<longrightarrow> k = length (frames_of s (er_output res)) \<and> m) \<and>
     ((blank line \<and> st' = st \<and> res = empty_result \<and> es \<noteq> []) \<or>
      (\<not> blank line \<and> (\<exists>e. execute C ex (ph_exec_timeout h) pm line now st = ((res, e), st') \<and> (e \<noteq> None \<longrightarrow> es \<noteq> []))))"
proof (cases "blank line")
  case True
  obtain e c' k m where so: "stream_output sid pty_content_type (ph_chunk h) (bytes_reader []) (Some send) c = Some (e, c')"
    "k \<le> length (frames_of s [])"
    "sent c' = sent c @ take k (frames_of s []) @ (if m then [end_frame_of (after_frames k s)] else [])"
    "e = None \<longleftrightarrow> k = length (frames_of s []) \<and> m"
    using stream_output_sends [OF assms(1), of "[]" c] by blast
  have "handle C (Some h) pm line sid (Some send) now st c =
      Some ((empty_result, InvalidOperation # map StreamError (opt_list e)), st, c')"
    using True assms so(1) by (simp add: handle_def)
  then show ?thesis
    using so True
    by (intro exI [of _ empty_result] exI [of _ "InvalidOperation # map StreamError (opt_list e)"] exI [of _ st]
        exI [of _ c'] exI [of _ k] exI [of _ m]) (simp add: op_frames_def empty_result_def)
next
  case False
  obtain res eerr st' where ex: "execute C ex (ph_exec_timeout h) pm line now st = ((res, eerr), st')"
    by (metis surj_pair)
  obtain e c' k m where so: "stream_output sid pty_content_type (ph_chunk h) (bytes_reader (er_output res)) (Some send) c = Some (e, c')"
    "k \<le> length (frames_of s (er_output res))"
    "sent c' = sent c @ take k (frames_of s (er_output res)) @ (if m then [end_frame_of (after_frames k s)] else [])"
    "e = None \<longleftrightarrow> k = length (frames_of s (er_output res)) \<and> m"
    using stream_output_sends [OF assms(1), of "er_output res" c] by blast
  let ?es = "map ExecError (opt_list eerr) @ map StreamError (opt_list e)"
  have "handle C (Some h) pm line sid (Some send) now st c = Some ((res, ?es), st', c')"
    using False assms so(1) ex by (simp add: handle_def)
  moreover have "?es = [] \<longleftrightarrow> eerr = None \<and> e = None" by (auto simp: opt_list_def split: option.splits)
  ultimately show ?thesis
    using so False ex
    by (intro exI [of _ res] exI [of _ ?es] exI [of _ st'] exI [of _ c'] exI [of _ k] exI [of _ m])
      (auto simp: op_frames_def)
qed

end

lemma blank_Nil: "\<not> blank sid \<Longrightarrow> sid \<noteq> []"
  by auto

lemma streamer_exists:
  "\<not> blank sid \<Longrightarrow> \<exists>s. new_output_streamer sid pty_content_type chunk (Some f) = Inr s \<and>
     os_chunk s \<le> 65536 \<and> 0 < os_chunk s \<and> os_seq s = 0 \<and> os_stream_id s = sid"
  using blank_Nil [of sid]
  by (auto simp: new_output_streamer_def Let_def default_chunk_def max_chunk_def)

lemma op_frames_payload:
  assumes "0 < os_chunk s" and "k \<le> length (frames_of s out)"
  shows "\<exists>rest. out = concat (map df_payload (op_frames s out k m)) @ rest \<and>
     (k = length (frames_of s out) \<longrightarrow> rest = [])"
proof -
  have "out = concat (map df_payload (take k (frames_of s out) @ drop k (frames_of s out)))"
    using frames_payload [OF assms(1)] by simp
  moreover have "concat (map df_payload (op_frames s out k m)) = concat (map df_payload (take k (frames_of s out)))"
    by (simp add: op_frames_def end_frame_of_def)
  ultimately show ?thesis
    by (intro exI [of _ "concat (map df_payload (drop k (frames_of s out)))"]) (auto simp flip: concat_append map_append)
qed

lemma op_frames_nth:
  assumes "os_seq s = 0" and "k \<le> length (frames_of s out)" and "i < length (op_frames s out k m)"
  shows "df_frame_seq (op_frames s out k m ! i) = word_of_nat i \<and>
     df_stream_id (op_frames s out k m ! i) = os_stream_id s \<and>
     length (df_payload (op_frames s out k m ! i)) \<le> os_chunk s \<and>
     (df_end_stream (op_frames s out k m ! i) \<longleftrightarrow> m \<and> i = k)"
proof (cases "i < k")
  case True
  then show ?thesis
    using assms frames_nth [of i s out] by (auto simp: op_frames_def nth_append)
next
  case False
  then have "m \<and> i = k" using assms by (auto simp: op_frames_def split: if_splits)
  then show ?thesis
    using assms by (auto simp: op_frames_def nth_append end_frame_of_def)
qed

text \<open>Every way a dispatch that got as far as its handler can end.\<close>

lemma handle_trivial:
  assumes "Option.bind h ph_exec = None \<or> blank sid"
  shows "\<exists>es. handle C h p line sid (Some f) now st c = Some ((empty_result, es), st, c) \<and> es \<noteq> []"
  using assms by (auto simp: handle_def split: option.splits)

lemma dispatch_cases:
  assumes "dispatch_operation C T h p line dev (Some tp) now st cs = Some (data', st', cs')"
  obtains
    (untouched) "data' = Some tp" "st' = st" "cs' \<noteq> cs"
  | (handled) H ex s res e k m tp' where
      "h = Some H" "ph_exec H = Some ex" "dev \<noteq> []" "op_device_id p = dev"
      "new_output_streamer (op_operation_id p) pty_content_type (ph_chunk H) (Some (data_send p)) = Inr s"
      "os_chunk s \<le> 65536" "0 < os_chunk s" "os_seq s = 0" "os_stream_id s = op_operation_id p"
      "data' = Some tp'" "k \<le> length (frames_of s (er_output res))"
      "frames_sent tp' = frames_sent tp @ op_frames s (er_output res) k m"
      "cs' = cs \<longrightarrow> k = length (frames_of s (er_output res)) \<and> m \<and> e = None"
      "(st' = st \<and> res = empty_result \<and> e \<noteq> None) \<or> execute C ex (ph_exec_timeout H) p line now st = ((res, e), st')"
proof -
  have cs: "snd (send_session_error sid code r cs) \<noteq> cs" for sid code r
    by (cases cs; cases "cs_stream cs")
      (auto simp: send_session_error_def control_send_def stream_send_def empty_envelope_def agent_may_send_def)
  show ?thesis
  proof (cases "(dev = [] \<or> op_device_id p \<noteq> dev) \<or> Option.bind h ph_exec = None \<or> blank (op_operation_id p)")
    case True
    then show ?thesis
      using assms untouched cs handle_trivial [where C = C and h = h and p = p and line = line and now = now and st = st
          and c = tp and sid = "op_operation_id p" and f = "data_send p"]
      by (auto simp: dispatch_operation_def split: if_splits)
  next
    case False
    then obtain H ex where h: "h = Some H" "ph_exec H = Some ex" by (cases h) auto
    have nb: "\<not> blank (op_operation_id p)" using False by blast
    from streamer_exists [OF nb] obtain s where s:
      "new_output_streamer (op_operation_id p) pty_content_type (ph_chunk H) (Some (data_send p)) = Inr s"
      "os_chunk s \<le> 65536" "0 < os_chunk s" "os_seq s = 0" "os_stream_id s = op_operation_id p" by blast
    obtain res es st1 tp1 k m where hs:
      "handle C (Some H) p line (op_operation_id p) (Some (data_send p)) now st tp = Some ((res, es), st1, tp1)"
      "k \<le> length (frames_of s (er_output res))"
      "frames_sent tp1 = frames_sent tp @ op_frames s (er_output res) k m"
      "es = [] \<longrightarrow> k = length (frames_of s (er_output res)) \<and> m"
      "(blank line \<and> st1 = st \<and> res = empty_result \<and> es \<noteq> []) \<or>
       (\<not> blank line \<and> (\<exists>e. execute C ex (ph_exec_timeout H) p line now st = ((res, e), st1) \<and> (e \<noteq> None \<longrightarrow> es \<noteq> [])))"
      using data_sink.handle_sends [OF s(1) h(2) nb, where C = C and pm = p and line = line and now = now and st = st and c = tp] by blast
    have eq: "data' = Some tp1" "st' = st1" "cs' = cs \<longrightarrow> es = []"
      using assms False h hs(1) cs by (auto simp: dispatch_operation_def split: if_splits)
    have "\<exists>e. (cs' = cs \<longrightarrow> e = None) \<and>
        ((st' = st \<and> res = empty_result \<and> e \<noteq> None) \<or> execute C ex (ph_exec_timeout H) p line now st = ((res, e), st'))"
      using hs(5) eq by (metis option.distinct(1))
    then show ?thesis using handled [OF h _ _ s eq(1) hs(2) hs(3)] False hs(4) eq(3) by blast
  qed
qed

section \<open>An operation to run the theorems on\<close>

definition sample_runner :: "nat runner" where
  "sample_runner plan cols rows d w = ((''pong'', 0, None), Suc w)"

definition sample_executor :: "nat executor" where
  "sample_executor = \<lparr>ex_allowlist = default_allowlist, ex_cols = 80, ex_rows = 25, ex_run = Some sample_runner\<rparr>"

definition sample_handler :: "nat pty_handler" where
  "sample_handler = \<lparr>ph_exec = Some sample_executor, ph_chunk = 3, ph_exec_timeout = default_exec_timeout\<rparr>"

definition sample_data :: transport where
  "sample_data = \<lparr>tp_sent = [], tp_fault = (\<lambda>_. False), tp_tick = 0, tp_clock = (\<lambda>_. 7)\<rparr>"

lemma sample_fields:
  "op_session_id (sample_permit n) = ''s''" "op_device_id (sample_permit n) = ''dev-1''"
  "op_seq (sample_permit n) = n"
  by (simp_all add: sample_permit_def)

lemma sample_plan:
  "build_exec_plan \<lparr>cc_id = ''ping'', cc_argv = [''host'']\<rparr> default_allowlist =
     Inr \<lparr>ep_command_id = ''ping'', ep_exe_path = system32 @ ''ping.exe'', ep_args = [''host''],
       ep_command_line = system32 @ ''ping.exe host''\<rparr>"
  by code_simp

lemma sample_execute:
  "execute sample_crypto sample_executor d (sample_permit 1) sample_line 2000 (Some sample_gate, 0) =
     ((\<lparr>er_output = ''pong'', er_exit_code = 0\<rparr>, None), (Some sample_gate_spent, 1))"
proof -
  have "authorize sample_crypto (sample_permit 1) sample_line 2000 sample_gate = (allow, sample_gate_spent)"
    using sample_serve by simp
  then show ?thesis
    by (simp add: execute_def sample_executor_def sample_parse sample_plan sample_runner_def)
qed

lemma sample_dispatch:
  "\<exists>data'. dispatch_operation sample_crypto T (Some sample_handler) (sample_permit 1) sample_line ''dev-1''
     (Some sample_data) 2000 (Some sample_gate, 0) cs = Some (data', (Some sample_gate_spent, 1), cs)"
proof -
  have blank: "\<not> blank (op_operation_id (sample_permit 1))" "\<not> blank sample_line"
    unfolding sample_permit_def sample_line_def operation_permit.select_convs by code_simp+
  have dev: "op_device_id (sample_permit 1) = ''dev-1''" by (simp add: sample_permit_def)
  have "\<exists>c'. stream_output (op_operation_id (sample_permit 1)) pty_content_type 3 (bytes_reader ''pong'')
      (Some (data_send (sample_permit 1))) sample_data = Some (None, c')"
    by (simp add: stream_output_def new_output_streamer_def sample_permit_def default_chunk_def max_chunk_def
        bytes_reader_def streamer_write_def streamer_close_def write_loop.simps data_send_def stream_send_def
        sample_data_def bump_seq_def)
  then show ?thesis
    using blank dev
    by (auto simp: dispatch_operation_def handle_def sample_handler_def sample_execute opt_list_def)
qed

section \<open>Properties\<close>

text \<open>
  Property C3: the machine runs nothing for an operation unless the gate admitted it: the permit is for
  this device, verified, of the pseudo-console capability, its hash is the command's, its sequence
  number was unspent and is spent now, and what ran is the allowlisted plan of that very command.
\<close>

theorem dispatch_runs_only_authorized:
  assumes "dispatch_operation C T (Some H) p line dev (Some tp) now (authz, w) cs = Some (data', (authz', w'), cs')"
    and "w' \<noteq> w"
  shows "op_device_id p = dev \<and> dev \<noteq> [] \<and>
    (\<exists>az az' ex run plan. authz = Some az \<and> authz' = Some az' \<and> ph_exec H = Some ex \<and> ex_run ex = Some run \<and>
       pty_checks C (az_verify az) p line now \<and>
       spent_seq az (op_session_id p) < permit_seq p \<and> spent_seq az' (op_session_id p) = permit_seq p \<and>
       build_exec_plan (parse_command C line) (ex_allowlist ex) = Inr plan \<and>
       w' = snd (run plan (ex_cols ex) (ex_rows ex) (ph_exec_timeout H) w))"
proof -
  from assms(1) show ?thesis
  proof (cases rule: dispatch_cases)
    case untouched
    then show ?thesis using assms(2) by simp
  next
    case (handled H' ex s res e k m tp')
    then have "execute C ex (ph_exec_timeout H) p line now (authz, w) = ((res, e), (authz', w'))"
      using assms(2) by auto
    then show ?thesis
    proof (cases rule: execute_cases)
      case refused
      then show ?thesis using assms(2) by simp
    next
      case (ran az az' run plan out code err)
      then have "w' = snd (run plan (ex_cols ex) (ex_rows ex) (ph_exec_timeout H) w)" by simp
      then have "authz = Some az \<and> authz' = Some az' \<and> ph_exec H = Some ex \<and> ex_run ex = Some run \<and>
         pty_checks C (az_verify az) p line now \<and>
         spent_seq az (op_session_id p) < permit_seq p \<and> spent_seq az' (op_session_id p) = permit_seq p \<and>
         build_exec_plan (parse_command C line) (ex_allowlist ex) = Inr plan \<and>
         w' = snd (run plan (ex_cols ex) (ex_rows ex) (ph_exec_timeout H) w)"
        using ran handled by simp
      then have "\<exists>az az' ex run plan. authz = Some az \<and> authz' = Some az' \<and> ph_exec H = Some ex \<and> ex_run ex = Some run \<and>
         pty_checks C (az_verify az) p line now \<and>
         spent_seq az (op_session_id p) < permit_seq p \<and> spent_seq az' (op_session_id p) = permit_seq p \<and>
         build_exec_plan (parse_command C line) (ex_allowlist ex) = Inr plan \<and>
         w' = snd (run plan (ex_cols ex) (ex_rows ex) (ph_exec_timeout H) w)" by (intro exI)
      then show ?thesis using handled(3,4) by simp
    qed
  qed
qed

theorem dispatch_runs_only_authorized_witness:
  "op_device_id (sample_permit 1) = ''dev-1'' \<and>
     pty_checks sample_crypto (az_verify sample_gate) (sample_permit 1) sample_line 2000 \<and>
     spent_seq sample_gate ''s'' < 1 \<and> spent_seq sample_gate_spent ''s'' = 1"
proof -
  obtain data' where "dispatch_operation sample_crypto (\<lambda>_. []) (Some sample_handler) (sample_permit 1)
      sample_line ''dev-1'' (Some sample_data) 2000 (Some sample_gate, 0) (new_sender sample_data) =
      Some (data', (Some sample_gate_spent, 1), new_sender sample_data)"
    using sample_dispatch by blast
  from dispatch_runs_only_authorized [OF this] show ?thesis
    by (auto simp: sample_fields)
qed



text \<open>
  Property C35: a dispatch always returns: no command, output, refusal or failing send makes the
  chunking loop run forever.
\<close>

theorem dispatch_returns:
  "\<exists>r. dispatch_operation C T h p line dev data now st cs = Some r"
proof (cases "Option.bind h ph_exec = None \<or> blank (op_operation_id p)")
  case True
  show ?thesis
  proof (cases data)
    case (Some tp)
    obtain es where
      "handle C h p line (op_operation_id p) (Some (data_send p)) now st tp = Some ((empty_result, es), st, tp)"
      using handle_trivial [OF True, where C = C and p = p and line = line and f = "data_send p" and now = now
          and st = st and c = tp] by (elim exE conjE)
    then show ?thesis using Some by (simp add: dispatch_operation_def)
  qed (simp add: dispatch_operation_def)
next
  case False
  then obtain H ex where h: "h = Some H" "ph_exec H = Some ex" by (cases h) auto
  have nb: "\<not> blank (op_operation_id p)" using False by blast
  from streamer_exists [OF nb] obtain s where s:
    "new_output_streamer (op_operation_id p) pty_content_type (ph_chunk H) (Some (data_send p)) = Inr s" by blast
  show ?thesis
  proof (cases data)
    case (Some tp)
    obtain res es st1 tp1 where
      "handle C (Some H) p line (op_operation_id p) (Some (data_send p)) now st tp = Some ((res, es), st1, tp1)"
      using data_sink.handle_sends [OF s h(2) nb, where C = C and pm = p and line = line and now = now and st = st and c = tp] by blast
    then show ?thesis using h Some by (auto simp: dispatch_operation_def)
  qed (simp add: dispatch_operation_def)
qed

lemma reason_recovered:
  "authz_reason_code (not_authorized_text r) = (if r \<in> set authz_reasons then reason_code r else ''not-authorized'')"
proof -
  let ?all = "NoReason # CapabilityNotViewOnly # CommandHashPresent # MissingSessionID # MissingOperationID # authz_reasons"
  have "list_all (\<lambda>r. authz_reason_code (not_authorized_text r) =
      (if r \<in> set authz_reasons then reason_code r else ''not-authorized''))
    ?all"
    by code_simp
  moreover have "r \<in> set ?all" by (cases r) (simp_all add: authz_reasons_def)
  ultimately show ?thesis unfolding list_all_iff by (rule bspec)
qed

text \<open>
  Fact: the code a refused operation reports on CONTROL is recovered from the error's text,
  and it is the gate's own reason, whichever of them it was, although one reason is a prefix of
  others.
\<close>

theorem refusal_reported_faithfully:
  "dispatch_error_code T [ExecError (NotAuthorized r)] =
     ''operation-dispatch-failed:'' @ (if r \<in> set authz_reasons then reason_code r else ''not-authorized'')"
  by (simp add: dispatch_error_code_def is_not_authorized_def joined_text_def error_text_def
      reason_recovered dispatch_failed_def)

end
