(* ===== verification/Harness.thy ===== *)
theory Harness
  imports Dispatch
begin

text \<open>
  The transport harness (\<open>src/internal/remotebridge/harness/harness.go\<close>): the checks of a
  configuration, the guard on inbound sequence numbers, the classification of an inbound envelope,
  kills and the registry of running screen streams, and one iteration of the loop of \<open>connectOnce\<close>
  with the goroutines it starts as pending tasks.

  A pointer to a registered screen stream is a number, fresh per registration; \<open>hn_cancelled\<close> and
  \<open>hn_done\<close> hold the streams whose context was cancelled and whose \<open>done\<close> channel is closed.
  \<open>bridge_step\<close> interleaves the receive loop and its tasks in any order (\<open>task_reports\<close> covers whatever
  the other tasks send); the facts on reachable states are proved by rule induction.  Splitting an address and recognising a loopback IP are
  the parameter \<open>net_lib\<close>.  Durations are in nanoseconds.
\<close>

section \<open>Configuration\<close>

record net_lib =
  nl_split_host_port :: "string \<Rightarrow> string option" \<comment> \<open>the host of host:port\<close>
  nl_loopback_ip :: "string \<Rightarrow> bool" \<comment> \<open>parses as an IP address and is a loopback\<close>

record tls_config =
  tls_skip_verify :: bool
  tls_certificates :: "string list"
  tls_get_certificate :: bool
  tls_min_version :: nat

record config =
  cf_broker_addr :: string
  cf_device_provider :: bool
  cf_insecure :: bool
  cf_tls :: "tls_config option"
  cf_attestation :: string
  cf_first_heartbeat :: int
  cf_miss_factor :: int
  cf_backoff_min :: int
  cf_backoff_max :: int
  cf_identity_poll :: int
  cf_dial_timeout :: int
  cf_dialer :: bool
  cf_pty :: bool
  cf_screen :: bool
  cf_consent :: bool
  cf_device_key :: bool

definition second :: int where
  "second = 10 ^ 9"

definition with_defaults :: "config \<Rightarrow> config" where
  "with_defaults c =
    (let lo = (if cf_backoff_min c \<le> 0 then second else cf_backoff_min c);
         hi = (if cf_backoff_max c \<le> 0 then 5 * 60 * second else cf_backoff_max c) in
     c\<lparr>cf_first_heartbeat := (if cf_first_heartbeat c \<le> 0 then 15 * second else cf_first_heartbeat c),
       cf_miss_factor := (if cf_miss_factor c \<le> 0 then 3 else cf_miss_factor c),
       cf_backoff_min := lo,
       cf_backoff_max := (if hi < lo then lo else hi),
       cf_identity_poll := (if cf_identity_poll c \<le> 0 then 5 * second else cf_identity_poll c),
       cf_dial_timeout := (if cf_dial_timeout c \<le> 0 then 10 * second else cf_dial_timeout c)\<rparr>)"

definition is_loopback_addr :: "net_lib \<Rightarrow> string \<Rightarrow> bool" where
  "is_loopback_addr L addr0 =
    (let addr = trim_space addr0;
         host = (case nl_split_host_port L addr of Some h \<Rightarrow> h | None \<Rightarrow> addr) in
     if equal_fold host ''localhost'' then True else nl_loopback_ip L host)"

definition has_client_certificate :: "tls_config option \<Rightarrow> bool" where
  "has_client_certificate t =
     (case t of None \<Rightarrow> False | Some c \<Rightarrow> tls_certificates c \<noteq> [] \<or> tls_get_certificate c)"

definition max_attestation_len :: nat where
  "max_attestation_len = 16 * 1024"

definition white_char :: "char \<Rightarrow> bool" where
  "white_char c \<longleftrightarrow> c \<in> {CHR '' '', CHR 0x09, CHR 0x0D, CHR 0x0A}"

datatype config_error =
    NoBrokerAddr | PlaintextNotLoopback | SkipVerify | AttestationTooLong | AttestationNotOneLine
  | AttestationNotBase64 | PlaintextDispatch | DispatchWithoutCertificate | NoDeviceProvider

definition validate_attestation :: "'k crypto \<Rightarrow> string \<Rightarrow> config_error option" where
  "validate_attestation C raw =
    (let v = trim_space raw in
     if v = [] then None
     else if length v > max_attestation_len then Some AttestationTooLong
     else if list_ex white_char v then Some AttestationNotOneLine
     else if cr_base64 C v = None then Some AttestationNotBase64 else None)"

definition new_harness_config :: "net_lib \<Rightarrow> 'k crypto \<Rightarrow> config \<Rightarrow> config_error + config" where
  "new_harness_config L C cfg0 =
    (let cfg = with_defaults cfg0 in
     if \<not> cf_dialer cfg \<and> blank (cf_broker_addr cfg) then Inl NoBrokerAddr
     else if \<not> cf_dialer cfg \<and> cf_insecure cfg \<and> \<not> is_loopback_addr L (cf_broker_addr cfg)
     then Inl PlaintextNotLoopback
     else if \<not> cf_dialer cfg \<and> (\<exists>t. cf_tls cfg = Some t \<and> tls_skip_verify t) then Inl SkipVerify
     else (case validate_attestation C (cf_attestation cfg) of
         Some e \<Rightarrow> Inl e
       | None \<Rightarrow>
         if \<not> cf_dialer cfg \<and> cf_pty cfg \<and> cf_insecure cfg then Inl PlaintextDispatch
         else if \<not> cf_dialer cfg \<and> cf_pty cfg \<and> \<not> has_client_certificate (cf_tls cfg)
         then Inl DispatchWithoutCertificate
         else if \<not> cf_device_provider cfg then Inl NoDeviceProvider
         else Inr cfg))"

datatype dial_choice = DialCustom | DialTls tls_config | DialPlaintext | DialRefused

definition tls12 :: nat where
  "tls12 = 0x0303"

definition dial :: "net_lib \<Rightarrow> config \<Rightarrow> dial_choice" where
  "dial L cfg =
    (if cf_dialer cfg then DialCustom
     else
      (let t = (case cf_tls cfg of
           None \<Rightarrow> \<lparr>tls_skip_verify = False, tls_certificates = [], tls_get_certificate = False, tls_min_version = tls12\<rparr>
         | Some c \<Rightarrow> if tls_min_version c = 0 then c\<lparr>tls_min_version := tls12\<rparr> else c) in
       if tls_skip_verify t then DialRefused
       else if cf_insecure cfg then
         (if \<not> is_loopback_addr L (cf_broker_addr cfg) then DialRefused else DialPlaintext)
       else DialTls t))"

definition advertised_capabilities :: "config \<Rightarrow> capability list" where
  "advertised_capabilities cfg =
     (if cf_screen cfg then [CapViewOnly] else []) @ (if cf_pty cfg then [CapConstrainedPty] else [])"

definition hello_cert_fingerprint :: "'k crypto \<Rightarrow> tls_config option \<Rightarrow> string" where
  "hello_cert_fingerprint C t =
    (case t of
       None \<Rightarrow> ''unavailable''
     | Some c \<Rightarrow> (case tls_certificates c of
         [] \<Rightarrow> ''unavailable''
       | leaf # _ \<Rightarrow> cr_hex C (cr_sha256 C leaf)))"

definition attestation_placeholder :: string where
  "attestation_placeholder = ''dDMtaWRsZS1uby1hdHRlc3RhdGlvbg==''"

definition configured_attestation :: "config \<Rightarrow> string" where
  "configured_attestation cfg =
     (let v = trim_space (cf_attestation cfg) in if v = [] then attestation_placeholder else v)"

section \<open>Timing\<close>

definition min_heartbeat_interval :: int where
  "min_heartbeat_interval = second"

definition max_heartbeat_interval :: int where
  "max_heartbeat_interval = 5 * 60 * second"

definition clamp_interval :: "int \<Rightarrow> int" where
  "clamp_interval d =
    (if d < min_heartbeat_interval then min_heartbeat_interval
     else if d > max_heartbeat_interval then max_heartbeat_interval else d)"

text \<open>The announced milliseconds become nanoseconds in 64 bits, with the wrap-around.\<close>

definition heartbeat_deadline :: "config \<Rightarrow> i64 \<Rightarrow> int" where
  "heartbeat_deadline cfg millis =
     int64 (clamp_interval (int64 (sint millis * 10 ^ 6)) * cf_miss_factor cfg)"

definition next_backoff :: "int \<Rightarrow> int \<Rightarrow> int \<Rightarrow> int" where
  "next_backoff cur lo hi =
    (let next = int64 (cur * 2);
         next = (if next > hi then hi else next) in
     if next < lo then lo else next)"

section \<open>The guard on inbound sequence numbers\<close>

record seq_guard =
  sg_sequenced :: bool
  sg_last :: i64

definition new_guard :: seq_guard where
  "new_guard = \<lparr>sg_sequenced = False, sg_last = 0\<rparr>"

text \<open>A reason, or the empty string; and the guard after the frame.\<close>

definition admit :: "i64 \<Rightarrow> seq_guard \<Rightarrow> string \<times> seq_guard" where
  "admit seq g =
    (if seq <s 0 then (''negative-frame-seq'', g)
     else if seq = 0 then (if sg_sequenced g then ''frame-seq-mode-regression'' else [], g)
     else if sg_sequenced g \<and> seq \<le>s sg_last g then (''frame-seq-replay'', g)
     else ([], \<lparr>sg_sequenced = True, sg_last = seq\<rparr>))"

section \<open>Sessions, kills and screen streams\<close>

datatype ready_signal = ReadyClosed | ReadyDone nat

record harness =
  hn_sessions :: "string \<Rightarrow> (string \<times> i64) option" \<comment> \<open>killed: reason and time\<close>
  hn_screens :: "string \<Rightarrow> nat option"
  hn_acks :: "string \<Rightarrow> ready_signal option"
  hn_cancelled :: "nat set"
  hn_done :: "nat set"
  hn_fresh :: nat
  hn_connects :: int
  hn_healthy :: int
  hn_kills :: int
  hn_defects :: int

definition new_harness :: harness where
  "new_harness = \<lparr>hn_sessions = (\<lambda>_. None), hn_screens = (\<lambda>_. None), hn_acks = (\<lambda>_. None),
     hn_cancelled = {}, hn_done = {}, hn_fresh = 0, hn_connects = 0, hn_healthy = 0, hn_kills = 0,
     hn_defects = 0\<rparr>"

definition transport_kill :: string where
  "transport_kill = ''transport-kill''"

definition obey_kill :: "string \<Rightarrow> string \<Rightarrow> i64 \<Rightarrow> harness \<Rightarrow> harness" where
  "obey_kill sid reason now h =
    (let r = (if reason = [] then ''killed'' else reason);
         h1 = h\<lparr>hn_sessions := (hn_sessions h)(sid \<mapsto> (r, now)), hn_kills := hn_kills h + 1\<rparr>;
         entry = hn_screens h1 sid;
         h2 = (if sid \<noteq> transport_kill
               then h1\<lparr>hn_acks := (hn_acks h1)(sid \<mapsto> (case entry of None \<Rightarrow> ReadyClosed | Some e \<Rightarrow> ReadyDone e))\<rparr>
               else h1) in
     (case entry of None \<Rightarrow> h2 | Some e \<Rightarrow> h2\<lparr>hn_cancelled := insert e (hn_cancelled h2)\<rparr>))"

definition register_screen :: "string \<Rightarrow> harness \<Rightarrow> nat option \<times> harness" where
  "register_screen sid h =
    (if sid = [] then (None, h)
     else if hn_screens h sid \<noteq> None then (None, h)
     else (Some (hn_fresh h),
           h\<lparr>hn_screens := (hn_screens h)(sid \<mapsto> hn_fresh h), hn_fresh := Suc (hn_fresh h)\<rparr>))"

definition unregister_screen :: "string \<Rightarrow> nat \<Rightarrow> harness \<Rightarrow> harness" where
  "unregister_screen sid e h =
    (if sid = [] then h
     else (if hn_screens h sid = Some e then h\<lparr>hn_screens := (hn_screens h)(sid := None)\<rparr> else h)
          \<lparr>hn_done := insert e (hn_done h)\<rparr>)"

definition take_kill_ack :: "string \<Rightarrow> harness \<Rightarrow> ready_signal \<times> harness" where
  "take_kill_ack sid h =
    ((case hn_acks h sid of None \<Rightarrow> ReadyClosed | Some r \<Rightarrow> r), h\<lparr>hn_acks := (hn_acks h)(sid := None)\<rparr>)"

definition session_state :: "string \<Rightarrow> harness \<Rightarrow> (string \<times> i64) option" where
  "session_state sid h = hn_sessions h sid"

section \<open>One inbound envelope\<close>

datatype inbound_action =
    ActContinue | ActHeartbeat | ActKillApplied | ActTransportKill | ActDefectClose
  | ActDispatch | ActConsentPrompt | ActDeviceKeyChallenge | ActScreenView

definition unsupported_in_idle :: string where
  "unsupported_in_idle = ''unsupported-payload-in-idle''"

definition classify_payload :: "config \<Rightarrow> i64 \<Rightarrow> payload \<Rightarrow> harness \<Rightarrow> (inbound_action \<times> string) \<times> harness" where
  "classify_payload cfg now p h =
    (case p of
       Heartbeat hb \<Rightarrow>
         (if hb_interval hb \<le>s 0 then (ActDefectClose, ''heartbeat-invalid-interval'') else (ActHeartbeat, []), h)
     | Kill sid reason \<Rightarrow>
         (if sid = transport_kill then (ActTransportKill, []) else (ActKillApplied, []), obey_kill sid reason now h)
     | ErrorFrame _ _ \<Rightarrow> ((ActContinue, []), h)
     | ConsentPrompt _ \<Rightarrow>
         (if \<not> cf_consent cfg then (ActDefectClose, unsupported_in_idle) else (ActConsentPrompt, []), h)
     | DeviceKeyChallenge _ \<Rightarrow>
         (if \<not> cf_device_key cfg then (ActDefectClose, unsupported_in_idle) else (ActDeviceKeyChallenge, []), h)
     | OperationDispatch _ _ \<Rightarrow>
         (if \<not> cf_pty cfg then (ActDefectClose, unsupported_in_idle) else (ActDispatch, []), h)
     | OperationPermitMsg q \<Rightarrow>
         (if \<not> cf_screen cfg then (ActDefectClose, unsupported_in_idle)
          else if pp_capability q \<noteq> CapViewOnly then (ActDefectClose, ''operation-permit-not-view-only'')
          else (ActScreenView, []), h)
     | _ \<Rightarrow> ((ActDefectClose, unsupported_in_idle), h))"

definition handle_inbound ::
  "config \<Rightarrow> i64 \<Rightarrow> envelope option \<Rightarrow> seq_guard \<Rightarrow> harness \<Rightarrow> (inbound_action \<times> string) \<times> seq_guard \<times> harness" where
  "handle_inbound cfg now env g h =
    (case env of
       None \<Rightarrow> ((ActDefectClose, ''nil-envelope''), g, h)
     | Some e \<Rightarrow>
       if ev_channel e \<noteq> ChannelControl then ((ActDefectClose, ''non-control-channel''), g, h)
       else (case admit (ev_frame_seq e) g of (reason, g') \<Rightarrow>
         if reason \<noteq> [] then ((ActDefectClose, reason), g', h)
         else (case classify_payload cfg now (ev_payload e) h of (r, h') \<Rightarrow> (r, g', h'))))"

section \<open>The loop of a connection\<close>

datatype task =
    KillAckTask string ready_signal
  | PtyTask operation_permit string
  | ScreenTask operation_permit
  | ScreenRunning string nat \<comment> \<open>a registered screen stream\<close>
  | ConsentTask consent_prompt
  | DeviceKeyTask device_key_challenge string

record stream_state =
  st_harness :: harness
  st_guard :: seq_guard
  st_healthy :: bool
  st_watchdog :: int \<comment> \<open>the deadline last set\<close>
  st_sender :: control_sender
  st_tasks :: "task list"

datatype stream_end =
    TransportKilled | ProtocolDefect string | HeartbeatAckFailed | BrokerClosed | RecvFailed string
  | WatchdogExpired | CtxCancelled

datatype stream_event =
    CtxDone | WatchdogFires | RecvEof | RecvErr string | RecvEnvelope "envelope option"

definition add_task :: "task \<Rightarrow> stream_state \<Rightarrow> stream_state" where
  "add_task t st = st\<lparr>st_tasks := st_tasks st @ [t]\<rparr>"

definition defect_close :: "string \<Rightarrow> stream_state \<Rightarrow> stream_state \<times> stream_end option" where
  "defect_close reason st =
    (st\<lparr>st_harness := (st_harness st)\<lparr>hn_defects := hn_defects (st_harness st) + 1\<rparr>,
        st_sender := snd (send_error_frame reason False (st_sender st))\<rparr>, Some (ProtocolDefect reason))"

definition on_heartbeat :: "config \<Rightarrow> heartbeat \<Rightarrow> stream_state \<Rightarrow> stream_state \<times> stream_end option" where
  "on_heartbeat cfg hb st =
    (let st1 = st\<lparr>st_watchdog := heartbeat_deadline cfg (hb_interval hb)\<rparr> in
     (case send_heartbeat hb (st_sender st1) of
        (Some _, cs) \<Rightarrow> (st1\<lparr>st_sender := cs\<rparr>, Some HeartbeatAckFailed)
      | (None, cs) \<Rightarrow>
          (let st2 = st1\<lparr>st_sender := cs\<rparr> in
           if st_healthy st2 then (st2, None)
           else (st2\<lparr>st_healthy := True,
                  st_harness := (st_harness st2)\<lparr>hn_healthy := hn_healthy (st_harness st2) + 1\<rparr>\<rparr>, None))))"

definition perform_action ::
  "config \<Rightarrow> inbound_action \<times> string \<Rightarrow> envelope option \<Rightarrow> stream_state \<Rightarrow> stream_state \<times> stream_end option" where
  "perform_action cfg act env st =
    (case (fst act, map_option ev_payload env) of
       (ActContinue, _) \<Rightarrow> (st, None)
     | (ActKillApplied, Some (Kill sid _)) \<Rightarrow>
         (case take_kill_ack sid (st_harness st) of (ready, h) \<Rightarrow>
           (add_task (KillAckTask sid ready) (st\<lparr>st_harness := h\<rparr>), None))
     | (ActHeartbeat, Some (Heartbeat hb)) \<Rightarrow> on_heartbeat cfg hb st
     | (ActTransportKill, _) \<Rightarrow> (st, Some TransportKilled)
     | (ActDispatch, Some (OperationDispatch p line)) \<Rightarrow>
         (case decode_dispatch (Some (p, line)) of
            None \<Rightarrow> defect_close ''operation-dispatch-decode-failed'' st
          | Some (permit, cmd) \<Rightarrow> (add_task (PtyTask permit cmd) st, None))
     | (ActScreenView, Some (OperationPermitMsg q)) \<Rightarrow>
         (case decode_operation_permit (Some q) of
            None \<Rightarrow> defect_close ''operation-permit-decode-failed'' st
          | Some permit \<Rightarrow> (add_task (ScreenTask permit) st, None))
     | (ActConsentPrompt, Some (ConsentPrompt c)) \<Rightarrow> (add_task (ConsentTask c) st, None)
     | (ActDeviceKeyChallenge, Some (DeviceKeyChallenge c)) \<Rightarrow>
         (add_task (DeviceKeyTask c (case env of Some e \<Rightarrow> ev_session_id e | None \<Rightarrow> [])) st, None)
     | _ \<Rightarrow> defect_close (snd act) st)"

definition connect_event :: "config \<Rightarrow> i64 \<Rightarrow> stream_event \<Rightarrow> stream_state \<Rightarrow> stream_state \<times> stream_end option" where
  "connect_event cfg now ev st =
    (case ev of
       CtxDone \<Rightarrow> (st, Some CtxCancelled)
     | WatchdogFires \<Rightarrow> (st, Some WatchdogExpired)
     | RecvEof \<Rightarrow> (st, Some BrokerClosed)
     | RecvErr e \<Rightarrow> (st, Some (RecvFailed e))
     | RecvEnvelope env \<Rightarrow>
         (case handle_inbound cfg now env (st_guard st) (st_harness st) of (act, g, h) \<Rightarrow>
           perform_action cfg act env (st\<lparr>st_guard := g, st_harness := h\<rparr>)))"

text \<open>The stream after the hello: the state the loop starts in, or None when the hello fails.\<close>

definition open_stream ::
  "'k crypto \<Rightarrow> config \<Rightarrow> string \<Rightarrow> string \<Rightarrow> transport \<Rightarrow> harness \<Rightarrow> stream_state option" where
  "open_stream C cfg version device_id tp h =
    (case send_hello \<lparr>ah_version = version, ah_device_id = device_id,
              ah_cert_fingerprint = hello_cert_fingerprint C (cf_tls cfg),
              ah_attestation = configured_attestation cfg, ah_protocol = ''rb-v1'',
              ah_capabilities = advertised_capabilities cfg\<rparr> (new_sender tp) of
       (Some _, _) \<Rightarrow> None
     | (None, cs) \<Rightarrow> Some \<lparr>st_harness = h\<lparr>hn_connects := hn_connects h + 1\<rparr>, st_guard = new_guard,
         st_healthy = False, st_watchdog = cf_first_heartbeat cfg, st_sender = cs, st_tasks = []\<rparr>)"

section \<open>The tasks\<close>

definition drop_task :: "task \<Rightarrow> stream_state \<Rightarrow> stream_state" where
  "drop_task t st = st\<lparr>st_tasks := remove1 t (st_tasks st)\<rparr>"

definition is_ready :: "harness \<Rightarrow> ready_signal \<Rightarrow> bool" where
  "is_ready h r = (case r of ReadyClosed \<Rightarrow> True | ReadyDone e \<Rightarrow> e \<in> hn_done h)"

text \<open>The start of a screen dispatch, up to the stream it opens.\<close>

definition start_screen :: "string \<Rightarrow> operation_permit \<Rightarrow> stream_state \<Rightarrow> stream_state" where
  "start_screen device_id p st =
    (let st0 = drop_task (ScreenTask p) st;
         refuse = (\<lambda>code. st0\<lparr>st_sender := snd (send_session_error (op_session_id p) code False (st_sender st0))\<rparr>) in
     if device_id = [] \<or> op_device_id p \<noteq> device_id then refuse ''operation-device-mismatch''
     else (case register_screen (op_session_id p) (st_harness st0) of
         (None, _) \<Rightarrow> refuse ''screen-view-already-active''
       | (Some e, h) \<Rightarrow> add_task (ScreenRunning (op_session_id p) e) (st0\<lparr>st_harness := h\<rparr>)))"

definition end_screen :: "string \<Rightarrow> nat \<Rightarrow> stream_state \<Rightarrow> stream_state" where
  "end_screen sid e st =
     (let st0 = drop_task (ScreenRunning sid e) st in
      st0\<lparr>st_harness := unregister_screen sid e (st_harness st0)\<rparr>)"

text \<open>The answers of the two responders: a result, nothing, or an error.\<close>

definition respond_to_consent ::
  "(consent_prompt \<Rightarrow> string + consent_result option) \<Rightarrow> consent_prompt option \<Rightarrow> control_sender \<Rightarrow> control_sender" where
  "respond_to_consent responder prompt cs =
    (case prompt of
       None \<Rightarrow> snd (send_error_frame ''nil-consent-prompt'' False cs)
     | Some c \<Rightarrow> (case responder c of
         Inl _ \<Rightarrow> snd (send_error_frame ''consent-responder-failed'' False cs)
       | Inr None \<Rightarrow> snd (send_error_frame ''consent-responder-empty-result'' False cs)
       | Inr (Some r) \<Rightarrow>
           if cr_session_id r \<noteq> cp_session_id c
           then snd (send_error_frame ''consent-result-session-mismatch'' False cs)
           else snd (send_consent_result r cs)))"

definition respond_to_device_key ::
  "(device_key_challenge \<Rightarrow> string \<Rightarrow> string + device_key_response option) \<Rightarrow> device_key_challenge option \<Rightarrow>
   string \<Rightarrow> control_sender \<Rightarrow> control_sender" where
  "respond_to_device_key responder challenge sid cs =
    (case challenge of
       None \<Rightarrow> snd (send_error_frame ''nil-device-key-challenge'' False cs)
     | Some c \<Rightarrow> (case responder c sid of
         Inl _ \<Rightarrow> snd (send_error_frame ''device-key-responder-failed'' False cs)
       | Inr None \<Rightarrow> snd (send_error_frame ''device-key-responder-empty-result'' False cs)
       | Inr (Some r) \<Rightarrow>
           if dr_challenge_id r \<noteq> dk_challenge_id c
           then snd (send_error_frame ''device-key-response-challenge-mismatch'' False cs)
           else snd (send_device_key_response sid r cs)))"

definition send_kill_ack :: "'k crypto \<Rightarrow> string \<Rightarrow> ready_signal \<Rightarrow> stream_state \<Rightarrow> stream_state" where
  "send_kill_ack C sid r st =
     (let st0 = drop_task (KillAckTask sid r) st in
      st0\<lparr>st_sender := snd (send_audit_event C sid ''AGENT_KILL_APPLIED'' (st_sender st0))\<rparr>)"

inductive bridge_step :: "'k crypto \<Rightarrow> config \<Rightarrow> string \<Rightarrow> stream_state \<Rightarrow> stream_state \<Rightarrow> bool"
  for C :: "'k crypto" and cfg :: config and dev :: string where
  receive: "connect_event cfg now ev st = (st', None) \<Longrightarrow> bridge_step C cfg dev st st'"
| kill_ack: "KillAckTask sid r \<in> set (st_tasks st) \<Longrightarrow> is_ready (st_harness st) r \<Longrightarrow>
    bridge_step C cfg dev st (send_kill_ack C sid r st)"
| task_reports: "bridge_step C cfg dev st (st\<lparr>st_sender := snd (control_step C q (st_sender st))\<rparr>)"
| screen_start: "ScreenTask p \<in> set (st_tasks st) \<Longrightarrow> bridge_step C cfg dev st (start_screen dev p st)"
| screen_end: "ScreenRunning sid e \<in> set (st_tasks st) \<Longrightarrow> bridge_step C cfg dev st (end_screen sid e st)"

inductive bridge_run :: "'k crypto \<Rightarrow> config \<Rightarrow> string \<Rightarrow> stream_state \<Rightarrow> stream_state \<Rightarrow> bool"
  for C :: "'k crypto" and cfg :: config and dev :: string where
  bridge_refl: "bridge_run C cfg dev st st"
| bridge_next: "bridge_run C cfg dev st st' \<Longrightarrow> bridge_step C cfg dev st' st'' \<Longrightarrow> bridge_run C cfg dev st st''"

inductive_cases bridge_stepE: "bridge_step C cfg dev st st'"

section \<open>The invariant of the registry\<close>

definition running :: "task list \<Rightarrow> (string \<times> nat) list" where
  "running ts = concat (map (\<lambda>t. case t of ScreenRunning sid e \<Rightarrow> [(sid, e)] | _ \<Rightarrow> []) ts)"

lemma running_simps [simp]:
  "running [] = []" "running (ts @ us) = running ts @ running us"
  "running (ScreenRunning sid e # ts) = (sid, e) # running ts"
  by (simp_all add: running_def)

lemma running_Cons: "(\<forall>sid e. t \<noteq> ScreenRunning sid e) \<Longrightarrow> running (t # ts) = running ts"
  by (cases t) (simp_all add: running_def)

lemma set_running: "(sid, e) \<in> set (running ts) \<longleftrightarrow> ScreenRunning sid e \<in> set ts"
  by (induction ts) (auto simp: running_def split: task.splits)

lemma running_remove1_other: "(\<forall>sid e. t \<noteq> ScreenRunning sid e) \<Longrightarrow> running (remove1 t ts) = running ts"
proof (induction ts)
  case (Cons u ts)
  then show ?case
    by (cases "u = t") (auto simp: running_Cons running_def split: task.splits)
qed simp

lemma running_remove1: "running (remove1 (ScreenRunning sid e) ts) = remove1 (sid, e) (running ts)"
proof (induction ts)
  case (Cons u ts)
  then show ?case by (cases u) (auto simp: running_def)
qed simp

definition registry_ok :: "harness \<Rightarrow> task list \<Rightarrow> bool" where
  "registry_ok h ts \<longleftrightarrow>
     distinct (running ts) \<and>
     (\<forall>sid e. (sid, e) \<in> set (running ts) \<longrightarrow> hn_screens h sid = Some e \<and> e \<notin> hn_done h \<and> sid \<noteq> []) \<and>
     (\<forall>sid e. hn_screens h sid = Some e \<longrightarrow> e < hn_fresh h) \<and>
     (\<forall>e \<in> hn_done h. e < hn_fresh h) \<and>
     (\<forall>sid sid' e. hn_screens h sid = Some e \<and> hn_screens h sid' = Some e \<longrightarrow> sid = sid')"

definition acks_ok :: "harness \<Rightarrow> task list \<Rightarrow> bool" where
  "acks_ok h ts \<longleftrightarrow>
     (\<forall>sid e. KillAckTask sid (ReadyDone e) \<in> set ts \<longrightarrow> e \<in> hn_cancelled h) \<and>
     (\<forall>sid e. hn_acks h sid = Some (ReadyDone e) \<longrightarrow> e \<in> hn_cancelled h)"

text \<open>What receiving an envelope does to the registry: nothing, but for the kill it may carry.\<close>

lemma obey_kill_frame:
  "hn_screens (obey_kill sid r now h) = hn_screens h" "hn_done (obey_kill sid r now h) = hn_done h"
  "hn_fresh (obey_kill sid r now h) = hn_fresh h" "hn_cancelled h \<subseteq> hn_cancelled (obey_kill sid r now h)"
  by (auto simp: obey_kill_def Let_def split: option.splits)

lemma obey_kill_acks:
  "hn_acks (obey_kill sid r now h) t = Some (ReadyDone e) \<Longrightarrow>
   hn_acks h t = Some (ReadyDone e) \<or> (t = sid \<and> hn_screens h sid = Some e \<and> e \<in> hn_cancelled (obey_kill sid r now h))"
  by (auto simp: obey_kill_def Let_def split: option.splits if_splits)

lemma acks_kill: "acks_ok h ts \<Longrightarrow> acks_ok (obey_kill sid r now h) ts"
  using obey_kill_frame(4) [of h sid r now] obey_kill_acks [of sid r now h]
  unfolding acks_ok_def by blast

lemma handle_inbound_harness:
  assumes "handle_inbound cfg now env g h = (act, g', h')"
  shows "h' = h \<or> (\<exists>sid r. h' = obey_kill sid r now h)"
  using assms
  by (auto simp: handle_inbound_def classify_payload_def Let_def
      split: option.splits prod.splits if_splits payload.splits)

lemma take_kill_frame:
  assumes "take_kill_ack sid h = (r, h')"
  shows "hn_screens h' = hn_screens h" "hn_done h' = hn_done h" "hn_fresh h' = hn_fresh h"
    "hn_cancelled h' = hn_cancelled h"
    "hn_acks h' t = Some x \<Longrightarrow> hn_acks h t = Some x"
    "r = ReadyDone e \<Longrightarrow> hn_acks h sid = Some (ReadyDone e)"
  using assms by (auto simp: take_kill_ack_def split: option.splits if_splits)

text \<open>An action that does not end the stream adds at most one task, never a running stream.\<close>

lemma perform_action_tasks:
  assumes "perform_action cfg act env st = (st', None)"
  shows "hn_screens (st_harness st') = hn_screens (st_harness st) \<and>
    hn_done (st_harness st') = hn_done (st_harness st) \<and> hn_fresh (st_harness st') = hn_fresh (st_harness st) \<and>
    hn_cancelled (st_harness st') = hn_cancelled (st_harness st) \<and>
    running (st_tasks st') = running (st_tasks st) \<and> set (st_tasks st) \<subseteq> set (st_tasks st') \<and>
    (acks_ok (st_harness st) (st_tasks st) \<longrightarrow> acks_ok (st_harness st') (st_tasks st'))"
proof -
  have add: "running (ts @ [t]) = running ts" if "\<forall>sid e. t \<noteq> ScreenRunning sid e" for ts t
    using running_Cons [OF that, of "[]"] by simp
  have kill: "acks_ok h' (ts @ [KillAckTask sid r])"
    if "take_kill_ack sid h = (r, h')" "acks_ok h ts" for sid r h h' ts
    using that(2) take_kill_frame(4-6) [OF that(1)] unfolding acks_ok_def
    by (metis Un_iff empty_iff empty_set insert_iff list.simps(15) set_append task.inject(1))
  from assms show ?thesis
    by (auto simp: perform_action_def defect_close_def on_heartbeat_def add_task_def Let_def take_kill_frame
        add kill split: prod.splits option.splits inbound_action.splits payload.splits if_splits
        intro: kill) (auto simp: acks_ok_def running_Cons)
qed

definition stream_ok :: "stream_state \<Rightarrow> bool" where
  "stream_ok st \<longleftrightarrow> registry_ok (st_harness st) (st_tasks st) \<and> acks_ok (st_harness st) (st_tasks st)"

lemma receive_frame:
  assumes "connect_event cfg now ev st = (st', None)"
  shows "hn_screens (st_harness st') = hn_screens (st_harness st) \<and>
    hn_done (st_harness st') = hn_done (st_harness st) \<and> hn_fresh (st_harness st') = hn_fresh (st_harness st) \<and>
    hn_cancelled (st_harness st) \<subseteq> hn_cancelled (st_harness st') \<and>
    running (st_tasks st') = running (st_tasks st) \<and> set (st_tasks st) \<subseteq> set (st_tasks st') \<and>
    (acks_ok (st_harness st) (st_tasks st) \<longrightarrow> acks_ok (st_harness st') (st_tasks st'))"
proof -
  obtain env where ev: "ev = RecvEnvelope env" using assms by (auto simp: connect_event_def split: stream_event.splits)
  obtain act g h where hi: "handle_inbound cfg now env (st_guard st) (st_harness st) = (act, g, h)"
    by (metis surj_pair)
  have pa: "perform_action cfg act env (st\<lparr>st_guard := g, st_harness := h\<rparr>) = (st', None)"
    using assms ev hi by (simp add: connect_event_def)
  have h: "hn_screens h = hn_screens (st_harness st)" "hn_done h = hn_done (st_harness st)"
    "hn_fresh h = hn_fresh (st_harness st)" "hn_cancelled (st_harness st) \<subseteq> hn_cancelled h"
    "acks_ok (st_harness st) (st_tasks st) \<Longrightarrow> acks_ok h (st_tasks st)"
    using handle_inbound_harness [OF hi] obey_kill_frame acks_kill by fastforce+
  from perform_action_tasks [OF pa] h show ?thesis by simp
qed

lemma step_ok: "bridge_step C cfg dev st st' \<Longrightarrow> stream_ok st \<Longrightarrow> stream_ok st'"
proof (induction rule: bridge_step.induct)
  case (receive now ev st st')
  then show ?case
    using receive_frame [OF receive.hyps] by (auto simp: stream_ok_def registry_ok_def)
next
  case (kill_ack sid r st)
  have "set (remove1 (KillAckTask sid r) (st_tasks st)) \<subseteq> set (st_tasks st)" by (rule set_remove1_subset)
  then show ?case
    using kill_ack.prems
    by (auto simp: send_kill_ack_def drop_task_def Let_def stream_ok_def registry_ok_def acks_ok_def
        running_remove1_other)
next
  case (task_reports st q)
  then show ?case by (simp add: stream_ok_def)
next
  case (screen_start p st)
  let ?ts = "remove1 (ScreenTask p) (st_tasks st)" and ?h = "st_harness st" and ?sid = "op_session_id p"
  have sub: "set ?ts \<subseteq> set (st_tasks st)" by (rule set_remove1_subset)
  have r: "running ?ts = running (st_tasks st)" by (rule running_remove1_other) simp
  have ok: "registry_ok ?h ?ts" "acks_ok ?h ?ts"
    using screen_start.prems r sub by (auto simp: stream_ok_def registry_ok_def acks_ok_def)
  show ?case
  proof (cases "dev = [] \<or> op_device_id p \<noteq> dev \<or> ?sid = [] \<or> hn_screens ?h ?sid \<noteq> None")
    case True
    then have "st_harness (start_screen dev p st) = ?h \<and> st_tasks (start_screen dev p st) = ?ts"
      by (auto simp: start_screen_def drop_task_def register_screen_def Let_def)
    then show ?thesis using ok by (simp add: stream_ok_def)
  next
    case False
    let ?h' = "?h\<lparr>hn_screens := (hn_screens ?h)(?sid \<mapsto> hn_fresh ?h), hn_fresh := Suc (hn_fresh ?h)\<rparr>"
    have st: "st_harness (start_screen dev p st) = ?h'"
      "st_tasks (start_screen dev p st) = ?ts @ [ScreenRunning ?sid (hn_fresh ?h)]"
      using False by (auto simp: start_screen_def drop_task_def register_screen_def add_task_def Let_def)
    have new: "hn_screens ?h s \<noteq> Some (hn_fresh ?h)" "hn_fresh ?h \<notin> hn_done ?h" "(?sid, e) \<notin> set (running ?ts)" for s e
      using ok(1) False unfolding registry_ok_def by (metis less_irrefl option.distinct(1))+
    have "registry_ok ?h' (?ts @ [ScreenRunning ?sid (hn_fresh ?h)])"
      using ok(1) new False unfolding registry_ok_def
      by (auto simp: less_Suc_eq split: if_splits)
    moreover have "acks_ok ?h' (?ts @ [ScreenRunning ?sid (hn_fresh ?h)])"
      using ok(2) by (simp add: acks_ok_def)
    ultimately show ?thesis using st by (simp add: stream_ok_def)
  qed
next
  case (screen_end sid e st)
  let ?ts = "remove1 (ScreenRunning sid e) (st_tasks st)" and ?h = "st_harness st"
  have sub: "set ?ts \<subseteq> set (st_tasks st)" by (rule set_remove1_subset)
  have reg: "hn_screens ?h sid = Some e" "sid \<noteq> []" "e < hn_fresh ?h"
    using screen_end unfolding stream_ok_def registry_ok_def by (metis set_running)+
  have st: "st_harness (end_screen sid e st) =
      ?h\<lparr>hn_screens := (hn_screens ?h)(sid := None), hn_done := insert e (hn_done ?h)\<rparr>"
    "st_tasks (end_screen sid e st) = ?ts"
    using reg by (simp_all add: end_screen_def drop_task_def unregister_screen_def Let_def)
  have d: "distinct (running (st_tasks st))" using screen_end.prems by (simp add: stream_ok_def registry_ok_def)
  have "registry_ok (st_harness (end_screen sid e st)) ?ts"
    using screen_end.prems reg d unfolding st(1) stream_ok_def registry_ok_def running_remove1
    by (auto dest: in_set_remove1 simp: distinct_remove1)
  moreover have "acks_ok (st_harness (end_screen sid e st)) ?ts"
    using screen_end.prems sub unfolding st(1) stream_ok_def acks_ok_def by auto
  ultimately show ?case using st(2) by (simp add: stream_ok_def)
qed

lemma run_ok: "bridge_run C cfg dev st st' \<Longrightarrow> stream_ok st \<Longrightarrow> stream_ok st'"
  by (induction rule: bridge_run.induct) (auto dest: step_ok)

lemma open_ok: "open_stream C cfg v d tp new_harness = Some st \<Longrightarrow> stream_ok st"
  by (auto simp: open_stream_def stream_ok_def registry_ok_def acks_ok_def new_harness_def
      split: prod.splits option.splits)

section \<open>Steps a stopped stream must have taken\<close>

lemma cancelled_mono: "bridge_step C cfg dev st st' \<Longrightarrow> hn_cancelled (st_harness st) \<subseteq> hn_cancelled (st_harness st')"
proof (induction rule: bridge_step.induct)
  case (receive now ev st st')
  then show ?case using receive_frame by blast
qed (auto simp: send_kill_ack_def start_screen_def end_screen_def drop_task_def add_task_def register_screen_def
    unregister_screen_def Let_def)

lemma done_mono: "bridge_step C cfg dev st st' \<Longrightarrow> hn_done (st_harness st) \<subseteq> hn_done (st_harness st')"
proof (induction rule: bridge_step.induct)
  case (receive now ev st st')
  then show ?case using receive_frame by blast
qed (auto simp: send_kill_ack_def start_screen_def end_screen_def drop_task_def add_task_def register_screen_def
    unregister_screen_def Let_def)

text \<open>A pending acknowledgement leaves the tasks only after its stream is done.\<close>

lemma ack_waits:
  "bridge_step C cfg dev st st' \<Longrightarrow> KillAckTask sid (ReadyDone e) \<in> set (st_tasks st) \<Longrightarrow>
   KillAckTask sid (ReadyDone e) \<in> set (st_tasks st') \<or> e \<in> hn_done (st_harness st')"
proof (induction rule: bridge_step.induct)
  case (receive now ev st st')
  then show ?case using receive_frame by blast
next
  case (kill_ack sid' r st)
  then show ?case
    by (cases "KillAckTask sid' r = KillAckTask sid (ReadyDone e)")
      (auto simp: send_kill_ack_def drop_task_def Let_def is_ready_def)
qed (auto simp: start_screen_def end_screen_def drop_task_def add_task_def register_screen_def Let_def)

lemma run_ack_waits:
  "bridge_run C cfg dev st st' \<Longrightarrow> KillAckTask sid (ReadyDone e) \<in> set (st_tasks st) \<Longrightarrow>
   KillAckTask sid (ReadyDone e) \<in> set (st_tasks st') \<or> e \<in> hn_done (st_harness st')"
  by (induction rule: bridge_run.induct) (use ack_waits done_mono in blast)+

lemma run_cancelled_mono:
  "bridge_run C cfg dev st st' \<Longrightarrow> hn_cancelled (st_harness st) \<subseteq> hn_cancelled (st_harness st')"
  by (induction rule: bridge_run.induct) (use cancelled_mono in blast)+

text \<open>A kill received for a session with a running stream.\<close>

definition kill_envelope :: "string \<Rightarrow> string \<Rightarrow> envelope" where
  "kill_envelope sid reason = empty_envelope\<lparr>ev_channel := ChannelControl, ev_payload := Kill sid reason\<rparr>"

lemma kill_received:
  assumes "sid \<noteq> transport_kill" and "\<not> sg_sequenced (st_guard st)"
    and "connect_event cfg now (RecvEnvelope (Some (kill_envelope sid r))) st = (st', res)"
  shows "res = None \<and> st_guard st' = st_guard st \<and>
    hn_sessions (st_harness st') sid \<noteq> None \<and>
    (\<forall>e. hn_screens (st_harness st) sid = Some e \<longrightarrow>
       e \<in> hn_cancelled (st_harness st') \<and> KillAckTask sid (ReadyDone e) \<in> set (st_tasks st')) \<and>
    (hn_screens (st_harness st) sid = None \<longrightarrow> KillAckTask sid ReadyClosed \<in> set (st_tasks st'))"
  using assms
  by (auto simp: connect_event_def handle_inbound_def classify_payload_def kill_envelope_def empty_envelope_def
      admit_def perform_action_def take_kill_ack_def obey_kill_def add_task_def Let_def split: option.splits)

section \<open>A run to state the theorems on\<close>

definition screen_config :: config where
  "screen_config = \<lparr>cf_broker_addr = ''127.0.0.1:8443'', cf_device_provider = True, cf_insecure = False,
     cf_tls = None, cf_attestation = [], cf_first_heartbeat = 15 * second, cf_miss_factor = 3,
     cf_backoff_min = second, cf_backoff_max = 300 * second, cf_identity_poll = second,
     cf_dial_timeout = 10 * second, cf_dialer = False, cf_pty = False, cf_screen = True,
     cf_consent = False, cf_device_key = False\<rparr>"

definition view_pb :: pb_permit where
  "view_pb = \<lparr>pp_alg = permit_alg, pp_kid = ''kid-1'', pp_permit_version = 1, pp_policy_version = ''p1'',
     pp_decision_id = ''d'', pp_session_id = ''s'', pp_operation_id = ''o'', pp_device_id = ''dev-1'',
     pp_operator_subject = ''ada'', pp_capability = CapViewOnly, pp_command_hash = [], pp_issued_at = 1000,
     pp_expires_at = 61000, pp_seq = 1, pp_signature = ''K''\<rparr>"

definition view_envelope :: envelope where
  "view_envelope = empty_envelope\<lparr>ev_channel := ChannelControl, ev_payload := OperationPermitMsg view_pb\<rparr>"

definition quiet_transport :: transport where
  "quiet_transport = \<lparr>tp_sent = [], tp_fault = (\<lambda>_. False), tp_tick = 0, tp_clock = (\<lambda>_. 7)\<rparr>"

definition opened :: stream_state where
  "opened = the (open_stream sample_crypto screen_config ''1.0'' ''dev-1'' quiet_transport new_harness)"

definition view_asked :: stream_state where
  "view_asked = fst (connect_event screen_config 5 (RecvEnvelope (Some view_envelope)) opened)"

definition view_started :: stream_state where
  "view_started = start_screen ''dev-1'' (permit_of_pb view_pb) view_asked"

lemma opened_eq: "open_stream sample_crypto screen_config ''1.0'' ''dev-1'' quiet_transport new_harness = Some opened"
  by (simp add: opened_def open_stream_def send_hello_def control_send_def stream_send_def quiet_transport_def
      new_sender_def empty_envelope_def agent_may_send_def)

lemma open_stream_state:
  assumes "open_stream C cfg v d tp new_harness = Some st"
  shows "st_tasks st = []" "st_guard st = new_guard" "hn_screens (st_harness st) = (\<lambda>_. None)"
    "hn_fresh (st_harness st) = 0" "hn_cancelled (st_harness st) = {}" "hn_acks (st_harness st) = (\<lambda>_. None)"
    "tp_fault (cs_stream (st_sender st)) = tp_fault tp"
  using assms
  by (auto simp: open_stream_def new_harness_def send_hello_def control_send_def stream_send_def new_sender_def
      split: prod.splits option.splits if_splits)

lemma opened_state:
  "st_tasks opened = []" "st_guard opened = new_guard" "hn_screens (st_harness opened) = (\<lambda>_. None)"
  "hn_fresh (st_harness opened) = 0" "hn_cancelled (st_harness opened) = {}"
  "hn_acks (st_harness opened) = (\<lambda>_. None)"
  by (rule open_stream_state [OF opened_eq])+

lemma view_asked_eq:
  "connect_event screen_config 5 (RecvEnvelope (Some view_envelope)) opened = (view_asked, None)"
  "view_asked = opened\<lparr>st_tasks := [ScreenTask (permit_of_pb view_pb)]\<rparr>"
  by (simp_all add: view_asked_def connect_event_def handle_inbound_def view_envelope_def empty_envelope_def
      admit_def new_guard_def opened_state classify_payload_def screen_config_def view_pb_def perform_action_def
      decode_operation_permit_def add_task_def)

lemma view_started_eq:
  "st_tasks view_started = [ScreenRunning ''s'' 0]" "st_guard view_started = new_guard"
  "hn_screens (st_harness view_started) = [''s'' \<mapsto> 0]"
  by (simp_all add: view_started_def start_screen_def view_asked_eq(2) drop_task_def permit_of_pb_def view_pb_def
      register_screen_def opened_state add_task_def Let_def)

lemma view_started_run: "bridge_run sample_crypto screen_config ''dev-1'' opened view_started"
  unfolding view_started_def
  by (rule bridge_next [OF bridge_next [OF bridge_refl receive [OF view_asked_eq(1)]] screen_start])
    (simp add: view_asked_eq(2))

section \<open>Properties\<close>

text \<open>
  Fact: in every reachable state of a stream, however receiving and the tasks interleave, a
  session has at most one running screen stream, and that stream is registered under the session, so
  a kill finds it.
\<close>

theorem one_screen_stream_per_session:
  assumes "open_stream C cfg v d tp new_harness = Some st0" and "bridge_run C cfg dev st0 st"
    and "ScreenRunning sid e \<in> set (st_tasks st)"
  shows "hn_screens (st_harness st) sid = Some e \<and> e \<notin> hn_done (st_harness st) \<and>
    (\<forall>e'. ScreenRunning sid e' \<in> set (st_tasks st) \<longrightarrow> e' = e)"
proof -
  have "\<forall>e. ScreenRunning sid e \<in> set (st_tasks st) \<longrightarrow>
      hn_screens (st_harness st) sid = Some e \<and> e \<notin> hn_done (st_harness st)"
    using run_ok [OF assms(2) open_ok [OF assms(1)]]
    by (simp add: stream_ok_def registry_ok_def set_running)
  then show ?thesis using assms(3) by (metis option.inject)
qed

theorem one_screen_stream_per_session_witness:
  "hn_screens (st_harness view_started) ''s'' = Some 0 \<and> 0 \<notin> hn_done (st_harness view_started)"
  using one_screen_stream_per_session [OF opened_eq view_started_run, of "''s''" 0]
  by (simp add: view_started_eq(1))

text \<open>
  Property C4: a session kill cancels the session's running screen stream at once, and its
  acknowledgement is held back until that very stream has stopped, whatever happens in between.
\<close>

theorem kill_stops_stream_before_ack:
  assumes "open_stream C cfg v d tp new_harness = Some st0" and "bridge_run C cfg dev st0 st"
    and "ScreenRunning sid e \<in> set (st_tasks st)" and "sid \<noteq> transport_kill"
    and "\<not> sg_sequenced (st_guard st)"
    and "connect_event cfg now (RecvEnvelope (Some (kill_envelope sid r))) st = (st1, res)"
    and "bridge_run C cfg dev st1 st2"
  shows "res = None \<and> e \<in> hn_cancelled (st_harness st1) \<and> e \<in> hn_cancelled (st_harness st2) \<and>
    (KillAckTask sid (ReadyDone e) \<in> set (st_tasks st2) \<or> e \<in> hn_done (st_harness st2))"
proof -
  have "hn_screens (st_harness st) sid = Some e"
    using run_ok [OF assms(2) open_ok [OF assms(1)]] assms(3)
    by (auto simp: stream_ok_def registry_ok_def set_running)
  with kill_received [OF assms(4,5,6)] have k: "res = None" "e \<in> hn_cancelled (st_harness st1)"
    "KillAckTask sid (ReadyDone e) \<in> set (st_tasks st1)" by auto
  then show ?thesis
    using run_ack_waits [OF assms(7) k(3)] run_cancelled_mono [OF assms(7)] by blast
qed

theorem kill_stops_stream_before_ack_witness:
  "0 \<in> hn_cancelled (st_harness (fst (connect_event screen_config 9
     (RecvEnvelope (Some (kill_envelope ''s'' []))) view_started)))"
proof -
  obtain st1 res where k: "connect_event screen_config 9 (RecvEnvelope (Some (kill_envelope ''s'' []))) view_started
      = (st1, res)" by (metis surj_pair)
  have "0 \<in> hn_cancelled (st_harness st1)"
    using kill_stops_stream_before_ack [OF opened_eq view_started_run _ _ _ k bridge_refl, of 0]
    by (simp add: view_started_eq transport_kill_def new_guard_def)
  then show ?thesis using k by simp
qed

text \<open>
  Fact: with no dispatcher and no responder wired, which is the default, no envelope the
  broker can send makes the agent execute, capture or answer anything: it is obeyed as a heartbeat
  or a kill, ignored as an error report, or the stream is closed, and no task but a kill
  acknowledgement is started.
\<close>

theorem idle_harness_only_obeys:
  assumes "\<not> cf_pty cfg" and "\<not> cf_screen cfg" and "\<not> cf_consent cfg" and "\<not> cf_device_key cfg"
    and "connect_event cfg now ev st = (st', res)"
  shows "\<forall>t \<in> set (st_tasks st'). t \<in> set (st_tasks st) \<or> (\<exists>sid r. t = KillAckTask sid r)"
proof (cases ev)
  case (RecvEnvelope env)
  obtain act g h where hi: "handle_inbound cfg now env (st_guard st) (st_harness st) = (act, g, h)"
    by (metis surj_pair)
  have act: "fst act \<in> {ActContinue, ActHeartbeat, ActKillApplied, ActTransportKill, ActDefectClose}"
    using hi assms(1-4)
    by (auto simp: handle_inbound_def classify_payload_def split: option.splits prod.splits if_splits payload.splits)
  have pa: "perform_action cfg act env (st\<lparr>st_guard := g, st_harness := h\<rparr>) = (st', res)"
    using assms(5) hi RecvEnvelope by (simp add: connect_event_def)
  have dc: "st_tasks (fst (defect_close r x)) = st_tasks x" for r x by (simp add: defect_close_def)
  have hb: "st_tasks (fst (on_heartbeat cfg b x)) = st_tasks x" for b x
    by (auto simp: on_heartbeat_def Let_def split: prod.splits option.splits)
  have "st' = fst (perform_action cfg act env (st\<lparr>st_guard := g, st_harness := h\<rparr>))" using pa by simp
  then show ?thesis
  proof (cases "fst act")
    case ActKillApplied
    then show ?thesis
      using \<open>st' = _\<close>
      by (auto simp: perform_action_def dc add_task_def split: option.splits payload.splits prod.splits)
  next
    case ActHeartbeat
    then show ?thesis
      using \<open>st' = _\<close>
      by (auto simp: perform_action_def dc hb split: option.splits payload.splits)
  qed (use act \<open>st' = _\<close> in \<open>simp_all add: perform_action_def dc\<close>)
qed (use assms(5) in \<open>auto simp: connect_event_def\<close>)

theorem idle_harness_only_obeys_witness:
  "\<forall>t \<in> set (st_tasks (fst (connect_event (screen_config\<lparr>cf_screen := False\<rparr>) 5
     (RecvEnvelope (Some view_envelope)) opened))). t \<in> set (st_tasks opened) \<or> (\<exists>sid r. t = KillAckTask sid r)"
  by (rule idle_harness_only_obeys [OF _ _ _ _ surjective_pairing]) (simp_all add: screen_config_def)

text \<open>
  Fact: a harness that accepts operations dials, outside tests, only with a client
  certificate and a verified server; any harness's plaintext goes to a loopback address only.
\<close>

theorem harness_never_dials_open:
  assumes "new_harness_config L C cfg0 = Inr cfg" and "\<not> cf_dialer cfg"
  shows "(cf_pty cfg \<longrightarrow> (\<exists>t. dial L cfg = DialTls t \<and> \<not> tls_skip_verify t \<and> has_client_certificate (Some t))) \<and>
    (dial L cfg = DialPlaintext \<longrightarrow> is_loopback_addr L (cf_broker_addr cfg)) \<and>
    (\<forall>t. dial L cfg = DialTls t \<longrightarrow> \<not> tls_skip_verify t \<and> (cf_tls cfg = None \<longrightarrow> tls_min_version t = tls12))"
  using assms
  by (auto simp: new_harness_config_def Let_def dial_def has_client_certificate_def
      split: if_splits option.splits)

theorem harness_never_dials_open_witness:
  "\<exists>t. dial \<lparr>nl_split_host_port = Some, nl_loopback_ip = (\<lambda>_. True)\<rparr> screen_config = DialTls t \<and> \<not> tls_skip_verify t"
proof -
  let ?L = "\<lparr>nl_split_host_port = Some, nl_loopback_ip = (\<lambda>_. True)\<rparr>"
  have "\<not> blank ''127.0.0.1:8443''" by code_simp
  then have "new_harness_config ?L sample_crypto screen_config = Inr screen_config"
    by (simp add: new_harness_config_def with_defaults_def screen_config_def second_def validate_attestation_def)
  moreover have "\<not> cf_dialer screen_config" by (simp add: screen_config_def)
  moreover have "\<exists>t. dial ?L screen_config = DialTls t" by (simp add: dial_def screen_config_def)
  ultimately show ?thesis using harness_never_dials_open by blast
qed

text \<open>
  Fact: whatever interval the broker announces, also one whose nanoseconds wrap around 64
  bits, the watchdog is set between one second and five minutes times the miss factor; and doubling
  the reconnect delay stays between its bounds.
\<close>

theorem watchdog_and_backoff_bounded:
  assumes "0 < cf_miss_factor cfg" and "cf_miss_factor cfg < 10 ^ 6"
    and "0 < lo" and "lo \<le> cur" and "cur \<le> hi" and "hi < 2 ^ 62"
  shows "second * cf_miss_factor cfg \<le> heartbeat_deadline cfg millis \<and>
    heartbeat_deadline cfg millis \<le> 300 * second * cf_miss_factor cfg \<and>
    lo \<le> next_backoff cur lo hi \<and> next_backoff cur lo hi \<le> hi \<and>
    next_backoff cur lo hi = min hi (cur * 2)"
proof -
  have c: "second \<le> clamp_interval d" "clamp_interval d \<le> 300 * second" for d
    by (simp_all add: clamp_interval_def min_heartbeat_interval_def max_heartbeat_interval_def second_def)
  let ?c = "clamp_interval (int64 (sint millis * 10 ^ 6))"
  have m: "second * cf_miss_factor cfg \<le> ?c * cf_miss_factor cfg" "?c * cf_miss_factor cfg \<le> 300 * second * cf_miss_factor cfg"
    using c assms(1) by (auto intro: mult_right_mono)
  have "300 * second * cf_miss_factor cfg < 2 ^ 63" using assms(2) by (simp add: second_def)
  moreover have "0 < second" by (simp add: second_def)
  ultimately have "int64 (?c * cf_miss_factor cfg) = ?c * cf_miss_factor cfg"
    using m mult_pos_pos [OF _ assms(1), of second] by (intro int64_id) (linarith | simp add: second_def)+
  moreover have "int64 (cur * 2) = cur * 2" using assms(3-6) by (intro int64_id) auto
  ultimately show ?thesis
    using m assms(3-6) by (auto simp: heartbeat_deadline_def next_backoff_def Let_def min_def)
qed

theorem watchdog_and_backoff_bounded_witness:
  "second * 3 \<le> heartbeat_deadline screen_config (2 ^ 62) \<and> next_backoff 4 1 7 = 7"
  using watchdog_and_backoff_bounded [of screen_config 1 4 7 "2 ^ 62"]
  by (simp add: screen_config_def)

definition view_killed :: stream_state where
  "view_killed = fst (connect_event screen_config 9 (RecvEnvelope (Some (kill_envelope ''s'' []))) view_asked)"

definition view_acked :: stream_state where
  "view_acked = send_kill_ack sample_crypto ''s'' ReadyClosed view_killed"

text \<open>
  Property C26: the kill does not outlast its moment: a screen permit received just before the kill
  of its session, whose task runs after it, streams although the kill is recorded and already
  acknowledged; nothing cancels that stream.
\<close>

theorem killed_session_can_still_stream:
  "\<exists>st. bridge_run sample_crypto screen_config ''dev-1'' opened st \<and>
     session_state ''s'' (st_harness st) \<noteq> None \<and>
     (\<exists>env \<in> set (tp_sent (cs_stream (st_sender st))). \<exists>h at.
        ev_payload env = AuditEvent ''s'' ''AGENT_KILL_APPLIED'' h at) \<and>
     ScreenRunning ''s'' 0 \<in> set (st_tasks st) \<and> 0 \<notin> hn_cancelled (st_harness st)"
proof -
  have k: "connect_event screen_config 9 (RecvEnvelope (Some (kill_envelope ''s'' []))) view_asked = (view_killed, None)"
    and vk: "st_tasks view_killed = [ScreenTask (permit_of_pb view_pb), KillAckTask ''s'' ReadyClosed]"
      "hn_sessions (st_harness view_killed) ''s'' = Some (''killed'', 9)"
      "hn_screens (st_harness view_killed) = (\<lambda>_. None)" "hn_cancelled (st_harness view_killed) = {}"
      "hn_fresh (st_harness view_killed) = 0" "st_sender view_killed = st_sender opened"
    by (simp_all add: view_killed_def connect_event_def handle_inbound_def kill_envelope_def empty_envelope_def
        admit_def new_guard_def view_asked_eq(2) opened_state classify_payload_def obey_kill_def transport_kill_def
        perform_action_def take_kill_ack_def add_task_def Let_def)
  have snd_ok: "tp_fault (cs_stream (st_sender opened)) = (\<lambda>_. False)"
    using open_stream_state(7) [OF opened_eq] by (simp add: quiet_transport_def)
  have va: "st_tasks view_acked = [ScreenTask (permit_of_pb view_pb)]" "st_harness view_acked = st_harness view_killed"
    "\<exists>env \<in> set (tp_sent (cs_stream (st_sender view_acked))). \<exists>h at.
        ev_payload env = AuditEvent ''s'' ''AGENT_KILL_APPLIED'' h at"
    using snd_ok
    by (auto simp: view_acked_def send_kill_ack_def drop_task_def vk send_audit_event_def control_send_def
        stream_send_def empty_envelope_def agent_may_send_def Let_def)
  let ?st = "start_screen ''dev-1'' (permit_of_pb view_pb) view_acked"
  have "bridge_run sample_crypto screen_config ''dev-1'' opened view_acked"
    unfolding view_acked_def
    by (rule bridge_next [OF bridge_next [OF bridge_next [OF bridge_refl receive [OF view_asked_eq(1)]]
        receive [OF k]] kill_ack]) (simp_all add: vk is_ready_def)
  then have run: "bridge_run sample_crypto screen_config ''dev-1'' opened ?st"
    by (rule bridge_next [OF _ screen_start]) (simp add: va)
  have st: "st_tasks ?st = [ScreenRunning ''s'' 0]" "st_sender ?st = st_sender view_acked"
    "hn_sessions (st_harness ?st) = hn_sessions (st_harness view_killed)" "hn_cancelled (st_harness ?st) = {}"
    by (simp_all add: start_screen_def va vk drop_task_def permit_of_pb_def view_pb_def register_screen_def
        add_task_def Let_def)
  show ?thesis
    using run va(3) st vk(2) by (intro exI [of _ ?st]) (simp add: session_state_def)
qed

end
