(* ===== verification/ViewSession.thy ===== *)
theory ViewSession
  imports Harness "HOL-Library.Sublist"
begin

text \<open>
  The fail-closed gate of a screen view (\<open>src/internal/remotebridge/dataplane/session.go\<close>) and the
  dispatcher that drains it to the DATA stream (\<open>src/internal/remotebridge/screenview/dispatcher.go\<close>,
  \<open>dataplane/pump.go\<close>).

  Every method of \<open>ViewSession\<close> takes the mutex, so it is one step; \<open>view_reach\<close> is the relation of
  all interleavings.  The locale \<open>source_gate\<close> states what a gate promises its sender; it is
  interpreted on the session.  The \<open>select\<close> of the dispatcher's loop chooses among the ready cases;
  the list of choices \<open>view_event\<close> is an argument, so a theorem about all lists is one about all
  choices, and about the frames the pump offers in between.
\<close>

section \<open>The session\<close>

datatype outcome = DroppedGate | Queued | DroppedBackpressure

record view_session =
  vs_recording_ready :: bool
  vs_recording_not_required :: bool
  vs_active :: bool
  vs_aborted :: bool
  vs_queue :: "string list"
  vs_cap :: nat
  vs_queued :: nat
  vs_dropped_gate :: nat
  vs_dropped_backpressure :: nat
  vs_flushed :: nat
  vs_drained :: nat

definition default_queue_cap :: nat where
  "default_queue_cap = 32"

definition new_view_session :: "int \<Rightarrow> view_session" where
  "new_view_session cap = \<lparr>vs_recording_ready = False, vs_recording_not_required = False,
     vs_active = False, vs_aborted = False, vs_queue = [],
     vs_cap = (if cap \<le> 0 then default_queue_cap else nat cap), vs_queued = 0, vs_dropped_gate = 0,
     vs_dropped_backpressure = 0, vs_flushed = 0, vs_drained = 0\<rparr>"

definition can_send :: "view_session \<Rightarrow> bool" where
  "can_send s \<longleftrightarrow> (vs_recording_ready s \<or> vs_recording_not_required s) \<and> vs_active s \<and> \<not> vs_aborted s"

definition offer :: "string \<Rightarrow> view_session \<Rightarrow> outcome \<times> view_session" where
  "offer f s =
    (if \<not> can_send s then (DroppedGate, s\<lparr>vs_dropped_gate := vs_dropped_gate s + 1\<rparr>)
     else if length (vs_queue s) \<ge> vs_cap s then
       (DroppedBackpressure, s\<lparr>vs_queue := tl (vs_queue s) @ [f],
          vs_dropped_backpressure := vs_dropped_backpressure s + 1, vs_queued := vs_queued s + 1\<rparr>)
     else (Queued, s\<lparr>vs_queue := vs_queue s @ [f], vs_queued := vs_queued s + 1\<rparr>))"

definition drain :: "int \<Rightarrow> view_session \<Rightarrow> string list \<times> view_session" where
  "drain n s =
    (if vs_aborted s then ([], s)
     else if n \<le> 0 \<or> vs_queue s = [] then ([], s)
     else let k = min (nat n) (length (vs_queue s)) in
       (take k (vs_queue s), s\<lparr>vs_queue := drop k (vs_queue s), vs_drained := vs_drained s + k\<rparr>))"

definition flush :: "view_session \<Rightarrow> view_session" where
  "flush s = s\<lparr>vs_flushed := vs_flushed s + length (vs_queue s), vs_queue := []\<rparr>"

definition set_recording_ready :: "bool \<Rightarrow> view_session \<Rightarrow> view_session" where
  "set_recording_ready b s =
     (let s1 = s\<lparr>vs_recording_ready := b\<rparr> in if \<not> b then flush s1 else s1)"

definition set_recording_not_required :: "bool \<Rightarrow> view_session \<Rightarrow> view_session" where
  "set_recording_not_required b s =
     (let s1 = s\<lparr>vs_recording_not_required := b\<rparr> in if \<not> b then flush s1 else s1)"

definition activate_view :: "view_session \<Rightarrow> view_session" where
  "activate_view s = s\<lparr>vs_active := True\<rparr>"

definition deactivate_view :: "view_session \<Rightarrow> view_session" where
  "deactivate_view s = flush (s\<lparr>vs_active := False\<rparr>)"

definition abort_view :: "view_session \<Rightarrow> view_session" where
  "abort_view s = flush (s\<lparr>vs_aborted := True\<rparr>)"

section \<open>What a gate promises its sender\<close>

locale source_gate =
  fixes put :: "'f \<Rightarrow> 's \<Rightarrow> 's" and get :: "int \<Rightarrow> 's \<Rightarrow> 'f list \<times> 's" and shut :: "'s \<Rightarrow> 's"
    and is_open :: "'s \<Rightarrow> bool" and held :: "'s \<Rightarrow> 'f list" and stopped :: "'s \<Rightarrow> bool" and ok :: "'s \<Rightarrow> bool"
  assumes put_closed: "ok s \<Longrightarrow> \<not> is_open s \<Longrightarrow> held (put f s) = held s"
    and put_held: "set (held (put f s)) \<subseteq> insert f (set (held s))"
    and get_prefix: "held s = fst (get n s) @ held (snd (get n s)) \<or> fst (get n s) = []"
    and get_stopped: "stopped s \<Longrightarrow> fst (get n s) = []"
    and shut_stops: "stopped (shut s)"
    and stop_forever: "stopped s \<Longrightarrow> stopped (put f s) \<and> stopped (snd (get n s))"
    and open_held: "ok s \<Longrightarrow> held s \<noteq> [] \<Longrightarrow> is_open s"
    and ok_keeps: "ok s \<Longrightarrow> ok (put f s) \<and> ok (snd (get n s)) \<and> ok (shut s)"
begin

text \<open>A client interleaves frames it is given and fetches of its own.\<close>

fun serve_client :: "('f + int) list \<Rightarrow> 's \<Rightarrow> 'f list \<times> 's" where
  "serve_client [] s = ([], s)"
| "serve_client (Inl f # xs) s = serve_client xs (put f s)"
| "serve_client (Inr n # xs) s =
     (let r = get n s; rest = serve_client xs (snd r) in (fst r @ fst rest, snd rest))"

lemma get_held: "set (fst (get n s)) \<subseteq> set (held s)"
  using get_prefix [of s n] by (metis Un_upper1 empty_set empty_subsetI set_append)

lemma nothing_after_stop: "stopped s \<Longrightarrow> fst (serve_client xs s) = []"
proof (induction xs arbitrary: s)
  case (Cons x xs)
  then show ?case using stop_forever get_stopped by (cases x) (simp_all add: Let_def)
qed simp

lemma nothing_after_shut: "fst (serve_client xs (shut s)) = []"
  using nothing_after_stop shut_stops by blast

lemma fetched_while_open: "ok s \<Longrightarrow> fst (get n s) \<noteq> [] \<Longrightarrow> is_open s"
  using get_held [of n s] open_held [of s] by (cases "held s = []") auto

end

text \<open>The invariant of a session: what is queued was admitted and the gate is still open; the
  counters account for every admitted frame.\<close>

definition view_ok :: "view_session \<Rightarrow> bool" where
  "view_ok s \<longleftrightarrow>
     (vs_queue s \<noteq> [] \<longrightarrow> can_send s) \<and> 0 < vs_cap s \<and> length (vs_queue s) \<le> vs_cap s \<and>
     vs_queued s = vs_drained s + vs_flushed s + vs_dropped_backpressure s + length (vs_queue s)"

lemmas view_ops = offer_def drain_def flush_def set_recording_ready_def set_recording_not_required_def
  activate_view_def deactivate_view_def abort_view_def

lemma new_view_ok: "view_ok (new_view_session cap)"
  by (simp add: view_ok_def new_view_session_def default_queue_cap_def)

lemma offer_ok: "view_ok s \<Longrightarrow> view_ok (snd (offer f s))"
  by (cases "vs_queue s") (auto simp: view_ok_def offer_def can_send_def)

lemma drain_ok: "view_ok s \<Longrightarrow> view_ok (snd (drain n s))"
  by (auto simp: view_ok_def drain_def can_send_def Let_def min_def)

lemma toggles_ok:
  "view_ok s \<Longrightarrow> view_ok (set_recording_ready b s)" "view_ok s \<Longrightarrow> view_ok (set_recording_not_required b s)"
  "view_ok s \<Longrightarrow> view_ok (activate_view s)" "view_ok s \<Longrightarrow> view_ok (deactivate_view s)"
  "view_ok s \<Longrightarrow> view_ok (abort_view s)"
  by (auto simp: view_ok_def view_ops can_send_def Let_def)

interpretation view_gate: source_gate "\<lambda>f s. snd (offer f s)" drain abort_view can_send vs_queue vs_aborted view_ok
proof (unfold_locales, goal_cases)
  case (1 s f)
  then show ?case by (simp add: offer_def)
next
  case (2 f s)
  then show ?case by (cases "vs_queue s") (auto simp: offer_def)
next
  case (7 s)
  then show ?case by (simp add: view_ok_def)
next
  case (8 s f n)
  then show ?case by (simp add: offer_ok drain_ok toggles_ok)
qed (auto simp: drain_def abort_view_def flush_def offer_def Let_def)

section \<open>Every interleaving of the methods\<close>

datatype view_call =
    CallOffer string | CallDrain int | CallReady bool | CallNotRequired bool | CallActivate | CallDeactivate | CallAbort

fun view_apply :: "view_call \<Rightarrow> view_session \<Rightarrow> view_session" where
  "view_apply (CallOffer f) s = snd (offer f s)"
| "view_apply (CallDrain n) s = snd (drain n s)"
| "view_apply (CallReady b) s = set_recording_ready b s"
| "view_apply (CallNotRequired b) s = set_recording_not_required b s"
| "view_apply CallActivate s = activate_view s"
| "view_apply CallDeactivate s = deactivate_view s"
| "view_apply CallAbort s = abort_view s"

inductive view_reach :: "int \<Rightarrow> view_session \<Rightarrow> bool" for cap :: int where
  view_new: "view_reach cap (new_view_session cap)"
| view_call: "view_reach cap s \<Longrightarrow> view_reach cap (view_apply c s)"

lemma view_apply_ok: "view_ok s \<Longrightarrow> view_ok (view_apply c s)"
  by (cases c) (simp_all add: offer_ok drain_ok toggles_ok)

lemma view_reach_ok: "view_reach cap s \<Longrightarrow> view_ok s"
  by (induction rule: view_reach.induct) (auto simp: new_view_ok view_apply_ok)

lemma view_aborted_stays: "vs_aborted s \<Longrightarrow> vs_aborted (view_apply c s)"
  by (cases c) (auto simp: view_ops Let_def)

section \<open>The dispatcher\<close>

text \<open>The frames of the producer, the pump's end with the producer's error, a tick, the context's end
  (by the permit's expiry or otherwise), in the order the loop meets them.  \<open>ev_done\<close> is whether
  the context has ended when a case is taken.\<close>

datatype view_event =
    PumpOffers string
  | CtxEnds bool \<comment> \<open>the permit has expired\<close>
  | PumpDone "string option" \<comment> \<open>the producer's error\<close>
  | Tick

datatype view_error =
    ViewAuthorizeDenied reason | ViewPermitExpired | ViewCaptureStart string | ViewSource string
  | ViewDataSend string

record view_dispatcher =
  vd_queue_cap :: int
  vd_drain_batch :: int
  vd_content_type :: string

definition new_view_dispatcher :: "int \<Rightarrow> int \<Rightarrow> string \<Rightarrow> view_dispatcher" where
  "new_view_dispatcher cap batch ct = \<lparr>vd_queue_cap = cap,
     vd_drain_batch = (if batch \<le> 0 then 8 else batch),
     vd_content_type = (if ct = [] then ''image/png'' else ct)\<rparr>"

record 'c view_run =
  vr_session :: view_session
  vr_seq :: i64
  vr_channel :: 'c

definition image_frame :: "view_dispatcher \<Rightarrow> string \<Rightarrow> i64 \<Rightarrow> string \<Rightarrow> data_frame" where
  "image_frame d sid seq payload = \<lparr>df_stream_id = sid, df_frame_seq = seq,
     df_content_type = vd_content_type d, df_payload = payload, df_end_stream = False\<rparr>"

fun send_payloads ::
  "view_dispatcher \<Rightarrow> string \<Rightarrow> 'c send_fn \<Rightarrow> string list \<Rightarrow> i64 \<Rightarrow> 'c \<Rightarrow> view_error option \<times> i64 \<times> 'c" where
  "send_payloads d sid send [] seq c = (None, seq, c)"
| "send_payloads d sid send (p # ps) seq c =
    (case send (image_frame d sid seq p) c of
       (Some e, c') \<Rightarrow> (Some (ViewDataSend e), seq, c')
     | (None, c') \<Rightarrow> send_payloads d sid send ps (seq + 1) c')"

definition drain_once ::
  "view_dispatcher \<Rightarrow> string \<Rightarrow> 'c send_fn \<Rightarrow> 'c view_run \<Rightarrow> view_error option \<times> 'c view_run" where
  "drain_once d sid send r =
    (case drain (vd_drain_batch d) (vr_session r) of (ps, s) \<Rightarrow>
     (case send_payloads d sid send ps (vr_seq r) (vr_channel r) of (e, seq, c) \<Rightarrow>
       (e, r\<lparr>vr_session := s, vr_seq := seq, vr_channel := c\<rparr>)))"

definition abort_run :: "'c view_run \<Rightarrow> 'c view_run" where
  "abort_run r = r\<lparr>vr_session := abort_view (vr_session r)\<rparr>"

text \<open>One case of the select, \<open>ended\<close> being the context's state: a result, or the loop goes on.\<close>

definition view_case ::
  "view_dispatcher \<Rightarrow> string \<Rightarrow> 'c send_fn \<Rightarrow> bool option \<Rightarrow> view_event \<Rightarrow> 'c view_run \<Rightarrow>
   view_error option option \<times> 'c view_run" where
  "view_case d sid send ended ev r =
    (case ev of
       PumpOffers f \<Rightarrow> (None, r\<lparr>vr_session := snd (offer f (vr_session r))\<rparr>)
     | CtxEnds expired \<Rightarrow> (Some (if expired then Some ViewPermitExpired else None), abort_run r)
     | PumpDone err \<Rightarrow>
         (case ended of
            Some expired \<Rightarrow> (Some (if expired then Some ViewPermitExpired else None), abort_run r)
          | None \<Rightarrow>
            (case err of
               Some e \<Rightarrow> (Some (Some (ViewSource e)), abort_run r)
             | None \<Rightarrow>
               (case drain_once d sid send r of
                  (Some e, r') \<Rightarrow> (Some (Some e), abort_run r')
                | (None, r') \<Rightarrow>
                    (Some None, r'\<lparr>vr_channel := snd (send \<lparr>df_stream_id = sid, df_frame_seq = vr_seq r',
                       df_content_type = vd_content_type d, df_payload = [], df_end_stream = True\<rparr> (vr_channel r'))\<rparr>))))
     | Tick \<Rightarrow>
         (case ended of
            Some expired \<Rightarrow> (Some (if expired then Some ViewPermitExpired else None), abort_run r)
          | None \<Rightarrow>
            (case drain_once d sid send r of
               (Some e, r') \<Rightarrow> (Some (Some e), abort_run r')
             | (None, r') \<Rightarrow> (None, r'))))"

text \<open>The loop over a finite sequence of cases; None when the sequence ends first.\<close>

fun view_loop ::
  "view_dispatcher \<Rightarrow> string \<Rightarrow> 'c send_fn \<Rightarrow> (bool option \<times> view_event) list \<Rightarrow> 'c view_run \<Rightarrow>
   view_error option option \<times> 'c view_run" where
  "view_loop d sid send [] r = (None, r)"
| "view_loop d sid send ((ended, ev) # evs) r =
    (case view_case d sid send ended ev r of
       (Some res, r') \<Rightarrow> (Some res, r')
     | (None, r') \<Rightarrow> view_loop d sid send evs r')"

text \<open>\<open>producer\<close> is the factory's result: an error, or None when a producer was built; \<open>ctx\<close> the
  context's state when the factory failed.\<close>

definition view_handle ::
  "view_dispatcher \<Rightarrow> operation_permit \<Rightarrow> string \<Rightarrow> 'c send_fn \<Rightarrow> i64 \<Rightarrow> i64 \<Rightarrow> string option \<Rightarrow> bool option \<Rightarrow>
   (bool option \<times> view_event) list \<Rightarrow> authorizer \<Rightarrow> 'c \<Rightarrow>
   (view_error option option \<times> view_session option \<times> 'c) \<times> authorizer" where
  "view_handle d p sid send now clock producer ctx evs az c =
    (case authorize_view_only p now az of (dec, az') \<Rightarrow>
     if \<not> dc_allowed dec then ((Some (Some (ViewAuthorizeDenied (dc_reason dec))), None, c), az')
     else if op_expires_at p - clock \<le>s 0 then ((Some (Some ViewPermitExpired), None, c), az')
     else
      (let s = activate_view (set_recording_not_required True (new_view_session (vd_queue_cap d))) in
       (case producer of
          Some e \<Rightarrow>
            ((Some (case ctx of
                Some expired \<Rightarrow> if expired then Some ViewPermitExpired else None
              | None \<Rightarrow> Some (ViewCaptureStart e)), Some (abort_view s), c), az')
        | None \<Rightarrow>
            (case view_loop d sid send evs \<lparr>vr_session = s, vr_seq = 0, vr_channel = c\<rparr> of (res, r) \<Rightarrow>
              ((res, Some (vr_session r), vr_channel r), az')))))"

section \<open>What a view puts on its channel\<close>

fun offered :: "(bool option \<times> view_event) list \<Rightarrow> string list" where
  "offered [] = []"
| "offered ((_, PumpOffers f) # evs) = f # offered evs"
| "offered (_ # evs) = offered evs"

definition images :: "data_frame list \<Rightarrow> string list" where
  "images fs = map df_payload (filter (\<lambda>f. \<not> df_end_stream f) fs)"

text \<open>Numbered from \<open>seq\<close> on, of one stream, an end mark only at the end.\<close>

definition in_order :: "string \<Rightarrow> i64 \<Rightarrow> data_frame list \<Rightarrow> bool" where
  "in_order sid seq fs \<longleftrightarrow>
     (\<forall>i < length fs. df_frame_seq (fs ! i) = seq + word_of_nat i \<and> df_stream_id (fs ! i) = sid \<and>
        (df_end_stream (fs ! i) \<longrightarrow> Suc i = length fs))"

lemma in_order_append:
  "in_order sid seq fs \<Longrightarrow> in_order sid (seq + word_of_nat (length fs)) gs \<Longrightarrow>
   (\<forall>f \<in> set fs. \<not> df_end_stream f) \<Longrightarrow> in_order sid seq (fs @ gs)"
proof (unfold in_order_def, intro allI impI)
  fix i
  assume f: "\<forall>i<length fs. df_frame_seq (fs ! i) = seq + word_of_nat i \<and> df_stream_id (fs ! i) = sid \<and>
      (df_end_stream (fs ! i) \<longrightarrow> Suc i = length fs)"
    and g: "\<forall>i<length gs. df_frame_seq (gs ! i) = seq + word_of_nat (length fs) + word_of_nat i \<and>
      df_stream_id (gs ! i) = sid \<and> (df_end_stream (gs ! i) \<longrightarrow> Suc i = length gs)"
    and e: "\<forall>f\<in>set fs. \<not> df_end_stream f" and i: "i < length (fs @ gs)"
  show "df_frame_seq ((fs @ gs) ! i) = seq + word_of_nat i \<and> df_stream_id ((fs @ gs) ! i) = sid \<and>
      (df_end_stream ((fs @ gs) ! i) \<longrightarrow> Suc i = length (fs @ gs))"
  proof (cases "i < length fs")
    case True
    then show ?thesis using f e by (simp add: nth_append)
  next
    case False
    then obtain j where j: "i = length fs + j" "j < length gs" using i by (metis add_diff_inverse_nat length_append nat_add_left_cancel_less)
    then show ?thesis using g by (simp add: nth_append ac_simps)
  qed
qed

lemma images_append [simp]: "images (fs @ gs) = images fs @ images gs"
  by (simp add: images_def)

fun image_frames :: "view_dispatcher \<Rightarrow> string \<Rightarrow> i64 \<Rightarrow> string list \<Rightarrow> data_frame list" where
  "image_frames d sid seq [] = []"
| "image_frames d sid seq (p # ps) = image_frame d sid seq p # image_frames d sid (seq + 1) ps"

lemma in_order_Cons:
  "df_frame_seq f = seq \<Longrightarrow> df_stream_id f = sid \<Longrightarrow> \<not> df_end_stream f \<Longrightarrow> in_order sid (seq + 1) fs \<Longrightarrow>
   in_order sid seq (f # fs)"
  using in_order_append [of sid seq "[f]" fs] by (simp add: in_order_def)

lemma image_frames_payloads:
  "images (image_frames d sid seq ps) = ps" "length (image_frames d sid seq ps) = length ps"
  "\<forall>f \<in> set (image_frames d sid seq ps). \<not> df_end_stream f"
  by (induction ps arbitrary: seq) (auto simp: images_def image_frame_def)

lemma image_frames_in_order: "in_order sid seq (image_frames d sid seq ps)"
  by (induction ps arbitrary: seq) (auto intro: in_order_Cons simp: image_frame_def, simp add: in_order_def)

lemma subseq_front: "subseq (a @ b) c \<Longrightarrow> subseq a c"
  using subseq_order.trans [of a "a @ b" c] by (simp add: subseq_rev_drop_many)

context frame_sink begin

lemma send_payloads_sends:
  "send_payloads d sid send ps seq c = (e, seq', c') \<Longrightarrow>
   \<exists>k. k \<le> length ps \<and> sent c' = sent c @ image_frames d sid seq (take k ps) \<and>
     seq' = seq + word_of_nat k \<and> (e = None \<longrightarrow> k = length ps)"
proof (induction ps arbitrary: seq c)
  case Nil
  then show ?case by simp
next
  case (Cons p ps)
  obtain r c1 where s: "send (image_frame d sid seq p) c = (r, c1)" by (cases "send (image_frame d sid seq p) c")
  show ?case
  proof (cases r)
    case (Some err)
    then show ?thesis
      using Cons.prems s send_fails [of "image_frame d sid seq p" c]
      by (intro exI [of _ 0]) auto
  next
    case None
    with Cons.prems s have "send_payloads d sid send ps (seq + 1) c1 = (e, seq', c')" by simp
    from Cons.IH [OF this] obtain k where k: "k \<le> length ps"
      "sent c' = sent c1 @ image_frames d sid (seq + 1) (take k ps)" "seq' = seq + 1 + word_of_nat k"
      "e = None \<longrightarrow> k = length ps" by blast
    moreover have "sent c1 = sent c @ [image_frame d sid seq p]"
      using send_ok [of "image_frame d sid seq p" c] s None by simp
    ultimately show ?thesis
      by (intro exI [of _ "Suc k"]) (auto simp: ac_simps)
  qed
qed

text \<open>A drain sends a prefix of the queue; what it leaves is the rest.\<close>

lemma drain_once_sends:
  assumes "drain_once d sid send r = (e, r')"
  shows "\<exists>F. sent (vr_channel r') = sent (vr_channel r) @ F \<and> in_order sid (vr_seq r) F \<and>
     (\<forall>f \<in> set F. \<not> df_end_stream f) \<and> vr_seq r' = vr_seq r + word_of_nat (length F) \<and>
     subseq (images F @ vs_queue (vr_session r')) (vs_queue (vr_session r))"
proof -
  let ?q = "vs_queue (vr_session r)"
  obtain ps s where d: "drain (vd_drain_batch d) (vr_session r) = (ps, s)" by (metis surj_pair)
  obtain e' seq' c' where p: "send_payloads d sid send ps (vr_seq r) (vr_channel r) = (e', seq', c')" by (metis surj_pair)
  have r': "r' = r\<lparr>vr_session := s, vr_seq := seq', vr_channel := c'\<rparr>"
    using assms d p by (simp add: drain_once_def)
  have q: "?q = ps @ vs_queue s \<or> (ps = [] \<and> vs_queue s = ?q)"
    using d by (auto simp: drain_def Let_def split: if_splits)
  from send_payloads_sends [OF p] obtain k where k: "k \<le> length ps"
    "sent c' = sent (vr_channel r) @ image_frames d sid (vr_seq r) (take k ps)"
    "seq' = vr_seq r + word_of_nat k" by blast
  have "subseq (take k ps @ vs_queue s) ?q"
    using q prefix_imp_subseq [OF take_is_prefix, of k ps] by auto
  then show ?thesis
    using k r' image_frames_payloads [of d sid "vr_seq r" "take k ps"] image_frames_in_order [of sid "vr_seq r" d "take k ps"]
    by (intro exI [of _ "image_frames d sid (vr_seq r) (take k ps)"]) (simp add: min_absorb2)
qed

lemma view_case_sends:
  assumes "view_case d sid send ended ev r = (res, r')"
  shows "\<exists>F. sent (vr_channel r') = sent (vr_channel r) @ F \<and> in_order sid (vr_seq r) F \<and>
     (res = None \<longrightarrow> (\<forall>f \<in> set F. \<not> df_end_stream f) \<and> vr_seq r' = vr_seq r + word_of_nat (length F)) \<and>
     subseq (images F @ vs_queue (vr_session r')) (vs_queue (vr_session r) @ offered [(ended, ev)])"
proof -
  have nil: "in_order sid seq []" "images [] = []" for seq by (simp_all add: in_order_def images_def)
  have stop: "\<exists>F. sent (vr_channel (abort_run x)) = sent (vr_channel r) @ F \<and> in_order sid (vr_seq r) F \<and>
      subseq (images F @ vs_queue (vr_session (abort_run x))) (vs_queue (vr_session r))"
    if "\<exists>F. sent (vr_channel x) = sent (vr_channel r) @ F \<and> in_order sid (vr_seq r) F \<and>
      subseq (images F @ vs_queue (vr_session x)) (vs_queue (vr_session r))" for x :: "'c view_run"
  proof -
    have "subseq (images F) (vs_queue (vr_session r))"
      if "subseq (images F @ vs_queue (vr_session x)) (vs_queue (vr_session r))" for F
      using that by (rule subseq_front)
    then show ?thesis using that by (auto simp: abort_run_def abort_view_def flush_def)
  qed
  have self: "\<exists>F. sent (vr_channel r) = sent (vr_channel r) @ F \<and> in_order sid (vr_seq r) F \<and>
      subseq (images F @ vs_queue (vr_session r)) (vs_queue (vr_session r))"
    by (intro exI [of _ "[]"]) (simp add: nil)
  show ?thesis
  proof (cases ev)
    case (PumpOffers f)
    have "subseq (vs_queue (snd (offer f (vr_session r)))) (vs_queue (vr_session r) @ [f])"
      by (cases "vs_queue (vr_session r)") (auto simp: offer_def)
    then show ?thesis
      using assms PumpOffers by (intro exI [of _ "[]"]) (auto simp: view_case_def nil)
  next
    case (CtxEnds x)
    then show ?thesis using assms stop [OF self] by (auto simp: view_case_def)
  next
    case Tick
    show ?thesis
    proof (cases ended)
      case (Some x)
      then show ?thesis using assms Tick stop [OF self] by (auto simp: view_case_def)
    next
      case None
      obtain e1 r1 where d: "drain_once d sid send r = (e1, r1)" by (metis surj_pair)
      note ds = drain_once_sends [OF d]
      show ?thesis
      proof (cases e1)
        case None
        then show ?thesis using assms Tick \<open>ended = None\<close> d ds by (auto simp: view_case_def)
      next
        case (Some e)
        have "\<exists>F. sent (vr_channel r1) = sent (vr_channel r) @ F \<and> in_order sid (vr_seq r) F \<and>
          subseq (images F @ vs_queue (vr_session r1)) (vs_queue (vr_session r))" using ds by blast
        from stop [OF this] show ?thesis using assms Tick \<open>ended = None\<close> d Some by (auto simp: view_case_def)
      qed
    qed
  next
    case (PumpDone err)
    show ?thesis
    proof (cases "ended \<noteq> None \<or> err \<noteq> None")
      case True
      then show ?thesis using assms PumpDone stop [OF self] by (auto simp: view_case_def split: option.splits)
    next
      case False
      then have f: "ended = None" "err = None" by auto
      obtain e1 r1 where d: "drain_once d sid send r = (e1, r1)" by (metis surj_pair)
      note ds = drain_once_sends [OF d]
      show ?thesis
      proof (cases e1)
        case (Some e)
        have "\<exists>F. sent (vr_channel r1) = sent (vr_channel r) @ F \<and> in_order sid (vr_seq r) F \<and>
          subseq (images F @ vs_queue (vr_session r1)) (vs_queue (vr_session r))" using ds by blast
        from stop [OF this] show ?thesis using assms PumpDone f d Some by (auto simp: view_case_def)
      next
        case None
        let ?e = "\<lparr>df_stream_id = sid, df_frame_seq = vr_seq r1, df_content_type = vd_content_type d,
          df_payload = [], df_end_stream = True\<rparr>"
        have eq: "res = Some None" "r' = r1\<lparr>vr_channel := snd (send ?e (vr_channel r1))\<rparr>"
          using assms PumpDone f d None by (auto simp: view_case_def)
        obtain G where G: "sent (snd (send ?e (vr_channel r1))) = sent (vr_channel r1) @ G" "G = [] \<or> G = [?e]"
          using send_ok [of ?e "vr_channel r1"] send_fails [of ?e "vr_channel r1"] by (metis append_Nil2)
        from ds obtain F where F: "sent (vr_channel r1) = sent (vr_channel r) @ F" "in_order sid (vr_seq r) F"
          "\<forall>f \<in> set F. \<not> df_end_stream f" "vr_seq r1 = vr_seq r + word_of_nat (length F)"
          "subseq (images F @ vs_queue (vr_session r1)) (vs_queue (vr_session r))" by blast
        have "in_order sid (vr_seq r) (F @ G)"
          using F(2-4) G(2) by (intro in_order_append) (auto simp: in_order_def)
        moreover have "images G = []" using G(2) by (auto simp: images_def)
        ultimately show ?thesis
          using eq F G(1) PumpDone by (intro exI [of _ "F @ G"]) simp
      qed
    qed
  qed
qed

lemma view_loop_sends:
  "view_loop d sid send evs r = (res, r') \<Longrightarrow>
   \<exists>F. sent (vr_channel r') = sent (vr_channel r) @ F \<and> in_order sid (vr_seq r) F \<and>
     subseq (images F) (vs_queue (vr_session r) @ offered evs)"
proof (induction evs arbitrary: r)
  case Nil
  then show ?case by (intro exI [of _ "[]"]) (simp add: in_order_def images_def)
next
  case (Cons x evs)
  obtain ended ev where x: "x = (ended, ev)" by (cases x)
  obtain res1 r1 where c: "view_case d sid send ended ev r = (res1, r1)" by (metis surj_pair)
  from view_case_sends [OF c] obtain F where F: "sent (vr_channel r1) = sent (vr_channel r) @ F"
    "in_order sid (vr_seq r) F"
    "res1 = None \<longrightarrow> (\<forall>f \<in> set F. \<not> df_end_stream f) \<and> vr_seq r1 = vr_seq r + word_of_nat (length F)"
    "subseq (images F @ vs_queue (vr_session r1)) (vs_queue (vr_session r) @ offered [x])"
    using x by blast
  have off: "offered (x # evs) = offered [x] @ offered evs" using x by (cases ev) auto
  show ?case
  proof (cases res1)
    case (Some y)
    then have "r' = r1" using Cons.prems x c by simp
    moreover have "subseq (images F) (vs_queue (vr_session r) @ offered (x # evs))"
      using subseq_rev_drop_many [OF subseq_front [OF F(4)], of "offered evs"] by (simp add: off)
    ultimately show ?thesis using F(1,2) by blast
  next
    case None
    then have "view_loop d sid send evs r1 = (res, r')" using Cons.prems x c by simp
    from Cons.IH [OF this] obtain G where G: "sent (vr_channel r') = sent (vr_channel r1) @ G"
      "in_order sid (vr_seq r1) G" "subseq (images G) (vs_queue (vr_session r1) @ offered evs)" by blast
    have "in_order sid (vr_seq r) (F @ G)" using F None G(2) by (intro in_order_append) auto
    moreover have "subseq (images (F @ G)) (vs_queue (vr_session r) @ offered (x # evs))"
    proof -
      have "subseq (images F @ images G) (images F @ vs_queue (vr_session r1) @ offered evs)"
        using G(3) by (simp add: subseq_append')
      also have "subseq ... ((vs_queue (vr_session r) @ offered [x]) @ offered evs)"
        using list_emb_append_mono [OF F(4) subseq_order.refl] by simp
      finally show ?thesis by (simp add: off)
    qed
    ultimately show ?thesis using F(1) G(1) by (intro exI [of _ "F @ G"]) simp
  qed
qed

end

section \<open>Properties\<close>

text \<open>
  Fact: in every state the methods of a session can reach, in any interleaving, a queued frame
  implies that the gate is open at this moment, the queue is within its bound, and every admitted
  frame is accounted for: drained, flushed, evicted or still queued.
\<close>

theorem queued_frames_only_while_open:
  assumes "view_reach cap s"
  shows "(vs_queue s \<noteq> [] \<longrightarrow> (vs_recording_ready s \<or> vs_recording_not_required s) \<and> vs_active s \<and> \<not> vs_aborted s) \<and>
    length (vs_queue s) \<le> vs_cap s \<and>
    vs_queued s = vs_drained s + vs_flushed s + vs_dropped_backpressure s + length (vs_queue s)"
  using view_reach_ok [OF assms] by (simp add: view_ok_def can_send_def)

theorem queued_frames_only_while_open_witness:
  "length (vs_queue (view_apply (CallOffer ''f'') (view_apply CallActivate (view_apply (CallNotRequired True)
     (new_view_session 1))))) \<le> 1"
proof -
  let ?s = "view_apply (CallOffer ''f'') (view_apply CallActivate (view_apply (CallNotRequired True) (new_view_session 1)))"
  have "view_reach 1 ?s" by (intro view_call view_new)
  from queued_frames_only_while_open [OF this] show ?thesis
    by (simp add: view_ops new_view_session_def can_send_def)
qed

text \<open>
  Fact: after a local abort nothing leaves the session, whatever is called on it afterwards:
  no offer, no toggle and no activation brings a frame back.
\<close>

theorem nothing_leaves_after_abort:
  "fst (drain n (fold view_apply calls (abort_view s))) = []"
proof -
  have "vs_aborted (fold view_apply calls x)" if "vs_aborted x" for x
    using that by (induction calls arbitrary: x) (auto simp: view_aborted_stays)
  then have "vs_aborted (fold view_apply calls (abort_view s))" using view_gate.shut_stops by blast
  then show ?thesis by (rule view_gate.get_stopped)
qed

text \<open>
  Property C16: what a screen view puts on its DATA stream is a subsequence, in order, of the frames
  its producer offered, numbered from 0 without a gap, with an end mark only at the end; and a view
  whose permit the gate refuses puts nothing on it.
\<close>

theorem view_streams_offered_frames:
  assumes "view_handle d p sid (data_send p) now clock producer ctx evs az tp = ((res, s, tp'), az')"
  shows "\<exists>F. frames_sent tp' = frames_sent tp @ F \<and> subseq (images F) (offered evs) \<and>
    (\<forall>i < length F. df_frame_seq (F ! i) = word_of_nat i \<and> df_stream_id (F ! i) = sid \<and>
       (df_end_stream (F ! i) \<longrightarrow> Suc i = length F)) \<and>
    (tp' \<noteq> tp \<longrightarrow> view_checks (az_verify az) p now \<and> spent_seq az (op_session_id p) < permit_seq p)"
proof -
  obtain dec az1 where a: "authorize_view_only p now az = (dec, az1)" by (metis surj_pair)
  let ?s = "activate_view (set_recording_not_required True (new_view_session (vd_queue_cap d)))"
  show ?thesis
  proof (cases "tp' = tp")
    case True
    then show ?thesis by (intro exI [of _ "[]"]) (simp add: images_def)
  next
    case False
    have al: "dc_allowed dec" and pr: "producer = None"
      using False assms a by (auto simp: view_handle_def Let_def split: if_splits option.splits prod.splits)
    obtain r where l: "view_loop d sid (data_send p) evs \<lparr>vr_session = ?s, vr_seq = 0, vr_channel = tp\<rparr> = (res, r)"
      "tp' = vr_channel r"
      using False assms a al pr by (auto simp: view_handle_def Let_def split: if_splits prod.splits)
    have q: "vs_queue ?s = []"
      by (simp add: activate_view_def set_recording_not_required_def new_view_session_def Let_def)
    from data_sink.view_loop_sends [OF l(1)] obtain F where
      "frames_sent tp' = frames_sent tp @ F" "in_order sid 0 F" "subseq (images F) (offered evs)"
      using l(2) q by auto
    moreover have "view_checks (az_verify az) p now \<and> spent_seq az (op_session_id p) < permit_seq p"
      using serve_allowed [of undefined "ViewRequest p now" az dec az1] a al by simp
    ultimately show ?thesis by (intro exI [of _ F]) (simp add: in_order_def)
  qed
qed

text \<open>
  Fact: once the context has ended, by a kill, a teardown or the permit's expiry, no further
  frame reaches the DATA stream, whichever of the ready cases the select takes.
\<close>

theorem no_frame_after_cancel:
  assumes "\<forall>x \<in> set after. fst x \<noteq> None \<or> (\<exists>e. snd x = CtxEnds e)"
  shows "vr_channel (snd (view_loop d sid send (before @ after) r)) = vr_channel (snd (view_loop d sid send before r))"
proof (induction before arbitrary: r)
  case Nil
  show ?case
    using assms
  proof (induction after arbitrary: r)
    case (Cons x after)
    obtain e ev where x: "x = (e, ev)" by (cases x)
    have "vr_channel (snd (view_case d sid send e ev r)) = vr_channel r"
      using Cons.prems x by (auto simp: view_case_def abort_run_def split: view_event.splits option.splits)
    then show ?case
      using Cons x by (auto split: prod.splits option.splits)
  qed simp
next
  case (Cons x before)
  obtain e ev where x: "x = (e, ev)" by (cases x)
  show ?case using Cons x by (auto split: prod.splits option.splits)
qed

section \<open>A view to run the theorems on\<close>

definition sample_view_permit :: operation_permit where
  "sample_view_permit = (sample_permit 1)\<lparr>op_capability := ''VIEW_ONLY'', op_command_hash := []\<rparr>"

definition sample_view_events :: "(bool option \<times> view_event) list" where
  "sample_view_events = [(None, PumpOffers ''a''), (None, Tick), (None, PumpOffers ''b''),
     (Some False, Tick), (None, PumpDone None)]"

lemma sample_view_gate: "\<exists>az. authorize_view_only sample_view_permit 2000 sample_gate = (allow, az)"
proof -
  have "verify_with_reason sample_crypto (Some sample_verifier) sample_view_permit 2000 = (True, NoReason)"
    by (simp add: verify_with_reason_def sample_verifier_def sample_view_permit_def sample_permit_def sample_crypto_def
        permit_version_pinned_def is_fresh_def max_validity_millis_def clock_skew_millis_def
        word_sless_alt word_sle_eq)
  then have "view_checks (az_verify sample_gate) sample_view_permit 2000"
    by (simp add: view_checks_def sample_gate_def new_authorizer_def new_reasoned_authorizer_def
        sample_view_permit_def sample_permit_def)
  then show ?thesis
    by (simp add: view_checked spend_seq_def sample_view_permit_def sample_permit_def last_seq_def sample_gate_def
        new_authorizer_def new_reasoned_authorizer_def word_sle_eq)
qed

theorem view_streams_offered_frames_witness:
  "\<exists>F :: data_frame list. F \<noteq> [] \<and> subseq (images F) [''a'', ''b''] \<and> df_frame_seq (F ! 0) = 0"
proof -
  let ?d = "new_view_dispatcher 4 2 []"
  obtain az where az: "authorize_view_only sample_view_permit 2000 sample_gate = (allow, az)"
    using sample_view_gate by blast
  obtain res s tp where h: "view_handle ?d sample_view_permit ''o'' (data_send sample_view_permit) 2000 2001 None None
      sample_view_events sample_gate sample_data = ((res, s, tp), az)"
    and n: "length (tp_sent tp) = 1" "\<exists>e. tp_sent tp = [e] \<and> frames_sent tp \<noteq> []"
    using az
    by (auto simp: view_handle_def Let_def sample_view_events_def view_case_def drain_once_def new_view_dispatcher_def
        new_view_session_def set_recording_not_required_def activate_view_def offer_def can_send_def drain_def
        abort_run_def data_send_def stream_send_def sample_data_def image_frame_def sample_view_permit_def
        sample_permit_def word_sle_eq frames_sent_def)
  have off: "offered sample_view_events = [''a'', ''b'']" by (simp add: sample_view_events_def)
  have f0: "frames_sent sample_data = []" by (simp add: frames_sent_def sample_data_def)
  from view_streams_offered_frames [OF h] show ?thesis
  proof (elim exE conjE)
    fix F :: "data_frame list"
    assume "frames_sent tp = frames_sent sample_data @ F" "subseq (images F) (offered sample_view_events)"
      and "\<forall>i < length F. df_frame_seq (F ! i) = word_of_nat i \<and> df_stream_id (F ! i) = ''o'' \<and>
        (df_end_stream (F ! i) \<longrightarrow> Suc i = length F)"
    then show ?thesis using n(2) off f0 by (intro exI [of _ F]) auto
  qed
qed

theorem no_frame_after_cancel_witness:
  "vr_channel (snd (view_loop (new_view_dispatcher 4 2 []) ''o'' (data_send sample_view_permit)
     ([(None, PumpOffers ''a'')] @ [(Some True, Tick)])
     \<lparr>vr_session = activate_view (set_recording_not_required True (new_view_session 4)), vr_seq = 0,
      vr_channel = sample_data\<rparr>)) = sample_data"
  by (subst no_frame_after_cancel) (simp_all add: view_case_def)

end
