(* ===== verification/FrameIpc.thy ===== *)
theory FrameIpc
  imports Wire
begin

text \<open>
  The protocol between the capture helper and the service
  (\<open>src/internal/remotebridge/dataplane/frameipc.go\<close>): a version byte, a type byte, a big-endian
  length and the payload.  A reader is the bytes still to come, after which the stream ends;
  \<open>io.ReadFull\<close> on it gives all the bytes asked for, \<open>io.EOF\<close> on none and
  \<open>io.ErrUnexpectedEOF\<close> on some.  A writer is the bytes written; a failing write is not part of
  this model, the reader meets its effect as a truncated stream.
\<close>

section \<open>Messages\<close>

definition ipc_protocol_version :: nat where
  "ipc_protocol_version = 1"

definition max_ipc_frame_size :: nat where
  "max_ipc_frame_size = 16 * 2 ^ 20"

definition ipc_nonce_len :: nat where
  "ipc_nonce_len = 32"

datatype ipc_msg_type =
    MsgHandshake | MsgFrame | MsgEOF | MsgLocalAbort | MsgIndicatorLost | MsgBannerCreateFailed
  | MsgBannerNotVisible | MsgCaptureStartFailed | MsgCaptureLost

fun msg_byte :: "ipc_msg_type \<Rightarrow> nat" where
  "msg_byte MsgHandshake = 1"
| "msg_byte MsgFrame = 2"
| "msg_byte MsgEOF = 3"
| "msg_byte MsgLocalAbort = 4"
| "msg_byte MsgIndicatorLost = 5"
| "msg_byte MsgBannerCreateFailed = 6"
| "msg_byte MsgBannerNotVisible = 7"
| "msg_byte MsgCaptureStartFailed = 8"
| "msg_byte MsgCaptureLost = 9"

datatype ipc_error =
    IpcEof | IpcUnexpectedEof | IpcFrameTooLarge | IpcHandshakeMismatch | IpcProtocol | IpcNonceLength
  | IpcLocalAbort | IpcIndicatorLost | IpcBannerCreateFailed | IpcBannerNotVisible
  | IpcCaptureStartupFailed | IpcCaptureFailed

definition write_msg :: "ipc_msg_type \<Rightarrow> string \<Rightarrow> string \<Rightarrow> ipc_error + string" where
  "write_msg t payload out =
    (if length payload > max_ipc_frame_size then Inl IpcFrameTooLarge
     else Inr (out @ [char_of ipc_protocol_version, char_of (msg_byte t)] @
            put_uint32 (word_of_nat (length payload)) @ (if length payload > 0 then payload else [])))"

definition read_full :: "nat \<Rightarrow> string \<Rightarrow> (ipc_error + string) \<times> string" where
  "read_full n s =
    (if n \<le> length s then (Inr (take n s), drop n s)
     else (Inl (if s = [] then IpcEof else IpcUnexpectedEof), []))"

text \<open>The type byte is kept as a number: any byte is a type, most of them unknown.\<close>

definition read_msg :: "string \<Rightarrow> (ipc_error + nat \<times> string) \<times> string" where
  "read_msg s0 =
    (case read_full 6 s0 of
       (Inl e, s) \<Rightarrow> (Inl e, s)
     | (Inr hdr, s) \<Rightarrow>
       if byte_of (hdr ! 0) \<noteq> ipc_protocol_version then (Inl IpcProtocol, s)
       else let t = byte_of (hdr ! 1); n = unat (get_uint32 (drop 2 hdr)) in
         if n > max_ipc_frame_size then (Inl IpcFrameTooLarge, s)
         else if n = 0 then (Inr (t, []), s)
         else (case read_full n s of
             (Inl e, s') \<Rightarrow> (Inl e, s')
           | (Inr buf, s') \<Rightarrow> (Inr (t, buf), s')))"

section \<open>The handshake\<close>

definition write_handshake :: "string \<Rightarrow> string \<Rightarrow> ipc_error + string" where
  "write_handshake nonce out =
     (if length nonce \<noteq> ipc_nonce_len then Inl IpcNonceLength else write_msg MsgHandshake nonce out)"

definition read_verify_handshake :: "string \<Rightarrow> string \<Rightarrow> ipc_error option \<times> string" where
  "read_verify_handshake expected s =
    (if length expected \<noteq> ipc_nonce_len then (Some IpcNonceLength, s)
     else (case read_msg s of
         (Inl e, s') \<Rightarrow> (Some e, s')
       | (Inr (t, got), s') \<Rightarrow>
           if t \<noteq> msg_byte MsgHandshake then (Some IpcProtocol, s')
           else if got \<noteq> expected then (Some IpcHandshakeMismatch, s')
           else (None, s')))"

section \<open>Frames and signals\<close>

definition write_frame :: "string \<Rightarrow> string \<Rightarrow> ipc_error + string" where
  "write_frame payload out = write_msg MsgFrame payload out"

definition write_eof :: "string \<Rightarrow> ipc_error + string" where
  "write_eof out = write_msg MsgEOF [] out"

definition write_local_abort :: "string \<Rightarrow> ipc_error + string" where
  "write_local_abort out = write_msg MsgLocalAbort [] out"

definition write_indicator_lost :: "string \<Rightarrow> ipc_error + string" where
  "write_indicator_lost out = write_msg MsgIndicatorLost [] out"

definition write_banner_create_failed :: "string \<Rightarrow> ipc_error + string" where
  "write_banner_create_failed out = write_msg MsgBannerCreateFailed [] out"

definition write_banner_not_visible :: "string \<Rightarrow> ipc_error + string" where
  "write_banner_not_visible out = write_msg MsgBannerNotVisible [] out"

definition write_capture_start_failed :: "string \<Rightarrow> ipc_error + string" where
  "write_capture_start_failed out = write_msg MsgCaptureStartFailed [] out"

definition write_capture_lost :: "string \<Rightarrow> ipc_error + string" where
  "write_capture_lost out = write_msg MsgCaptureLost [] out"

definition empty_signal :: "ipc_error \<Rightarrow> string \<Rightarrow> ipc_error" where
  "empty_signal e payload = (if payload \<noteq> [] then IpcProtocol else e)"

definition read_frame :: "string \<Rightarrow> (ipc_error + string) \<times> string" where
  "read_frame s0 =
    (case read_msg s0 of
       (Inl e, s) \<Rightarrow> (Inl e, s)
     | (Inr (t, payload), s) \<Rightarrow>
         (if t = msg_byte MsgFrame then Inr payload
          else if t = msg_byte MsgEOF then Inl IpcEof
          else if t = msg_byte MsgLocalAbort then Inl (empty_signal IpcLocalAbort payload)
          else if t = msg_byte MsgIndicatorLost then Inl (empty_signal IpcIndicatorLost payload)
          else if t = msg_byte MsgBannerCreateFailed then Inl (empty_signal IpcBannerCreateFailed payload)
          else if t = msg_byte MsgBannerNotVisible then Inl (empty_signal IpcBannerNotVisible payload)
          else if t = msg_byte MsgCaptureStartFailed then Inl (empty_signal IpcCaptureStartupFailed payload)
          else if t = msg_byte MsgCaptureLost then Inl (empty_signal IpcCaptureFailed payload)
          else Inl IpcProtocol, s))"

section \<open>Round trips\<close>

text \<open>The bytes of one message.\<close>

definition msg_bytes :: "ipc_msg_type \<Rightarrow> string \<Rightarrow> string" where
  "msg_bytes t payload =
     [char_of ipc_protocol_version, char_of (msg_byte t)] @ put_uint32 (word_of_nat (length payload)) @ payload"

lemma write_msg_bytes:
  "length payload \<le> max_ipc_frame_size \<Longrightarrow> write_msg t payload out = Inr (out @ msg_bytes t payload)"
  by (simp add: write_msg_def msg_bytes_def)

lemma msg_byte_bound: "msg_byte t < 256"
  by (cases t) simp_all

lemma read_msg_bytes:
  assumes "length payload \<le> max_ipc_frame_size"
  shows "read_msg (msg_bytes t payload @ r) = (Inr (msg_byte t, payload), r)"
proof -
  have "byte_of (char_of (msg_byte t)) = msg_byte t" using msg_byte_bound by (simp add: byte_of_def)
  moreover have "unat (word_of_nat (length payload) :: u32) = length payload"
    using assms by (simp add: unsigned_of_nat take_bit_eq_mod max_ipc_frame_size_def)
  moreover have "get_uint32 (put_uint32 (word_of_nat (length payload))) = word_of_nat (length payload)"
    using get_put_uint32 [of _ "[]"] by simp
  moreover have "byte_of (char_of ipc_protocol_version) = ipc_protocol_version"
    by (simp add: byte_of_def ipc_protocol_version_def)
  ultimately show ?thesis
    using assms by (simp add: read_msg_def msg_bytes_def read_full_def Let_def)
qed

lemma msg_byte_inject: "msg_byte t = msg_byte u \<longleftrightarrow> t = u"
  by (cases t; cases u) simp_all

text \<open>What the helper can send after the handshake, and what the service reads of it.\<close>

fun signal_error :: "ipc_msg_type \<Rightarrow> ipc_error option" where
  "signal_error MsgEOF = Some IpcEof"
| "signal_error MsgLocalAbort = Some IpcLocalAbort"
| "signal_error MsgIndicatorLost = Some IpcIndicatorLost"
| "signal_error MsgBannerCreateFailed = Some IpcBannerCreateFailed"
| "signal_error MsgBannerNotVisible = Some IpcBannerNotVisible"
| "signal_error MsgCaptureStartFailed = Some IpcCaptureStartupFailed"
| "signal_error MsgCaptureLost = Some IpcCaptureFailed"
| "signal_error _ = None"

lemma read_frame_bytes:
  "length payload \<le> max_ipc_frame_size \<Longrightarrow> read_frame (msg_bytes MsgFrame payload @ r) = (Inr payload, r)"
  by (simp add: read_frame_def read_msg_bytes)

lemma read_signal_bytes:
  "signal_error t = Some e \<Longrightarrow> read_frame (msg_bytes t [] @ r) = (Inl e, r)"
  by (cases t) (simp_all add: read_frame_def read_msg_bytes empty_signal_def)

text \<open>Reading frames until something else comes.\<close>

function read_frames :: "string \<Rightarrow> string list \<times> ipc_error" where
  "read_frames s =
    (case read_frame s of
       (Inl e, _) \<Rightarrow> ([], e)
     | (Inr p, s') \<Rightarrow> (case read_frames s' of (ps, e) \<Rightarrow> (p # ps, e)))"
  by pat_completeness auto

lemma read_full_shorter: "read_full n s = (Inr b, s') \<Longrightarrow> s = b @ s' \<and> length b = n"
  by (auto simp: read_full_def split: if_splits)

lemma read_msg_shorter: "read_msg s = (Inr x, s') \<Longrightarrow> length s' < length s"
  by (auto simp: read_msg_def Let_def dest!: read_full_shorter split: prod.splits sum.splits if_splits)

lemma read_frame_shorter: "read_frame s = (Inr p, s') \<Longrightarrow> length s' < length s"
  by (auto simp: read_frame_def dest: read_msg_shorter split: prod.splits sum.splits if_splits)

termination read_frames
  by (relation "measure length") (auto dest: read_frame_shorter [OF sym])

declare read_frames.simps [simp del]

text \<open>The stream of a helper: frames, then a closing signal.\<close>

definition helper_stream :: "string list \<Rightarrow> ipc_msg_type \<Rightarrow> string" where
  "helper_stream frames t = concat (map (msg_bytes MsgFrame) frames) @ msg_bytes t []"

lemma read_helper_stream:
  "\<forall>p \<in> set frames. length p \<le> max_ipc_frame_size \<Longrightarrow> signal_error t = Some e \<Longrightarrow>
   read_frames (helper_stream frames t @ r) = (frames, e)"
proof (induction frames)
  case Nil
  then show ?case by (simp add: helper_stream_def read_frames.simps [of "msg_bytes t [] @ r"] read_signal_bytes)
next
  case (Cons p frames)
  have "helper_stream (p # frames) t @ r = msg_bytes MsgFrame p @ (helper_stream frames t @ r)"
    by (simp add: helper_stream_def)
  then show ?case
    using Cons by (simp add: read_frames.simps [of "msg_bytes MsgFrame p @ _"] read_frame_bytes)
qed

section \<open>Properties\<close>

text \<open>
  Fact: what the helper writes, the service reads: the frames in order, byte for byte, and then
  the reason the helper closed with, each of the seven distinct.
\<close>

theorem helper_frames_round_trip:
  assumes "\<forall>p \<in> set frames. length p \<le> max_ipc_frame_size" and "signal_error t = Some e"
  shows "read_frames (helper_stream frames t) = (frames, e) \<and>
    (\<forall>u. signal_error u = Some e \<longrightarrow> u = t)"
proof
  show "read_frames (helper_stream frames t) = (frames, e)"
    using read_helper_stream [OF assms, of "[]"] by simp
  show "\<forall>u. signal_error u = Some e \<longrightarrow> u = t"
  proof (intro allI impI)
    fix u
    assume "signal_error u = Some e"
    then show "u = t" using assms(2) by (cases u; cases t) simp_all
  qed
qed

theorem helper_frames_round_trip_witness:
  "read_frames (helper_stream [''ab'', [], ''c''] MsgLocalAbort) = ([''ab'', [], ''c''], IpcLocalAbort)"
  using helper_frames_round_trip [of "[''ab'', [], ''c'']" MsgLocalAbort IpcLocalAbort]
  by (simp add: max_ipc_frame_size_def)

lemma handshake_accepts:
  "read_verify_handshake expected s = (None, s') \<longleftrightarrow>
     length expected = ipc_nonce_len \<and> s = msg_bytes MsgHandshake expected @ s'"
proof
  assume a: "length expected = ipc_nonce_len \<and> s = msg_bytes MsgHandshake expected @ s'"
  then have "length expected \<le> max_ipc_frame_size" by (simp add: ipc_nonce_len_def max_ipc_frame_size_def)
  then show "read_verify_handshake expected s = (None, s')"
    using a by (simp add: read_verify_handshake_def read_msg_bytes)
next
  assume a: "read_verify_handshake expected s = (None, s')"
  then have l: "length expected = ipc_nonce_len" and r: "read_msg s = (Inr (1, expected), s')"
    by (auto simp: read_verify_handshake_def split: if_splits prod.splits sum.splits)
  from r obtain hdr s1 where h: "read_full 6 s = (Inr hdr, s1)" and v: "byte_of (hdr ! 0) = 1" "byte_of (hdr ! 1) = 1"
    and p: "expected = [] \<or> read_full (unat (get_uint32 (drop 2 hdr))) s1 = (Inr expected, s')"
    by (auto simp: read_msg_def ipc_protocol_version_def Let_def split: prod.splits sum.splits if_splits)
  have hdr: "s = hdr @ s1" "length hdr = 6" using read_full_shorter [OF h] by auto
  have e: "s1 = expected @ s'" "length expected = unat (get_uint32 (drop 2 hdr))"
    using p l read_full_shorter by (auto simp: ipc_nonce_len_def)
  have "hdr = [hdr ! 0, hdr ! 1] @ drop 2 hdr"
    using hdr(2) by (auto simp: numeral_eq_Suc length_Suc_conv)
  moreover have "hdr ! 0 = char_of (1 :: nat)" "hdr ! 1 = char_of (1 :: nat)"
    using v by (metis byte_of_def char_of_char)+
  moreover have "drop 2 hdr = put_uint32 (word_of_nat (length expected))"
    using put_get_uint32 [of "drop 2 hdr"] hdr(2) e(2) by simp
  ultimately have "hdr = [char_of (1 :: nat), char_of (1 :: nat)] @ put_uint32 (word_of_nat (length expected))"
    by metis
  then show "length expected = ipc_nonce_len \<and> s = msg_bytes MsgHandshake expected @ s'"
    using l hdr e by (simp add: msg_bytes_def ipc_protocol_version_def)
qed

text \<open>
  Fact: the service accepts a handshake from exactly the peer that sends the launch nonce:
  from any bytes at all, acceptance means that they begin with the handshake message of the expected
  nonce, and what remains is what follows it.
\<close>

theorem handshake_proves_nonce:
  "read_verify_handshake expected s = (None, s') \<longleftrightarrow>
     length expected = ipc_nonce_len \<and> s = msg_bytes MsgHandshake expected @ s'"
  by (rule handshake_accepts)

text \<open>
  Fact: a message is read only with the protocol's version and a payload of at most 16 MiB, and
  reading consumes exactly the message: header and payload, nothing of what follows.
\<close>

theorem read_message_exact:
  assumes "read_msg s = (Inr (t, payload), s')"
  shows "\<exists>hdr. s = hdr @ payload @ s' \<and> length hdr = 6 \<and> byte_of (hdr ! 0) = 1 \<and> byte_of (hdr ! 1) = t \<and>
    unat (get_uint32 (drop 2 hdr)) = length payload \<and> length payload \<le> 16777216"
proof -
  from assms obtain hdr s1 where h: "read_full 6 s = (Inr hdr, s1)" and v: "byte_of (hdr ! 0) = 1" "byte_of (hdr ! 1) = t"
    and n: "unat (get_uint32 (drop 2 hdr)) \<le> max_ipc_frame_size"
    and p: "(unat (get_uint32 (drop 2 hdr)) = 0 \<and> payload = [] \<and> s' = s1) \<or>
      read_full (unat (get_uint32 (drop 2 hdr))) s1 = (Inr payload, s')"
    by (auto simp: read_msg_def ipc_protocol_version_def Let_def split: prod.splits sum.splits if_splits)
  then show ?thesis
    using read_full_shorter [OF h] read_full_shorter [of "unat (get_uint32 (drop 2 hdr))" s1 payload s']
    by (intro exI [of _ hdr]) (auto simp: max_ipc_frame_size_def)
qed

theorem read_message_exact_witness:
  "\<exists>hdr. msg_bytes MsgFrame ''xy'' @ ''rest'' = hdr @ ''xy'' @ ''rest'' \<and> length hdr = 6"
  using read_message_exact [OF read_msg_bytes [of "''xy''" MsgFrame "''rest''"]]
  by (auto simp: max_ipc_frame_size_def)

end
