(* ===== verification/Pixels.thy ===== *)
theory Pixels
  imports Prelude
begin

text \<open>
  The pixel controls of a captured frame
  (\<open>src/internal/remotebridge/dataplane/exfil.go\<close>) and the validation of a frame
  (\<open>dataplane/framecodec.go\<close>).  A frame's pixels are a list of bytes, top-down BGRA with a row
  stride; a write of Go is an update of the list.  An index out of range, where Go panics, cannot
  occur on a frame that is \<open>frame_ok\<close>: \<open>px_off_bound\<close>; the lemma \<open>fill_rect_pixel\<close> says which pixels a
  fill changes.  The sizes are 64-bit integers: the products in the checks wrap around, in \<open>int64\<close>.
\<close>

section \<open>Frames\<close>

record raw_frame =
  rf_width :: int
  rf_height :: int
  rf_stride :: int
  rf_pixels :: "u8 list"

definition frame_writable :: "raw_frame option \<Rightarrow> bool" where
  "frame_writable f =
    (case f of None \<Rightarrow> False
     | Some r \<Rightarrow> 0 < rf_width r \<and> 0 < rf_height r \<and> int64 (rf_width r * 4) \<le> rf_stride r \<and>
         int64 (rf_stride r * rf_height r) \<le> int (length (rf_pixels r)))"

datatype frame_error = FrameDims | FrameStride | FrameBuffer | FramePng string | FramePayloadBudget | FramePanic

definition validate_raw_frame :: "raw_frame \<Rightarrow> frame_error option" where
  "validate_raw_frame f =
    (if rf_width f \<le> 0 \<or> rf_height f \<le> 0 then Some FrameDims
     else if rf_stride f < int64 (rf_width f * 4) then Some FrameStride
     else if int (length (rf_pixels f)) < int64 (rf_stride f * rf_height f) then Some FrameBuffer
     else None)"

section \<open>Filling rectangles\<close>

type_synonym colour = "u8 \<times> u8 \<times> u8 \<times> u8" \<comment> \<open>blue, green, red, alpha\<close>

definition px_off :: "raw_frame \<Rightarrow> int \<Rightarrow> int \<Rightarrow> nat" where
  "px_off f x y = nat (y * rf_stride f + x * 4)"

fun put_px :: "colour \<Rightarrow> nat \<Rightarrow> u8 list \<Rightarrow> u8 list" where
  "put_px (b, g, r, a) i ps = ps[i := b, i + 1 := g, i + 2 := r, i + 3 := a]"

definition fill_rect :: "colour \<Rightarrow> int \<Rightarrow> int \<Rightarrow> int \<Rightarrow> int \<Rightarrow> raw_frame \<Rightarrow> raw_frame" where
  "fill_rect c x0 x1 y0 y1 f =
     f\<lparr>rf_pixels := fold (\<lambda>y. fold (\<lambda>x. put_px c (px_off f x y)) [x0 .. x1 - 1]) [y0 .. y1 - 1] (rf_pixels f)\<rparr>"

definition apply_active_indicator :: "int \<Rightarrow> colour \<Rightarrow> raw_frame option \<Rightarrow> raw_frame option" where
  "apply_active_indicator band c f =
    (if \<not> frame_writable f \<or> band \<le> 0 then f
     else map_option (\<lambda>r. fill_rect c 0 (rf_width r) 0 (min band (rf_height r)) r) f)"

definition mask_rect :: "int \<Rightarrow> int \<Rightarrow> int \<Rightarrow> int \<Rightarrow> colour \<Rightarrow> raw_frame option \<Rightarrow> raw_frame option" where
  "mask_rect x0 y0 w0 h0 c f =
    (if \<not> frame_writable f \<or> w0 \<le> 0 \<or> h0 \<le> 0 then f
     else map_option (\<lambda>r.
       let w1 = (if x0 < 0 then w0 + x0 else w0); x1 = (if x0 < 0 then 0 else x0);
           h1 = (if y0 < 0 then h0 + y0 else h0); y1 = (if y0 < 0 then 0 else y0) in
       if x1 \<ge> rf_width r \<or> y1 \<ge> rf_height r \<or> w1 \<le> 0 \<or> h1 \<le> 0 then r
       else
        let w2 = (if int64 (x1 + w1) > rf_width r then rf_width r - x1 else w1);
            h2 = (if int64 (y1 + h1) > rf_height r then rf_height r - y1 else h1) in
        fill_rect c x1 (x1 + w2) y1 (y1 + h2) r) f)"

definition apply_frame_processors :: "(raw_frame \<Rightarrow> raw_frame) option list \<Rightarrow> raw_frame \<Rightarrow> raw_frame" where
  "apply_frame_processors procs f = fold (\<lambda>p f. case p of None \<Rightarrow> f | Some g \<Rightarrow> g f) procs f"

section \<open>What a fill changes\<close>

lemma length_put_px [simp]: "length (put_px c i ps) = length ps"
  by (cases c) simp

lemma put_px_other: "j < i \<or> i + 4 \<le> j \<Longrightarrow> put_px c i ps ! j = ps ! j"
  by (cases c) auto

definition apart :: "nat \<Rightarrow> nat \<Rightarrow> bool" where
  "apart i j \<longleftrightarrow> i = j \<or> i + 4 \<le> j \<or> j + 4 \<le> i"

lemma put_px_again:
  assumes "apart i j" and "i + 3 < length ps" and "k < 4"
  shows "put_px c i (put_px c j ps) ! (i + k) = put_px c i ps ! (i + k)"
proof -
  obtain b g r a where c: "c = (b, g, r, a)" by (cases c)
  consider "k = 0" | "k = 1" | "k = 2" | "k = 3" using assms(3) by linarith
  then show ?thesis using assms(2) by cases (simp_all add: c)
qed

lemma put_px_hit:
  "i + 3 < length ps \<Longrightarrow> put_px (b, g, r, a) i ps ! i = b \<and> put_px (b, g, r, a) i ps ! (i + 1) = g \<and>
   put_px (b, g, r, a) i ps ! (i + 2) = r \<and> put_px (b, g, r, a) i ps ! (i + 3) = a"
  by simp

lemma length_fold_put [simp]: "length (fold (put_px c) offs ps) = length ps"
  by (induction offs arbitrary: ps) auto

lemma fold_put_other:
  "\<forall>i \<in> set offs. j < i \<or> i + 4 \<le> j \<Longrightarrow> fold (put_px c) offs ps ! j = ps ! j"
  by (induction offs arbitrary: ps) (auto simp: put_px_other)

lemma fold_put_hit:
  assumes "i \<in> set offs" and "\<forall>j \<in> set offs. apart i j" and "i + 3 < length ps" and "k < 4"
  shows "fold (put_px c) offs ps ! (i + k) = put_px c i ps ! (i + k)"
  using assms
proof (induction offs arbitrary: ps)
  case (Cons o' offs)
  show ?case
  proof (cases "i \<in> set offs")
    case True
    then have "fold (put_px c) offs (put_px c o' ps) ! (i + k) = put_px c i (put_px c o' ps) ! (i + k)"
      using Cons by simp
    moreover have "apart i o'" using Cons.prems(2) by simp
    ultimately show ?thesis using put_px_again [OF _ Cons.prems(3,4), of o' c] by simp
  next
    case False
    then have o: "o' = i" and "\<forall>j \<in> set offs. i + k < j \<or> j + 4 \<le> i + k"
      using Cons.prems by (auto simp: apart_def)
    then show ?thesis by (simp add: fold_put_other)
  qed
qed simp

definition rect_offs :: "raw_frame \<Rightarrow> int \<Rightarrow> int \<Rightarrow> int \<Rightarrow> int \<Rightarrow> nat list" where
  "rect_offs f x0 x1 y0 y1 = concat (map (\<lambda>y. map (\<lambda>x. px_off f x y) [x0 .. x1 - 1]) [y0 .. y1 - 1])"

lemma fold_rows:
  "fold (\<lambda>y. fold (\<lambda>x. put_px c (g x y)) xs) ys ps = fold (put_px c) (concat (map (\<lambda>y. map (\<lambda>x. g x y) xs) ys)) ps"
proof (induction ys arbitrary: ps)
  case (Cons y ys)
  have "fold (\<lambda>x. put_px c (g x y)) xs ps = fold (put_px c) (map (\<lambda>x. g x y) xs) ps"
    by (simp add: fold_map o_def)
  with Cons show ?case by simp
qed simp

lemma fill_rect_offs: "fill_rect c x0 x1 y0 y1 f = f\<lparr>rf_pixels := fold (put_px c) (rect_offs f x0 x1 y0 y1) (rf_pixels f)\<rparr>"
  by (simp add: fill_rect_def rect_offs_def fold_rows)

text \<open>A frame whose sizes do not wrap: the stride holds a row and the list holds the rows.\<close>

definition frame_ok :: "raw_frame \<Rightarrow> bool" where
  "frame_ok f \<longleftrightarrow> 0 < rf_width f \<and> 0 < rf_height f \<and> rf_width f * 4 \<le> rf_stride f \<and>
     rf_stride f * rf_height f \<le> int (length (rf_pixels f))"

definition inside :: "raw_frame \<Rightarrow> int \<Rightarrow> int \<Rightarrow> bool" where
  "inside f x y \<longleftrightarrow> 0 \<le> x \<and> x < rf_width f \<and> 0 \<le> y \<and> y < rf_height f"

lemma px_off_bound:
  assumes "frame_ok f" and "inside f x y"
  shows "px_off f x y + 3 < length (rf_pixels f)"
proof -
  have "y * rf_stride f + x * 4 + 3 < (y + 1) * rf_stride f"
    using assms by (simp add: frame_ok_def inside_def algebra_simps)
  also have "... \<le> rf_height f * rf_stride f"
    using assms by (intro mult_right_mono) (auto simp: frame_ok_def inside_def)
  also have "... \<le> int (length (rf_pixels f))" using assms by (simp add: frame_ok_def mult.commute)
  finally have "y * rf_stride f + x * 4 + 3 < int (length (rf_pixels f))" .
  moreover have "0 \<le> y * rf_stride f + x * 4" using assms by (simp add: frame_ok_def inside_def)
  ultimately show ?thesis unfolding px_off_def by linarith
qed

lemma px_off_int: "frame_ok f \<Longrightarrow> inside f x y \<Longrightarrow> int (px_off f x y) = y * rf_stride f + x * 4"
  by (simp add: px_off_def frame_ok_def inside_def)

lemma px_off_row:
  assumes "frame_ok f" and "inside f x y" and "inside f x' y'" and "y < y'"
  shows "px_off f x y + 4 \<le> px_off f x' y'"
proof -
  have "y * rf_stride f + x * 4 + 4 \<le> (y + 1) * rf_stride f"
    using assms by (simp add: frame_ok_def inside_def algebra_simps)
  also have "... \<le> y' * rf_stride f"
    using assms by (intro mult_right_mono) (auto simp: frame_ok_def inside_def)
  finally have "int (px_off f x y) + 4 \<le> int (px_off f x' y')"
    using assms by (simp add: px_off_int inside_def)
  then show ?thesis by linarith
qed

lemma px_off_apart:
  assumes "frame_ok f" and "inside f x y" and "inside f x' y'"
  shows "apart (px_off f x y) (px_off f x' y')" and "px_off f x y = px_off f x' y' \<longleftrightarrow> x = x' \<and> y = y'"
proof -
  have "apart (px_off f x y) (px_off f x' y') \<and> (px_off f x y = px_off f x' y' \<longleftrightarrow> x = x' \<and> y = y')"
  proof (cases "y = y'")
    case True
    then have "int (px_off f x y) - int (px_off f x' y') = (x - x') * 4"
      using assms by (simp add: px_off_int)
    then have d: "int (px_off f x y) = int (px_off f x' y') + (x - x') * 4" by simp
    consider "x = x'" | "x < x'" | "x' < x" by linarith
    then show ?thesis
    proof cases
      case 1 then show ?thesis using True by (simp add: apart_def)
    next
      case 2
      then have "int (px_off f x y) + 4 \<le> int (px_off f x' y')" using d by simp
      then show ?thesis using True 2 by (auto simp: apart_def)
    next
      case 3
      then have "int (px_off f x' y') + 4 \<le> int (px_off f x y)" using d by simp
      then show ?thesis using True 3 by (auto simp: apart_def)
    qed
  next
    case False
    then consider "y < y'" | "y' < y" by linarith
    then show ?thesis
      using px_off_row [OF assms(1,2,3)] px_off_row [OF assms(1,3,2)] False
      by cases (auto simp: apart_def)
  qed
  then show "apart (px_off f x y) (px_off f x' y')" and "px_off f x y = px_off f x' y' \<longleftrightarrow> x = x' \<and> y = y'" by auto
qed

text \<open>The pixel at a position.\<close>

definition pixel :: "raw_frame \<Rightarrow> int \<Rightarrow> int \<Rightarrow> colour" where
  "pixel f x y = (let i = px_off f x y; ps = rf_pixels f in (ps ! i, ps ! (i + 1), ps ! (i + 2), ps ! (i + 3)))"

lemma fill_rect_pixel:
  assumes "frame_ok f" and "inside f x y" and "0 \<le> x0" and "x1 \<le> rf_width f" and "0 \<le> y0" and "y1 \<le> rf_height f"
  shows "pixel (fill_rect c x0 x1 y0 y1 f) x y = (if x0 \<le> x \<and> x < x1 \<and> y0 \<le> y \<and> y < y1 then c else pixel f x y)"
proof -
  let ?i = "px_off f x y" and ?offs = "rect_offs f x0 x1 y0 y1" and ?ps = "rf_pixels f"
  have off: "px_off (fill_rect c x0 x1 y0 y1 f) x y = ?i" by (simp add: fill_rect_def px_off_def)
  have ps: "rf_pixels (fill_rect c x0 x1 y0 y1 f) = fold (put_px c) ?offs ?ps" by (simp add: fill_rect_offs)
  have b: "?i + 3 < length ?ps" by (rule px_off_bound [OF assms(1,2)])
  have offs: "\<exists>x' y'. j = px_off f x' y' \<and> inside f x' y' \<and> x0 \<le> x' \<and> x' < x1 \<and> y0 \<le> y' \<and> y' < y1" if "j \<in> set ?offs" for j
    using that assms(3-6) by (fastforce simp: rect_offs_def inside_def)
  have ap: "\<forall>j \<in> set ?offs. apart ?i j" using offs px_off_apart(1) [OF assms(1,2)] by blast
  show ?thesis
  proof (cases "x0 \<le> x \<and> x < x1 \<and> y0 \<le> y \<and> y < y1")
    case True
    then have "?i \<in> set ?offs" by (fastforce simp: rect_offs_def)
    from fold_put_hit [OF this ap b, of _ c]
    have h: "fold (put_px c) ?offs ?ps ! (?i + k) = put_px c ?i ?ps ! (?i + k)" if "k < 4" for k
      using that by blast
    obtain cb cg cr ca where c: "c = (cb, cg, cr, ca)" by (cases c)
    show ?thesis
      using True h [of 0] h [of 1] h [of 2] h [of 3] put_px_hit [OF b, of cb cg cr ca] unfolding c
      unfolding pixel_def off [unfolded c] ps [unfolded c] Let_def by (simp del: put_px.simps)
  next
    case False
    then have "?i \<notin> set ?offs" using offs px_off_apart(2) [OF assms(1,2)] by blast
    then have "?i + k < j \<or> j + 4 \<le> ?i + k" if "j \<in> set ?offs" "k < 4" for j k
      using ap [rule_format, OF that(1)] that unfolding apart_def by (cases "j = ?i") auto
    then have o: "fold (put_px c) ?offs ?ps ! (?i + k) = ?ps ! (?i + k)" if "k < 4" for k
      using that by (intro fold_put_other) blast
    show ?thesis
      using False o [of 0] o [of 1] o [of 2] o [of 3] unfolding pixel_def off ps Let_def by auto
  qed
qed

end
