(* ===== verification/FrameCodec.thy ===== *)
theory FrameCodec
  imports Pixels "HOL-Library.Signed_Division"
begin

text \<open>
  The frame encoder and the mask policy: \<open>dataplane/framecodec.go\<close> (conversion to opaque RGBA, the
  2x2 box filter, and the encoder that halves a frame until its PNG fits the payload budget) and
  \<open>screenview/mask_policy.go\<close>, with the processors that
  \<open>screenview/capture_windows.go\<close> puts into the encoder: the mask first, the red band last.  The
  PNG compressor (image/png) is a parameter.  A slice that Go refuses is the value \<open>FramePanic\<close>.
\<close>

section \<open>Encoding one frame\<close>

type_synonym png_encoder = "int \<Rightarrow> int \<Rightarrow> u8 list \<Rightarrow> string + u8 list"

text \<open>\<open>f.Pixels[y*f.Stride : y*f.Stride+f.Width*4]\<close>.\<close>

definition row_slice :: "raw_frame \<Rightarrow> int \<Rightarrow> u8 list option" where
  "row_slice f y =
    (let lo = int64 (y * rf_stride f); hi = int64 (lo + int64 (rf_width f * 4)) in
     if 0 \<le> lo \<and> lo \<le> hi \<and> hi \<le> int (length (rf_pixels f))
     then Some (take (nat (hi - lo)) (drop (nat lo) (rf_pixels f))) else None)"

definition rgba_row :: "int \<Rightarrow> u8 list \<Rightarrow> u8 list" where
  "rgba_row w src = concat (map (\<lambda>x. [src ! (x * 4 + 2), src ! (x * 4 + 1), src ! (x * 4), 0xFF]) [0..<nat w])"

definition encode_png :: "png_encoder \<Rightarrow> raw_frame \<Rightarrow> frame_error + u8 list" where
  "encode_png png f =
    (case those (map (row_slice f) [0 .. rf_height f - 1]) of
       None \<Rightarrow> Inl FramePanic
     | Some rows \<Rightarrow> map_sum FramePng id (png (rf_width f) (rf_height f) (concat (map (rgba_row (rf_width f)) rows))))"

definition png_encode :: "png_encoder \<Rightarrow> raw_frame \<Rightarrow> frame_error + u8 list" where
  "png_encode png f = (case validate_raw_frame f of Some e \<Rightarrow> Inl e | None \<Rightarrow> encode_png png f)"

definition clone_raw_frame :: "raw_frame \<Rightarrow> raw_frame option" where
  "clone_raw_frame f =
    (let n = int64 (rf_stride f * rf_height f) in
     if 0 \<le> n \<and> n \<le> int (length (rf_pixels f)) then Some (f\<lparr>rf_pixels := take (nat n) (rf_pixels f)\<rparr>) else None)"

section \<open>Halving a frame\<close>

definition box_source :: "raw_frame \<Rightarrow> int \<Rightarrow> int \<Rightarrow> (int \<times> int) list" where
  "box_source f dx dy =
    filter (\<lambda>(sx, sy). sy < rf_height f \<and> sx < rf_width f)
      (concat (map (\<lambda>oy. map (\<lambda>ox. (dx * 2 + ox, dy * 2 + oy)) [0, 1]) [0, 1]))"

definition box_pixel :: "raw_frame \<Rightarrow> int \<Rightarrow> int \<Rightarrow> u8 list" where
  "box_pixel f dx dy =
    (let src = box_source f dx dy in
     map (\<lambda>ch. word_of_nat (sum_list (map (\<lambda>(sx, sy). unat (rf_pixels f ! (px_off f sx sy + ch))) src) div length src))
       [0, 1, 2, 3])"

definition half_scale :: "raw_frame \<Rightarrow> raw_frame" where
  "half_scale f =
    (let w = (rf_width f + 1) div 2; h = (rf_height f + 1) div 2 in
     \<lparr>rf_width = w, rf_height = h, rf_stride = w * 4,
      rf_pixels = concat (map (\<lambda>dy. concat (map (\<lambda>dx. box_pixel f dx dy) [0 .. w - 1])) [0 .. h - 1])\<rparr>)"

section \<open>The bounded encoder\<close>

definition screen_frame_payload_budget :: int where
  "screen_frame_payload_budget = 240 * 1024"

definition filter_processors :: "(raw_frame \<Rightarrow> raw_frame) option list \<Rightarrow> (raw_frame \<Rightarrow> raw_frame) option list" where
  "filter_processors procs = filter (\<lambda>p. p \<noteq> None) procs"

partial_function (option) shrink_until_fits ::
  "png_encoder \<Rightarrow> int \<Rightarrow> (raw_frame \<Rightarrow> raw_frame) option list \<Rightarrow> raw_frame \<Rightarrow> (frame_error + u8 list) option" where
  [code]: "shrink_until_fits png budget procs cand =
    (case clone_raw_frame cand of
       None \<Rightarrow> Some (Inl FramePanic)
     | Some c \<Rightarrow>
        (case encode_png png (apply_frame_processors procs c) of
           Inl e \<Rightarrow> Some (Inl e)
         | Inr payload \<Rightarrow>
            if int (length payload) \<le> budget then Some (Inr payload)
            else if rf_width cand = 1 \<and> rf_height cand = 1 then Some (Inl FramePayloadBudget)
            else shrink_until_fits png budget procs (half_scale cand)))"

definition bounded_encode ::
  "png_encoder \<Rightarrow> int \<Rightarrow> (raw_frame \<Rightarrow> raw_frame) option list \<Rightarrow> raw_frame \<Rightarrow> (frame_error + u8 list) option" where
  "bounded_encode png budget procs f =
    (if budget \<le> 0 then Some (Inl FramePayloadBudget)
     else case validate_raw_frame f of
       Some e \<Rightarrow> Some (Inl e)
     | None \<Rightarrow> shrink_until_fits png budget (filter_processors procs) f)"

section \<open>The mask policy\<close>

record mask_policy =
  mp_x :: int
  mp_y :: int
  mp_width :: int
  mp_height :: int

definition mask_basis_points :: int where
  "mask_basis_points = 10000"

definition mask_enabled :: "mask_policy \<Rightarrow> bool" where
  "mask_enabled p \<longleftrightarrow> 0 < mp_width p \<and> 0 < mp_height p"

definition mask_string :: "mask_policy \<Rightarrow> string" where
  "mask_string p =
    (if \<not> mask_enabled p then []
     else join_with CHR '','' (map format_int [mp_x p, mp_y p, mp_width p, mp_height p]))"

datatype mask_error = MaskTooLong | MaskNotCanonical | MaskField nat | MaskEmpty | MaskOutside

definition mask_digits :: "string \<Rightarrow> bool" where
  "mask_digits s \<longleftrightarrow> 1 \<le> length s \<and> length s \<le> 5 \<and> list_all is_digit s"

definition canonical_mask_policy :: "string \<Rightarrow> bool" where
  "canonical_mask_policy s \<longleftrightarrow> (let ps = split_on CHR '','' s in length ps = 4 \<and> list_all mask_digits ps)"

fun mask_values :: "nat \<Rightarrow> string list \<Rightarrow> mask_error + int list" where
  "mask_values i [] = Inr []"
| "mask_values i (p # ps) =
    (let v = int (digits_val p) in
     if v > mask_basis_points then Inl (MaskField (i + 1))
     else map_sum id ((#) v) (mask_values (i + 1) ps))"

definition parse_mask_policy :: "string \<Rightarrow> mask_error + mask_policy" where
  "parse_mask_policy raw =
    (if raw = [] then Inr \<lparr>mp_x = 0, mp_y = 0, mp_width = 0, mp_height = 0\<rparr>
     else if length raw > 23 then Inl MaskTooLong
     else if \<not> canonical_mask_policy raw then Inl MaskNotCanonical
     else case mask_values 0 (split_on CHR '','' raw) of
       Inl e \<Rightarrow> Inl e
     | Inr vs \<Rightarrow>
        let p = \<lparr>mp_x = vs ! 0, mp_y = vs ! 1, mp_width = vs ! 2, mp_height = vs ! 3\<rparr> in
        if mp_width p = 0 \<or> mp_height p = 0 then Inl MaskEmpty
        else if mp_x p + mp_width p > mask_basis_points \<or> mp_y p + mp_height p > mask_basis_points then Inl MaskOutside
        else Inr p)"

definition scale_basis_points :: "int \<Rightarrow> int \<Rightarrow> bool \<Rightarrow> int" where
  "scale_basis_points tot bp round_up =
    (let whole = tot sdiv mask_basis_points; rest = tot smod mask_basis_points;
         scaled = int64 (rest * bp);
         scaled' = (if round_up \<and> 0 < scaled then int64 (scaled + (mask_basis_points - 1)) else scaled) in
     int64 (int64 (whole * bp) + scaled' sdiv mask_basis_points))"

definition mask_apply :: "mask_policy \<Rightarrow> raw_frame \<Rightarrow> raw_frame" where
  "mask_apply p f =
    (if \<not> mask_enabled p \<or> rf_width f \<le> 0 \<or> rf_height f \<le> 0 then f
     else
      let x = scale_basis_points (rf_width f) (mp_x p) False;
          y = scale_basis_points (rf_height f) (mp_y p) False;
          x_end = scale_basis_points (rf_width f) (int64 (mp_x p + mp_width p)) True;
          y_end = scale_basis_points (rf_height f) (int64 (mp_y p + mp_height p)) True in
      if x_end \<le> x \<or> y_end \<le> y then f
      else the (mask_rect x y (int64 (x_end - x)) (int64 (y_end - y)) (0, 0, 0, 0xFF) (Some f)))"

text \<open>The processors of the active-session helper.\<close>

definition indicator_band :: int where
  "indicator_band = 28"

definition helper_processors :: "mask_policy \<Rightarrow> (raw_frame \<Rightarrow> raw_frame) option list" where
  "helper_processors p =
    (if mask_enabled p then [Some (mask_apply p)] else []) @
    [Some (\<lambda>f. the (apply_active_indicator indicator_band (0, 0, 0xFF, 0xFF) (Some f)))]"


section \<open>Sizes that do not wrap around\<close>

definition size_ok :: "raw_frame \<Rightarrow> bool" where
  "size_ok f \<longleftrightarrow> frame_ok f \<and> int (length (rf_pixels f)) < 2 ^ 63"

definition same_shape :: "raw_frame \<Rightarrow> raw_frame \<Rightarrow> bool" where
  "same_shape f g \<longleftrightarrow> rf_width g = rf_width f \<and> rf_height g = rf_height f \<and> rf_stride g = rf_stride f \<and>
     length (rf_pixels g) = length (rf_pixels f)"

lemma same_shape_refl [simp]: "same_shape f f"
  by (simp add: same_shape_def)

lemma same_shape_trans: "same_shape f g \<Longrightarrow> same_shape g h \<Longrightarrow> same_shape f h"
  by (simp add: same_shape_def)

lemma same_shape_fill [simp]: "same_shape f (fill_rect c x0 x1 y0 y1 f)"
  by (simp add: same_shape_def fill_rect_offs)

lemma same_shape_inside: "same_shape f g \<Longrightarrow> inside g x y = inside f x y"
  by (simp add: same_shape_def inside_def)

lemma size_ok_shape: "same_shape f g \<Longrightarrow> size_ok f \<Longrightarrow> size_ok g"
  by (simp add: same_shape_def size_ok_def frame_ok_def)

lemma size_ok_facts:
  assumes "size_ok f"
  shows "0 < rf_width f" "0 < rf_height f" "rf_width f * 4 \<le> rf_stride f"
    "rf_stride f * rf_height f \<le> int (length (rf_pixels f))" "int (length (rf_pixels f)) < 2 ^ 63"
    "rf_stride f < 2 ^ 63" "rf_height f < 2 ^ 63" "rf_width f < 2 ^ 63"
proof -
  show *: "0 < rf_width f" "0 < rf_height f" "rf_width f * 4 \<le> rf_stride f"
    "rf_stride f * rf_height f \<le> int (length (rf_pixels f))" "int (length (rf_pixels f)) < 2 ^ 63"
    using assms by (auto simp: size_ok_def frame_ok_def)
  have "rf_stride f * 1 \<le> rf_stride f * rf_height f" using * by (intro mult_left_mono) auto
  with * show s: "rf_stride f < 2 ^ 63" by linarith
  have "1 * rf_height f \<le> rf_stride f * rf_height f" using * by (intro mult_right_mono) auto
  with * show "rf_height f < 2 ^ 63" by linarith
  show "rf_width f < 2 ^ 63" using s * by linarith
qed

lemma size_ok_sizes:
  assumes "size_ok f"
  shows "int64 (rf_width f * 4) = rf_width f * 4" "int64 (rf_stride f * rf_height f) = rf_stride f * rf_height f"
proof -
  note b = size_ok_facts [OF assms]
  show "int64 (rf_width f * 4) = rf_width f * 4" by (rule int64_id) (use b in linarith)+
  have "0 \<le> rf_stride f * rf_height f" using b by (intro mult_nonneg_nonneg) auto
  then show "int64 (rf_stride f * rf_height f) = rf_stride f * rf_height f" by (intro int64_id) (use b in linarith)+
qed

lemma size_ok_valid: "size_ok f \<Longrightarrow> validate_raw_frame f = None \<and> frame_writable (Some f)"
  using size_ok_facts [of f] by (simp add: validate_raw_frame_def frame_writable_def size_ok_sizes)

lemma clone_ok:
  assumes "size_ok f"
  obtains c where "clone_raw_frame f = Some c" and "size_ok c" and "rf_width c = rf_width f" and "rf_height c = rf_height f"
proof -
  note b = size_ok_facts [OF assms]
  have n: "0 \<le> rf_stride f * rf_height f" using b by (intro mult_nonneg_nonneg) auto
  let ?c = "f\<lparr>rf_pixels := take (nat (rf_stride f * rf_height f)) (rf_pixels f)\<rparr>"
  have "clone_raw_frame f = Some ?c" using b n by (simp add: clone_raw_frame_def size_ok_sizes [OF assms] Let_def)
  moreover have "size_ok ?c" using b n by (simp add: size_ok_def frame_ok_def)
  ultimately show ?thesis using that by simp
qed

lemma row_slice_some:
  assumes "size_ok f" and "0 \<le> y" and "y < rf_height f"
  shows "row_slice f y \<noteq> None"
proof -
  note b = size_ok_facts [OF assms(1)]
  have lo: "0 \<le> y * rf_stride f" using assms b by (intro mult_nonneg_nonneg) auto
  have "(y + 1) * rf_stride f \<le> rf_height f * rf_stride f" using assms b by (intro mult_right_mono) auto
  then have hi: "y * rf_stride f + rf_width f * 4 \<le> int (length (rf_pixels f))"
    using b by (simp add: algebra_simps)
  have i1: "int64 (y * rf_stride f) = y * rf_stride f" by (rule int64_id) (use lo hi b in linarith)+
  have i2: "int64 (y * rf_stride f + rf_width f * 4) = y * rf_stride f + rf_width f * 4"
    by (rule int64_id) (use lo hi b in linarith)+
  show ?thesis using lo hi b by (simp add: row_slice_def Let_def i1 i2 size_ok_sizes [OF assms(1)])
qed

lemma those_some: "\<forall>x \<in> set xs. g x \<noteq> None \<Longrightarrow> those (map g xs) \<noteq> None"
  by (induction xs) (auto split: option.splits)

lemma encode_png_no_panic: "size_ok f \<Longrightarrow> encode_png png f \<noteq> Inl FramePanic"
  using those_some [of "[0 .. rf_height f - 1]" "row_slice f"] row_slice_some [of f]
  by (cases "png (rf_width f) (rf_height f) (concat (map (rgba_row (rf_width f)) (the (those (map (row_slice f) [0..rf_height f - 1])))))")
     (auto simp: encode_png_def split: option.splits)

lemma length_box_pixel [simp]: "length (box_pixel f x y) = 4"
  by (simp add: box_pixel_def Let_def)

lemma length_concat_const: "\<forall>x \<in> set xs. length (g x) = n \<Longrightarrow> length (concat (map g xs)) = length xs * n"
  by (induction xs) auto

lemma length_half_row: "0 \<le> w \<Longrightarrow> length (concat (map (\<lambda>dx. box_pixel f dx dy) [0 .. w - 1])) = nat w * 4"
  by (subst length_concat_const [of _ _ 4]) auto

lemma length_half_scale:
  assumes "0 \<le> rf_width f" and "0 \<le> rf_height f"
  shows "length (rf_pixels (half_scale f)) = nat ((rf_height f + 1) div 2) * (nat ((rf_width f + 1) div 2) * 4)"
  using assms unfolding half_scale_def Let_def
  by simp (subst length_concat_const [of _ _ "nat ((rf_width f + 1) div 2) * 4"], auto simp: length_half_row)

lemma half_scale_ok:
  assumes "size_ok f"
  shows "size_ok (half_scale f)"
    and "\<not> (rf_width f = 1 \<and> rf_height f = 1) \<Longrightarrow>
      nat (rf_width (half_scale f) + rf_height (half_scale f)) < nat (rf_width f + rf_height f)"
proof -
  note b = size_ok_facts [OF assms]
  let ?w = "(rf_width f + 1) div 2" and ?h = "(rf_height f + 1) div 2"
  have w: "0 < ?w" "?w \<le> rf_width f" and h: "0 < ?h" "?h \<le> rf_height f" using b by linarith+
  have len: "int (length (rf_pixels (half_scale f))) = ?h * (?w * 4)"
    using b w h by (simp add: length_half_scale)
  have "?h * (?w * 4) \<le> rf_height f * (rf_width f * 4)" using w h b by (intro mult_mono) auto
  also have "... \<le> rf_height f * rf_stride f" using b by (intro mult_left_mono) auto
  finally have "int (length (rf_pixels (half_scale f))) < 2 ^ 63"
    using b len by (simp add: mult.commute)
  moreover have "frame_ok (half_scale f)"
    using w h len by (simp add: frame_ok_def half_scale_def Let_def mult_ac)
  ultimately show "size_ok (half_scale f)" by (simp add: size_ok_def)
  assume "\<not> (rf_width f = 1 \<and> rf_height f = 1)"
  then have "?w + ?h < rf_width f + rf_height f" using b by linarith
  then show "nat (rf_width (half_scale f) + rf_height (half_scale f)) < nat (rf_width f + rf_height f)"
    using w h by (simp add: half_scale_def Let_def)
qed

text \<open>Processors that keep the shape of a frame.\<close>

definition proc_shape :: "(raw_frame \<Rightarrow> raw_frame) option \<Rightarrow> bool" where
  "proc_shape p \<longleftrightarrow> (case p of None \<Rightarrow> True | Some g \<Rightarrow> \<forall>f. same_shape f (g f))"

lemma process_shape: "\<forall>p \<in> set procs. proc_shape p \<Longrightarrow> same_shape f (apply_frame_processors procs f)"
  unfolding apply_frame_processors_def
proof (induction procs arbitrary: f)
  case (Cons p procs)
  show ?case
  proof (cases p)
    case None
    then show ?thesis using Cons by simp
  next
    case (Some g)
    then have "same_shape f (g f)" using Cons.prems by (simp add: proc_shape_def)
    moreover have "same_shape (g f) (fold (\<lambda>p f. case p of None \<Rightarrow> f | Some g \<Rightarrow> g f) procs (g f))"
      using Cons by simp
    ultimately show ?thesis using Some same_shape_trans by simp
  qed
qed simp

text \<open>The loop returns, does not panic, and what it returns is the PNG of a processed candidate.\<close>

definition encodes :: "png_encoder \<Rightarrow> int \<Rightarrow> (raw_frame \<Rightarrow> raw_frame) option list \<Rightarrow> u8 list \<Rightarrow> raw_frame \<Rightarrow> bool" where
  "encodes png budget procs payload c \<longleftrightarrow> size_ok c \<and> int (length payload) \<le> budget \<and>
     encode_png png (apply_frame_processors procs c) = Inr payload"

lemma shrink_returns:
  assumes "\<forall>p \<in> set procs. proc_shape p"
  shows "size_ok f \<Longrightarrow> \<exists>r. shrink_until_fits png budget procs f = Some r \<and> r \<noteq> Inl FramePanic \<and>
     (\<forall>payload. r = Inr payload \<longrightarrow> (\<exists>c. encodes png budget procs payload c))"
proof (induction "nat (rf_width f + rf_height f)" arbitrary: f rule: less_induct)
  case less
  obtain c where c: "clone_raw_frame f = Some c" "size_ok c" by (rule clone_ok [OF less.prems])
  let ?g = "apply_frame_processors procs c"
  have g: "size_ok ?g" using process_shape [OF assms] c(2) by (rule size_ok_shape)
  note unfold = shrink_until_fits.simps [of png budget procs f]
  show ?case
  proof (cases "encode_png png ?g")
    case (Inl e)
    then show ?thesis using encode_png_no_panic [OF g, of png] by (simp add: unfold c)
  next
    case (Inr payload)
    consider "int (length payload) \<le> budget"
      | "\<not> int (length payload) \<le> budget" "rf_width f = 1 \<and> rf_height f = 1"
      | "\<not> int (length payload) \<le> budget" "\<not> (rf_width f = 1 \<and> rf_height f = 1)" by blast
    then show ?thesis
    proof cases
      case 1
      then have "encodes png budget procs payload c" using Inr c(2) by (simp add: encodes_def)
      then show ?thesis using Inr 1 by (auto simp: unfold c(1))
    next
      case 2
      then show ?thesis using Inr by (simp add: unfold c)
    next
      case 3
      then have "shrink_until_fits png budget procs f = shrink_until_fits png budget procs (half_scale f)"
        using Inr by (subst unfold) (simp only: c(1) option.case sum.case if_False)
      then show ?thesis
        using less.hyps [OF half_scale_ok(2) [OF less.prems 3(2)] half_scale_ok(1) [OF less.prems]] by simp
    qed
  qed
qed

lemma bounded_encode_rule:
  assumes "size_ok f" and "\<forall>p \<in> set procs. proc_shape p"
  shows "\<exists>r. bounded_encode png budget procs f = Some r \<and> r \<noteq> Inl FramePanic \<and>
     (\<forall>payload. r = Inr payload \<longrightarrow> (\<exists>c. encodes png budget (filter_processors procs) payload c))"
  using shrink_returns [of "filter_processors procs" f png budget] assms size_ok_valid [OF assms(1)]
  by (auto simp: bounded_encode_def filter_processors_def)


section \<open>Where the mask and the band fall\<close>

definition opaque_black :: colour where
  "opaque_black = (0, 0, 0, 0xFF)"

definition opaque_red :: colour where
  "opaque_red = (0, 0, 0xFF, 0xFF)"

definition policy_ok :: "mask_policy \<Rightarrow> bool" where
  "policy_ok p \<longleftrightarrow> 0 \<le> mp_x p \<and> 0 \<le> mp_y p \<and> 0 < mp_width p \<and> 0 < mp_height p \<and>
     mp_x p + mp_width p \<le> mask_basis_points \<and> mp_y p + mp_height p \<le> mask_basis_points"

text \<open>A pixel that the policy's rectangle touches, in basis points of the frame.\<close>

definition covered :: "mask_policy \<Rightarrow> raw_frame \<Rightarrow> int \<Rightarrow> int \<Rightarrow> bool" where
  "covered p f x y \<longleftrightarrow>
     mp_x p * rf_width f < (x + 1) * mask_basis_points \<and> x * mask_basis_points < (mp_x p + mp_width p) * rf_width f \<and>
     mp_y p * rf_height f < (y + 1) * mask_basis_points \<and> y * mask_basis_points < (mp_y p + mp_height p) * rf_height f"

lemma sdiv_nonneg: "0 \<le> a \<Longrightarrow> a sdiv (10000::int) = a div 10000"
proof (cases "a = 0")
  case False
  moreover assume "0 \<le> a"
  ultimately have "0 < a" by simp
  then show ?thesis by (simp add: signed_divide_int_def)
qed (simp add: signed_divide_int_def)

lemma smod_nonneg: "0 \<le> a \<Longrightarrow> a smod (10000::int) = a mod 10000"
  by (cases "a = 0") (auto simp: signed_modulo_int_def sgn_if)

lemma quotient_parts:
  fixes n bp :: int
  shows "n * bp = 10000 * (n div 10000 * bp) + n mod 10000 * bp"
proof -
  have "(10000 * (n div 10000) + n mod 10000) * bp = 10000 * (n div 10000 * bp) + n mod 10000 * bp"
    by (simp only: distrib_right mult.assoc)
  then show ?thesis by (simp only: mult_div_mod_eq)
qed

lemma div_shift: "(10000 * a + b) div (10000::int) = a + b div 10000"
  by simp

lemma scale_exact:
  assumes "0 \<le> n" and "n < 2 ^ 63" and "0 \<le> bp" and "bp \<le> 10000"
  shows "scale_basis_points n bp False = (n * bp) div 10000"
    and "scale_basis_points n bp True = (n * bp + 9999) div 10000"
proof -
  let ?a = "n div 10000 * bp" and ?b = "n mod 10000 * bp"
  have b0: "0 \<le> ?b" using assms by simp
  have "?b \<le> 10000 * 10000" using assms by (intro mult_mono) auto
  then have b1: "?b < 2 ^ 40" by simp
  have a0: "0 \<le> ?a" using assms by simp
  have nb: "n * bp = 10000 * ?a + ?b" by (rule quotient_parts)
  have "n * bp \<le> n * 10000" using assms by (intro mult_left_mono) auto
  then have le: "10000 * ?a + ?b \<le> n * 10000" by (simp only: nb)
  have fl: "(n * bp) div 10000 = ?a + ?b div 10000" by (simp only: nb div_shift)
  have ce: "(n * bp + 9999) div 10000 = ?a + (?b + 9999) div 10000" by (simp only: nb add.assoc div_shift)
  have up: "?a + (?b + 9999) div 10000 \<le> n" "?a + ?b div 10000 \<le> n" "?a \<le> n" using le b0 by linarith+
  have lo: "0 \<le> ?a + (?b + 9999) div 10000" "0 \<le> ?a + ?b div 10000" using a0 b0 by linarith+
  have i: "int64 k = k" if "0 \<le> k" "k < 2 ^ 63" for k
    by (rule int64_id) (use that in simp_all)
  have w: "int64 ?b = ?b" by (rule i [OF b0]) (use b1 in simp)
  have w1: "int64 (?b + 9999) = ?b + 9999" by (rule i) (use b0 b1 in simp_all)
  have w2: "int64 ?a = ?a" by (rule i [OF a0 le_less_trans [OF up(3) assms(2)]])
  have w3: "int64 (?a + (?b + 9999) div 10000) = ?a + (?b + 9999) div 10000"
    by (rule i [OF lo(1) le_less_trans [OF up(1) assms(2)]])
  have w4: "int64 (?a + ?b div 10000) = ?a + ?b div 10000"
    by (rule i [OF lo(2) le_less_trans [OF up(2) assms(2)]])
  have sd: "n sdiv 10000 = n div 10000" "n smod 10000 = n mod 10000" "?b sdiv 10000 = ?b div 10000"
    "(?b + 9999) sdiv 10000 = (?b + 9999) div 10000"
    by (rule sdiv_nonneg smod_nonneg, use assms b0 in simp)+
  have ten: "(10000::int) - 1 = 9999" by simp
  show "scale_basis_points n bp False = (n * bp) div 10000"
    unfolding scale_basis_points_def mask_basis_points_def Let_def sd w w2 fl by (simp only: if_False simp_thms sd w4)
  show "scale_basis_points n bp True = (n * bp + 9999) div 10000"
  proof (cases "0 < ?b")
    case True
    then show ?thesis
      unfolding scale_basis_points_def mask_basis_points_def Let_def sd w w2 ce ten
      by (simp only: if_True simp_thms w1 sd w3)
  next
    case False
    then have z: "?b = 0" using b0 by simp
    show ?thesis
      unfolding scale_basis_points_def mask_basis_points_def Let_def sd w w2 ce ten
      using z w2 by (simp del: mult_eq_0_iff)
  qed
qed


lemma scale_start: "0 \<le> n \<Longrightarrow> n < 2 ^ 63 \<Longrightarrow> 0 \<le> bp \<Longrightarrow> bp \<le> 10000 \<Longrightarrow> bp * n < (x + 1) * 10000 \<Longrightarrow>
    scale_basis_points n bp False \<le> x"
  by (simp add: scale_exact mult.commute)

lemma scale_end: "0 \<le> n \<Longrightarrow> n < 2 ^ 63 \<Longrightarrow> 0 \<le> bp \<Longrightarrow> bp \<le> 10000 \<Longrightarrow> x * 10000 < bp * n \<Longrightarrow>
    x < scale_basis_points n bp True"
  by (simp add: scale_exact mult.commute)

lemma scale_range:
  assumes "0 \<le> n" "n < 2 ^ 63" "0 \<le> bp" "bp \<le> 10000"
  shows "0 \<le> scale_basis_points n bp False" "scale_basis_points n bp True \<le> n"
proof -
  have "n * bp \<le> n * 10000" using assms by (intro mult_left_mono) auto
  then show "scale_basis_points n bp True \<le> n" using assms by (simp add: scale_exact)
  show "0 \<le> scale_basis_points n bp False" using assms by (simp add: scale_exact pos_imp_zdiv_nonneg_iff)
qed

lemma scale_proper:
  assumes "0 < n" "n < 2 ^ 63" "0 \<le> bp" "0 < w" "bp + w \<le> 10000"
  shows "scale_basis_points n bp False < scale_basis_points n (bp + w) True"
proof -
  have "0 < n * w" using assms by simp
  moreover have "n * (bp + w) = n * bp + n * w" by (rule distrib_left)
  ultimately have "n * bp + 1 \<le> n * (bp + w)" by linarith
  then show ?thesis using assms by (simp add: scale_exact)
qed

lemma mask_rect_inside:
  assumes "size_ok f" and "0 \<le> x0" and "x0 < x1" and "x1 \<le> rf_width f" and "0 \<le> y0" and "y0 < y1" and "y1 \<le> rf_height f"
  shows "the (mask_rect x0 y0 (int64 (x1 - x0)) (int64 (y1 - y0)) c (Some f)) = fill_rect c x0 x1 y0 y1 f"
proof -
  note b = size_ok_facts [OF assms(1)]
  have i: "int64 k = k" if "0 \<le> k" "k < 2 ^ 63" for k
    by (rule int64_id) (use that in simp_all)
  have w: "int64 (x1 - x0) = x1 - x0" "int64 (y1 - y0) = y1 - y0" "int64 x1 = x1" "int64 y1 = y1"
    using assms b by (auto intro!: i)
  show ?thesis
    using assms size_ok_valid [OF assms(1)] by (simp add: mask_rect_def w)
qed

lemma mask_apply_fill:
  assumes "size_ok f" and "policy_ok p"
  obtains x0 x1 y0 y1 where "0 \<le> x0" and "x1 \<le> rf_width f" and "0 \<le> y0" and "y1 \<le> rf_height f"
    and "mask_apply p f = fill_rect opaque_black x0 x1 y0 y1 f"
    and "\<And>x y. covered p f x y \<Longrightarrow> x0 \<le> x \<and> x < x1 \<and> y0 \<le> y \<and> y < y1"
proof -
  note b = size_ok_facts [OF assms(1)]
  have pk: "0 \<le> mp_x p" "0 \<le> mp_y p" "0 < mp_width p" "0 < mp_height p"
    "mp_x p + mp_width p \<le> 10000" "mp_y p + mp_height p \<le> 10000"
    using assms(2) by (auto simp: policy_ok_def mask_basis_points_def)
  let ?x0 = "scale_basis_points (rf_width f) (mp_x p) False" and ?x1 = "scale_basis_points (rf_width f) (mp_x p + mp_width p) True"
  let ?y0 = "scale_basis_points (rf_height f) (mp_y p) False" and ?y1 = "scale_basis_points (rf_height f) (mp_y p + mp_height p) True"
  have w: "int64 (mp_x p + mp_width p) = mp_x p + mp_width p" "int64 (mp_y p + mp_height p) = mp_y p + mp_height p"
    using pk by (auto intro!: int64_id)
  have xr: "0 \<le> ?x0" "?x1 \<le> rf_width f" using b pk by (auto intro!: scale_range)
  have yr: "0 \<le> ?y0" "?y1 \<le> rf_height f" using b pk by (auto intro!: scale_range)
  have xs: "?x0 < ?x1" and ys: "?y0 < ?y1"
    using b pk by (auto intro!: scale_proper)
  have "mask_apply p f = fill_rect opaque_black ?x0 ?x1 ?y0 ?y1 f"
    using mask_rect_inside [OF assms(1) xr(1) xs xr(2) yr(1) ys yr(2), of opaque_black] b pk xs ys
    by (simp add: mask_apply_def mask_enabled_def w Let_def opaque_black_def)
  moreover have "?x0 \<le> x \<and> x < ?x1 \<and> ?y0 \<le> y \<and> y < ?y1" if "covered p f x y" for x y
    using that b pk unfolding covered_def mask_basis_points_def
    by (intro conjI scale_start scale_end) auto
  ultimately show ?thesis using that xr yr by blast
qed


lemma indicator_fill: "size_ok f \<Longrightarrow>
    the (apply_active_indicator indicator_band (0, 0, 0xFF, 0xFF) (Some f))
      = fill_rect opaque_red 0 (rf_width f) 0 (min 28 (rf_height f)) f"
  by (simp add: apply_active_indicator_def size_ok_valid indicator_band_def opaque_red_def)

text \<open>What a processed frame shows: the band on top, black under the policy, the rest untouched.\<close>

definition marked :: "mask_policy \<Rightarrow> raw_frame \<Rightarrow> bool" where
  "marked p g \<longleftrightarrow>
     (\<forall>x y. inside g x y \<longrightarrow> y < indicator_band \<longrightarrow> pixel g x y = opaque_red) \<and>
     (\<forall>x y. inside g x y \<longrightarrow> indicator_band \<le> y \<longrightarrow> mask_enabled p \<longrightarrow> covered p g x y \<longrightarrow> pixel g x y = opaque_black)"

lemma frame_ok_shape: "same_shape f g \<Longrightarrow> size_ok f \<Longrightarrow> frame_ok g"
  using size_ok_shape [of f g] by (simp add: size_ok_def)

lemma indicator_pixel:
  assumes "size_ok f" and "inside f x y"
  shows "pixel (fill_rect opaque_red 0 (rf_width f) 0 (min 28 (rf_height f)) f) x y
    = (if y < 28 then opaque_red else pixel f x y)"
  using fill_rect_pixel [of f x y 0 "rf_width f" 0 "min 28 (rf_height f)" opaque_red] assms
  by (auto simp: size_ok_def inside_def)

lemma helper_marks:
  assumes "size_ok f" and "mask_enabled p \<Longrightarrow> policy_ok p"
  shows "marked p (apply_frame_processors (helper_processors p) f)"
proof -
  obtain m where m: "same_shape f m" "size_ok m"
    and g: "apply_frame_processors (helper_processors p) f = fill_rect opaque_red 0 (rf_width m) 0 (min 28 (rf_height m)) m"
    and cov: "\<And>x y. mask_enabled p \<Longrightarrow> inside m x y \<Longrightarrow> covered p m x y \<Longrightarrow> pixel m x y = opaque_black"
  proof (cases "mask_enabled p")
    case True
    obtain x0 x1 y0 y1 where r: "0 \<le> x0" "x1 \<le> rf_width f" "0 \<le> y0" "y1 \<le> rf_height f"
      and f: "mask_apply p f = fill_rect opaque_black x0 x1 y0 y1 f"
      and c: "\<And>x y. covered p f x y \<Longrightarrow> x0 \<le> x \<and> x < x1 \<and> y0 \<le> y \<and> y < y1"
      by (rule mask_apply_fill [OF assms(1) assms(2) [OF True]]) blast
    let ?m = "fill_rect opaque_black x0 x1 y0 y1 f"
    have sh: "same_shape f ?m" by simp
    have "pixel ?m x y = opaque_black" if "inside ?m x y" "covered p ?m x y" for x y
    proof -
      have "inside f x y" and "covered p f x y"
        using that sh by (simp_all add: inside_def covered_def same_shape_def)
      then show ?thesis
        using fill_rect_pixel [of f x y x0 x1 y0 y1 opaque_black] c [of x y] r assms(1) by (simp add: size_ok_def)
    qed
    moreover have "apply_frame_processors (helper_processors p) f
        = fill_rect opaque_red 0 (rf_width ?m) 0 (min 28 (rf_height ?m)) ?m"
      using True size_ok_shape [OF sh assms(1)] by (simp add: apply_frame_processors_def helper_processors_def f indicator_fill)
    ultimately show ?thesis using that [OF sh size_ok_shape [OF sh assms(1)]] by blast
  next
    case False
    have "apply_frame_processors (helper_processors p) f
        = fill_rect opaque_red 0 (rf_width f) 0 (min 28 (rf_height f)) f"
      using False assms(1) by (simp add: apply_frame_processors_def helper_processors_def indicator_fill)
    then show ?thesis using that [OF same_shape_refl assms(1)] False by blast
  qed
  have sh: "same_shape m (fill_rect opaque_red 0 (rf_width m) 0 (min 28 (rf_height m)) m)" by simp
  have cv: "covered p (fill_rect opaque_red 0 (rf_width m) 0 (min 28 (rf_height m)) m) x y = covered p m x y" for x y
    using sh by (simp add: covered_def same_shape_def)
  show ?thesis
    unfolding marked_def g indicator_band_def
    by (auto simp: same_shape_inside [OF sh] indicator_pixel [OF m(2)] cv intro: cov)
qed

lemma helper_shapes: "\<forall>q \<in> set (helper_processors p). proc_shape q"
proof -
  have i: "same_shape f (the (apply_active_indicator b c (Some f)))" for f b c
    by (simp add: apply_active_indicator_def)
  have r: "same_shape f (the (mask_rect x y w h c (Some f)))" for f x y w h c
    by (simp add: mask_rect_def Let_def)
  have "same_shape f (mask_apply p f)" for f by (simp add: mask_apply_def Let_def r)
  with i show ?thesis by (simp add: helper_processors_def proc_shape_def)
qed

lemma filter_helper: "filter_processors (helper_processors p) = helper_processors p"
  by (simp add: filter_processors_def helper_processors_def)

section \<open>What leaves the encoder\<close>

text \<open>
  Property C10: Every payload the helper's encoder returns fits the budget and is the PNG of a frame
  that carries the controls at its own resolution: every pixel of the top 28 rows is opaque red, and
  below them every pixel that the mask policy's rectangle touches is opaque black.
\<close>

theorem every_payload_is_marked:
  assumes "size_ok f" and "mask_enabled p \<Longrightarrow> policy_ok p"
    and "bounded_encode png budget (helper_processors p) f = Some (Inr payload)"
  shows "int (length payload) \<le> budget \<and> (\<exists>g. size_ok g \<and> encode_png png g = Inr payload \<and> marked p g)"
proof -
  obtain c where c: "encodes png budget (helper_processors p) payload c"
    using bounded_encode_rule [OF assms(1) helper_shapes, of png budget p] assms(3)
    by (auto simp: filter_helper)
  let ?g = "apply_frame_processors (helper_processors p) c"
  have "size_ok c" using c by (simp add: encodes_def)
  moreover have "size_ok ?g" using process_shape [OF helper_shapes] \<open>size_ok c\<close> by (rule size_ok_shape)
  ultimately show ?thesis using c helper_marks [OF _ assms(2), of c] unfolding encodes_def by blast
qed



section \<open>The text of a mask policy\<close>

lemma length_format_nat: "n < 10 ^ Suc k \<Longrightarrow> length (format_nat n) \<le> Suc k"
proof (induction k arbitrary: n)
  case (Suc k)
  then have "n div 10 < 10 ^ Suc k" by simp
  from Suc.IH [OF this] show ?case by (subst format_nat.simps) simp
qed (simp add: format_nat.simps)

lemma format_field:
  assumes "0 \<le> v" and "v \<le> 10000"
  shows "mask_digits (format_int v)" and "int (digits_val (format_int v)) = v" and "length (format_int v) \<le> 5"
    and "CHR '','' \<notin> set (format_int v)"
proof -
  have f: "format_int v = format_nat (nat v)" using assms by (simp add: format_int_def)
  have "nat v < 10 ^ Suc 4" using assms by simp
  from length_format_nat [OF this] show l: "length (format_int v) \<le> 5" by (simp add: f)
  have d: "list_all is_digit (format_int v)" by (simp add: f format_nat_digits)
  have "1 \<le> length (format_int v)" using format_nat_not_Nil [of "nat v"] unfolding f by (cases "format_nat (nat v)") auto
  with l d show "mask_digits (format_int v)" by (simp add: mask_digits_def)
  show "int (digits_val (format_int v)) = v" using assms by (simp add: f digits_val_format)
  have "\<not> is_digit CHR '',''" by code_simp
  with d show "CHR '','' \<notin> set (format_int v)" by (auto simp: list_all_iff)
qed

lemma mask_values_format:
  "\<forall>v \<in> set vs. 0 \<le> v \<and> v \<le> 10000 \<Longrightarrow> mask_values i (map format_int vs) = Inr vs"
  by (induction vs arbitrary: i) (auto simp: format_field mask_basis_points_def)

lemma length_join: "xs \<noteq> [] \<Longrightarrow> length (join_with c xs) = sum_list (map length xs) + (length xs - 1)"
  by (induction c xs rule: join_with.induct) auto

lemma parse_policy_text:
  assumes "policy_ok p"
  shows "parse_mask_policy (mask_string p) = Inr p"
proof -
  let ?vs = "[mp_x p, mp_y p, mp_width p, mp_height p]"
  have pk: "0 \<le> mp_x p" "0 \<le> mp_y p" "0 < mp_width p" "0 < mp_height p"
    "mp_x p + mp_width p \<le> 10000" "mp_y p + mp_height p \<le> 10000"
    using assms by (auto simp: policy_ok_def mask_basis_points_def)
  then have r: "\<forall>v \<in> set ?vs. 0 \<le> v \<and> v \<le> 10000" by auto
  have s: "mask_string p = join_with CHR '','' (map format_int ?vs)" using pk by (simp add: mask_string_def mask_enabled_def)
  have sp: "split_on CHR '','' (mask_string p) = map format_int ?vs"
    unfolding s by (rule split_join) (use r format_field(4) in auto)
  have "length (mask_string p) \<le> 23"
    using r format_field(3) [of "mp_x p"] format_field(3) [of "mp_y p"] format_field(3) [of "mp_width p"]
      format_field(3) [of "mp_height p"] by (simp add: s length_join)
  moreover have "mask_string p \<noteq> []" by (simp add: s)
  moreover have "canonical_mask_policy (mask_string p)"
    using r unfolding canonical_mask_policy_def sp by (simp add: format_field(1))
  ultimately show ?thesis
    using pk mask_values_format [OF r, of 0] by (simp add: parse_mask_policy_def sp mask_basis_points_def)
qed

lemma mask_values_sound: "mask_values i ps = Inr vs \<Longrightarrow> length vs = length ps \<and> (\<forall>v \<in> set vs. 0 \<le> v \<and> v \<le> 10000)"
proof (induction ps arbitrary: i vs)
  case (Cons p ps)
  then show ?case
    by (cases "mask_values (i + 1) ps") (auto simp: mask_basis_points_def Let_def split: if_splits)
qed simp

lemma parse_policy_sound:
  assumes "parse_mask_policy raw = Inr p"
  shows "policy_ok p \<or> p = \<lparr>mp_x = 0, mp_y = 0, mp_width = 0, mp_height = 0\<rparr>"
proof (cases "raw = []")
  case False
  then obtain vs where vs: "mask_values 0 (split_on CHR '','' raw) = Inr vs" and c: "canonical_mask_policy raw"
    using assms by (auto simp: parse_mask_policy_def split: if_splits sum.splits)
  have "length vs = 4" using mask_values_sound [OF vs] c by (simp add: canonical_mask_policy_def Let_def)
  then obtain a b d e where v: "vs = [a, b, d, e]" by (auto simp: numeral_eq_Suc length_Suc_conv)
  have "0 \<le> a" "0 \<le> b" "0 \<le> d" "0 \<le> e" using mask_values_sound [OF vs] by (auto simp: v)
  then show ?thesis
    using assms False vs by (auto simp: parse_mask_policy_def v Let_def policy_ok_def split: if_splits)
qed (use assms in \<open>simp add: parse_mask_policy_def\<close>)

text \<open>
  Fact: A mask policy that parses lies inside the monitor or is the disabled one, and writing
  it out and parsing it again gives it back.
\<close>

theorem mask_policy_round_trip:
  assumes "parse_mask_policy raw = Inr p"
  shows "(mask_enabled p \<longrightarrow> policy_ok p) \<and> parse_mask_policy (mask_string p) = Inr p"
  using parse_policy_sound [OF assms]
proof
  assume "p = \<lparr>mp_x = 0, mp_y = 0, mp_width = 0, mp_height = 0\<rparr>"
  then show ?thesis by (simp add: mask_enabled_def mask_string_def parse_mask_policy_def)
qed (simp add: parse_policy_text)

section \<open>A check that wraps around\<close>

text \<open>
  Fact: the size check multiplies two 64-bit integers.  A frame whose product wraps to zero passes it
  with an empty buffer, and the encoder then panics on the first row.
\<close>

definition wrapping_frame :: raw_frame where
  "wrapping_frame = \<lparr>rf_width = 1, rf_height = 4, rf_stride = 2 ^ 62, rf_pixels = []\<rparr>"

theorem raw_frame_check_wraps:
  "validate_raw_frame wrapping_frame = None \<and> png_encode (\<lambda>w h px. Inr px) wrapping_frame = Inl FramePanic"
  by code_simp

section \<open>Samples\<close>

definition sample_frame :: raw_frame where
  "sample_frame = \<lparr>rf_width = 3, rf_height = 1, rf_stride = 12, rf_pixels = [1, 2, 3, 4, 5, 6, 7, 8, 9, 10, 11, 12]\<rparr>"

definition sample_mask :: mask_policy where
  "sample_mask = \<lparr>mp_x = 0, mp_y = 0, mp_width = 5000, mp_height = 10000\<rparr>"

lemma sample_frame_ok: "size_ok sample_frame \<and> policy_ok sample_mask \<and> mask_enabled sample_mask"
  by code_simp

lemma sample_encoded:
  "bounded_encode (\<lambda>w h px. Inr px) 8 (helper_processors sample_mask) sample_frame
    = Some (Inr [0xFF, 0, 0, 0xFF, 0xFF, 0, 0, 0xFF])"
  by code_simp

theorem every_payload_is_marked_witness:
  "int (length [0xFF, 0, 0, 0xFF, 0xFF, 0, 0, 0xFF :: u8]) \<le> 8 \<and>
   (\<exists>g. size_ok g \<and> encode_png (\<lambda>w h px. Inr px) g = Inr [0xFF, 0, 0, 0xFF, 0xFF, 0, 0, 0xFF] \<and> marked sample_mask g)"
  using every_payload_is_marked [of sample_frame sample_mask "\<lambda>w h px. Inr px" 8] sample_encoded sample_frame_ok
  by blast


theorem mask_policy_round_trip_witness:
  "(mask_enabled sample_mask \<longrightarrow> policy_ok sample_mask) \<and> parse_mask_policy (mask_string sample_mask) = Inr sample_mask"
proof -
  have "parse_mask_policy ''0,00,5000,10000'' = Inr sample_mask" by code_simp
  then show ?thesis by (rule mask_policy_round_trip)
qed

end
