(* ===== verification/AutoRecord.thy ===== *)
theory AutoRecord
  imports Prelude "HOL-Library.Multiset" "HOL-Library.Product_Lexorder"
begin

text \<open>
  The data of the automatic enrolment (\<open>src/internal/autoenroll/types.go\<close>, \<open>persisted_config.go\<close>), the choice of
  the machine certificate (\<open>cert_select.go\<close>) and the health of the agent (\<open>src/internal/state/state.go\<close>).
  A zero \<open>time.Time\<close> is \<open>None\<close>.  Unicode lower-casing is the parameter \<open>lower\<close>.
\<close>

section \<open>The persisted record\<close>

record persisted_config =
  pc_device_id :: string
  pc_token :: string
  pc_expires :: "int option"
  pc_sha256 :: string
  pc_sha1 :: string
  pc_issued :: "int option"

definition zero_config :: persisted_config where
  "zero_config = \<lparr>pc_device_id = [], pc_token = [], pc_expires = None, pc_sha256 = [], pc_sha1 = [], pc_issued = None\<rparr>"

datatype record_error = EmptyConfig | InvalidConfig string

definition config_is_zero :: "persisted_config \<Rightarrow> bool" where
  "config_is_zero p \<longleftrightarrow> pc_device_id p = [] \<and> pc_token p = []"

definition config_validate :: "persisted_config \<Rightarrow> record_error option" where
  "config_validate p =
    (if config_is_zero p then Some EmptyConfig
     else if pc_device_id p = [] then Some (InvalidConfig ''device_id empty'')
     else if pc_sha256 p = [] then Some (InvalidConfig ''cert_thumbprint_sha256 empty'')
     else if (pc_token p = []) \<noteq> (pc_expires p = None) then Some (InvalidConfig ''inconsistent token shape'')
     else None)"

definition is_tokenless_enrollment :: "persisted_config \<Rightarrow> bool" where
  "is_tokenless_enrollment p \<longleftrightarrow> pc_device_id p \<noteq> [] \<and> pc_sha256 p \<noteq> [] \<and> pc_token p = []"

definition token_expired :: "int \<Rightarrow> persisted_config \<Rightarrow> bool" where
  "token_expired now p = (case pc_expires p of None \<Rightarrow> False | Some t \<Rightarrow> \<not> now < t)"

definition token_expiring_within :: "int \<Rightarrow> int \<Rightarrow> persisted_config \<Rightarrow> bool" where
  "token_expiring_within now d p = (case pc_expires p of None \<Rightarrow> False | Some t \<Rightarrow> t - now < d)"

definition cert_thumbprint_changed :: "string \<Rightarrow> persisted_config \<Rightarrow> bool" where
  "cert_thumbprint_changed current p \<longleftrightarrow> pc_sha256 p \<noteq> [] \<and> pc_sha256 p \<noteq> current"

section \<open>The answer to an enrolment\<close>

record auto_enroll_response =
  ar_device_id :: string
  ar_status :: string
  ar_thumbprint :: string

datatype response_error = DeviceIdEmpty | UnexpectedStatus | ThumbprintEmpty | NoLocalThumbprint | ThumbprintMismatch

definition status_enrolled :: string where "status_enrolled = ''enrolled''"

definition status_already_enrolled :: string where "status_already_enrolled = ''already-enrolled''"

definition normalize_cert_thumbprint :: "(string \<Rightarrow> string) \<Rightarrow> string \<Rightarrow> string" where
  "normalize_cert_thumbprint lower s =
    filter (\<lambda>c. c \<noteq> CHR '' '') (filter (\<lambda>c. c \<noteq> CHR '':'') (lower (trim_space s)))"

definition response_validate :: "(string \<Rightarrow> string) \<Rightarrow> string \<Rightarrow> auto_enroll_response \<Rightarrow> response_error option" where
  "response_validate lower local r =
    (if blank (ar_device_id r) then Some DeviceIdEmpty
     else if ar_status r \<noteq> status_enrolled \<and> ar_status r \<noteq> status_already_enrolled then Some UnexpectedStatus
     else
       let got = normalize_cert_thumbprint lower (ar_thumbprint r) in
       if got = [] then Some ThumbprintEmpty
       else
         let want = normalize_cert_thumbprint lower local in
         if want = [] then Some NoLocalThumbprint
         else if got \<noteq> want then Some ThumbprintMismatch
         else None)"

section \<open>The choice of a certificate\<close>

text \<open>Of a parsed certificate, what the choice looks at; \<open>xc_uris\<close> are the texts of the URIs that are not nil.\<close>

record x509_cert =
  xc_not_before :: int
  xc_not_after :: int
  xc_eku_oids :: "string list" \<comment> \<open>UnknownExtKeyUsage, dotted\<close>
  xc_client_auth :: bool
  xc_server_auth :: bool
  xc_common_name :: string
  xc_uris :: "string list"
  xc_raw :: string

record cert_filter =
  fl_eku :: string
  fl_subject_suffix :: string
  fl_san_uri_prefix :: string
  fl_issuers :: "string list"
  fl_require_private_key :: bool
  fl_require_valid_now :: bool

definition default_cert_filter :: cert_filter where
  "default_cert_filter = \<lparr>fl_eku = ''1.3.6.1.5.5.7.3.2'', fl_subject_suffix = [], fl_san_uri_prefix = [], fl_issuers = [],
     fl_require_private_key = True, fl_require_valid_now = True\<rparr>"

definition has_eku :: "string \<Rightarrow> x509_cert \<Rightarrow> bool" where
  "has_eku oid c \<longleftrightarrow> list_ex (\<lambda>u. u = oid) (xc_eku_oids c) \<or>
     (oid = ''1.3.6.1.5.5.7.3.2'' \<and> xc_client_auth c) \<or> (oid = ''1.3.6.1.5.5.7.3.1'' \<and> xc_server_auth c)"

definition has_san_uri_prefix :: "(string \<Rightarrow> string) \<Rightarrow> string \<Rightarrow> x509_cert \<Rightarrow> bool" where
  "has_san_uri_prefix lower prefix c \<longleftrightarrow> list_ex (\<lambda>u. has_prefix (lower u) (lower prefix)) (xc_uris c)"

definition cert_eligible :: "(string \<Rightarrow> string) \<Rightarrow> cert_filter \<Rightarrow> int \<Rightarrow> x509_cert \<Rightarrow> bool" where
  "cert_eligible lower f now c \<longleftrightarrow>
    \<not> (fl_require_valid_now f \<and> (now < xc_not_before c \<or> \<not> now < xc_not_after c)) \<and>
    \<not> (fl_eku f \<noteq> [] \<and> \<not> has_eku (fl_eku f) c) \<and>
    \<not> (fl_subject_suffix f \<noteq> [] \<and> \<not> has_suffix (lower (xc_common_name c)) (lower (fl_subject_suffix f))) \<and>
    \<not> (fl_san_uri_prefix f \<noteq> [] \<and> \<not> has_san_uri_prefix lower (fl_san_uri_prefix f) c)"

fun filter_candidates :: "(string \<Rightarrow> string) \<Rightarrow> x509_cert option list \<Rightarrow> cert_filter \<Rightarrow> int \<Rightarrow> x509_cert list" where
  "filter_candidates lower [] f now = []"
| "filter_candidates lower (None # cs) f now = filter_candidates lower cs f now"
| "filter_candidates lower (Some c # cs) f now =
    (if cert_eligible lower f now c then c # filter_candidates lower cs f now else filter_candidates lower cs f now)"

text \<open>The thumbprint is the hex of the hash of the raw bytes (\<open>thumbprint.go\<close>); \<open>sha\<close> gives the hex.\<close>

definition thumbprint_hex :: "(string \<Rightarrow> string) \<Rightarrow> x509_cert option \<Rightarrow> string" where
  "thumbprint_hex sha c = (case c of None \<Rightarrow> [] | Some c \<Rightarrow> if xc_raw c = [] then [] else sha (xc_raw c))"

definition cert_before :: "(string \<Rightarrow> string) \<Rightarrow> x509_cert \<Rightarrow> x509_cert \<Rightarrow> bool" where
  "cert_before sha a b =
    (if xc_not_before a \<noteq> xc_not_before b then xc_not_before a > xc_not_before b
     else if xc_not_after a \<noteq> xc_not_after b then xc_not_after a > xc_not_after b
     else thumbprint_hex sha (Some a) < thumbprint_hex sha (Some b))"

text \<open>\<open>sort.SliceStable\<close>: insertion from the right keeps equal elements in order.\<close>

primrec insert_before :: "('a \<Rightarrow> 'a \<Rightarrow> bool) \<Rightarrow> 'a \<Rightarrow> 'a list \<Rightarrow> 'a list" where
  "insert_before bef x [] = [x]"
| "insert_before bef x (y # ys) = (if bef y x then y # insert_before bef x ys else x # y # ys)"

definition slice_stable :: "('a \<Rightarrow> 'a \<Rightarrow> bool) \<Rightarrow> 'a list \<Rightarrow> 'a list" where
  "slice_stable bef xs = foldr (insert_before bef) xs []"

definition rank_candidates :: "(string \<Rightarrow> string) \<Rightarrow> x509_cert list \<Rightarrow> x509_cert list" where
  "rank_candidates sha cs = (if cs = [] then [] else slice_stable (cert_before sha) cs)"

definition select_latest :: "(string \<Rightarrow> string) \<Rightarrow> x509_cert list \<Rightarrow> x509_cert option" where
  "select_latest sha cs = (let ranked = rank_candidates sha cs in if ranked = [] then None else Some (hd ranked))"

section \<open>The health of the agent\<close>

datatype agent_state = Starting | Enrolling | Online | Degraded | Offline | ReEnrollRequired | Stopping

record tracker =
  tk_state :: agent_state
  tk_failures :: nat
  tk_last_error :: "int option"

definition new_tracker :: "agent_state option \<Rightarrow> tracker" where
  "new_tracker initial = \<lparr>tk_state = (case initial of None \<Rightarrow> Starting | Some s \<Rightarrow> s), tk_failures = 0, tk_last_error = None\<rparr>"

definition record_success :: "tracker \<Rightarrow> tracker" where
  "record_success t =
    (let t = (if tk_state t \<noteq> Stopping \<and> tk_state t \<noteq> ReEnrollRequired then t\<lparr>tk_state := Online\<rparr> else t) in
     t\<lparr>tk_failures := 0, tk_last_error := None\<rparr>)"

definition record_failure :: "int \<Rightarrow> tracker \<Rightarrow> tracker" where
  "record_failure now t =
    (let t = t\<lparr>tk_failures := tk_failures t + 1, tk_last_error := Some now\<rparr> in
     if tk_state t = Stopping \<or> tk_state t = ReEnrollRequired then t
     else if tk_failures t \<ge> 10 then t\<lparr>tk_state := Offline\<rparr>
     else if tk_failures t \<ge> 3 then t\<lparr>tk_state := Degraded\<rparr>
     else t)"

definition require_re_enrollment :: "tracker \<Rightarrow> tracker" where
  "require_re_enrollment t = t\<lparr>tk_state := ReEnrollRequired\<rparr>"

definition tracker_stop :: "tracker \<Rightarrow> tracker" where
  "tracker_stop t = t\<lparr>tk_state := Stopping\<rparr>"

section \<open>The selected certificate is the best eligible one\<close>

lemma mset_slice_stable: "mset (slice_stable bef xs) = mset xs"
proof -
  have "mset (insert_before bef x ys) = {#x#} + mset ys" for x ys by (induction ys) auto
  then show ?thesis by (induction xs) (simp_all add: slice_stable_def)
qed

text \<open>A sort by a less-function that compares keys.\<close>

locale sort_less =
  fixes bef :: "'a \<Rightarrow> 'a \<Rightarrow> bool" and key :: "'a \<Rightarrow> 'k :: linorder"
  assumes bef_key: "bef a b \<longleftrightarrow> key a < key b"
begin

lemma insert_is_insort: "insert_before bef x ys = insort_key key x ys"
  by (induction ys) (auto simp: bef_key not_less)

lemma slice_stable_is_sort: "slice_stable bef xs = sort_key key xs"
proof -
  have "insert_before bef = insort_key key" by (intro ext insert_is_insort)
  then show ?thesis by (simp add: slice_stable_def sort_key_def)
qed

lemma first_is_least:
  assumes "xs \<noteq> []" and "y \<in> set xs"
  shows "\<not> bef y (hd (slice_stable bef xs))"
proof -
  obtain z zs where z: "sort_key key xs = z # zs" using assms(1) by (cases "sort_key key xs") (metis length_0_conv length_sort, simp)
  have "sorted (map key (z # zs))" "y \<in> set (z # zs)" using assms(2) z by (metis sorted_sort_key, metis set_sort)
  then show ?thesis using z by (auto simp: slice_stable_is_sort bef_key not_less)
qed

end

definition cert_key :: "(string \<Rightarrow> string) \<Rightarrow> x509_cert \<Rightarrow> int \<times> int \<times> string" where
  "cert_key sha c = (- xc_not_before c, - xc_not_after c, thumbprint_hex sha (Some c))"

interpretation cert_order: sort_less "cert_before sha" "cert_key sha" for sha
  by unfold_locales (auto simp: cert_before_def cert_key_def)

lemma set_filter_candidates: "c \<in> set (filter_candidates lower cs f now) \<longleftrightarrow> Some c \<in> set cs \<and> cert_eligible lower f now c"
  by (induction lower cs f now rule: filter_candidates.induct) auto



text \<open>
  The health counts consecutive failures: three degrade, ten take offline, a success brings back online.
\<close>

lemma failures_degrade:
  assumes "tk_state t = Online" and "tk_failures t = 0"
  shows "tk_state (fold record_failure nows t) =
    (if length nows < 3 then Online else if length nows < 10 then Degraded else Offline)"
proof -
  have "tk_failures (fold record_failure ts t) = length ts \<and> tk_state (fold record_failure ts t) =
      (if length ts < 3 then Online else if length ts < 10 then Degraded else Offline)" for ts
    using assms by (induction ts rule: rev_induct) (auto simp: record_failure_def Let_def)
  then show ?thesis by blast
qed

lemma validated_config:
  "config_validate p = None \<longleftrightarrow> pc_device_id p \<noteq> [] \<and> pc_sha256 p \<noteq> [] \<and> (pc_token p = [] \<longleftrightarrow> pc_expires p = None)"
  by (auto simp: config_validate_def config_is_zero_def)

lemma response_accepted:
  "response_validate lower local r = None \<longleftrightarrow>
    \<not> blank (ar_device_id r) \<and> ar_status r \<in> {status_enrolled, status_already_enrolled} \<and>
    normalize_cert_thumbprint lower (ar_thumbprint r) \<noteq> [] \<and>
    normalize_cert_thumbprint lower (ar_thumbprint r) = normalize_cert_thumbprint lower local"
  by (auto simp: response_validate_def Let_def)

end
