(* ===== verification/AutoRunner.thy ===== *)
theory AutoRunner
  imports AutoRecord Contract
begin

text \<open>
  The automatic enrolment and its service loop (\<open>src/internal/autoenroll/runner.go\<close>, \<open>client.go\<close>, \<open>jitter.go\<close>).

  The environment \<open>auto_env\<close> answers the n-th call: clock, certificate store, configuration store, HTTP,
  executor, cancellation.  The runner carries the number of calls made (\<open>ru_tick\<close>), the persisted record, the
  loaded certificate with its client, the health, the private-key handles that are open, and a trace of what
  it did.  A loaded certificate has the number of the call as its handle.  An error is its sentinel
  (\<open>errors.Is\<close>) with the text of \<open>Error()\<close>.
\<close>

section \<open>Errors\<close>

datatype err_kind = KAuth | KNoCommand | KNoCert | KTokenless | KEmptyStore | KInvalidConfig | KInvalidResponse | KContext | KOther

record auto_error =
  xe_kind :: err_kind
  xe_text :: string

definition other_error :: "string \<Rightarrow> auto_error" where
  "other_error t = \<lparr>xe_kind = KOther, xe_text = t\<rparr>"

definition err_no_command :: auto_error where
  "err_no_command = \<lparr>xe_kind = KNoCommand, xe_text = ''no command available''\<rparr>"

definition err_tokenless :: auto_error where
  "err_tokenless = \<lparr>xe_kind = KTokenless,
     xe_text = ''tokenless mTLS enrollment: token-dependent lifecycle not supported (#151)''\<rparr>"

definition err_auth :: "string \<Rightarrow> auto_error" where
  "err_auth t = \<lparr>xe_kind = KAuth, xe_text = ''backend rejected cert or service token (fail-closed): '' @ t\<rparr>"

definition wrap_error :: "string \<Rightarrow> auto_error \<Rightarrow> auto_error" where
  "wrap_error pre e = e\<lparr>xe_text := pre @ '': '' @ xe_text e\<rparr>"

definition is_fatal :: "auto_error \<Rightarrow> bool" where
  "is_fatal e \<longleftrightarrow> xe_kind e = KAuth \<or> contains (xe_text e) ''grace window expired''"

section \<open>The wire\<close>

record agent_command =
  cm_id :: string
  cm_claim :: string
  cm_type :: string

record command_result =
  rs_command_id :: string
  rs_claim_id :: string
  rs_status :: string
  rs_update :: "stage_result option"

datatype wire_payload = NoBody | EnrollBody | HeartbeatBody agent_state | ResultBody command_result

record wire_request =
  wr_method :: string
  wr_path :: string
  wr_token :: string
  wr_payload :: wire_payload

datatype wire_reply = DialFailed string | WireReply nat string

record heartbeat_response =
  hb_accepted :: bool
  hb_status :: string
  hb_server_time :: "int option"
  hb_grace_window :: bool
  hb_grace_until :: "int option"

record token_response =
  tr_token :: string
  tr_expires :: "int option"

record api_url =
  pu_scheme :: string
  pu_host :: string
  pu_hostname :: string
  pu_query :: string
  pu_fragment :: string

record loaded_cert =
  ld_sha256 :: string
  ld_sha1 :: string
  ld_not_after :: "int option"
  ld_signer :: nat

record auto_config =
  ac_api_url :: string
  ac_poll_interval :: int
  ac_command_timeout :: int
  ac_install_timeout :: int
  ac_uninstall_timeout :: int
  ac_self_update_timeout :: int
  ac_refresh_window :: int

record auto_env =
  av_config :: auto_config
  av_now :: "nat \<Rightarrow> int"
  av_load :: "nat \<Rightarrow> auto_error + loaded_cert"
  av_read_fails :: "nat \<Rightarrow> auto_error option"
  av_write_fails :: "nat \<Rightarrow> auto_error option"
  av_http :: "nat \<Rightarrow> wire_request \<Rightarrow> wire_reply"
  av_mtls_fails :: "nat \<Rightarrow> string option"
  av_cancelled :: "nat \<Rightarrow> bool"
  av_random :: "nat \<Rightarrow> int \<Rightarrow> int"
  av_execute :: "nat \<Rightarrow> int \<Rightarrow> agent_command \<Rightarrow> command_result"
  av_registry_jitter :: int
  av_sweeps :: bool \<comment> \<open>SelfUpdatePendingSweep is set\<close>
  av_hooks :: bool \<comment> \<open>SelfUpdateActivationHook is set\<close>
  av_lower :: "string \<Rightarrow> string"
  av_url :: "string \<Rightarrow> api_url option"
  av_escape :: "string \<Rightarrow> string"
  av_dec_enroll :: "string \<Rightarrow> auto_enroll_response option"
  av_dec_token :: "string \<Rightarrow> token_response option"
  av_dec_heartbeat :: "string \<Rightarrow> heartbeat_response option"
  av_dec_command :: "string \<Rightarrow> agent_command option"

datatype auto_event =
    Swept | Slept int | Sent wire_request wire_reply | Ran agent_command int | Hooked stage_result | Stored persisted_config

record auto_runner =
  ru_tick :: nat
  ru_store :: "persisted_config option"
  ru_cert :: "loaded_cert option"
  ru_tracker :: tracker
  ru_open :: "nat set"
  ru_trace :: "auto_event list"

section \<open>Sequencing\<close>

type_synonym 'a auto = "auto_runner \<Rightarrow> (auto_error + 'a) \<times> auto_runner"

definition auto_ret :: "'a \<Rightarrow> 'a auto" where
  "auto_ret a s = (Inr a, s)"

definition auto_fail :: "auto_error \<Rightarrow> 'a auto" where
  "auto_fail e s = (Inl e, s)"

definition auto_bind :: "'a auto \<Rightarrow> ('a \<Rightarrow> 'b auto) \<Rightarrow> 'b auto" where
  "auto_bind m f s = (case m s of (Inl e, s) \<Rightarrow> (Inl e, s) | (Inr a, s) \<Rightarrow> f a s)"

definition auto_wrap :: "string \<Rightarrow> 'a auto \<Rightarrow> 'a auto" where
  "auto_wrap pre m s = (case m s of (Inl e, s) \<Rightarrow> (Inl (wrap_error pre e), s) | (Inr a, s) \<Rightarrow> (Inr a, s))"

definition auto_do :: "(auto_runner \<Rightarrow> auto_runner) \<Rightarrow> unit auto" where
  "auto_do g s = (Inr (), g s)"

text \<open>The n-th call of the environment.\<close>

definition auto_call :: "(nat \<Rightarrow> auto_error + 'a) \<Rightarrow> 'a auto" where
  "auto_call f s = (f (ru_tick s), s\<lparr>ru_tick := Suc (ru_tick s)\<rparr>)"

definition auto_now :: "auto_env \<Rightarrow> int auto" where
  "auto_now A = auto_call (\<lambda>n. Inr (av_now A n))"

definition log_event :: "auto_event \<Rightarrow> auto_runner \<Rightarrow> auto_runner" where
  "log_event e s = s\<lparr>ru_trace := ru_trace s @ [e]\<rparr>"

section \<open>The wire client\<close>

definition new_wire_client :: "auto_env \<Rightarrow> string \<Rightarrow> auto_error option" where
  "new_wire_client A base =
    (case av_url A (rev (dropWhile (\<lambda>c. c = CHR ''/'') (rev base))) of
       None \<Rightarrow> Some (other_error ''autoenroll: parse base url'')
     | Some u \<Rightarrow>
        if pu_scheme u = [] \<or> pu_host u = [] then Some (other_error ''autoenroll: base url must include scheme and host'')
        else if pu_query u \<noteq> [] \<or> pu_fragment u \<noteq> []
        then Some (other_error ''autoenroll: base url must not carry query or fragment'')
        else None)"

definition server_name_from_url :: "auto_env \<Rightarrow> string \<Rightarrow> auto_error + string" where
  "server_name_from_url A raw =
    (case av_url A raw of None \<Rightarrow> Inl (other_error ''parse api url'')
     | Some u \<Rightarrow> if pu_hostname u = [] then Inl (other_error ''api url missing host'') else Inr (pu_hostname u))"

text \<open>
  One request.  \<open>no_out\<close> is the result of a call without an output on 204; such a call also ignores the body.
\<close>

definition do_raw :: "auto_env \<Rightarrow> wire_request \<Rightarrow> 'a option \<Rightarrow> (string \<Rightarrow> 'a option) \<Rightarrow> 'a auto" where
  "do_raw A rq no_out decode s =
    (let reply = av_http A (ru_tick s) rq;
         s = log_event (Sent rq reply) (s\<lparr>ru_tick := Suc (ru_tick s)\<rparr>);
         what = wr_method rq @ '' '' @ wr_path rq in
     (case reply of
        DialFailed t \<Rightarrow> Inl (other_error (''dial '' @ what @ '': '' @ t))
      | WireReply status body \<Rightarrow>
          if status = 204 then (case no_out of Some a \<Rightarrow> Inr a | None \<Rightarrow> Inl err_no_command)
          else if status = 401 \<or> status = 403 then
            Inl (err_auth (what @ '' returned '' @ format_nat status @ '': '' @ trim_space (take 4096 body)))
          else if status < 200 \<or> status > 299 then
            Inl (other_error (what @ '' returned '' @ format_nat status @ '': '' @ trim_space (take 4096 body)))
          else (case decode body of None \<Rightarrow> Inl (other_error (''decode '' @ what @ '' response'')) | Some a \<Rightarrow> Inr a),
      s))"

definition do_authed :: "auto_env \<Rightarrow> wire_request \<Rightarrow> 'a option \<Rightarrow> (string \<Rightarrow> 'a option) \<Rightarrow> 'a auto" where
  "do_authed A rq no_out decode =
    (if blank (wr_token rq) then auto_fail (other_error (''service token is empty (cannot authenticate '' @ wr_method rq @ '' '' @ wr_path rq @ '')''))
     else do_raw A rq no_out decode)"

text \<open>Without a token the certificate is the only credential.\<close>

definition do_either :: "auto_env \<Rightarrow> wire_request \<Rightarrow> 'a option \<Rightarrow> (string \<Rightarrow> 'a option) \<Rightarrow> 'a auto" where
  "do_either A rq no_out decode =
    (if wr_token rq = [] then do_raw A rq no_out decode else do_authed A rq no_out decode)"

definition wire_auto_enroll :: "auto_env \<Rightarrow> auto_enroll_response auto" where
  "wire_auto_enroll A = do_raw A \<lparr>wr_method = ''POST'', wr_path = ''/endpoint-enrollments/auto'', wr_token = [],
     wr_payload = EnrollBody\<rparr> None (av_dec_enroll A)"

definition wire_refresh_token :: "auto_env \<Rightarrow> string \<Rightarrow> token_response auto" where
  "wire_refresh_token A token = do_authed A \<lparr>wr_method = ''POST'', wr_path = ''/service-token/refresh'', wr_token = token,
     wr_payload = NoBody\<rparr> None (av_dec_token A)"

definition wire_heartbeat :: "auto_env \<Rightarrow> string \<Rightarrow> agent_state \<Rightarrow> heartbeat_response auto" where
  "wire_heartbeat A token st = do_either A \<lparr>wr_method = ''POST'', wr_path = ''/heartbeat'', wr_token = token,
     wr_payload = HeartbeatBody st\<rparr> None (av_dec_heartbeat A)"

definition wire_next_command :: "auto_env \<Rightarrow> string \<Rightarrow> agent_command auto" where
  "wire_next_command A token = do_either A \<lparr>wr_method = ''GET'', wr_path = ''/commands/next'', wr_token = token,
     wr_payload = NoBody\<rparr> None (av_dec_command A)"

definition wire_submit_result :: "auto_env \<Rightarrow> string \<Rightarrow> command_result \<Rightarrow> unit auto" where
  "wire_submit_result A token r =
    (if blank (rs_command_id r) then auto_fail (other_error ''command result is missing a command id'')
     else if blank (rs_claim_id r) then auto_fail (other_error ''command result is missing a claim id'')
     else do_either A \<lparr>wr_method = ''POST'', wr_path = ''/commands/'' @ av_escape A (rs_command_id r) @ ''/result'',
       wr_token = token, wr_payload = ResultBody r\<rparr> (Some ()) (\<lambda>_. Some ()))"

section \<open>Certificates and their handles\<close>

text \<open>Loading opens a handle; \<open>close_signer\<close> releases it.\<close>

definition load_cert :: "auto_env \<Rightarrow> loaded_cert auto" where
  "load_cert A s =
    (let n = ru_tick s; s = s\<lparr>ru_tick := Suc n\<rparr> in
     case av_load A n of
       Inl e \<Rightarrow> (Inl e, s)
     | Inr c \<Rightarrow> (Inr (c\<lparr>ld_signer := n\<rparr>), s\<lparr>ru_open := insert n (ru_open s)\<rparr>))"

definition close_signer :: "loaded_cert option \<Rightarrow> auto_runner \<Rightarrow> auto_runner" where
  "close_signer c s = (case c of None \<Rightarrow> s | Some c \<Rightarrow> s\<lparr>ru_open := ru_open s - {ld_signer c}\<rparr>)"

definition build_client :: "auto_env \<Rightarrow> unit auto" where
  "build_client A =
    (case server_name_from_url A (ac_api_url (av_config A)) of
       Inl e \<Rightarrow> auto_fail e
     | Inr host \<Rightarrow>
        auto_bind (auto_call (\<lambda>n. case av_mtls_fails A n of Some t \<Rightarrow> Inl (other_error (''build mtls client: '' @ t)) | None \<Rightarrow> Inr ()))
          (\<lambda>_. case new_wire_client A (ac_api_url (av_config A)) of
             Some e \<Rightarrow> auto_fail (wrap_error ''build wire client'' e)
           | None \<Rightarrow> auto_ret ()))"

definition ensure_cert :: "auto_env \<Rightarrow> unit auto" where
  "ensure_cert A =
    auto_bind (load_cert A) (\<lambda>cert s.
      if (case ru_cert s of None \<Rightarrow> False | Some c \<Rightarrow> ld_sha256 c = ld_sha256 cert)
      then (Inr (), close_signer (Some cert) s)
      else (case build_client A s of
          (Inl e, s) \<Rightarrow> (Inl e, close_signer (Some cert) s)
        | (Inr _, s) \<Rightarrow> (Inr (), close_signer (ru_cert s) (s\<lparr>ru_cert := Some cert\<rparr>))))"

definition no_cert_backoff_schedule :: "int list" where
  "no_cert_backoff_schedule = map (\<lambda>m. m * 60 * 10 ^ 9) [5, 10, 20, 40, 60]"

definition jitter :: "auto_env \<Rightarrow> int \<Rightarrow> int auto" where
  "jitter A max_seconds = (if max_seconds \<le> 0 then auto_ret 0 else auto_call (\<lambda>n. Inr (av_random A n max_seconds * 10 ^ 9)))"

definition sleep_with_context :: "auto_env \<Rightarrow> int \<Rightarrow> unit auto" where
  "sleep_with_context A d =
    (if d \<le> 0 then auto_ret ()
     else auto_bind (auto_do (log_event (Slept d))) (\<lambda>_.
       auto_call (\<lambda>n. if av_cancelled A n then Inl \<lparr>xe_kind = KContext, xe_text = ''context canceled''\<rparr> else Inr ())))"

text \<open>The pause before another try, with up to 30 seconds of jitter.\<close>

definition retry_wait :: "auto_env \<Rightarrow> nat \<Rightarrow> unit auto" where
  "retry_wait A attempt =
    (let d = (if attempt < length no_cert_backoff_schedule then no_cert_backoff_schedule ! attempt
              else last no_cert_backoff_schedule) in
     auto_bind (jitter A 30) (\<lambda>j. sleep_with_context A (d + j)))"

partial_function (option) wait_for_cert :: "auto_env \<Rightarrow> nat \<Rightarrow> auto_runner \<Rightarrow> ((auto_error + unit) \<times> auto_runner) option" where
  "wait_for_cert A attempt s =
    (case load_cert A s of
       (Inr _, s) \<Rightarrow> Some (Inr (), s)
     | (Inl e, s) \<Rightarrow>
        if xe_kind e \<noteq> KNoCert then Some (Inl e, s)
        else (case retry_wait A attempt s of
             (Inl e, s) \<Rightarrow> Some (Inl e, s)
           | (Inr _, s) \<Rightarrow> wait_for_cert A (attempt + 1) s))"

declare wait_for_cert.simps [code]

section \<open>Enrolment\<close>

definition store_read :: "auto_env \<Rightarrow> persisted_config auto" where
  "store_read A s =
    (let n = ru_tick s; s = s\<lparr>ru_tick := Suc n\<rparr> in
     case av_read_fails A n of
       Some e \<Rightarrow> (Inl e, s)
     | None \<Rightarrow> (case ru_store s of
         None \<Rightarrow> (Inl \<lparr>xe_kind = KEmptyStore, xe_text = ''persisted config store is empty''\<rparr>, s)
       | Some p \<Rightarrow> (Inr p, s)))"

definition store_write :: "auto_env \<Rightarrow> persisted_config \<Rightarrow> unit auto" where
  "store_write A p s =
    (let n = ru_tick s; s = s\<lparr>ru_tick := Suc n\<rparr> in
     case av_write_fails A n of
       Some e \<Rightarrow> (Inl e, s)
     | None \<Rightarrow> (Inr (), log_event (Stored p) (s\<lparr>ru_store := Some p\<rparr>)))"

text \<open>Reading at the start of an iteration: an empty store is a zero record, a corrupt one stops.\<close>

definition config_error_of :: "record_error \<Rightarrow> auto_error" where
  "config_error_of e =
    (case e of EmptyConfig \<Rightarrow> \<lparr>xe_kind = KEmptyStore, xe_text = ''persisted config store is empty''\<rparr>
     | InvalidConfig t \<Rightarrow> \<lparr>xe_kind = KInvalidConfig, xe_text = ''persisted config is invalid: '' @ t\<rparr>)"

definition read_persisted :: "auto_env \<Rightarrow> persisted_config auto" where
  "read_persisted A s =
    (case store_read A s of
       (Inl e, s) \<Rightarrow>
         if xe_kind e \<noteq> KEmptyStore then (Inl (wrap_error ''read persisted config'' e), s) else (Inr zero_config, s)
     | (Inr p, s) \<Rightarrow>
         if config_is_zero p then (Inr p, s)
         else (case config_validate p of
             Some e \<Rightarrow> (Inl (wrap_error ''persisted config corrupted (operator intervention required)'' (config_error_of e)), s)
           | None \<Rightarrow> (Inr p, s)))"

definition response_error_of :: "response_error \<Rightarrow> auto_error" where
  "response_error_of e =
    \<lparr>xe_kind = KInvalidResponse, xe_text = ''auto-enroll response invalid: '' @
      (case e of DeviceIdEmpty \<Rightarrow> ''response deviceId empty'' | UnexpectedStatus \<Rightarrow> ''unexpected status''
       | ThumbprintEmpty \<Rightarrow> ''response cert thumbprint empty''
       | NoLocalThumbprint \<Rightarrow> ''no local cert thumbprint to match the response against''
       | ThumbprintMismatch \<Rightarrow> ''response cert thumbprint does not match presented cert'')\<rparr>"

text \<open>The thumbprints of the loaded certificate, empty before the first one.\<close>

definition loaded_sha256 :: "auto_runner \<Rightarrow> string" where
  "loaded_sha256 s = (case ru_cert s of None \<Rightarrow> [] | Some c \<Rightarrow> ld_sha256 c)"

definition loaded_sha1 :: "auto_runner \<Rightarrow> string" where
  "loaded_sha1 s = (case ru_cert s of None \<Rightarrow> [] | Some c \<Rightarrow> ld_sha1 c)"

definition enrolled_config :: "auto_enroll_response \<Rightarrow> int \<Rightarrow> auto_runner \<Rightarrow> persisted_config" where
  "enrolled_config r now s = \<lparr>pc_device_id = ar_device_id r, pc_token = [], pc_expires = None,
     pc_sha256 = loaded_sha256 s, pc_sha1 = loaded_sha1 s, pc_issued = Some now\<rparr>"

definition enroll_again :: "auto_env \<Rightarrow> int \<Rightarrow> persisted_config auto" where
  "enroll_again A now =
    auto_bind (auto_wrap ''auto-enroll'' (wire_auto_enroll A)) (\<lambda>r s.
      case response_validate (av_lower A) (loaded_sha256 s) r of
        Some e \<Rightarrow> (Inl (wrap_error ''auto-enroll'' (response_error_of e)), s)
      | None \<Rightarrow>
          let cfg = enrolled_config r now s in
          (case config_validate cfg of
             Some e \<Rightarrow> (Inl (wrap_error ''auto-enroll response invalid'' (config_error_of e)), s)
           | None \<Rightarrow> auto_bind (auto_wrap ''persist enrollment'' (store_write A cfg)) (\<lambda>_. auto_ret cfg) s))"

definition reconcile_enrollment :: "auto_env \<Rightarrow> persisted_config \<Rightarrow> persisted_config auto" where
  "reconcile_enrollment A p =
    auto_bind (auto_now A) (\<lambda>now s.
      if config_is_zero p \<or> cert_thumbprint_changed (loaded_sha256 s) p \<or> token_expired now p
      then enroll_again A now s else (Inr p, s))"

definition maybe_refresh_token :: "auto_env \<Rightarrow> persisted_config \<Rightarrow> persisted_config auto" where
  "maybe_refresh_token A p =
    (if pc_token p = [] then auto_fail err_tokenless
     else auto_bind (auto_now A) (\<lambda>now.
       if config_is_zero p \<or> token_expired now p then auto_ret p
       else if \<not> token_expiring_within now (ac_refresh_window (av_config A)) p then auto_ret p
       else (\<lambda>s. case wire_refresh_token A (pc_token p) s of
           (Inl e, s) \<Rightarrow> if xe_kind e = KAuth then (Inl e, s) else (Inr p, s)
         | (Inr r, s) \<Rightarrow>
             let p = p\<lparr>pc_token := tr_token r, pc_expires := tr_expires r\<rparr> in
             (case config_validate p of
                Some e \<Rightarrow> (Inl (wrap_error ''token refresh response invalid'' (config_error_of e)), s)
              | None \<Rightarrow> auto_bind (auto_wrap ''persist refreshed token'' (store_write A p)) (\<lambda>_. auto_ret p) s))))"

section \<open>Heartbeat\<close>

definition on_tracker :: "(tracker \<Rightarrow> tracker) \<Rightarrow> auto_runner \<Rightarrow> auto_runner" where
  "on_tracker f s = s\<lparr>ru_tracker := f (ru_tracker s)\<rparr>"

text \<open>Recording a failure takes the time first.\<close>

definition failed_with :: "auto_env \<Rightarrow> auto_error \<Rightarrow> 'a auto" where
  "failed_with A e = auto_bind (auto_now A) (\<lambda>now s. (Inl e, on_tracker (record_failure now) s))"

definition grace_error :: auto_error where
  "grace_error = other_error ''grace window expired''"

definition check_grace :: "auto_env \<Rightarrow> heartbeat_response \<Rightarrow> unit auto" where
  "check_grace A r =
    (if hb_grace_window r then
       (case hb_grace_until r of None \<Rightarrow> auto_ret ()
        | Some until \<Rightarrow>
            auto_bind (case hb_server_time r of Some t \<Rightarrow> auto_ret t | None \<Rightarrow> auto_now A)
              (\<lambda>ref. if until < ref then auto_fail grace_error else auto_ret ()))
     else auto_ret ())"

definition check_not_after :: "auto_env \<Rightarrow> unit auto" where
  "check_not_after A s =
    (case ru_cert s of None \<Rightarrow> (Inr (), s)
     | Some c \<Rightarrow> (case ld_not_after c of None \<Rightarrow> (Inr (), s)
         | Some t \<Rightarrow> auto_bind (auto_now A) (\<lambda>now. if t < now then auto_fail (other_error ''local cert expired'') else auto_ret ()) s))"

definition beat_once :: "auto_env \<Rightarrow> string \<Rightarrow> unit auto" where
  "beat_once A token =
    auto_bind (auto_do (on_tracker record_success)) (\<lambda>_ s.
      case wire_heartbeat A token (tk_state (ru_tracker s)) s of
        (Inl e, s) \<Rightarrow> failed_with A e s
      | (Inr r, s) \<Rightarrow>
          if \<not> hb_accepted r then failed_with A (err_auth (''heartbeat accepted=false status='' @ hb_status r)) s
          else auto_bind (check_grace A r) (\<lambda>_. check_not_after A) s)"

definition bearer_heartbeat :: "auto_env \<Rightarrow> persisted_config \<Rightarrow> unit auto" where
  "bearer_heartbeat A p = (if pc_token p = [] then auto_fail err_tokenless else beat_once A (pc_token p))"

definition heartbeat_cert :: "auto_env \<Rightarrow> unit auto" where
  "heartbeat_cert A = beat_once A []"

section \<open>Commands\<close>

definition command_timeout :: "auto_config \<Rightarrow> string \<Rightarrow> int" where
  "command_timeout c typ =
    (if typ = ''INSTALL_SOFTWARE'' \<and> ac_install_timeout c > 0 then ac_install_timeout c
     else if typ = ''UNINSTALL_SOFTWARE'' \<and> ac_uninstall_timeout c > 0 then ac_uninstall_timeout c
     else if typ = ''UPDATE_AGENT'' \<and> ac_self_update_timeout c > 0 then ac_self_update_timeout c
     else ac_command_timeout c)"

definition maybe_launch_activation :: "auto_env \<Rightarrow> agent_command \<Rightarrow> command_result \<Rightarrow> unit auto" where
  "maybe_launch_activation A c r =
    (if cm_type c \<noteq> ''UPDATE_AGENT'' \<or> rs_status r \<noteq> ''SUCCEEDED'' \<or> \<not> av_hooks A then auto_ret ()
     else (case rs_update r of None \<Rightarrow> auto_ret ()
       | Some stage \<Rightarrow> if sr_status stage \<noteq> StageReady then auto_ret () else auto_do (log_event (Hooked stage))))"

definition execute_command :: "auto_env \<Rightarrow> agent_command \<Rightarrow> command_result auto" where
  "execute_command A c s =
    (let t = command_timeout (av_config A) (cm_type c); n = ru_tick s in
     (Inr (av_execute A n t c), log_event (Ran c t) (s\<lparr>ru_tick := Suc n\<rparr>)))"

definition poll_and_execute_internal :: "auto_env \<Rightarrow> string \<Rightarrow> unit auto" where
  "poll_and_execute_internal A token s =
    (case wire_next_command A token s of
       (Inl e, s) \<Rightarrow> if xe_kind e = KNoCommand then (Inr (), s) else failed_with A e s
     | (Inr c, s) \<Rightarrow>
        auto_bind (execute_command A c) (\<lambda>r s.
          case wire_submit_result A token r s of
            (Inl e, s) \<Rightarrow> failed_with A e s
          | (Inr _, s) \<Rightarrow> maybe_launch_activation A c r s) s)"

definition poll_and_execute :: "auto_env \<Rightarrow> persisted_config \<Rightarrow> unit auto" where
  "poll_and_execute A p = (if pc_token p = [] then auto_fail err_tokenless else poll_and_execute_internal A (pc_token p))"

definition poll_and_execute_cert :: "auto_env \<Rightarrow> unit auto" where
  "poll_and_execute_cert A = poll_and_execute_internal A []"

section \<open>One iteration, and the loop\<close>

text \<open>From the certificate on, \<open>RunOnce\<close> and \<open>iterate\<close> are the same.\<close>

definition reconcile_and_serve :: "auto_env \<Rightarrow> persisted_config \<Rightarrow> unit auto" where
  "reconcile_and_serve A p =
    auto_bind (ensure_cert A) (\<lambda>_.
    auto_bind (reconcile_enrollment A p) (\<lambda>p.
      if is_tokenless_enrollment p then auto_bind (heartbeat_cert A) (\<lambda>_. poll_and_execute_cert A)
      else auto_bind (maybe_refresh_token A p) (\<lambda>p.
           auto_bind (bearer_heartbeat A p) (\<lambda>_. poll_and_execute A p))))"

definition run_once :: "auto_env \<Rightarrow> unit auto" where
  "run_once A =
    auto_bind (if av_sweeps A then auto_do (log_event Swept) else auto_ret ()) (\<lambda>_.
    auto_bind (read_persisted A) (\<lambda>p.
    auto_bind (if config_is_zero p \<and> av_registry_jitter A > 0
               then auto_bind (jitter A (av_registry_jitter A)) (sleep_with_context A) else auto_ret ()) (\<lambda>_.
      reconcile_and_serve A p)))"

definition iterate :: "auto_env \<Rightarrow> unit auto" where
  "iterate A = auto_bind (read_persisted A) (reconcile_and_serve A)"

datatype loop_event = LoopDone | LoopTick

text \<open>The select loop over the events of a finite run; \<open>None\<close>: it still waits.\<close>

fun loop_ticks :: "auto_env \<Rightarrow> loop_event list \<Rightarrow> auto_runner \<Rightarrow> auto_error option \<times> auto_runner" where
  "loop_ticks A [] s = (None, s)"
| "loop_ticks A (LoopDone # _) s =
    (Some \<lparr>xe_kind = KContext, xe_text = ''context canceled''\<rparr>, on_tracker tracker_stop s)"
| "loop_ticks A (LoopTick # es) s =
    (case iterate A s of
       (Inl e, s) \<Rightarrow> if is_fatal e then (Some e, s) else loop_ticks A es s
     | (Inr _, s) \<Rightarrow> loop_ticks A es s)"

definition run_loop :: "auto_env \<Rightarrow> loop_event list \<Rightarrow> auto_runner \<Rightarrow> (auto_error option \<times> auto_runner) option" where
  "run_loop A es s =
    (case wait_for_cert A 0 s of
       None \<Rightarrow> None
     | Some (Inl e, s) \<Rightarrow> Some (Some e, s)
     | Some (Inr _, s) \<Rightarrow>
        Some (case run_once A s of
          (Inl e, s) \<Rightarrow> if is_fatal e then (Some e, s) else loop_ticks A es s
        | (Inr _, s) \<Rightarrow> loop_ticks A es s))"

definition device_id :: "auto_env \<Rightarrow> auto_runner \<Rightarrow> string \<times> auto_runner" where
  "device_id A s = (case store_read A s of (Inl _, s) \<Rightarrow> ([], s) | (Inr p, s) \<Rightarrow> (trim_space (pc_device_id p), s))"

section \<open>A backend that enrols the agent and hands out one update\<close>

definition sample_stage :: stage_result where
  "sample_stage = zero_stage_result\<lparr>sr_status := StageReady\<rparr>"

definition sample_backend :: auto_env where
  "sample_backend = \<lparr>
     av_config = \<lparr>ac_api_url = ''https://h/a'', ac_poll_interval = 30, ac_command_timeout = 120, ac_install_timeout = 1800,
       ac_uninstall_timeout = 1800, ac_self_update_timeout = 1800, ac_refresh_window = 7200\<rparr>,
     av_now = int, av_load = (\<lambda>_. Inr \<lparr>ld_sha256 = ''AB'', ld_sha1 = ''CD'', ld_not_after = None, ld_signer = 0\<rparr>),
     av_read_fails = (\<lambda>_. None), av_write_fails = (\<lambda>_. None), av_http = (\<lambda>_ rq. WireReply 200 (wr_path rq)),
     av_mtls_fails = (\<lambda>_. None), av_cancelled = (\<lambda>_. False), av_random = (\<lambda>_ _. 0),
     av_execute = (\<lambda>_ _ c. \<lparr>rs_command_id = cm_id c, rs_claim_id = cm_claim c, rs_status = ''SUCCEEDED'', rs_update = Some sample_stage\<rparr>),
     av_registry_jitter = 0, av_sweeps = True, av_hooks = True, av_lower = id,
     av_url = (\<lambda>_. Some \<lparr>pu_scheme = ''https'', pu_host = ''h'', pu_hostname = ''h'', pu_query = [], pu_fragment = []\<rparr>),
     av_escape = id, av_dec_enroll = (\<lambda>_. Some \<lparr>ar_device_id = ''d1'', ar_status = status_enrolled, ar_thumbprint = ''AB''\<rparr>),
     av_dec_token = (\<lambda>_. None),
     av_dec_heartbeat = (\<lambda>_. Some \<lparr>hb_accepted = True, hb_status = ''ok'', hb_server_time = None, hb_grace_window = False, hb_grace_until = None\<rparr>),
     av_dec_command = (\<lambda>_. Some \<lparr>cm_id = ''c1'', cm_claim = ''k1'', cm_type = ''UPDATE_AGENT''\<rparr>)\<rparr>"

definition fresh_runner :: auto_runner where
  "fresh_runner = \<lparr>ru_tick = 0, ru_store = None, ru_cert = None, ru_tracker = new_tracker None, ru_open = {}, ru_trace = []\<rparr>"

lemma fresh_wait:
  assumes "av_load A 0 = Inr c"
  shows "wait_for_cert A 0 fresh_runner = Some (Inr (), fresh_runner\<lparr>ru_tick := 1, ru_open := {0}\<rparr>)"
  using assms by (simp add: wait_for_cert.simps [of A 0] load_cert_def fresh_runner_def Let_def)

lemma fresh_runs: "av_load A 0 = Inr c \<Longrightarrow> \<exists>r s'. run_loop A es fresh_runner = Some (r, s')"
  by (simp add: run_loop_def fresh_wait split: prod.split sum.split)

section \<open>What a step leaves alone\<close>

lemmas auto_defs = auto_ret_def auto_fail_def auto_do_def auto_call_def auto_now_def

text \<open>\<open>m\<close> keeps the invariant \<open>I\<close>.\<close>

definition pres :: "(auto_runner \<Rightarrow> bool) \<Rightarrow> 'a auto \<Rightarrow> bool" where
  "pres I m \<longleftrightarrow> (\<forall>s. I s \<longrightarrow> I (snd (m s)))"

lemma presI: "(\<And>s. I s \<Longrightarrow> I (snd (m s))) \<Longrightarrow> pres I m"
  by (simp add: pres_def)

lemma presD: "pres I m \<Longrightarrow> I s \<Longrightarrow> m s = (r, s') \<Longrightarrow> I s'"
  by (metis pres_def snd_conv)

named_theorems pres \<open>steps that keep an invariant\<close>

lemma pres_bind [pres]: "pres I m \<Longrightarrow> (\<And>a. pres I (f a)) \<Longrightarrow> pres I (auto_bind m f)"
  by (auto simp: pres_def auto_bind_def split: prod.splits sum.splits)

lemma pres_wrap [pres]: "pres I m \<Longrightarrow> pres I (auto_wrap pre m)"
  by (auto simp: pres_def auto_wrap_def split: prod.splits sum.splits)

lemma pres_trivial [pres]: "pres I (auto_ret a)" "pres I (auto_fail e)"
  by (simp_all add: pres_def auto_defs)

lemma pres_if [pres]: "pres I m \<Longrightarrow> pres I n \<Longrightarrow> pres I (if b then m else n)"
    "pres I m \<Longrightarrow> pres I n \<Longrightarrow> pres I (\<lambda>s. if b then m s else n s)"
  by (simp_all add: pres_def)

text \<open>A step whose error is handled.\<close>

lemma pres_case:
  assumes "pres I m" and "I s" and "\<And>e. pres I (f e)" and "\<And>a. pres I (g a)"
  shows "I (snd (case m s of (Inl e, s) \<Rightarrow> f e s | (Inr a, s) \<Rightarrow> g a s))"
proof (cases "m s")
  case (Pair r s')
  then have "I s'" using assms(1,2) by (metis presD)
  then show ?thesis using Pair assms(3,4) by (cases r) (simp_all add: pres_def)
qed

text \<open>A service with a bearer token is the same heartbeat and poll.\<close>

definition service :: "auto_env \<Rightarrow> string \<Rightarrow> unit auto" where
  "service A token = auto_bind (beat_once A token) (\<lambda>_. poll_and_execute_internal A token)"

lemma bearer_service:
  "auto_bind (bearer_heartbeat A p) (\<lambda>_. poll_and_execute A p) =
    (if pc_token p = [] then auto_fail err_tokenless else service A (pc_token p))"
  by (auto simp: bearer_heartbeat_def poll_and_execute_def service_def auto_bind_def auto_fail_def fun_eq_iff)

lemma serve_eq:
  "reconcile_and_serve A p =
    auto_bind (ensure_cert A) (\<lambda>_. auto_bind (reconcile_enrollment A p) (\<lambda>p.
      if is_tokenless_enrollment p then service A []
      else auto_bind (maybe_refresh_token A p) (\<lambda>p.
        if pc_token p = [] then auto_fail err_tokenless else service A (pc_token p))))"
  by (simp add: reconcile_and_serve_def bearer_service service_def heartbeat_cert_def poll_and_execute_cert_def cong: if_cong)

text \<open>An invariant of the parts of an iteration is one of the loop.\<close>

locale serve_invariant =
  fixes A :: auto_env and I :: "auto_runner \<Rightarrow> bool"
  assumes keeps_cert: "pres I (ensure_cert A)"
    and keeps_enrollment: "pres I (reconcile_enrollment A p)" "pres I (maybe_refresh_token A p)" "pres I (read_persisted A)"
    and keeps_service: "pres I (service A t)"
begin

lemma keeps_serve: "pres I (reconcile_and_serve A p)"
  unfolding serve_eq by (intro pres keeps_cert keeps_enrollment keeps_service)

lemma keeps_iterate: "pres I (iterate A)"
  unfolding iterate_def by (intro pres keeps_enrollment keeps_serve)

lemma keeps_ticks:
  assumes "\<And>s. I s \<Longrightarrow> I (on_tracker tracker_stop s)"
  shows "I s \<Longrightarrow> I (snd (loop_ticks A es s))"
proof (induction es arbitrary: s)
  case (Cons e es)
  have "I (snd (iterate A s))" using keeps_iterate Cons.prems by (simp add: pres_def)
  then show ?case using Cons assms by (cases e) (auto split: prod.split sum.split)
qed simp

end

locale loop_invariant = serve_invariant +
  assumes keeps_sweep: "pres I (auto_do (log_event Swept))" "pres I (jitter A k)" "pres I (sleep_with_context A d)"
begin

lemma keeps_run_once: "pres I (run_once A)"
  unfolding run_once_def by (intro pres keeps_sweep keeps_enrollment keeps_serve)

end

text \<open>What loading and pausing keep, the wait keeps.\<close>

lemma wait_keeps:
  assumes load: "pres I (load_cert A)" and retry: "\<And>n. pres I (retry_wait A n)" and wait: "wait_for_cert A k s = Some y"
  shows "I s \<longrightarrow> I (snd y)"
proof (rule wait_for_cert.raw_induct [of "\<lambda>B k s y. B = A \<longrightarrow> I s \<longrightarrow> I (snd y)", OF _ wait, THEN mp, OF _ refl], goal_cases)
  case (1 f B k s y)
  show ?case
  proof (intro impI)
    assume B: "B = A" and s: "I s"
    obtain r s1 where r: "load_cert A s = (r, s1)" by fastforce
    have s1: "I s1" by (rule presD [OF load s r])
    obtain q s2 where q: "retry_wait A k s1 = (q, s2)" by fastforce
    have s2: "I s2" by (rule presD [OF retry s1 q])
    show "I (snd y)"
    proof (cases r)
      case (Inr c)
      then show ?thesis using 1(2) r s1 B by auto
    next
      case (Inl e)
      show ?thesis
      proof (cases "xe_kind e = KNoCert")
        case False
        then show ?thesis using 1(2) r Inl s1 B by auto
      next
        case True
        then have "(case q of Inl e \<Rightarrow> Some (Inl e, s2) | Inr _ \<Rightarrow> f A (k + 1) s2) = Some y"
          using 1(2) r q Inl B by (simp split: sum.splits)
        then show ?thesis using 1(1) [of A "k + 1" s2 y] s2 by (cases q) auto
      qed
    qed
  qed
qed

text \<open>Invariants that do not look at the number of calls, the trace or the store.\<close>

locale quiet_invariant =
  fixes A :: auto_env and I :: "auto_runner \<Rightarrow> bool"
  assumes tick_ok: "I s \<Longrightarrow> I (s\<lparr>ru_tick := Suc (ru_tick s)\<rparr>)"
    and log_ok: "e \<noteq> Swept \<Longrightarrow> I s \<Longrightarrow> I (log_event e s)"
    and store_ok: "I s \<Longrightarrow> I (s\<lparr>ru_store := x\<rparr>)"
begin

lemma call: "pres I (auto_call f)" "pres I (auto_now A)" "e \<noteq> Swept \<Longrightarrow> pres I (auto_do (log_event e))"
  by (simp_all add: pres_def auto_defs tick_ok log_ok)

lemma requests: "pres I (do_raw A rq no_out decode)" "pres I (do_authed A rq no_out decode)" "pres I (do_either A rq no_out decode)"
proof -
  show raw: "pres I (do_raw A rq no_out decode)"
    by (simp add: pres_def do_raw_def Let_def tick_ok log_ok)
  show authed: "pres I (do_authed A rq no_out decode)" unfolding do_authed_def by (intro pres raw)
  show "pres I (do_either A rq no_out decode)" unfolding do_either_def by (intro pres raw authed)
qed

lemma store: "pres I (store_read A)" "pres I (store_write A p)" "pres I (read_persisted A)"
proof -
  show r: "pres I (store_read A)" by (auto simp: pres_def store_read_def Let_def tick_ok split: option.split)
  show "pres I (store_write A p)" by (auto simp: pres_def store_write_def Let_def tick_ok log_ok store_ok split: option.split)
  show "pres I (read_persisted A)"
    using r by (auto simp: pres_def read_persisted_def split: prod.split sum.split option.split)
qed

lemma enrollment: "pres I (enroll_again A now)" "pres I (reconcile_enrollment A p)" "pres I (maybe_refresh_token A p)"
proof -
  have w: "pres I (auto_bind (auto_wrap pre (store_write A p)) (\<lambda>_. auto_ret p))" for pre p
    by (intro pres store)
  have e: "pres I (auto_wrap ''auto-enroll'' (wire_auto_enroll A))" "pres I (wire_refresh_token A t)" for t
    unfolding wire_auto_enroll_def wire_refresh_token_def by (intro pres requests)+
  show a: "pres I (enroll_again A now)" for now
    unfolding enroll_again_def
    by (intro pres_bind e presI) (auto simp: Let_def split: option.split intro: w [unfolded pres_def, rule_format])
  show "pres I (reconcile_enrollment A p)"
    unfolding reconcile_enrollment_def
    by (intro pres_bind call presI) (auto intro: a [unfolded pres_def, rule_format])
  show "pres I (maybe_refresh_token A p)"
    unfolding maybe_refresh_token_def
    by (intro pres call presI) (use e(2) in \<open>auto simp: Let_def split: option.split prod.split sum.split
      dest: presD intro: w [unfolded pres_def, rule_format]\<close>)
qed

lemma waiting: "pres I (jitter A k)" "pres I (sleep_with_context A d)" "pres I (retry_wait A n)"
  unfolding retry_wait_def Let_def jitter_def sleep_with_context_def by (intro pres call; simp)+

lemma executing: "pres I (execute_command A c)" "pres I (maybe_launch_activation A c r)"
proof -
  show "pres I (execute_command A c)" by (simp add: pres_def execute_command_def Let_def tick_ok log_ok)
  show "pres I (maybe_launch_activation A c r)"
    unfolding maybe_launch_activation_def by (auto intro!: pres call split: option.split)
qed

lemma wires: "pres I (wire_heartbeat A t st)" "pres I (wire_next_command A t)" "pres I (wire_submit_result A t r)"
  unfolding wire_heartbeat_def wire_next_command_def wire_submit_result_def by (intro pres requests)+

lemma checks: "pres I (check_grace A r)" "pres I (check_not_after A)"
proof -
  show "pres I (check_grace A r)"
    unfolding check_grace_def by (auto intro!: pres call split: option.split)
  have "pres I (auto_bind (auto_now A) (\<lambda>now. if t < now then auto_fail e else auto_ret ()))" for t and e :: auto_error
    by (intro pres call)
  then show "pres I (check_not_after A)"
    by (auto simp: pres_def check_not_after_def split: option.split)
qed

end

section \<open>Key handles\<close>

text \<open>Exactly the key of the loaded certificate is open.\<close>

definition keys_ok :: "auto_runner \<Rightarrow> bool" where
  "keys_ok s \<longleftrightarrow> ru_open s = (case ru_cert s of None \<Rightarrow> {} | Some c \<Rightarrow> {ld_signer c}) \<and> (\<forall>c. ru_cert s = Some c \<longrightarrow> ld_signer c < ru_tick s)"

locale key_invariant = quiet_invariant +
  assumes tracker_ok: "I s \<Longrightarrow> I (on_tracker f s)"
begin

lemma failing: "pres I (failed_with A e)"
  unfolding failed_with_def by (intro pres_bind call presI) (simp add: tracker_ok)

lemma heartbeat_keeps: "pres I (beat_once A t)"
proof -
  have c: "pres I (auto_bind (check_grace A r) (\<lambda>_. check_not_after A))" for r by (intro pres checks)
  have d: "pres I (auto_do (on_tracker record_success))" by (simp add: pres_def auto_do_def tracker_ok)
  show ?thesis
    unfolding beat_once_def by (intro pres_bind d presI pres_case [OF wires(1)] failing pres_if c)
qed

lemma service_keeps: "pres I (service A t)"
proof -
  have "pres I (auto_bind (execute_command A c) (\<lambda>r s. case wire_submit_result A t r s of
        (Inl e, s) \<Rightarrow> failed_with A e s | (Inr _, s) \<Rightarrow> maybe_launch_activation A c r s))" for c
    by (intro pres_bind executing presI pres_case [OF wires(3)] failing)
  then have "pres I (poll_and_execute_internal A t)"
    unfolding poll_and_execute_internal_def by (intro presI pres_case [OF wires(2)] pres_if(2) failing) (simp_all add: pres_def)
  then show ?thesis unfolding service_def by (intro pres heartbeat_keeps)
qed

end

lemma build_client_cases:
  "\<exists>n. snd (build_client A s) = s\<lparr>ru_tick := n\<rparr> \<and> ru_tick s \<le> n"
  by (auto simp: build_client_def auto_bind_def auto_defs split: sum.split option.split)
    (metis auto_runner.surjective auto_runner.update_convs(1) order_refl le_SucI)+

text \<open>What a load of the certificate does to the keys: nothing lasting, or the old key is replaced by the new one.\<close>

lemma ensure_cert_cases:
  obtains
    (same) k where "snd (ensure_cert A s) = s\<lparr>ru_tick := k\<rparr>" "ru_tick s \<le> k"
  | (closed) k where "snd (ensure_cert A s) = s\<lparr>ru_tick := k, ru_open := insert (ru_tick s) (ru_open s) - {ru_tick s}\<rparr>"
      "ru_tick s < k"
  | (loaded) k c where "ld_signer c = ru_tick s" "ru_tick s < k" "snd (ensure_cert A s) =
      close_signer (ru_cert s) (s\<lparr>ru_open := insert (ru_tick s) (ru_open s), ru_tick := k, ru_cert := Some c\<rparr>)"
proof -
  let ?n = "ru_tick s"
  show thesis
  proof (cases "av_load A ?n")
    case (Inl e)
    then show thesis by (intro same [of "Suc ?n"]) (simp_all add: ensure_cert_def auto_bind_def load_cert_def Let_def)
  next
    case (Inr c)
    let ?c = "c\<lparr>ld_signer := ?n\<rparr>" and ?s = "s\<lparr>ru_tick := Suc ?n, ru_open := insert ?n (ru_open s)\<rparr>"
    obtain r s1 where b: "build_client A ?s = (r, s1)" by fastforce
    obtain k where s1: "s1 = ?s\<lparr>ru_tick := k\<rparr>" "Suc ?n \<le> k" using build_client_cases [of A ?s] b by auto
    have load: "load_cert A s = (Inr ?c, ?s)" by (simp add: load_cert_def Inr Let_def)
    show thesis
    proof (cases "case ru_cert s of None \<Rightarrow> False | Some d \<Rightarrow> ld_sha256 d = ld_sha256 c")
      case True
      then show thesis using load
        by (intro closed [of "Suc ?n"]) (auto simp: ensure_cert_def auto_bind_def close_signer_def split: option.splits)
    next
      case False
      have differs: "\<not> (case ru_cert ?s of None \<Rightarrow> False | Some d \<Rightarrow> ld_sha256 d = ld_sha256 ?c)"
        using False by (auto split: option.splits)
      show thesis
      proof (cases r)
        case (Inl e)
        then have "ensure_cert A s = (Inl e, close_signer (Some ?c) s1)"
          using load b differs by (simp only: ensure_cert_def auto_bind_def) simp
        then show thesis using s1 by (intro closed [of k]) (simp_all add: close_signer_def)
      next
        case (Inr u)
        then have "ensure_cert A s = (Inr (), close_signer (ru_cert s1) (s1\<lparr>ru_cert := Some ?c\<rparr>))"
          using load b differs by (simp only: ensure_cert_def auto_bind_def) simp
        then show thesis using s1 by (intro loaded [of ?c k]) simp_all
      qed
    qed
  qed
qed

lemma ensure_cert_keys: "pres keys_ok (ensure_cert A)"
proof (rule presI)
  fix s
  assume ok: "keys_ok s"
  show "keys_ok (snd (ensure_cert A s))"
    by (cases rule: ensure_cert_cases [of A s]; cases "ru_cert s") (use ok in \<open>auto simp: keys_ok_def close_signer_def\<close>)
qed

interpretation keys: key_invariant A keys_ok for A
  by unfold_locales (auto simp: keys_ok_def log_event_def on_tracker_def)

lemma sweep_keys: "pres keys_ok (auto_do (log_event Swept))"
  by (simp add: pres_def auto_do_def keys_ok_def log_event_def)

interpretation keys_loop: loop_invariant A keys_ok for A
  by unfold_locales (intro ensure_cert_keys keys.enrollment keys.store keys.service_keeps keys.waiting sweep_keys)+



section \<open>The key of the wait\<close>

definition key_left_open :: "nat \<Rightarrow> auto_runner \<Rightarrow> bool" where
  "key_left_open h s \<longleftrightarrow> h \<in> ru_open s \<and> h < ru_tick s \<and> (\<forall>c. ru_cert s = Some c \<longrightarrow> ld_signer c \<noteq> h)"

lemma ensure_cert_leaves: "pres (key_left_open h) (ensure_cert A)"
proof (rule presI)
  fix s
  assume h: "key_left_open h s"
  show "key_left_open h (snd (ensure_cert A s))"
    by (cases rule: ensure_cert_cases [of A s]; cases "ru_cert s")
      (use h in \<open>auto simp: key_left_open_def close_signer_def\<close>)
qed

interpretation left: key_invariant A "key_left_open h" for A h
  by unfold_locales (auto simp: key_left_open_def log_event_def on_tracker_def)

lemma sweep_leaves: "pres (key_left_open h) (auto_do (log_event Swept))"
  by (simp add: pres_def auto_do_def key_left_open_def log_event_def)

interpretation left_loop: loop_invariant A "key_left_open h" for A h
  by unfold_locales (intro ensure_cert_leaves left.enrollment left.store left.service_keeps left.waiting sweep_leaves)+

text \<open>While the wait goes on, certificate and keys stay.\<close>

interpretation unchanged: quiet_invariant A "\<lambda>s. ru_cert s = c \<and> ru_open s = hs \<and> t \<le> ru_tick s" for A c hs t
  by unfold_locales (auto simp: log_event_def)

definition wait_opened :: "auto_env \<Rightarrow> nat \<Rightarrow> auto_runner \<Rightarrow> (auto_error + unit) \<times> auto_runner \<Rightarrow> bool" where
  "wait_opened A k s y \<longleftrightarrow> (fst y = Inr () \<longrightarrow>
     ru_cert (snd y) = ru_cert s \<and> (\<exists>h. ru_tick s \<le> h \<and> h < ru_tick (snd y) \<and> h \<in> ru_open (snd y)))"

lemma wait_opens:
  assumes "wait_for_cert A k s = Some y"
  shows "wait_opened A k s y"
proof (rule wait_for_cert.raw_induct [of wait_opened, OF _ assms], goal_cases)
  case (1 f A k s y)
  show ?case
  proof (cases "av_load A (ru_tick s)")
    case (Inr c)
    then show ?thesis using 1(2) by (auto simp: load_cert_def Let_def wait_opened_def)
  next
    case (Inl e)
    let ?s = "s\<lparr>ru_tick := Suc (ru_tick s)\<rparr>"
    have w: "pres (\<lambda>x. ru_cert x = ru_cert s \<and> ru_open x = ru_open s \<and> ru_tick s \<le> ru_tick x) (retry_wait A k)"
      by (rule unchanged.waiting(3))
    obtain q s2 where q: "retry_wait A k ?s = (q, s2)" by fastforce
    have "ru_cert s2 = ru_cert s" "ru_tick s \<le> ru_tick s2" using presD [OF w, of ?s] q by auto
    moreover have "f A (k + 1) s2 = Some y" if "fst y = Inr ()"
    proof -
      have step: "(if xe_kind e \<noteq> KNoCert then Some (Inl e, ?s)
          else case q of Inl e \<Rightarrow> Some (Inl e, s2) | Inr _ \<Rightarrow> f A (k + 1) s2) = Some y"
        using 1(2) by (simp add: load_cert_def Inl Let_def q cong: if_cong)
      show ?thesis
      proof (cases "xe_kind e = KNoCert")
        case True
        then show ?thesis using step that by (cases q) auto
      next
        case False
        then show ?thesis using step that by auto
      qed
    qed
    ultimately show ?thesis using 1(1) [of A "k + 1" s2 y] unfolding wait_opened_def by (metis order_trans)
  qed
qed

text \<open>
  Fact: the wait of the service for its first certificate opens a private key that nothing ever releases:
  whatever follows, it stays open and is not the key of the loaded certificate.
\<close>

theorem waiting_key_stays_open:
  assumes "keys_ok s" and wait: "wait_for_cert A 0 s = Some (Inr (), s1)" and run: "run_loop A es s = Some (e, s')"
  shows "\<exists>h. h \<in> ru_open s' \<and> (\<forall>c. ru_cert s' = Some c \<longrightarrow> ld_signer c \<noteq> h)"
proof -
  obtain h where h: "ru_tick s \<le> h" "h < ru_tick s1" "h \<in> ru_open s1" "ru_cert s1 = ru_cert s"
    using wait_opens [OF wait] by (auto simp: wait_opened_def)
  have l: "key_left_open h s1" using h assms(1) by (auto simp: key_left_open_def keys_ok_def)
  have once: "key_left_open h (snd (run_once A s1))" using left_loop.keeps_run_once l by (simp add: pres_def)
  have ticks: "key_left_open h (snd (loop_ticks A es x))" if "key_left_open h x" for x
    by (rule left_loop.keeps_ticks [OF _ that]) (simp add: key_left_open_def on_tracker_def)
  have "key_left_open h s'"
    using run wait once ticks [of "snd (run_once A s1)"]
    by (auto simp: run_loop_def split: prod.splits sum.splits if_splits)
  then show ?thesis by (auto simp: key_left_open_def)
qed

theorem waiting_key_stays_open_witness:
  "\<exists>e s' h. run_loop sample_backend [LoopTick, LoopDone] fresh_runner = Some (e, s') \<and> h \<in> ru_open s' \<and>
     (\<forall>c. ru_cert s' = Some c \<longrightarrow> ld_signer c \<noteq> h)"
proof -
  have load: "av_load sample_backend 0 = Inr \<lparr>ld_sha256 = ''AB'', ld_sha1 = ''CD'', ld_not_after = None, ld_signer = 0\<rparr>"
    by (simp add: sample_backend_def)
  have "keys_ok fresh_runner" by (simp add: keys_ok_def fresh_runner_def)
  then show ?thesis
    using waiting_key_stays_open [OF _ fresh_wait [OF load]] fresh_runs [OF load] by blast
qed

end
