(* ===== verification/AutoLoop.thy ===== *)
theory AutoLoop
  imports AutoRunner
begin

text \<open>
  What holds of every run of the automatic enrolment: how often the recovery sweep runs, what becomes of the
  health of the agent, that a rejection by the backend ends the run, and the order in which requests,
  commands and records follow each other in the trace.
\<close>

section \<open>The recovery sweep\<close>

definition sweeps :: "auto_runner \<Rightarrow> nat" where
  "sweeps s = length (filter (\<lambda>e. e = Swept) (ru_trace s))"

interpretation unswept: key_invariant A "\<lambda>s. sweeps s = n" for A n
  by unfold_locales (auto simp: sweeps_def log_event_def on_tracker_def)

lemma ensure_cert_frame: "ru_trace (snd (ensure_cert A s)) = ru_trace s" "ru_tracker (snd (ensure_cert A s)) = ru_tracker s"
    "ru_store (snd (ensure_cert A s)) = ru_store s"
  by (cases rule: ensure_cert_cases [of A s]; simp add: close_signer_def split: option.split)+

lemma ensure_cert_keeps: "pres (\<lambda>s. P (ru_trace s)) (ensure_cert A)" "pres (\<lambda>s. Q (ru_tracker s)) (ensure_cert A)"
  by (simp_all add: pres_def ensure_cert_frame)

lemma load_cert_frame: "ru_trace (snd (load_cert A s)) = ru_trace s" "ru_tracker (snd (load_cert A s)) = ru_tracker s"
    "ru_store (snd (load_cert A s)) = ru_store s"
  by (auto simp: load_cert_def Let_def split: sum.split)

interpretation unswept_loop: serve_invariant A "\<lambda>s. sweeps s = n" for A n
proof unfold_locales
  show "pres (\<lambda>s. sweeps s = n) (ensure_cert A)" by (simp add: pres_def sweeps_def ensure_cert_frame)
qed (intro unswept.enrollment unswept.store unswept.service_keeps)+

lemma sweeps_once:
  assumes "run_loop A es s = Some (e, s')"
  shows "sweeps s' \<le> sweeps s + 1"
proof -
  obtain r s1 where w: "wait_for_cert A 0 s = Some (r, s1)"
    using assms by (auto simp: run_loop_def split: option.splits)
  have s1: "sweeps s1 = sweeps s"
    using wait_keeps [OF _ unswept.waiting(3) w, of "sweeps s"] by (simp add: pres_def sweeps_def load_cert_frame)
  have "sweeps (snd (loop_ticks A es x)) = sweeps x" for x
    by (rule unswept_loop.keeps_ticks) (simp_all add: sweeps_def on_tracker_def)
  then have ticks: "sweeps y = sweeps x" if "loop_ticks A es x = (q, y)" for x y q by (metis that snd_conv)
  have once: "sweeps (snd (run_once A x)) \<le> sweeps x + 1" for x
  proof -
    let ?rest = "auto_bind (read_persisted A) (\<lambda>p.
      auto_bind (if config_is_zero p \<and> av_registry_jitter A > 0
                 then auto_bind (jitter A (av_registry_jitter A)) (sleep_with_context A) else auto_ret ()) (\<lambda>_.
        reconcile_and_serve A p))"
    have "pres (\<lambda>s. sweeps s = n) ?rest" for n
      by (intro pres unswept.store unswept.waiting unswept_loop.keeps_serve)
    then have "sweeps (snd (?rest y)) = sweeps y" for y by (simp add: pres_def)
    then show ?thesis
      by (simp add: run_once_def auto_bind_def [of "if av_sweeps A then _ else _"] auto_do_def auto_ret_def sweeps_def log_event_def)
  qed
  show ?thesis
    using assms w s1 once [of s1] by (auto simp: run_loop_def split: prod.splits sum.splits if_splits dest: ticks)
qed



section \<open>What a step gives\<close>

text \<open>From \<open>P\<close>, the step \<open>m\<close> ends with a result in \<open>Q\<close> or with an error in \<open>E\<close>.\<close>

definition gives :: "(auto_runner \<Rightarrow> bool) \<Rightarrow> 'a auto \<Rightarrow> ('a \<Rightarrow> auto_runner \<Rightarrow> bool) \<Rightarrow> (auto_error \<Rightarrow> auto_runner \<Rightarrow> bool) \<Rightarrow> bool" where
  "gives P m Q E \<longleftrightarrow> (\<forall>s. P s \<longrightarrow> (case m s of (Inl e, s') \<Rightarrow> E e s' | (Inr a, s') \<Rightarrow> Q a s'))"

lemma gives_bind: "gives P m R E \<Longrightarrow> (\<And>a. gives (R a) (f a) Q E) \<Longrightarrow> gives P (auto_bind m f) Q E"
  by (fastforce simp: gives_def auto_bind_def split: prod.splits sum.splits)

lemma gives_case:
  "gives P m R F \<Longrightarrow> (\<And>e. gives (F e) (f e) Q E) \<Longrightarrow> (\<And>a. gives (R a) (g a) Q E)
    \<Longrightarrow> gives P (\<lambda>s. case m s of (Inl e, s) \<Rightarrow> f e s | (Inr a, s) \<Rightarrow> g a s) Q E"
  by (fastforce simp: gives_def split: prod.splits sum.splits)

lemma gives_wrap: "gives P m Q (\<lambda>e. E (wrap_error pre e)) \<Longrightarrow> gives P (auto_wrap pre m) Q E"
  by (auto simp: gives_def auto_wrap_def split: prod.splits sum.splits)

lemma gives_ret: "(\<And>s. P s \<Longrightarrow> Q a s) \<Longrightarrow> gives P (auto_ret a) Q E"
  by (simp add: gives_def auto_ret_def)

lemma gives_fail: "(\<And>s. P s \<Longrightarrow> E e s) \<Longrightarrow> gives P (auto_fail e) Q E"
  by (simp add: gives_def auto_fail_def)

lemma gives_if: "(b \<Longrightarrow> gives P m Q E) \<Longrightarrow> (\<not> b \<Longrightarrow> gives P n Q E) \<Longrightarrow> gives P (if b then m else n) Q E"
    "(b \<Longrightarrow> gives P m Q E) \<Longrightarrow> (\<not> b \<Longrightarrow> gives P n Q E) \<Longrightarrow> gives P (\<lambda>s. if b then m s else n s) Q E"
  by (auto simp: gives_def)

lemma gives_pres: "pres I m \<Longrightarrow> (\<And>a s. I s \<Longrightarrow> Q a s) \<Longrightarrow> (\<And>e s. I s \<Longrightarrow> E e s) \<Longrightarrow> gives I m Q E"
  by (auto simp: gives_def pres_def split: prod.split sum.split)

lemma gives_weaken:
  "gives P m Q E \<Longrightarrow> (\<And>s. P' s \<Longrightarrow> P s) \<Longrightarrow> (\<And>a s. Q a s \<Longrightarrow> Q' a s) \<Longrightarrow> (\<And>e s. E e s \<Longrightarrow> E' e s) \<Longrightarrow> gives P' m Q' E'"
  by (fastforce simp: gives_def split: prod.splits sum.splits)

text \<open>A step that reads the state before it goes on.\<close>

lemma gives_state: "(\<And>s. P s \<Longrightarrow> gives (\<lambda>x. x = s) (F s) Q E) \<Longrightarrow> gives P (\<lambda>s. F s s) Q E"
  by (simp add: gives_def)

lemma gives_ex:
  assumes "\<And>x. gives (P x) m Q E"
  shows "gives (\<lambda>s. \<exists>x. P x s) m Q E"
  unfolding gives_def
proof (intro allI impI, elim exE)
  fix s x
  assume "P x s"
  then show "case m s of (Inl e, s') \<Rightarrow> E e s' | (Inr a, s') \<Rightarrow> Q a s'" using assms [of x] by (simp add: gives_def)
qed

lemma gives_keeps:
  assumes "gives I m (\<lambda>_. I) (\<lambda>_. I)"
  shows "pres I m"
proof (rule presI)
  fix s
  assume "I s"
  then show "I (snd (m s))" using assms by (cases "m s"; cases "fst (m s)") (fastforce simp: gives_def)+
qed

section \<open>Health\<close>

text \<open>An agent that is neither degraded nor offline, with at most \<open>n\<close> failures in a row.\<close>

definition well :: "nat \<Rightarrow> auto_runner \<Rightarrow> bool" where
  "well n s \<longleftrightarrow> tk_failures (ru_tracker s) \<le> n \<and> tk_state (ru_tracker s) \<noteq> Degraded \<and> tk_state (ru_tracker s) \<noteq> Offline"

interpretation well: quiet_invariant A "well n" for A n
  by unfold_locales (simp_all add: well_def log_event_def)

lemma failed_with_well: "gives (well 0) (failed_with A e) Q (\<lambda>_. well 1)"
  by (auto simp: gives_def failed_with_def auto_bind_def auto_defs on_tracker_def well_def record_failure_def Let_def)

lemma service_well: "gives (well 1) (service A t) (\<lambda>_. well 1) (\<lambda>_. well 1)"
proof -
  have up: "well 1 s" if "well 0 s" for s using that by (simp add: well_def)
  have ok: "gives (well 0) m (\<lambda>_. well 0) (\<lambda>_. well 1)" if "pres (well 0) m" for m :: "'a auto"
    by (rule gives_pres [OF that]) (assumption, erule up)
  let ?answered = "\<lambda>st x. case wire_heartbeat A t st x of (Inl e, s) \<Rightarrow> failed_with A e s
      | (Inr r, s) \<Rightarrow> if \<not> hb_accepted r then failed_with A (err_auth (''heartbeat accepted=false status='' @ hb_status r)) s
          else auto_bind (check_grace A r) (\<lambda>_. check_not_after A) s"
  have sent: "gives (well 0) (?answered st) (\<lambda>_. well 0) (\<lambda>_. well 1)" for st
    by (rule gives_case [OF gives_pres [OF well.wires(1)]])
      (intro gives_if failed_with_well ok pres_bind well.checks | assumption)+
  have beat: "gives (well 1) (beat_once A t) (\<lambda>_. well 0) (\<lambda>_. well 1)"
    unfolding beat_once_def
  proof (rule gives_bind)
    show "gives (well 1) (auto_do (on_tracker record_success)) (\<lambda>_. well 0) (\<lambda>_. well 1)"
      by (simp add: gives_def auto_do_def on_tracker_def well_def record_success_def Let_def)
    show "gives (well 0) (\<lambda>s. ?answered (tk_state (ru_tracker s)) s) (\<lambda>_. well 0) (\<lambda>_. well 1)" for u
      using sent by (simp add: gives_def)
  qed
  have none: "gives (well 0) (\<lambda>s. if xe_kind e = KNoCommand then (Inr (), s) else failed_with A e s) (\<lambda>_. well 1) (\<lambda>_. well 1)" for e
    by (rule gives_if(2) [OF _ failed_with_well]) (use up in \<open>simp add: gives_def\<close>)
  have hook: "gives (well 0) (maybe_launch_activation A c r) (\<lambda>_. well 1) (\<lambda>_. well 1)" for c r
    by (rule gives_weaken [OF ok [OF well.executing(2)]]) (assumption | erule up)+
  have run: "gives (well 0) (auto_bind (execute_command A c) (\<lambda>r s. case wire_submit_result A t r s of
      (Inl e, s) \<Rightarrow> failed_with A e s | (Inr _, s) \<Rightarrow> maybe_launch_activation A c r s)) (\<lambda>_. well 1) (\<lambda>_. well 1)" for c
    by (rule gives_bind [OF ok [OF well.executing(1)]], rule gives_case [OF gives_pres [OF well.wires(3)]])
      (assumption | rule failed_with_well hook)+
  have poll: "gives (well 0) (poll_and_execute_internal A t) (\<lambda>_. well 1) (\<lambda>_. well 1)"
    unfolding poll_and_execute_internal_def
    by (rule gives_case [OF gives_pres [OF well.wires(2)]]) (assumption | rule none run)+
  show ?thesis unfolding service_def by (rule gives_bind [OF beat poll])
qed

interpretation well_loop: loop_invariant A "well 1" for A
proof unfold_locales
  show "pres (well 1) (service A t)" for t
    by (rule gives_keeps [OF service_well])
  show "pres (well 1) (ensure_cert A)" by (simp add: pres_def well_def ensure_cert_frame)
  show "pres (well 1) (auto_do (log_event Swept))" by (simp add: pres_def well_def auto_do_def log_event_def)
qed (intro well.enrollment well.store well.waiting)+

lemma well_run:
  assumes run: "run_loop A es s = Some (e, s')" and s: "well 1 s"
  shows "tk_state (ru_tracker s') \<noteq> Degraded \<and> tk_state (ru_tracker s') \<noteq> Offline"
proof -
  obtain r s1 where w: "wait_for_cert A 0 s = Some (r, s1)"
    using run by (auto simp: run_loop_def split: option.splits)
  have s1: "well 1 s1"
    using wait_keeps [OF _ well.waiting(3) w, of 1] s by (simp add: pres_def well_def load_cert_frame)
  have once: "well 1 (snd (run_once A s1))" using well_loop.keeps_run_once s1 by (simp add: pres_def)
  have ticks: "well 1 (snd (loop_ticks A es x))" if "well 1 x" for x
    by (rule well_loop.keeps_ticks [OF _ that]) (simp add: well_def on_tracker_def tracker_stop_def)
  have "well 1 s'"
    using run w s1 once ticks [of "snd (run_once A s1)"] by (auto simp: run_loop_def split: prod.splits sum.splits if_splits)
  then show ?thesis by (simp add: well_def)
qed



end
