(* ===== verification/AutoTrace.thy ===== *)
theory AutoTrace
  imports AutoLoop
begin

text \<open>
  The order of what the automatic enrolment does: each request, command and record of the trace rests on the
  event before it, and nothing follows an answer by which the backend rejects the agent.
\<close>

section \<open>Answers\<close>

text \<open>What the caller of a request gets from a reply, and the replies that reject the agent.\<close>

definition answer :: "'a option \<Rightarrow> (string \<Rightarrow> 'a option) \<Rightarrow> wire_reply \<Rightarrow> 'a option" where
  "answer no_out decode reply =
    (case reply of DialFailed _ \<Rightarrow> None
     | WireReply status body \<Rightarrow> if status = 204 then no_out else if 200 \<le> status \<and> status \<le> 299 then decode body else None)"

definition refused :: "wire_reply \<Rightarrow> bool" where
  "refused reply = (case reply of DialFailed _ \<Rightarrow> False | WireReply status _ \<Rightarrow> status = 401 \<or> status = 403)"

lemma refused_answer: "refused reply \<Longrightarrow> answer no_out decode reply = None"
  by (auto simp: refused_def answer_def split: wire_reply.splits)

text \<open>A request either sends and uses the answer, or fails without sending.\<close>

lemma raw_cases:
  obtains reply r where "do_raw A rq no_out decode s = (r, log_event (Sent rq reply) (s\<lparr>ru_tick := Suc (ru_tick s)\<rparr>))"
    "case r of Inr a \<Rightarrow> answer no_out decode reply = Some a
     | Inl e \<Rightarrow> answer no_out decode reply = None \<and> (xe_kind e = KAuth \<longleftrightarrow> refused reply)"
  by (rule that [of "fst (do_raw A rq no_out decode s)" "av_http A (ru_tick s) rq"])
    (auto simp: do_raw_def Let_def answer_def refused_def err_no_command_def err_auth_def other_error_def
      split: wire_reply.splits option.splits)

lemma request_gives:
  assumes yes: "\<And>s reply a. P s \<Longrightarrow> answer no_out decode reply = Some a
      \<Longrightarrow> Q a (log_event (Sent rq reply) (s\<lparr>ru_tick := Suc (ru_tick s)\<rparr>))"
    and no: "\<And>s reply e. P s \<Longrightarrow> answer no_out decode reply = None \<Longrightarrow> xe_kind e = KAuth \<longleftrightarrow> refused reply
      \<Longrightarrow> E e (log_event (Sent rq reply) (s\<lparr>ru_tick := Suc (ru_tick s)\<rparr>))"
    and unsent: "\<And>s e. P s \<Longrightarrow> xe_kind e = KOther \<Longrightarrow> E e s"
  shows "gives P (do_raw A rq no_out decode) Q E" "gives P (do_authed A rq no_out decode) Q E"
    "gives P (do_either A rq no_out decode) Q E"
proof -
  show raw: "gives P (do_raw A rq no_out decode) Q E"
    unfolding gives_def
  proof (intro allI impI)
    fix s
    assume "P s"
    then show "case do_raw A rq no_out decode s of (Inl e, s) \<Rightarrow> E e s | (Inr a, s) \<Rightarrow> Q a s"
      by (cases rule: raw_cases [of A rq no_out decode s]) (auto intro: yes no split: sum.splits)
  qed
  show authed: "gives P (do_authed A rq no_out decode) Q E"
    unfolding do_authed_def by (intro gives_if raw gives_fail unsent) (simp_all add: other_error_def)
  show "gives P (do_either A rq no_out decode) Q E" unfolding do_either_def by (intro gives_if raw authed)
qed

section \<open>What an event rests on\<close>

definition command_request :: "wire_request \<Rightarrow> bool" where
  "command_request rq \<longleftrightarrow> wr_method rq = ''GET'' \<and> wr_path rq = ''/commands/next''"

definition heartbeat_request :: "wire_request \<Rightarrow> bool" where
  "heartbeat_request rq \<longleftrightarrow> (case wr_payload rq of HeartbeatBody _ \<Rightarrow> True | _ \<Rightarrow> False)"

text \<open>The backend rejects the agent: by its status, or in the answer to a heartbeat.\<close>

definition rejects :: "auto_env \<Rightarrow> auto_event \<Rightarrow> bool" where
  "rejects A ev = (case ev of
     Sent rq reply \<Rightarrow> refused reply \<or>
       heartbeat_request rq \<and> (case answer None (av_dec_heartbeat A) reply of Some r \<Rightarrow> \<not> hb_accepted r | None \<Rightarrow> False)
   | _ \<Rightarrow> False)"

definition rests_on :: "auto_env \<Rightarrow> auto_event \<Rightarrow> auto_event \<Rightarrow> bool" where
  "rests_on A ev before = (case ev of
     Sent rq _ \<Rightarrow>
       (command_request rq \<longrightarrow> (\<exists>hb reply r. before = Sent hb reply \<and> heartbeat_request hb \<and> wr_token hb = wr_token rq \<and>
          answer None (av_dec_heartbeat A) reply = Some r \<and> hb_accepted r)) \<and>
       (\<forall>r. wr_payload rq = ResultBody r \<longrightarrow> (\<exists>c t n. before = Ran c t \<and> r = av_execute A n t c))
   | Ran c t \<Rightarrow> t = command_timeout (av_config A) (cm_type c) \<and>
       (\<exists>rq reply. before = Sent rq reply \<and> command_request rq \<and> answer None (av_dec_command A) reply = Some c)
   | Hooked stage \<Rightarrow> sr_status stage = StageReady \<and>
       (\<exists>rq reply r. before = Sent rq reply \<and> wr_payload rq = ResultBody r \<and> rs_status r = ''SUCCEEDED'' \<and>
          rs_update r = Some stage \<and> answer (Some ()) (\<lambda>_. Some ()) reply = Some ())
   | Stored p \<Rightarrow>
       (\<exists>rq reply r. before = Sent rq reply \<and> wr_payload rq = EnrollBody \<and> answer None (av_dec_enroll A) reply = Some r \<and>
          response_validate (av_lower A) (pc_sha256 p) r = None \<and> pc_device_id p = ar_device_id r \<and> pc_token p = []) \<or>
       (\<exists>rq reply r. before = Sent rq reply \<and> wr_path rq = ''/service-token/refresh'' \<and>
          answer None (av_dec_token A) reply = Some r \<and> pc_token p = tr_token r \<and> pc_expires p = tr_expires r)
   | _ \<Rightarrow> True)"

text \<open>A run that starts with an empty trace: an event may follow another.\<close>

definition may_follow :: "auto_env \<Rightarrow> auto_event \<Rightarrow> auto_event \<Rightarrow> bool" where
  "may_follow A before ev \<longleftrightarrow> \<not> rejects A before \<and> rests_on A ev before"

definition ordered :: "auto_env \<Rightarrow> auto_runner \<Rightarrow> bool" where
  "ordered A s \<longleftrightarrow> successively (may_follow A) (Swept # ru_trace s)"

text \<open>The trace is in order and ends with \<open>ev\<close>.\<close>

definition ends_in :: "auto_env \<Rightarrow> auto_event \<Rightarrow> auto_runner \<Rightarrow> bool" where
  "ends_in A ev s \<longleftrightarrow> ordered A s \<and> last (Swept # ru_trace s) = ev"

lemma ends_in_log: "ends_in A ev s \<Longrightarrow> may_follow A ev e \<Longrightarrow> ends_in A e (log_event e s)"
  by (auto simp: ends_in_def ordered_def log_event_def successively_append_iff simp flip: append_Cons)

lemma ends_in_frame: "ru_trace s' = ru_trace s \<Longrightarrow> ends_in A ev s' = ends_in A ev s"
  by (simp add: ends_in_def ordered_def)

text \<open>Before a step nothing has rejected the agent; after a failing one, a rejection is its error.\<close>

definition going :: "auto_env \<Rightarrow> auto_runner \<Rightarrow> bool" where
  "going A s \<longleftrightarrow> (\<exists>ev. ends_in A ev s \<and> \<not> rejects A ev)"

definition ended :: "auto_env \<Rightarrow> auto_error \<Rightarrow> auto_runner \<Rightarrow> bool" where
  "ended A e s \<longleftrightarrow> (\<exists>ev. ends_in A ev s \<and> (rejects A ev \<longrightarrow> xe_kind e = KAuth))"

lemma going_frame: "ru_trace s' = ru_trace s \<Longrightarrow> going A s' = going A s"
  by (simp add: going_def ends_in_frame [of s' s])

lemma going_ended: "going A s \<Longrightarrow> ended A e s"
  by (auto simp: going_def ended_def)

lemma endedI: "ends_in A ev s \<Longrightarrow> (rejects A ev \<Longrightarrow> xe_kind e = KAuth) \<Longrightarrow> ended A e s"
  by (auto simp: ended_def)

lemma going_log: "ends_in A ev s \<Longrightarrow> may_follow A ev e \<Longrightarrow> \<not> rejects A e \<Longrightarrow> going A (log_event e s)"
  unfolding going_def by (metis ends_in_log)

section \<open>The operations keep the order\<close>

text \<open>Steps that add nothing to the trace.\<close>

lemma silent_gives:
  assumes "\<And>s. ru_trace (snd (m s)) = ru_trace s"
  shows "gives (going A) m (\<lambda>_. going A) (ended A)" "gives (ends_in A ev) m (\<lambda>_. ends_in A ev) (\<lambda>_. ends_in A ev)"
    "gives (ended A e) m (\<lambda>_. ended A e) (\<lambda>_. ended A e)"
proof -
  have trace: "ru_trace s' = ru_trace s" if "m s = (r, s')" for s r s' using assms [of s] that by simp
  show "gives (going A) m (\<lambda>_. going A) (ended A)"
    by (auto simp: gives_def going_frame [OF trace] split: prod.split sum.split intro: going_ended)
  show "gives (ends_in A ev) m (\<lambda>_. ends_in A ev) (\<lambda>_. ends_in A ev)"
    by (auto simp: gives_def ends_in_frame [OF trace] split: prod.split sum.split)
  show "gives (ended A e) m (\<lambda>_. ended A e) (\<lambda>_. ended A e)"
    by (auto simp: gives_def ended_def ends_in_frame [OF trace] split: prod.split sum.split)
qed

lemma failed_gives: "gives (ended A e) (failed_with A e) Q (ended A)"
  by (auto simp: gives_def failed_with_def auto_bind_def auto_defs ended_def ends_in_def ordered_def on_tracker_def)

text \<open>A request that may be sent next.\<close>

definition answered :: "auto_env \<Rightarrow> wire_request \<Rightarrow> 'a option \<Rightarrow> (string \<Rightarrow> 'a option) \<Rightarrow> 'a \<Rightarrow> auto_runner \<Rightarrow> bool" where
  "answered A rq no_out decode a s \<longleftrightarrow> (\<exists>reply. ends_in A (Sent rq reply) s \<and> answer no_out decode reply = Some a)"

lemma sends:
  assumes next_ok: "\<And>reply. may_follow A ev (Sent rq reply)" and ev: "\<not> rejects A ev" 
    and stops: "\<And>reply. answer no_out decode reply = None \<Longrightarrow> rejects A (Sent rq reply) \<Longrightarrow> refused reply"
  shows "gives (ends_in A ev) (do_raw A rq no_out decode) (answered A rq no_out decode) (ended A)"
    and "gives (ends_in A ev) (do_authed A rq no_out decode) (answered A rq no_out decode) (ended A)"
    and "gives (ends_in A ev) (do_either A rq no_out decode) (answered A rq no_out decode) (ended A)"
proof -
  have sent: "ends_in A (Sent rq reply) (log_event (Sent rq reply) (s\<lparr>ru_tick := n\<rparr>))" if "ends_in A ev s" for s reply n
    using that by (intro ends_in_log [OF _ next_ok]) (simp add: ends_in_frame [of "s\<lparr>ru_tick := n\<rparr>" s])
  have stop: "ended A e (log_event (Sent rq reply) (s\<lparr>ru_tick := n\<rparr>))"
    if "ends_in A ev s" "answer no_out decode reply = None" "xe_kind e = KAuth \<longleftrightarrow> refused reply" for s reply n e
    by (rule endedI [OF sent [OF that(1)]]) (use that(2,3) stops in blast)
  have unsent: "ended A e s" if "ends_in A ev s" for s e using that ev by (auto simp: ended_def)
  have yes: "answered A rq no_out decode a (log_event (Sent rq reply) (s\<lparr>ru_tick := Suc (ru_tick s)\<rparr>))"
    if "ends_in A ev s" "answer no_out decode reply = Some a" for s reply a
    using sent [OF that(1)] that(2) by (auto simp: answered_def)
  show "gives (ends_in A ev) (do_raw A rq no_out decode) (answered A rq no_out decode) (ended A)"
    by (rule request_gives(1); blast intro: yes stop unsent)
  show "gives (ends_in A ev) (do_authed A rq no_out decode) (answered A rq no_out decode) (ended A)"
    by (rule request_gives(2); blast intro: yes stop unsent)
  show "gives (ends_in A ev) (do_either A rq no_out decode) (answered A rq no_out decode) (ended A)"
    by (rule request_gives(3); blast intro: yes stop unsent)
qed

lemma silent_trivia:
  "ru_trace (snd (auto_now A s)) = ru_trace s"
  "ru_trace (snd (read_persisted A s)) = ru_trace s"
  "ru_trace (snd (auto_do (on_tracker g) s)) = ru_trace s"
  by (simp_all add: auto_defs on_tracker_def read_persisted_def store_read_def Let_def split: option.split)

lemma silent_grace: "ru_trace (snd (check_grace A h s)) = ru_trace s"
  by (cases "hb_grace_until h"; cases "hb_server_time h") (simp_all add: check_grace_def auto_bind_def auto_defs)

lemma silent_not_after: "ru_trace (snd (check_not_after A s)) = ru_trace s"
proof (cases "ru_cert s")
  case (Some c)
  then show ?thesis by (cases "ld_not_after c") (simp_all add: check_not_after_def auto_bind_def auto_defs)
qed (simp add: check_not_after_def)

text \<open>Writing the record that an answer asks for.\<close>

lemma writes:
  assumes "rests_on A (Stored p) ev" and "\<not> rejects A ev"
  shows "gives (ends_in A ev) (auto_bind (auto_wrap pre (store_write A p)) (\<lambda>_. auto_ret p)) (\<lambda>_. going A) (ended A)"
proof -
  have go: "going A (log_event (Stored p) s')" if "ends_in A ev s" "ru_trace s' = ru_trace s" for s s'
    using assms ends_in_frame [OF that(2), of A ev] that(1) by (intro going_log [of A ev]) (simp_all add: may_follow_def rejects_def)
  have "gives (ends_in A ev) (store_write A p) (\<lambda>_. going A) (\<lambda>e. ended A (wrap_error pre e))"
    unfolding gives_def
  proof (intro allI impI)
    fix s
    assume s: "ends_in A ev s"
    then have "ended A e (s\<lparr>ru_tick := n\<rparr>)" for e n
      using assms(2) by (auto simp: ended_def ends_in_frame [of "s\<lparr>ru_tick := n\<rparr>" s])
    then show "case store_write A p s of (Inl e, s) \<Rightarrow> ended A (wrap_error pre e) s | (Inr a, s) \<Rightarrow> going A s"
      using go [OF s] by (auto simp: store_write_def Let_def split: option.split)
  qed
  then show ?thesis by (intro gives_bind gives_wrap gives_ret)
qed

text \<open>The conditions of \<open>sends\<close> for a request that is not a heartbeat, and what its answer leaves.\<close>

lemma plain_stops: "\<not> heartbeat_request rq \<Longrightarrow> rejects A (Sent rq reply) \<Longrightarrow> refused reply"
  by (simp add: rejects_def)

lemma answered_calm:
  assumes "answered A rq no_out decode a s" and "\<not> heartbeat_request rq"
  obtains reply where "ends_in A (Sent rq reply) s" "\<not> rejects A (Sent rq reply)" "answer no_out decode reply = Some a"
proof -
  obtain reply where reply: "ends_in A (Sent rq reply) s" "answer no_out decode reply = Some a"
    using assms(1) by (auto simp: answered_def)
  then have "\<not> refused reply" using refused_answer [of reply no_out decode] by auto
  then show thesis using reply assms(2) by (intro that [of reply]) (simp_all add: rejects_def)
qed

lemma gives_going:
  assumes "\<And>ev. \<not> rejects A ev \<Longrightarrow> gives (ends_in A ev) m Q E"
  shows "gives (going A) m Q E"
  unfolding going_def
proof (rule gives_ex)
  fix ev
  show "gives (\<lambda>s. ends_in A ev s \<and> \<not> rejects A ev) m Q E"
    using assms [of ev] by (cases "rejects A ev") (simp_all add: gives_def)
qed

lemma ended_going: "ended A e s \<Longrightarrow> xe_kind e \<noteq> KAuth \<Longrightarrow> going A s"
  by (auto simp: ended_def going_def)

lemma answered_ended: "answered A rq no_out decode a s \<Longrightarrow> \<not> heartbeat_request rq \<Longrightarrow> ended A e s"
  by (auto elim!: answered_calm simp: ended_def)

lemma answered_going: "answered A rq no_out decode a s \<Longrightarrow> \<not> heartbeat_request rq \<Longrightarrow> going A s"
  by (auto elim!: answered_calm simp: going_def)

lemma write_after:
  assumes "answered A rq no_out decode a s" and "\<not> heartbeat_request rq"
    and "\<And>reply. answer no_out decode reply = Some a \<Longrightarrow> rests_on A (Stored p) (Sent rq reply)"
  shows "case auto_bind (auto_wrap pre (store_write A p)) (\<lambda>_. auto_ret p) s of
    (Inl e, s) \<Rightarrow> ended A e s | (Inr _, s) \<Rightarrow> going A s"
proof -
  obtain reply where r: "ends_in A (Sent rq reply) s" "\<not> rejects A (Sent rq reply)" "answer no_out decode reply = Some a"
    using assms(1,2) by (rule answered_calm)
  show ?thesis using writes [OF assms(3) [OF r(3)] r(2)] r(1) by (simp add: gives_def)
qed

lemma enroll_gives: "gives (going A) (enroll_again A now) (\<lambda>_. going A) (ended A)"
proof (rule gives_going)
  fix ev
  assume ev: "\<not> rejects A ev"
  let ?rq = "\<lparr>wr_method = ''POST'', wr_path = ''/endpoint-enrollments/auto'', wr_token = [], wr_payload = EnrollBody\<rparr>"
  have plain: "\<not> heartbeat_request ?rq" by (simp add: heartbeat_request_def)
  have wire: "gives (ends_in A ev) (wire_auto_enroll A) (answered A ?rq None (av_dec_enroll A)) (ended A)"
    unfolding wire_auto_enroll_def
    by (rule sends(1) [OF _ ev plain_stops [OF plain]]) (simp add: ev may_follow_def rests_on_def command_request_def)
  have kind: "ended A (wrap_error pre e) s = ended A e s" for pre e s by (simp add: ended_def wrap_error_def)
  let ?then = "\<lambda>r s. case response_validate (av_lower A) (loaded_sha256 s) r of
        Some e \<Rightarrow> (Inl (wrap_error ''auto-enroll'' (response_error_of e)), s)
      | None \<Rightarrow> let cfg = enrolled_config r now s in
          (case config_validate cfg of
             Some e \<Rightarrow> (Inl (wrap_error ''auto-enroll response invalid'' (config_error_of e)), s)
           | None \<Rightarrow> auto_bind (auto_wrap ''persist enrollment'' (store_write A cfg)) (\<lambda>_. auto_ret cfg) s)"
  show "gives (ends_in A ev) (enroll_again A now) (\<lambda>_. going A) (ended A)"
    unfolding enroll_again_def
  proof (rule gives_bind [OF gives_wrap])
    show "gives (ends_in A ev) (wire_auto_enroll A) (answered A ?rq None (av_dec_enroll A)) (\<lambda>e. ended A (wrap_error ''auto-enroll'' e))"
      unfolding kind by (rule wire)
    show "gives (answered A ?rq None (av_dec_enroll A) r) (?then r) (\<lambda>_. going A) (ended A)" for r
      unfolding gives_def
    proof (intro allI impI)
      fix s
      assume a: "answered A ?rq None (av_dec_enroll A) r s"
      have "rests_on A (Stored (enrolled_config r now s)) (Sent ?rq reply)"
        if "answer None (av_dec_enroll A) reply = Some r" "response_validate (av_lower A) (loaded_sha256 s) r = None" for reply
        using that by (simp add: rests_on_def enrolled_config_def)
      then show "case ?then r s of (Inl e, s) \<Rightarrow> ended A e s | (Inr x, s) \<Rightarrow> going A s"
        using write_after [OF a plain] answered_ended [OF a plain]
        by (simp add: Let_def split: option.split)
    qed
  qed
qed

lemma reconcile_gives: "gives (going A) (reconcile_enrollment A p) (\<lambda>_. going A) (ended A)"
  unfolding reconcile_enrollment_def
proof (rule gives_bind [OF silent_gives(1) [OF silent_trivia(1)]])
  show "gives (going A) (\<lambda>s. if config_is_zero p \<or> cert_thumbprint_changed (loaded_sha256 s) p \<or> token_expired now p
      then enroll_again A now s else (Inr p, s)) (\<lambda>_. going A) (ended A)" for now
    using enroll_gives [of A now] by (simp add: gives_def)
qed

lemma refresh_gives: "gives (going A) (maybe_refresh_token A p) (\<lambda>_. going A) (ended A)"
proof -
  let ?rq = "\<lparr>wr_method = ''POST'', wr_path = ''/service-token/refresh'', wr_token = pc_token p, wr_payload = NoBody\<rparr>"
  let ?cfg = "\<lambda>r. p\<lparr>pc_token := tr_token r, pc_expires := tr_expires r\<rparr>"
  have plain: "\<not> heartbeat_request ?rq" by (simp add: heartbeat_request_def)
  have wire: "gives (ends_in A ev) (wire_refresh_token A (pc_token p)) (answered A ?rq None (av_dec_token A)) (ended A)"
    if "\<not> rejects A ev" for ev
    unfolding wire_refresh_token_def
    by (rule sends(2) [OF _ that plain_stops [OF plain]]) (simp add: that may_follow_def rests_on_def command_request_def)
  have failed: "gives (ended A e) (\<lambda>s. if xe_kind e = KAuth then (Inl e, s) else (Inr p, s)) (\<lambda>_. going A) (ended A)" for e
    by (auto simp: gives_def intro: ended_going)
  have stored: "gives (answered A ?rq None (av_dec_token A) r) (\<lambda>s.
      case config_validate (?cfg r) of
        Some e \<Rightarrow> (Inl (wrap_error ''token refresh response invalid'' (config_error_of e)), s)
      | None \<Rightarrow> auto_bind (auto_wrap ''persist refreshed token'' (store_write A (?cfg r))) (\<lambda>_. auto_ret (?cfg r)) s)
      (\<lambda>_. going A) (ended A)" for r
    unfolding gives_def
  proof (intro allI impI)
    fix s
    assume a: "answered A ?rq None (av_dec_token A) r s"
    have "rests_on A (Stored (?cfg r)) (Sent ?rq reply)" if "answer None (av_dec_token A) reply = Some r" for reply
      using that by (simp add: rests_on_def)
    then show "case case config_validate (?cfg r) of
        Some e \<Rightarrow> (Inl (wrap_error ''token refresh response invalid'' (config_error_of e)), s)
      | None \<Rightarrow> auto_bind (auto_wrap ''persist refreshed token'' (store_write A (?cfg r))) (\<lambda>_. auto_ret (?cfg r)) s of
      (Inl e, s) \<Rightarrow> ended A e s | (Inr x, s) \<Rightarrow> going A s"
      using write_after [OF a plain] answered_ended [OF a plain] by (simp split: option.split)
  qed
  have refresh: "gives (going A) (\<lambda>s. case wire_refresh_token A (pc_token p) s of
      (Inl e, s) \<Rightarrow> if xe_kind e = KAuth then (Inl e, s) else (Inr p, s)
    | (Inr r, s) \<Rightarrow> case config_validate (?cfg r) of
        Some e \<Rightarrow> (Inl (wrap_error ''token refresh response invalid'' (config_error_of e)), s)
      | None \<Rightarrow> auto_bind (auto_wrap ''persist refreshed token'' (store_write A (?cfg r))) (\<lambda>_. auto_ret (?cfg r)) s)
    (\<lambda>_. going A) (ended A)"
    by (rule gives_going, rule gives_case [OF wire failed stored])
  have skip: "gives (going A) (auto_ret p) (\<lambda>_. going A) (ended A)" by (rule gives_ret)
  have clock: "gives (going A) (auto_now A) (\<lambda>_. going A) (ended A)" by (rule silent_gives(1) [OF silent_trivia(1)])
  show ?thesis
    unfolding maybe_refresh_token_def Let_def
    by (intro gives_if gives_fail going_ended gives_bind [OF clock] skip refresh)
qed

text \<open>The answer to the heartbeat accepts the agent.\<close>

definition beaten :: "auto_env \<Rightarrow> string \<Rightarrow> auto_event \<Rightarrow> bool" where
  "beaten A token ev \<longleftrightarrow> (\<exists>rq reply r. ev = Sent rq reply \<and> heartbeat_request rq \<and> wr_token rq = token \<and>
     answer None (av_dec_heartbeat A) reply = Some r \<and> hb_accepted r)"

lemma beaten_calm: "beaten A token ev \<Longrightarrow> \<not> rejects A ev"
  using refused_answer [of _ None "av_dec_heartbeat A"] by (auto simp: beaten_def rejects_def)

definition beat :: "auto_env \<Rightarrow> string \<Rightarrow> auto_runner \<Rightarrow> bool" where
  "beat A token s \<longleftrightarrow> (\<exists>ev. ends_in A ev s \<and> beaten A token ev)"

lemma beat_ended: "beat A token s \<Longrightarrow> ended A e s"
  using beaten_calm by (auto simp: beat_def ended_def)

lemma silent_beat:
  assumes "\<And>s. ru_trace (snd (m s)) = ru_trace s"
  shows "gives (beat A t) m (\<lambda>_. beat A t) (ended A)"
proof -
  have frame: "beat A t s' = beat A t s" if "m s = (r, s')" for s r s'
  proof -
    have "ru_trace s' = ru_trace s" using assms [of s] that by simp
    then show ?thesis by (simp add: beat_def ends_in_frame [of s' s])
  qed
  then have "beat A t s'" if "m s = (r, s')" "beat A t s" for s r s' using that by simp
  then show ?thesis unfolding gives_def by (auto split: prod.split sum.split intro: beat_ended)
qed

lemma heartbeat_gives: "gives (going A) (beat_once A token) (\<lambda>_. beat A token) (ended A)"
proof -
  let ?rq = "\<lambda>st. \<lparr>wr_method = ''POST'', wr_path = ''/heartbeat'', wr_token = token, wr_payload = HeartbeatBody st\<rparr>"
  let ?heard = "\<lambda>st. answered A (?rq st) None (av_dec_heartbeat A)"
  have wire: "gives (going A) (wire_heartbeat A token st) (?heard st) (ended A)" for st
  proof (rule gives_going)
    fix ev
    assume "\<not> rejects A ev"
    then show "gives (ends_in A ev) (wire_heartbeat A token st) (?heard st) (ended A)"
      unfolding wire_heartbeat_def
      by (intro sends(3)) (auto simp: may_follow_def rests_on_def command_request_def rejects_def)
  qed
  have rejected: "gives (?heard st r) (failed_with A (err_auth t)) Q (ended A)" for st r t Q
  proof (rule gives_weaken [OF failed_gives [of A "err_auth t"]])
    show "ended A (err_auth t) s" if "?heard st r s" for s
      using that by (auto simp: answered_def ended_def err_auth_def)
  qed
  have accepted: "gives (?heard st r) (auto_bind (check_grace A r) (\<lambda>_. check_not_after A)) (\<lambda>_. beat A token) (ended A)"
    if "hb_accepted r" for st r
  proof (rule gives_weaken [OF gives_bind [OF silent_beat [OF silent_grace] silent_beat [OF silent_not_after]]])
    show "beat A token s" if "?heard st r s" for s
      using that \<open>hb_accepted r\<close> by (fastforce simp: answered_def beat_def beaten_def heartbeat_request_def)
  qed
  let ?sent = "\<lambda>st s. case wire_heartbeat A token st s of (Inl e, s) \<Rightarrow> failed_with A e s
      | (Inr r, s) \<Rightarrow> if \<not> hb_accepted r then failed_with A (err_auth (''heartbeat accepted=false status='' @ hb_status r)) s
          else auto_bind (check_grace A r) (\<lambda>_. check_not_after A) s"
  have sent: "gives (going A) (?sent st) (\<lambda>_. beat A token) (ended A)" for st
    by (rule gives_case [OF wire failed_gives]) (intro gives_if(2) rejected accepted; simp)
  show ?thesis
    unfolding beat_once_def
  proof (rule gives_bind [OF silent_gives(1) [OF silent_trivia(3)]])
    show "gives (going A) (\<lambda>s. ?sent (tk_state (ru_tracker s)) s) (\<lambda>_. beat A token) (ended A)" for u
      using sent by (simp add: gives_def)
  qed
qed

text \<open>A command, its result and the activation.\<close>

lemma execute_gives:
  assumes "answer None (av_dec_command A) reply = Some c" and "command_request rq" and "\<not> rejects A (Sent rq reply)"
  shows "gives (ends_in A (Sent rq reply)) (execute_command A c)
    (\<lambda>r s. \<exists>t n. ends_in A (Ran c t) s \<and> r = av_execute A n t c) (ended A)"
proof -
  let ?t = "command_timeout (av_config A) (cm_type c)"
  have "may_follow A (Sent rq reply) (Ran c ?t)" using assms by (auto simp: may_follow_def rests_on_def)
  then have "ends_in A (Ran c ?t) (log_event (Ran c ?t) (s\<lparr>ru_tick := n\<rparr>))" if "ends_in A (Sent rq reply) s" for s n
    using that by (intro ends_in_log) (simp_all add: ends_in_frame [of "s\<lparr>ru_tick := n\<rparr>" s])
  then show ?thesis by (auto simp: gives_def execute_command_def Let_def)
qed

lemma submit_gives:
  assumes r: "r = av_execute A n t c"
  shows "gives (ends_in A (Ran c t)) (wire_submit_result A token r)
    (\<lambda>_ s. \<exists>rq. wr_payload rq = ResultBody r \<and> answered A rq (Some ()) (\<lambda>_. Some ()) () s) (ended A)"
proof -
  let ?rq = "\<lparr>wr_method = ''POST'', wr_path = ''/commands/'' @ av_escape A (rs_command_id r) @ ''/result'',
       wr_token = token, wr_payload = ResultBody r\<rparr>"
  have ran: "\<not> rejects A (Ran c t)" by (simp add: rejects_def)
  have "gives (ends_in A (Ran c t)) (do_either A ?rq (Some ()) (\<lambda>_. Some ())) (answered A ?rq (Some ()) (\<lambda>_. Some ())) (ended A)"
    using r by (intro sends(3) ran) (auto simp: may_follow_def rests_on_def command_request_def rejects_def heartbeat_request_def)
  then have "gives (ends_in A (Ran c t)) (do_either A ?rq (Some ()) (\<lambda>_. Some ()))
      (\<lambda>_ s. \<exists>rq. wr_payload rq = ResultBody r \<and> answered A rq (Some ()) (\<lambda>_. Some ()) () s) (ended A)"
    by (rule gives_weaken) (auto intro: exI [of _ ?rq])
  then show ?thesis
    unfolding wire_submit_result_def by (intro gives_if gives_fail) (use ran in \<open>auto simp: ended_def\<close>)
qed

lemma activation_gives:
  assumes "wr_payload rq = ResultBody r"
  shows "gives (answered A rq (Some ()) (\<lambda>_. Some ()) ()) (maybe_launch_activation A c r) (\<lambda>_. going A) (ended A)"
proof -
  have plain: "\<not> heartbeat_request rq" using assms by (simp add: heartbeat_request_def)
  let ?P = "answered A rq (Some ()) (\<lambda>_. Some ()) ()"
  have skip: "gives ?P (auto_ret ()) (\<lambda>_. going A) (ended A)"
    by (rule gives_ret) (erule answered_going [OF _ plain])
  have hook: "gives ?P (auto_do (log_event (Hooked stage))) (\<lambda>_. going A) (ended A)"
    if "rs_status r = ''SUCCEEDED''" "rs_update r = Some stage" "sr_status stage = StageReady" for stage
    unfolding gives_def auto_do_def
  proof (intro allI impI)
    fix s
    assume "?P s"
    then obtain reply where rp: "ends_in A (Sent rq reply) s" "\<not> rejects A (Sent rq reply)"
      "answer (Some ()) (\<lambda>_. Some ()) reply = Some ()" using plain by (rule answered_calm)
    then have "may_follow A (Sent rq reply) (Hooked stage)"
      using assms that by (auto simp: may_follow_def rests_on_def)
    from going_log [OF rp(1) this]
    show "case (Inr (), log_event (Hooked stage) s) of (Inl e, s) \<Rightarrow> ended A e s | (Inr x, s) \<Rightarrow> going A s"
      by (simp add: rejects_def)
  qed
  show ?thesis
    unfolding maybe_launch_activation_def using skip hook by (auto split: option.split)
qed

lemma poll_gives: "gives (beat A token) (poll_and_execute_internal A token) (\<lambda>_. going A) (ended A)"
proof -
  let ?rq = "\<lparr>wr_method = ''GET'', wr_path = ''/commands/next'', wr_token = token, wr_payload = NoBody\<rparr>"
  let ?next = "answered A ?rq None (av_dec_command A)"
  have plain: "\<not> heartbeat_request ?rq" by (simp add: heartbeat_request_def)
  have asked: "gives (beat A token) (wire_next_command A token) ?next (ended A)"
    unfolding beat_def
  proof (rule gives_ex)
    fix ev
    show "gives (\<lambda>s. ends_in A ev s \<and> beaten A token ev) (wire_next_command A token) ?next (ended A)"
    proof (cases "beaten A token ev")
      case True
      then have "may_follow A ev (Sent ?rq reply)" for reply
        using beaten_calm [OF True] by (auto simp: may_follow_def rests_on_def beaten_def)
      then have "gives (ends_in A ev) (wire_next_command A token) ?next (ended A)"
        unfolding wire_next_command_def by (rule sends(3) [OF _ beaten_calm [OF True] plain_stops [OF plain]])
      then show ?thesis using True by simp
    qed (simp add: gives_def)
  qed
  have none: "gives (ended A e) (\<lambda>s. if xe_kind e = KNoCommand then (Inr (), s) else failed_with A e s) (\<lambda>_. going A) (ended A)" for e
    by (rule gives_if(2) [OF _ failed_gives]) (auto simp: gives_def intro: ended_going)
  have submitted: "gives (\<lambda>s. \<exists>t n. ends_in A (Ran c t) s \<and> r = av_execute A n t c) (\<lambda>s. case wire_submit_result A token r s of
      (Inl e, s) \<Rightarrow> failed_with A e s | (Inr _, s) \<Rightarrow> maybe_launch_activation A c r s) (\<lambda>_. going A) (ended A)" for c r
  proof (intro gives_ex)
    fix t n
    let ?then = "\<lambda>s. case wire_submit_result A token r s of
      (Inl e, s) \<Rightarrow> failed_with A e s | (Inr _, s) \<Rightarrow> maybe_launch_activation A c r s"
    have act: "gives (\<lambda>s. \<exists>rq. wr_payload rq = ResultBody r \<and> answered A rq (Some ()) (\<lambda>_. Some ()) () s)
        (maybe_launch_activation A c r) (\<lambda>_. going A) (ended A)"
    proof (rule gives_ex)
      fix rq
      show "gives (\<lambda>s. wr_payload rq = ResultBody r \<and> answered A rq (Some ()) (\<lambda>_. Some ()) () s)
        (maybe_launch_activation A c r) (\<lambda>_. going A) (ended A)"
        using activation_gives [of rq r A c] by (cases "wr_payload rq = ResultBody r") (simp_all add: gives_def)
    qed
    have "gives (ends_in A (Ran c t)) ?then (\<lambda>_. going A) (ended A)" if "r = av_execute A n t c"
      by (rule gives_case [OF submit_gives [OF that] failed_gives act])
    then show "gives (\<lambda>s. ends_in A (Ran c t) s \<and> r = av_execute A n t c) ?then (\<lambda>_. going A) (ended A)"
      by (auto simp: gives_def)
  qed
  have run: "gives (?next c) (auto_bind (execute_command A c) (\<lambda>r s. case wire_submit_result A token r s of
      (Inl e, s) \<Rightarrow> failed_with A e s | (Inr _, s) \<Rightarrow> maybe_launch_activation A c r s)) (\<lambda>_. going A) (ended A)" for c
  proof (rule gives_bind [OF _ submitted])
    show "gives (?next c) (execute_command A c) (\<lambda>r s. \<exists>t n. ends_in A (Ran c t) s \<and> r = av_execute A n t c) (ended A)"
      unfolding gives_def
    proof (intro allI impI)
      fix s
      assume "?next c s"
      then obtain reply where "ends_in A (Sent ?rq reply) s" "\<not> rejects A (Sent ?rq reply)"
        "answer None (av_dec_command A) reply = Some c" using plain by (rule answered_calm)
      then show "case execute_command A c s of (Inl e, s) \<Rightarrow> ended A e s
        | (Inr r, s) \<Rightarrow> \<exists>t n. ends_in A (Ran c t) s \<and> r = av_execute A n t c"
        using execute_gives [of A reply c ?rq] unfolding gives_def by (simp (no_asm_simp) add: command_request_def)
    qed
  qed
  show ?thesis unfolding poll_and_execute_internal_def by (rule gives_case [OF asked none run])
qed

lemma free_going: "going A s \<Longrightarrow> e = Swept \<or> (\<exists>d. e = Slept d) \<Longrightarrow> going A (log_event e s)"
  using going_log [of A _ s e] by (auto simp: going_def may_follow_def rests_on_def rejects_def)

lemma pause_pres: "pres (going A) (jitter A k)" "pres (going A) (sleep_with_context A d)" "pres (going A) (retry_wait A n)"
proof -
  have tick: "going A (s\<lparr>ru_tick := n\<rparr>) = going A s" for s n by (rule going_frame) simp
  have call: "pres (going A) (auto_call f)" for f :: "nat \<Rightarrow> auto_error + 'b"
    by (simp add: pres_def auto_defs tick)
  have nap: "pres (going A) (auto_do (log_event (Slept d)))" for d by (simp add: pres_def auto_do_def free_going)
  show j: "pres (going A) (jitter A k)" for k unfolding jitter_def by (intro pres call)
  show sl: "pres (going A) (sleep_with_context A d)" for d unfolding sleep_with_context_def by (intro pres nap call)
  show "pres (going A) (retry_wait A n)" unfolding retry_wait_def Let_def by (intro pres j sl)
qed

lemma iterate_gives: "gives (going A) (iterate A) (\<lambda>_. going A) (ended A)"
  and once_gives: "gives (going A) (run_once A) (\<lambda>_. going A) (ended A)"
proof -
  have service: "gives (going A) (service A t) (\<lambda>_. going A) (ended A)" for t
    unfolding service_def by (rule gives_bind [OF heartbeat_gives poll_gives])
  have cert: "gives (going A) (ensure_cert A) (\<lambda>_. going A) (ended A)"
    by (rule silent_gives(1) [OF ensure_cert_frame(1)])
  have read: "gives (going A) (read_persisted A) (\<lambda>_. going A) (ended A)"
    by (rule silent_gives(1) [OF silent_trivia(2)])
  have serve: "gives (going A) (reconcile_and_serve A p) (\<lambda>_. going A) (ended A)" for p
    unfolding serve_eq
    by (intro gives_bind [OF cert] gives_bind [OF reconcile_gives] gives_if service gives_bind [OF refresh_gives] gives_fail going_ended)
  show "gives (going A) (iterate A) (\<lambda>_. going A) (ended A)"
    unfolding iterate_def by (rule gives_bind [OF read serve])
  have sweep: "gives (going A) (auto_do (log_event Swept)) (\<lambda>_. going A) (ended A)"
    using free_going by (simp add: gives_def auto_do_def)
  have pause: "gives (going A) m (\<lambda>_. going A) (ended A)" if "pres (going A) m" for m :: "'a auto"
    by (rule gives_pres [OF that]) (simp_all add: going_ended)
  show "gives (going A) (run_once A) (\<lambda>_. going A) (ended A)"
    unfolding run_once_def
    by (intro gives_bind [OF _ gives_bind [OF read gives_bind [OF _ serve]]] gives_if sweep gives_ret
      gives_bind [OF pause [OF pause_pres(1)] pause [OF pause_pres(2)]])
qed

section \<open>Every run\<close>

definition run_ends :: "auto_env \<Rightarrow> auto_error option \<Rightarrow> auto_runner \<Rightarrow> bool" where
  "run_ends A r s \<longleftrightarrow> (case r of None \<Rightarrow> going A s | Some e \<Rightarrow> ended A e s)"

lemma ticks_end: "going A s \<Longrightarrow> loop_ticks A es s = (r, s') \<Longrightarrow> run_ends A r s'"
proof (induction es arbitrary: s)
  case (Cons ev es)
  obtain q s1 where it: "iterate A s = (q, s1)" by fastforce
  have next_ok: "case q of Inl e \<Rightarrow> ended A e s1 | Inr _ \<Rightarrow> going A s1"
    using iterate_gives [of A] Cons.prems(1) it by (simp add: gives_def split: prod.splits)
  show ?case
  proof (cases ev)
    case LoopDone
    have "going A (on_tracker tracker_stop s)"
      using Cons.prems(1) going_frame [of "on_tracker tracker_stop s" s A] by (simp add: on_tracker_def)
    then show ?thesis using Cons.prems(2) LoopDone by (auto simp: run_ends_def intro: going_ended)
  next
    case LoopTick
    show ?thesis
    proof (cases "\<exists>e. q = Inl e \<and> is_fatal e")
      case True
      then show ?thesis using Cons.prems(2) LoopTick it next_ok by (auto simp: run_ends_def)
    next
      case False
      then have "going A s1" using next_ok by (auto simp: is_fatal_def intro: ended_going split: sum.splits)
      moreover have "loop_ticks A es s1 = (r, s')"
        using Cons.prems(2) LoopTick it False by (auto split: sum.splits if_splits)
      ultimately show ?thesis by (rule Cons.IH)
    qed
  qed
qed (simp add: run_ends_def)

lemma run_in_order:
  assumes run: "run_loop A es s = Some (r, s')" and s: "ru_trace s = []"
  shows "run_ends A r s'"
proof -
  have start: "going A s" using s by (simp add: going_def ends_in_def ordered_def rejects_def)
  obtain q s1 where w: "wait_for_cert A 0 s = Some (q, s1)"
    using run by (auto simp: run_loop_def split: option.splits)
  have s1: "going A s1"
  proof -
    have "pres (going A) (load_cert A)" by (simp add: pres_def going_frame [OF load_cert_frame(1)])
    then show ?thesis using wait_keeps [OF _ pause_pres(3) w] start by simp
  qed
  have once: "run_ends A (if is_fatal e then Some e else r) (if is_fatal e then x else s')"
    if "run_once A s1 = (Inl e, x)" "\<not> is_fatal e \<Longrightarrow> loop_ticks A es x = (r, s')" for e x
  proof -
    have "ended A e x" using once_gives [of A] s1 that(1) by (auto simp: gives_def)
    then show ?thesis using ticks_end [of A x es r s'] that(2) ended_going [of A e x] by (auto simp: run_ends_def is_fatal_def)
  qed
  have good: "run_ends A r s'" if "run_once A s1 = (Inr u, x)" "loop_ticks A es x = (r, s')" for u x
  proof -
    have "going A x" using once_gives [of A] s1 that(1) by (auto simp: gives_def)
    then show ?thesis using that(2) by (rule ticks_end)
  qed
  show ?thesis
    using run w s1 once good
    by (auto simp: run_loop_def run_ends_def going_ended split: prod.splits sum.splits if_splits)
qed

lemma sample_session:
  obtains r s' where "run_loop sample_backend [] fresh_runner = Some (r, s')" "r = None" "length (ru_trace s') = 8"
    "ru_trace s' ! 2 = Stored \<lparr>pc_device_id = ''d1'', pc_token = [], pc_expires = None, pc_sha256 = ''AB'', pc_sha1 = ''CD'', pc_issued = Some 4\<rparr>"
    "ru_trace s' ! 5 = Ran \<lparr>cm_id = ''c1'', cm_claim = ''k1'', cm_type = ''UPDATE_AGENT''\<rparr> 1800"
    "ru_trace s' ! 7 = Hooked sample_stage"
proof -
  have "map_option (\<lambda>(r, s). (r, length (ru_trace s), ru_trace s ! 2, ru_trace s ! 5, ru_trace s ! 7)) (run_loop sample_backend [] fresh_runner) =
    Some (None, 8, Stored \<lparr>pc_device_id = ''d1'', pc_token = [], pc_expires = None, pc_sha256 = ''AB'', pc_sha1 = ''CD'', pc_issued = Some 4\<rparr>,
      Ran \<lparr>cm_id = ''c1'', cm_claim = ''k1'', cm_type = ''UPDATE_AGENT''\<rparr> 1800, Hooked sample_stage)"
    by code_simp
  then show thesis using that by (auto simp: map_option_case split: option.splits)
qed

lemma fresh_trace: "ru_trace fresh_runner = []"
  by (simp add: fresh_runner_def)

lemma run_ends_ordered: "run_ends A r s \<Longrightarrow> ordered A s"
  by (auto simp: run_ends_def going_def ended_def ends_in_def split: option.splits)

lemma event_in_order:
  assumes "run_loop A es s = Some (r, s')" and "ru_trace s = []" and "i < length (ru_trace s')"
  shows "rests_on A (ru_trace s' ! i) ((Swept # ru_trace s') ! i) \<and> \<not> rejects A ((Swept # ru_trace s') ! i)"
  using run_ends_ordered [OF run_in_order [OF assms(1,2)]] assms(3)
  by (auto simp: ordered_def successively_conv_nth may_follow_def)

text \<open>
  Property C5: a command runs only if the answer to the poll just before named it, that poll was sent just after
  a heartbeat under the same credential whose answer accepted the agent, and with the time limit of its type.
\<close>

theorem executed_command_was_polled:
  assumes "run_loop A es s = Some (r, s')" and "ru_trace s = []" and "i < length (ru_trace s')" and "ru_trace s' ! i = Ran c t"
  shows "t = command_timeout (av_config A) (cm_type c) \<and> (\<exists>poll answer1 beat answer2 h. 2 \<le> i \<and>
    ru_trace s' ! (i - 1) = Sent poll answer1 \<and> command_request poll \<and> answer None (av_dec_command A) answer1 = Some c \<and>
    ru_trace s' ! (i - 2) = Sent beat answer2 \<and> heartbeat_request beat \<and> wr_token beat = wr_token poll \<and>
    answer None (av_dec_heartbeat A) answer2 = Some h \<and> hb_accepted h)"
proof -
  obtain poll a1 where poll: "t = command_timeout (av_config A) (cm_type c)" "(Swept # ru_trace s') ! i = Sent poll a1"
    "command_request poll" "answer None (av_dec_command A) a1 = Some c"
    using event_in_order [OF assms(1-3)] assms(4) by (auto simp: rests_on_def)
  then have i: "0 < i" "ru_trace s' ! (i - 1) = Sent poll a1" by (cases i; simp)+
  then have "i - 1 < length (ru_trace s')" using assms(3) by simp
  then obtain hb a2 h where hb: "(Swept # ru_trace s') ! (i - 1) = Sent hb a2" "heartbeat_request hb" "wr_token hb = wr_token poll"
    "answer None (av_dec_heartbeat A) a2 = Some h" "hb_accepted h"
    using event_in_order [OF assms(1,2), of "i - 1"] i(2) poll(3) by (auto simp: rests_on_def)
  then have "2 \<le> i" "ru_trace s' ! (i - 2) = Sent hb a2" using i(1) by (cases i; cases "i - 1"; simp add: numeral_2_eq_2)+
  then show ?thesis using poll i(2) hb by blast
qed

theorem executed_command_was_polled_witness:
  "\<exists>r s' poll answer1 beat answer2 h. run_loop sample_backend [] fresh_runner = Some (r, s') \<and>
     ru_trace s' ! 5 = Ran \<lparr>cm_id = ''c1'', cm_claim = ''k1'', cm_type = ''UPDATE_AGENT''\<rparr> 1800 \<and>
     ru_trace s' ! 4 = Sent poll answer1 \<and> command_request poll \<and>
     ru_trace s' ! 3 = Sent beat answer2 \<and> answer None (av_dec_heartbeat sample_backend) answer2 = Some h \<and> hb_accepted h"
proof (rule sample_session)
  fix r s'
  assume "run_loop sample_backend [] fresh_runner = Some (r, s')" "length (ru_trace s') = 8"
    "ru_trace s' ! 5 = Ran \<lparr>cm_id = ''c1'', cm_claim = ''k1'', cm_type = ''UPDATE_AGENT''\<rparr> 1800"
  then show ?thesis using executed_command_was_polled [OF _ fresh_trace, of sample_backend "[]" r s' 5] by fastforce
qed

text \<open>
  Property C9: the activation hook is called only for a stage the executed command reported as ready in a result
  with the status \<open>SUCCEEDED\<close>, after the backend has taken that result and nothing else was done in between.
\<close>

theorem activation_follows_delivered_result:
  assumes "run_loop A es s = Some (r, s')" and "ru_trace s = []" and "i < length (ru_trace s')" and "ru_trace s' ! i = Hooked stage"
  shows "sr_status stage = StageReady \<and> (\<exists>rq reply res c t n. 2 \<le> i \<and>
    ru_trace s' ! (i - 1) = Sent rq reply \<and> wr_payload rq = ResultBody res \<and> rs_status res = ''SUCCEEDED'' \<and>
    rs_update res = Some stage \<and> answer (Some ()) (\<lambda>_. Some ()) reply = Some () \<and>
    ru_trace s' ! (i - 2) = Ran c t \<and> res = av_execute A n t c)"
proof -
  obtain rq reply res where post: "sr_status stage = StageReady" "(Swept # ru_trace s') ! i = Sent rq reply"
    "wr_payload rq = ResultBody res" "rs_status res = ''SUCCEEDED''" "rs_update res = Some stage"
    "answer (Some ()) (\<lambda>_. Some ()) reply = Some ()"
    using event_in_order [OF assms(1-3)] assms(4) by (auto simp: rests_on_def)
  then have i: "0 < i" "ru_trace s' ! (i - 1) = Sent rq reply" by (cases i; simp)+
  then have "i - 1 < length (ru_trace s')" using assms(3) by simp
  then obtain c t n where ran: "(Swept # ru_trace s') ! (i - 1) = Ran c t" "res = av_execute A n t c"
    using event_in_order [OF assms(1,2), of "i - 1"] i(2) post(3) by (auto simp: rests_on_def)
  then have "2 \<le> i" "ru_trace s' ! (i - 2) = Ran c t" using i(1) by (cases i; cases "i - 1"; simp add: numeral_2_eq_2)+
  then show ?thesis using post i(2) ran(2) by blast
qed

theorem activation_follows_delivered_result_witness:
  "\<exists>r s' rq reply res c t. run_loop sample_backend [] fresh_runner = Some (r, s') \<and> ru_trace s' ! 7 = Hooked sample_stage \<and>
     ru_trace s' ! 6 = Sent rq reply \<and> wr_payload rq = ResultBody res \<and> rs_status res = ''SUCCEEDED'' \<and> ru_trace s' ! 5 = Ran c t"
proof (rule sample_session)
  fix r s'
  assume "run_loop sample_backend [] fresh_runner = Some (r, s')" "length (ru_trace s') = 8" "ru_trace s' ! 7 = Hooked sample_stage"
  then show ?thesis using activation_follows_delivered_result [OF _ fresh_trace, of sample_backend "[]" r s' 7] by fastforce
qed

text \<open>
  Property C8: once the backend rejects the agent, with 401 or 403 to any request or by not accepting a heartbeat,
  the run does nothing more and returns the authentication failure.
\<close>

theorem rejection_ends_the_run:
  assumes "run_loop A es s = Some (r, s')" and "ru_trace s = []" and "i < length (ru_trace s')" and "rejects A (ru_trace s' ! i)"
  shows "Suc i = length (ru_trace s') \<and> (\<exists>e. r = Some e \<and> xe_kind e = KAuth)"
proof -
  have "\<not> Suc i < length (ru_trace s')" using event_in_order [OF assms(1,2), of "Suc i"] assms(4) by auto
  then have end_i: "Suc i = length (ru_trace s')" using assms(3) by simp
  then have "last (Swept # ru_trace s') = ru_trace s' ! i" by (cases "ru_trace s'") (auto simp: last_conv_nth)
  then show ?thesis
    using run_in_order [OF assms(1,2)] assms(4) end_i
    by (auto simp: run_ends_def going_def ended_def ends_in_def split: option.splits)
qed

theorem rejection_ends_the_run_witness:
  "\<exists>e s'. run_loop (sample_backend\<lparr>av_http := \<lambda>_ rq. WireReply (if wr_path rq = ''/heartbeat'' then 401 else 200) []\<rparr>) [LoopTick]
       fresh_runner = Some (Some e, s') \<and> length (ru_trace s') = 4 \<and> xe_kind e = KAuth"
proof -
  let ?A = "sample_backend\<lparr>av_http := \<lambda>_ rq. WireReply (if wr_path rq = ''/heartbeat'' then 401 else 200) []\<rparr>"
  have "map_option (\<lambda>(_, s). (length (ru_trace s), rejects ?A (ru_trace s ! 3))) (run_loop ?A [LoopTick] fresh_runner) = Some (4, True)"
    by code_simp
  then obtain r s' where "run_loop ?A [LoopTick] fresh_runner = Some (r, s')" "length (ru_trace s') = 4" "rejects ?A (ru_trace s' ! 3)"
    by (auto simp: map_option_case split: option.splits)
  then show ?thesis using rejection_ends_the_run [OF _ fresh_trace, of ?A "[LoopTick]" r s' 3] by auto
qed

text \<open>
  Fact: a record is written only right after the answer it repeats: an enrolment answer that names the
  thumbprint of the presented certificate, with no token, or the answer to a token refresh.
\<close>

theorem stored_record_repeats_answer:
  assumes "run_loop A es s = Some (r, s')" and "ru_trace s = []" and "i < length (ru_trace s')" and "ru_trace s' ! i = Stored p"
  shows "\<exists>rq reply. 1 \<le> i \<and> ru_trace s' ! (i - 1) = Sent rq reply \<and>
    ((\<exists>a. wr_payload rq = EnrollBody \<and> answer None (av_dec_enroll A) reply = Some a \<and> pc_device_id p = ar_device_id a \<and>
        pc_token p = [] \<and> normalize_cert_thumbprint (av_lower A) (ar_thumbprint a) = normalize_cert_thumbprint (av_lower A) (pc_sha256 p)) \<or>
     (\<exists>a. wr_path rq = ''/service-token/refresh'' \<and> answer None (av_dec_token A) reply = Some a \<and>
        pc_token p = tr_token a \<and> pc_expires p = tr_expires a))"
proof -
  obtain rq reply where q: "(Swept # ru_trace s') ! i = Sent rq reply" "rests_on A (Stored p) (Sent rq reply)"
    using event_in_order [OF assms(1-3)] assms(4) by (auto simp: rests_on_def)
  then have "1 \<le> i" "ru_trace s' ! (i - 1) = Sent rq reply" by (cases i; simp)+
  then show ?thesis using q(2) by (fastforce simp: rests_on_def response_accepted)
qed

theorem stored_record_repeats_answer_witness:
  "\<exists>r s' p rq reply. run_loop sample_backend [] fresh_runner = Some (r, s') \<and> ru_trace s' ! 2 = Stored p \<and> pc_device_id p = ''d1'' \<and>
     ru_trace s' ! 1 = Sent rq reply"
proof (rule sample_session)
  fix r s'
  assume "run_loop sample_backend [] fresh_runner = Some (r, s')" "length (ru_trace s') = 8"
    "ru_trace s' ! 2 = Stored \<lparr>pc_device_id = ''d1'', pc_token = [], pc_expires = None, pc_sha256 = ''AB'', pc_sha1 = ''CD'', pc_issued = Some 4\<rparr>"
  then show ?thesis using stored_record_repeats_answer [OF _ fresh_trace, of sample_backend "[]" r s' 2] by fastforce
qed

end
