(* ===== verification/TpmWire.thy ===== *)
theory TpmWire
  imports Wire
begin

text \<open>
  Reading and writing TPM structures: the bounds-checked cursor of
  \<open>src/internal/tpmenroll/tpm2public.go\<close> and \<open>tpmsattest.go\<close>, and the writer of
  \<open>tpm2marshal.go\<close>.  A reader takes the cursor and gives an error or a value with the advanced
  cursor; \<open>read_then\<close> is Go's check of \<open>err\<close> between two reads.  Every reader is a function of the
  bytes still to come (\<open>cu_rest\<close>): the simplification rules at the end evaluate a parse of written
  bytes without looking at positions.
\<close>

section \<open>Errors and sequencing\<close>

datatype tpm_error =
    Truncated string | NotConsumed nat | SizePrefixMissing | SizeMismatch nat nat | PublicTooShort nat
  | UnsupportedNameAlg nat | UnsupportedKeyType nat | UnsupportedCurve nat | ExponentRange
  | ModulusRequired | UnsupportedScheme nat | ImplausibleKeySize nat
  | AttestRequired | NotGenerated u32 | ImplausiblePcrCount u32 | UnsupportedAttest nat
  | KeyRequired | UnsupportedSigAlg nat | SignatureInvalid | SignatureDer | SignFailed string
  | NameRequired | SecretSize | SeedSize | BlobTooShort | BadHmacLength nat | IdentityMissing
  | OaepFailed | IntegrityMismatch | PlainTooShort | SecretLength | KdfBits | BadBlockKey

definition read_then :: "'e + 'a \<Rightarrow> ('a \<Rightarrow> 'e + 'b) \<Rightarrow> 'e + 'b" where
  "read_then x f = (case x of Inl e \<Rightarrow> Inl e | Inr a \<Rightarrow> f a)"

lemma read_then_simps [simp]: "read_then (Inl e) f = Inl e" "read_then (Inr a) f = f a"
  by (simp_all add: read_then_def)

lemma read_then_Inr: "read_then x f = Inr b \<longleftrightarrow> (\<exists>a. x = Inr a \<and> f a = Inr b)"
  by (cases x) auto

section \<open>The cursor\<close>

record cursor =
  cu_b :: string
  cu_pos :: nat

definition cu_rest :: "cursor \<Rightarrow> string" where
  "cu_rest c = drop (cu_pos c) (cu_b c)"

definition cu_adv :: "nat \<Rightarrow> cursor \<Rightarrow> cursor" where
  "cu_adv n c = c\<lparr>cu_pos := cu_pos c + n\<rparr>"

definition cu_u8 :: "string \<Rightarrow> cursor \<Rightarrow> tpm_error + nat \<times> cursor" where
  "cu_u8 field c =
    (if cu_pos c + 1 > length (cu_b c) then Inl (Truncated field)
     else Inr (byte_of (cu_b c ! cu_pos c), cu_adv 1 c))"

definition cu_u16 :: "string \<Rightarrow> cursor \<Rightarrow> tpm_error + nat \<times> cursor" where
  "cu_u16 field c =
    (if cu_pos c + 2 > length (cu_b c) then Inl (Truncated field)
     else Inr (unat (get_uint16 (take 2 (cu_rest c))), cu_adv 2 c))"

definition cu_u32 :: "string \<Rightarrow> cursor \<Rightarrow> tpm_error + u32 \<times> cursor" where
  "cu_u32 field c =
    (if cu_pos c + 4 > length (cu_b c) then Inl (Truncated field)
     else Inr (get_uint32 (take 4 (cu_rest c)), cu_adv 4 c))"

definition cu_take :: "nat \<Rightarrow> string \<Rightarrow> cursor \<Rightarrow> tpm_error + string \<times> cursor" where
  "cu_take n field c =
    (if cu_pos c + n > length (cu_b c) then Inl (Truncated field)
     else Inr (take n (cu_rest c), cu_adv n c))"

definition cu_skip :: "nat \<Rightarrow> string \<Rightarrow> cursor \<Rightarrow> tpm_error + cursor" where
  "cu_skip n field c =
    (if cu_pos c + n > length (cu_b c) then Inl (Truncated field) else Inr (cu_adv n c))"

definition cu_tpm2b :: "string \<Rightarrow> cursor \<Rightarrow> tpm_error + string \<times> cursor" where
  "cu_tpm2b field c =
    read_then (cu_u16 (field @ ''.size'') c) (\<lambda>(n, c).
      if cu_pos c + n > length (cu_b c) then Inl (Truncated field)
      else Inr (take n (cu_rest c), cu_adv n c))"

definition cu_skip_tpm2b :: "string \<Rightarrow> cursor \<Rightarrow> tpm_error + cursor" where
  "cu_skip_tpm2b field c =
    read_then (cu_u16 (field @ ''.size'') c) (\<lambda>(n, c).
      if cu_pos c + n > length (cu_b c) then Inl (Truncated field) else Inr (cu_adv n c))"

definition require_fully_consumed :: "cursor \<Rightarrow> tpm_error option" where
  "require_fully_consumed c =
     (if cu_pos c \<noteq> length (cu_b c) then Some (NotConsumed (length (cu_b c) - cu_pos c)) else None)"

section \<open>The writer\<close>

definition w_u8 :: "nat \<Rightarrow> string \<Rightarrow> string" where
  "w_u8 v w = w @ [char_of (v mod 256)]"

definition w_u16 :: "nat \<Rightarrow> string \<Rightarrow> string" where
  "w_u16 v w = w @ put_uint16 (word_of_nat v)"

definition w_u32 :: "u32 \<Rightarrow> string \<Rightarrow> string" where
  "w_u32 v w = w @ put_uint32 v"

definition w_raw :: "string \<Rightarrow> string \<Rightarrow> string" where
  "w_raw p w = w @ p"

definition w_tpm2b :: "string \<Rightarrow> string \<Rightarrow> string" where
  "w_tpm2b p w = w_u16 (length p) w @ p"

definition wrap_tpm2b :: "string \<Rightarrow> string" where
  "wrap_tpm2b body = put_uint16 (word_of_nat (length body)) @ body"

definition tpm2b_bytes :: "string \<Rightarrow> string" where
  "tpm2b_bytes v = put_uint16 (word_of_nat (length v)) @ v"

section \<open>Reading what was written\<close>

definition cu_ok :: "cursor \<Rightarrow> bool" where
  "cu_ok c \<longleftrightarrow> cu_pos c \<le> length (cu_b c)"

lemma cu_rest_adv [simp]: "cu_rest (cu_adv n c) = drop n (cu_rest c)"
  by (simp add: cu_rest_def cu_adv_def add.commute)

lemma cu_adv_adv [simp]: "cu_adv n (cu_adv m c) = cu_adv (m + n) c"
  by (simp add: cu_adv_def ac_simps)

lemma cu_ok_adv [simp]: "cu_ok c \<Longrightarrow> n \<le> length (cu_rest c) \<Longrightarrow> cu_ok (cu_adv n c)"
  by (auto simp: cu_ok_def cu_adv_def cu_rest_def)

lemma cu_start [simp]: "cu_ok \<lparr>cu_b = s, cu_pos = 0\<rparr>" "cu_rest \<lparr>cu_b = s, cu_pos = 0\<rparr> = s"
  by (simp_all add: cu_ok_def cu_rest_def)

text \<open>The readers on the rest.\<close>

lemma cu_u16_rest:
  "cu_ok c \<Longrightarrow> cu_u16 f c = (if 2 \<le> length (cu_rest c) then Inr (unat (get_uint16 (cu_rest c)), cu_adv 2 c)
     else Inl (Truncated f))"
  by (auto simp: cu_u16_def cu_rest_def cu_ok_def get_uint16_def)

lemma cu_u8_rest:
  "cu_ok c \<Longrightarrow> cu_u8 f c = (case cu_rest c of [] \<Rightarrow> Inl (Truncated f) | b # _ \<Rightarrow> Inr (byte_of b, cu_adv 1 c))"
  by (auto simp: cu_u8_def cu_rest_def cu_ok_def Cons_nth_drop_Suc [symmetric] split: list.splits)

lemma cu_u32_rest:
  "cu_ok c \<Longrightarrow> cu_u32 f c = (if 4 \<le> length (cu_rest c) then Inr (get_uint32 (cu_rest c), cu_adv 4 c)
     else Inl (Truncated f))"
  by (auto simp: cu_u32_def cu_rest_def cu_ok_def get_uint32_def)

lemma cu_take_rest:
  "cu_ok c \<Longrightarrow> cu_take n f c = (if n \<le> length (cu_rest c) then Inr (take n (cu_rest c), cu_adv n c)
     else Inl (Truncated f))"
  by (auto simp: cu_take_def cu_rest_def cu_ok_def)

lemma cu_skip_rest:
  "cu_ok c \<Longrightarrow> cu_skip n f c = (if n \<le> length (cu_rest c) then Inr (cu_adv n c) else Inl (Truncated f))"
  by (auto simp: cu_skip_def cu_rest_def cu_ok_def)

lemma consumed_rest: "cu_ok c \<Longrightarrow> require_fully_consumed c = None \<longleftrightarrow> cu_rest c = []"
  by (auto simp: require_fully_consumed_def cu_rest_def cu_ok_def)

text \<open>An integer that fits its field.\<close>

lemma unat_16 [simp]: "n < 65536 \<Longrightarrow> unat (word_of_nat n :: 16 word) = n"
  by (simp add: unsigned_of_nat take_bit_eq_mod)

named_theorems tpm_read \<open>reading written fields\<close>

lemma read_u16 [tpm_read]:
  "cu_ok c \<Longrightarrow> cu_rest c = put_uint16 (word_of_nat v) @ s \<Longrightarrow> v < 65536 \<Longrightarrow> cu_u16 f c = Inr (v, cu_adv 2 c)"
  by (simp add: cu_u16_rest)

lemma read_u8 [tpm_read]:
  "cu_ok c \<Longrightarrow> cu_rest c = char_of (v mod 256) # s \<Longrightarrow> v < 256 \<Longrightarrow> cu_u8 f c = Inr (v, cu_adv 1 c)"
  by (simp add: cu_u8_rest byte_of_def)

lemma read_u32 [tpm_read]: "cu_ok c \<Longrightarrow> cu_rest c = put_uint32 v @ s \<Longrightarrow> cu_u32 f c = Inr (v, cu_adv 4 c)"
  by (simp add: cu_u32_rest)

lemma read_take [tpm_read]: "cu_ok c \<Longrightarrow> cu_rest c = x @ s \<Longrightarrow> length x = n \<Longrightarrow> cu_take n f c = Inr (x, cu_adv n c)"
  by (simp add: cu_take_rest)

lemma read_skip [tpm_read]: "cu_ok c \<Longrightarrow> cu_rest c = x @ s \<Longrightarrow> length x = n \<Longrightarrow> cu_skip n f c = Inr (cu_adv n c)"
  by (simp add: cu_skip_rest)

lemma read_tpm2b [tpm_read]:
  assumes "cu_ok c" and "cu_rest c = put_uint16 (word_of_nat (length x)) @ x @ s" and "length x < 65536"
  shows "cu_tpm2b f c = Inr (x, cu_adv (2 + length x) c)" and "cu_skip_tpm2b f c = Inr (cu_adv (2 + length x) c)"
proof -
  have "cu_u16 (f @ ''.size'') c = Inr (length x, cu_adv 2 c)" by (rule read_u16 [OF assms])
  moreover have "length (cu_rest c) = 2 + length x + length s" using assms(2) by simp
  then have "cu_pos c + 2 + length x \<le> length (cu_b c)" using assms(1) by (simp add: cu_rest_def cu_ok_def)
  ultimately show "cu_tpm2b f c = Inr (x, cu_adv (2 + length x) c)" and "cu_skip_tpm2b f c = Inr (cu_adv (2 + length x) c)"
    using assms(2) by (simp_all add: cu_tpm2b_def cu_skip_tpm2b_def) (simp_all add: cu_adv_def)
qed

text \<open>A reader that succeeds consumes what it returns.\<close>

lemma u16_Inr:
  assumes "cu_ok c" and "cu_u16 f c = Inr (v, c')"
  shows "cu_rest c = put_uint16 (word_of_nat v) @ cu_rest c' \<and> cu_ok c' \<and> v < 65536"
proof -
  have two: "2 \<le> length (cu_rest c)" and v: "v = unat (get_uint16 (cu_rest c))" and c': "c' = cu_adv 2 c"
    using assms by (auto simp: cu_u16_rest split: if_splits)
  have "put_uint16 (word_of_nat v) = take 2 (cu_rest c)" using put_get_uint16 [OF two] v by simp
  moreover have "v < 65536" using unat_bound [of "get_uint16 (cu_rest c)"] v by simp
  ultimately show ?thesis using c' two assms(1) by (simp del: unat_get)
qed

lemma tpm2b_Inr:
  assumes "cu_ok c" and "cu_tpm2b f c = Inr (x, c')"
  shows "cu_rest c = put_uint16 (word_of_nat (length x)) @ x @ cu_rest c' \<and> cu_ok c' \<and> length x < 65536"
proof -
  let ?n = "unat (get_uint16 (cu_rest c))"
  have two: "2 \<le> length (cu_rest c)" and n: "?n \<le> length (drop 2 (cu_rest c))"
    and x: "x = take ?n (drop 2 (cu_rest c))" and c': "c' = cu_adv (2 + ?n) c"
    using assms by (auto simp: cu_tpm2b_def cu_u16_rest cu_adv_def cu_rest_def cu_ok_def split: if_splits)
  have "length x = ?n" using n x by simp
  then have "put_uint16 (word_of_nat (length x)) = take 2 (cu_rest c)"
    using put_get_uint16 [OF two] by simp
  moreover have "?n < 65536" using unat_bound [of "get_uint16 (cu_rest c)"] by simp
  moreover have "cu_rest c = take 2 (cu_rest c) @ take ?n (drop 2 (cu_rest c)) @ drop ?n (drop 2 (cu_rest c))"
    by (metis append_take_drop_id)
  moreover have "cu_ok c'" unfolding c' by (rule cu_ok_adv [OF assms(1)]) (use n two in simp)
  ultimately show ?thesis
    using c' x \<open>length x = ?n\<close> by (auto simp: add.commute)
qed

end
