(* ===== verification/TpmPublic.thy ===== *)
theory TpmPublic
  imports TpmWire
begin

text \<open>
  The public areas of TPM keys (\<open>src/internal/tpmenroll/tpm2public.go\<close>) with the builders of the
  signing and endorsement templates (\<open>tpm2marshal.go\<close>, \<open>ektemplate.go\<close>).  A big integer is an \<open>int\<close>, its
  \<open>Bytes\<close> the minimal big-endian bytes.  The hash functions are a parameter, by algorithm identifier.
  The cache of \<open>params\<close> is a field that the call returns updated.
\<close>

unbundle bit_operations_syntax

section \<open>Identifiers\<close>

definition alg_sha256 :: nat where "alg_sha256 = 0x000B"
definition alg_sha384 :: nat where "alg_sha384 = 0x000C"
definition alg_sha512 :: nat where "alg_sha512 = 0x000D"
definition alg_rsa :: nat where "alg_rsa = 0x0001"
definition alg_ecc :: nat where "alg_ecc = 0x0023"
definition alg_null :: nat where "alg_null = 0x0010"
definition alg_rsassa :: nat where "alg_rsassa = 0x0014"
definition alg_rsapss :: nat where "alg_rsapss = 0x0016"
definition alg_ecdsa :: nat where "alg_ecdsa = 0x0018"
definition ecc_nist_p256 :: nat where "ecc_nist_p256 = 0x0003"
definition ecc_nist_p384 :: nat where "ecc_nist_p384 = 0x0004"

lemmas tpm_algs = alg_sha256_def alg_sha384_def alg_sha512_def alg_rsa_def alg_ecc_def alg_null_def
  alg_rsassa_def alg_rsapss_def alg_ecdsa_def ecc_nist_p256_def ecc_nist_p384_def

definition obj_fixed_tpm :: u32 where "obj_fixed_tpm = push_bit 1 1"
definition obj_fixed_parent :: u32 where "obj_fixed_parent = push_bit 4 1"
definition obj_sensitive_data_origin :: u32 where "obj_sensitive_data_origin = push_bit 5 1"
definition obj_restricted :: u32 where "obj_restricted = push_bit 16 1"
definition obj_decrypt :: u32 where "obj_decrypt = push_bit 17 1"
definition obj_sign :: u32 where "obj_sign = push_bit 18 1"

section \<open>Big integers\<close>

fun nat_bytes :: "nat \<Rightarrow> string" where
  "nat_bytes n = (if n = 0 then [] else nat_bytes (n div 256) @ [char_of (n mod 256)])"

declare nat_bytes.simps [simp del]

lemma nat_bytes_0 [simp]: "nat_bytes 0 = []"
  by (simp add: nat_bytes.simps)

lemma be_val_nat_bytes [simp]: "be_val (nat_bytes n) = n"
proof (induction n rule: nat_bytes.induct)
  case (1 n)
  have "byte_of (char_of (n mod 256)) = n mod 256" by (simp add: byte_of_def)
  then show ?case using 1 by (simp add: nat_bytes.simps [of n] be_val_snoc)
qed

section \<open>A parsed area\<close>

record parsed_params =
  pr_scheme_alg :: nat
  pr_scheme_hash :: nat
  pr_key_bits :: nat
  pr_curve_id :: nat
  pr_rsa_modulus :: "int option"
  pr_rsa_exponent :: "int option"
  pr_ecc_x :: "int option"
  pr_ecc_y :: "int option"

record public_area =
  pa_typ :: nat
  pa_name_alg :: nat
  pa_object_attributes :: u32
  pa_pub_area :: string
  pa_parsed :: "parsed_params option"

definition area_of_bytes :: "string \<Rightarrow> tpm_error + public_area" where
  "area_of_bytes pa =
    (if length pa < 8 then Inl (PublicTooShort (length pa))
     else Inr \<lparr>pa_typ = unat (get_uint16 (take 2 pa)), pa_name_alg = unat (get_uint16 (take 2 (drop 2 pa))),
       pa_object_attributes = get_uint32 (take 4 (drop 4 pa)), pa_pub_area = pa, pa_parsed = None\<rparr>)"

definition parse_public_area :: "string \<Rightarrow> bool \<Rightarrow> tpm_error + public_area" where
  "parse_public_area raw is_tpm2b =
    (if is_tpm2b then
       (if length raw < 2 then Inl SizePrefixMissing
        else let declared = unat (get_uint16 (take 2 raw)) in
          if declared \<noteq> length raw - 2 then Inl (SizeMismatch declared (length raw - 2))
          else area_of_bytes (drop 2 raw))
     else area_of_bytes raw)"

definition marshal_tpm2b :: "public_area \<Rightarrow> string" where
  "marshal_tpm2b p = put_uint16 (word_of_nat (length (pa_pub_area p))) @ pa_pub_area p"

definition has_attr :: "u32 \<Rightarrow> public_area \<Rightarrow> bool" where
  "has_attr a p \<longleftrightarrow> pa_object_attributes p AND a \<noteq> 0"

definition is_restricted_signing_key :: "public_area \<Rightarrow> bool" where
  "is_restricted_signing_key p \<longleftrightarrow> has_attr obj_restricted p \<and> has_attr obj_sign p \<and> \<not> has_attr obj_decrypt p \<and>
     has_attr obj_fixed_tpm p \<and> has_attr obj_fixed_parent p \<and> has_attr obj_sensitive_data_origin p"

text \<open>The hash of an admitted algorithm.\<close>

definition new_hash :: "(nat \<Rightarrow> string \<Rightarrow> string) \<Rightarrow> nat \<Rightarrow> tpm_error + (string \<Rightarrow> string)" where
  "new_hash H alg =
    (if alg = alg_sha256 \<or> alg = alg_sha384 \<or> alg = alg_sha512 then Inr (H alg) else Inl (UnsupportedNameAlg alg))"

definition compute_name :: "(nat \<Rightarrow> string \<Rightarrow> string) \<Rightarrow> public_area \<Rightarrow> tpm_error + string" where
  "compute_name H p =
    read_then (new_hash H (pa_name_alg p)) (\<lambda>h. Inr (put_uint16 (word_of_nat (pa_name_alg p)) @ h (pa_pub_area p)))"

section \<open>The parameters\<close>

text \<open>The symmetric block, the scheme and its hash; both key types read them alike.\<close>

definition parse_sym :: "string \<Rightarrow> cursor \<Rightarrow> tpm_error + cursor" where
  "parse_sym k c =
    read_then (cu_u16 (k @ ''.symAlg'') c) (\<lambda>(sym, c).
      if sym \<noteq> alg_null then
        read_then (cu_u16 (k @ ''.sym.keyBits'') c) (\<lambda>(_, c).
          read_then (cu_u16 (k @ ''.sym.mode'') c) (\<lambda>(_, c). Inr c))
      else Inr c)"

definition parse_scheme :: "string \<Rightarrow> cursor \<Rightarrow> tpm_error + (nat \<times> nat) \<times> cursor" where
  "parse_scheme k c =
    read_then (cu_u16 (k @ ''.schemeAlg'') c) (\<lambda>(alg, c).
      if alg \<noteq> alg_null then read_then (cu_u16 (k @ ''.schemeHash'') c) (\<lambda>(h, c). Inr ((alg, h), c))
      else Inr ((alg, 0), c))"

definition finish_params :: "cursor \<Rightarrow> parsed_params \<Rightarrow> tpm_error + parsed_params" where
  "finish_params c pp = (case require_fully_consumed c of Some e \<Rightarrow> Inl e | None \<Rightarrow> Inr pp)"

definition parse_rsa :: "cursor \<Rightarrow> tpm_error + parsed_params" where
  "parse_rsa c =
    read_then (parse_sym ''rsa'' c) (\<lambda>c.
    read_then (parse_scheme ''rsa'' c) (\<lambda>((alg, h), c).
    read_then (cu_u16 ''rsa.keyBits'' c) (\<lambda>(bits, c).
    read_then (cu_u32 ''rsa.exponent'' c) (\<lambda>(e, c).
    read_then (cu_tpm2b ''rsa.unique'' c) (\<lambda>(m, c).
      finish_params c \<lparr>pr_scheme_alg = alg, pr_scheme_hash = h, pr_key_bits = bits, pr_curve_id = 0,
        pr_rsa_modulus = Some (int (be_val m)),
        pr_rsa_exponent = Some (if e \<noteq> 0 then int (unat e) else 65537),
        pr_ecc_x = None, pr_ecc_y = None\<rparr>)))))"

definition curve_bits :: "nat \<Rightarrow> nat" where
  "curve_bits curve = (if curve = ecc_nist_p384 then 384 else if curve = ecc_nist_p256 then 256 else 0)"

definition parse_ecc :: "cursor \<Rightarrow> tpm_error + parsed_params" where
  "parse_ecc c =
    read_then (parse_sym ''ecc'' c) (\<lambda>c.
    read_then (parse_scheme ''ecc'' c) (\<lambda>((alg, h), c).
    read_then (cu_u16 ''ecc.curveId'' c) (\<lambda>(curve, c).
    read_then (cu_u16 ''ecc.kdfAlg'' c) (\<lambda>(kdf, c).
    read_then (if kdf \<noteq> alg_null then read_then (cu_u16 ''ecc.kdfHash'' c) (\<lambda>(_, c). Inr c) else Inr c) (\<lambda>c.
    read_then (cu_tpm2b ''ecc.x'' c) (\<lambda>(x, c).
    read_then (cu_tpm2b ''ecc.y'' c) (\<lambda>(y, c).
      finish_params c \<lparr>pr_scheme_alg = alg, pr_scheme_hash = h, pr_key_bits = curve_bits curve, pr_curve_id = curve,
        pr_rsa_modulus = None, pr_rsa_exponent = None,
        pr_ecc_x = Some (int (be_val x)), pr_ecc_y = Some (int (be_val y))\<rparr>)))))))"

definition parse_parameters_and_unique :: "public_area \<Rightarrow> tpm_error + parsed_params" where
  "parse_parameters_and_unique p =
    read_then (cu_skip_tpm2b ''authPolicy'' \<lparr>cu_b = pa_pub_area p, cu_pos = 8\<rparr>) (\<lambda>c.
      if pa_typ p = alg_rsa then parse_rsa c
      else if pa_typ p = alg_ecc then parse_ecc c
      else Inl (UnsupportedKeyType (pa_typ p)))"

definition params :: "public_area \<Rightarrow> (tpm_error + parsed_params) \<times> public_area" where
  "params p =
    (case pa_parsed p of
       Some pp \<Rightarrow> (Inr pp, p)
     | None \<Rightarrow> (case parse_parameters_and_unique p of
         Inl e \<Rightarrow> (Inl e, p)
       | Inr pp \<Rightarrow> (Inr pp, p\<lparr>pa_parsed := Some pp\<rparr>)))"

definition key_bits :: "public_area \<Rightarrow> tpm_error + nat" where
  "key_bits p = read_then (fst (params p)) (\<lambda>pp. Inr (pr_key_bits pp))"

definition signing_scheme_alg :: "public_area \<Rightarrow> tpm_error + nat" where
  "signing_scheme_alg p = read_then (fst (params p)) (\<lambda>pp. Inr (pr_scheme_alg pp))"

definition ecc_curve_id :: "public_area \<Rightarrow> tpm_error + nat" where
  "ecc_curve_id p =
     (if pa_typ p \<noteq> alg_ecc then Inr 0 else read_then (fst (params p)) (\<lambda>pp. Inr (pr_curve_id pp)))"

datatype ecc_curve = CurveP256 | CurveP384

datatype tpm_key = TpmRsaKey int int | TpmEccKey ecc_curve int int

definition rsa_exponent_int :: "int option \<Rightarrow> tpm_error + int" where
  "rsa_exponent_int e =
    (case e of None \<Rightarrow> Inl ExponentRange
     | Some v \<Rightarrow> if v \<le> 0 \<or> 2 ^ 63 \<le> v then Inl ExponentRange else Inr v)"

definition ecc_curve_of :: "nat \<Rightarrow> tpm_error + ecc_curve" where
  "ecc_curve_of i =
    (if i = ecc_nist_p256 then Inr CurveP256 else if i = ecc_nist_p384 then Inr CurveP384 else Inl (UnsupportedCurve i))"

definition area_public_key :: "public_area \<Rightarrow> tpm_error + tpm_key" where
  "area_public_key p =
    read_then (fst (params p)) (\<lambda>pp.
      if pa_typ p = alg_rsa then
        read_then (rsa_exponent_int (pr_rsa_exponent pp)) (\<lambda>e. Inr (TpmRsaKey (the (pr_rsa_modulus pp)) e))
      else if pa_typ p = alg_ecc then
        read_then (ecc_curve_of (pr_curve_id pp)) (\<lambda>curve.
          Inr (TpmEccKey curve (the (pr_ecc_x pp)) (the (pr_ecc_y pp))))
      else Inl (UnsupportedKeyType (pa_typ p)))"

section \<open>The builders\<close>

definition ak_object_attributes :: u32 where
  "ak_object_attributes = 0x00050072"

definition device_key_object_attributes :: u32 where
  "device_key_object_attributes = 0x00060072"

definition ek_object_attributes :: u32 where
  "ek_object_attributes = 0x000300b2"

definition modulus_ok :: "int option \<Rightarrow> tpm_error + string" where
  "modulus_ok modulus =
    (case modulus of
       None \<Rightarrow> Inl ModulusRequired
     | Some m \<Rightarrow> if m \<le> 0 then Inl ModulusRequired else Inr (nat_bytes (nat m)))"

definition build_rsa_signing_area ::
  "int option \<Rightarrow> nat \<Rightarrow> u32 \<Rightarrow> nat \<Rightarrow> nat \<Rightarrow> tpm_error + string" where
  "build_rsa_signing_area modulus name_alg attrs scheme scheme_hash =
    read_then (modulus_ok modulus) (\<lambda>mod_bytes.
    read_then (new_hash (\<lambda>_ s. s) name_alg) (\<lambda>_.
      if scheme \<noteq> alg_null \<and> scheme \<noteq> alg_rsassa \<and> scheme \<noteq> alg_rsapss then Inl (UnsupportedScheme scheme)
      else let bits = length mod_bytes * 8 in
        if bits < 2048 \<or> bits > 16384 then Inl (ImplausibleKeySize bits)
        else
          let w = w_u16 alg_rsa []; w = w_u16 name_alg w; w = w_u32 attrs w; w = w_tpm2b [] w;
              w = w_u16 alg_null w; w = w_u16 scheme w;
              w = (if scheme \<noteq> alg_null then w_u16 scheme_hash w else w);
              w = w_u16 bits w; w = w_u32 0 w; w = w_tpm2b mod_bytes w in
          Inr (wrap_tpm2b w)))"

definition sym_alg_aes :: nat where "sym_alg_aes = 0x0006"
definition sym_aes128 :: nat where "sym_aes128 = 128"
definition sym_mode_cfb :: nat where "sym_mode_cfb = 0x0043"

definition well_known_ek_policy :: string where
  "well_known_ek_policy = be_bytes 32 0x837197674484b3f81a90cc8d46a5d724fd52d76e06520b64f2a1da1b331469aa"

definition build_rsa_storage_ek_area :: "int option \<Rightarrow> tpm_error + string" where
  "build_rsa_storage_ek_area modulus =
    read_then (modulus_ok modulus) (\<lambda>mod_bytes.
      let bits = length mod_bytes * 8 in
      if bits < 2048 \<or> bits > 16384 then Inl (ImplausibleKeySize bits)
      else
        let w = w_u16 alg_rsa []; w = w_u16 alg_sha256 w; w = w_u32 ek_object_attributes w;
            w = w_tpm2b well_known_ek_policy w; w = w_u16 sym_alg_aes w; w = w_u16 sym_aes128 w;
            w = w_u16 sym_mode_cfb w; w = w_u16 alg_null w; w = w_u16 bits w; w = w_u32 0 w;
            w = w_tpm2b mod_bytes w in
        Inr (wrap_tpm2b w))"

section \<open>Parsing keeps the bytes\<close>

text \<open>The header fields are those of the retained bytes.\<close>

definition area_ok :: "public_area \<Rightarrow> bool" where
  "area_ok p \<longleftrightarrow> 8 \<le> length (pa_pub_area p) \<and> pa_typ p = unat (get_uint16 (pa_pub_area p)) \<and>
     pa_name_alg p = unat (get_uint16 (drop 2 (pa_pub_area p))) \<and>
     pa_object_attributes p = get_uint32 (drop 4 (pa_pub_area p)) \<and>
     (\<forall>pp. pa_parsed p = Some pp \<longrightarrow> parse_parameters_and_unique (p\<lparr>pa_parsed := None\<rparr>) = Inr pp)"

lemma get_take [simp]: "get_uint16 (take 2 s) = get_uint16 s" "get_uint32 (take 4 s) = get_uint32 s"
  by (simp_all add: get_uint16_def get_uint32_def)

lemma area_of_bytes_Inr:
  "area_of_bytes pa = Inr p \<Longrightarrow> pa_pub_area p = pa \<and> pa_parsed p = None \<and> area_ok p"
  by (auto simp: area_of_bytes_def area_ok_def split: if_splits)

lemma parse_area_Inr:
  assumes "parse_public_area raw True = Inr p"
  shows "marshal_tpm2b p = raw \<and> area_ok p \<and> pa_parsed p = None \<and> pa_pub_area p = drop 2 raw"
proof -
  have two: "2 \<le> length raw" and n: "unat (get_uint16 raw) = length raw - 2" and a: "area_of_bytes (drop 2 raw) = Inr p"
    using assms by (auto simp: parse_public_area_def Let_def split: if_splits)
  have "put_uint16 (word_of_nat (length raw - 2)) = take 2 raw"
    using put_get_uint16 [OF two] by (simp flip: n)
  then show ?thesis using area_of_bytes_Inr [OF a] by (simp add: marshal_tpm2b_def)
qed

section \<open>Built areas parse back\<close>

lemma nat_bytes_Nil [simp]: "nat_bytes n = [] \<longleftrightarrow> n = 0"
  by (simp add: nat_bytes.simps [of n])

lemma modulus_ok_Inr: "modulus_ok m = Inr mb \<longleftrightarrow> (\<exists>v. m = Some v \<and> 0 < v \<and> mb = nat_bytes (nat v))"
  by (auto simp: modulus_ok_def split: option.splits)

lemma new_hash_Inr: "new_hash H a = Inr h \<longleftrightarrow> a \<in> {alg_sha256, alg_sha384, alg_sha512} \<and> h = H a"
  by (auto simp: new_hash_def)

text \<open>The body of an RSA area: header, policy, symmetric block, scheme, size, exponent and modulus.\<close>

definition rsa_tail :: "nat \<Rightarrow> nat \<Rightarrow> nat \<Rightarrow> string \<Rightarrow> string" where
  "rsa_tail scheme h bits mb =
     put_uint16 (word_of_nat scheme) @ (if scheme \<noteq> alg_null then put_uint16 (word_of_nat h) else []) @
     put_uint16 (word_of_nat bits) @ put_uint32 0 @ put_uint16 (word_of_nat (length mb)) @ mb"

lemma put_nat16_16 [simp]: "length (put_uint16 w) = 2" "length (put_uint32 v) = 4"
  by (simp_all add: put_uint16_def put_uint32_def)

lemma drop_put [simp]: "drop 2 (put_uint16 w @ s) = s" "drop 4 (put_uint16 w @ put_uint16 v @ s) = s"
  "drop 8 (put_uint16 w @ put_uint16 v @ put_uint32 u @ s) = s"
  by simp_all

lemma get_put_alone [simp]: "get_uint16 (put_uint16 w) = w" "get_uint32 (put_uint32 v) = v"
  using get_put_uint16 [of w "[]"] get_put_uint32 [of v "[]"] by simp_all

lemma parse_wrapped:
  assumes "length body < 65536"
  shows "parse_public_area (wrap_tpm2b body) True = area_of_bytes body"
  using assms by (simp add: parse_public_area_def wrap_tpm2b_def)

text \<open>
  Property C33: a parsed area is well-formed, keeps the bytes it was parsed from, and stays so when its
  parameters are first read; a second reading gives the same answer.
\<close>

theorem parsed_area_well_formed:
  assumes "parse_public_area raw True = Inr p"
  shows "area_ok p \<and> marshal_tpm2b p = raw \<and> area_ok (snd (params p)) \<and> marshal_tpm2b (snd (params p)) = raw \<and>
    fst (params (snd (params p))) = fst (params p)"
proof -
  have area: "marshal_tpm2b p = raw" "area_ok p" "pa_parsed p = None" using parse_area_Inr [OF assms] by auto
  have memo: "parse_parameters_and_unique (p\<lparr>pa_parsed := x\<rparr>) = parse_parameters_and_unique p" for x
    by (simp add: parse_parameters_and_unique_def cong: if_cong)
  show ?thesis
  proof (cases "parse_parameters_and_unique p")
    case (Inl e)
    then show ?thesis using area by (simp add: params_def)
  next
    case (Inr pp)
    then have "params p = (Inr pp, p\<lparr>pa_parsed := Some pp\<rparr>)" using area by (simp add: params_def)
    moreover have "area_ok (p\<lparr>pa_parsed := Some pp\<rparr>)" using area(2) Inr by (simp add: area_ok_def memo)
    ultimately show ?thesis using area by (simp add: marshal_tpm2b_def params_def)
  qed
qed

theorem parsed_area_well_formed_witness:
  "\<exists>p. parse_public_area (wrap_tpm2b (replicate 8 CHR 0x00)) True = Inr p \<and> area_ok p"
proof -
  have "parse_public_area (wrap_tpm2b (replicate 8 CHR 0x00)) True = area_of_bytes (replicate 8 CHR 0x00)"
    by (rule parse_wrapped) simp
  then obtain p where "parse_public_area (wrap_tpm2b (replicate 8 CHR 0x00)) True = Inr p"
    by (simp add: area_of_bytes_def)
  then show ?thesis using parsed_area_well_formed by blast
qed

text \<open>The public key of an area has a positive exponent that fits the signed word.\<close>

lemma area_public_key_exponent: "area_public_key p = Inr (TpmRsaKey n e) \<Longrightarrow> 0 < e \<and> e < 2 ^ 63"
  by (auto simp: area_public_key_def read_then_Inr rsa_exponent_int_def split: if_splits option.splits)

lemma finish_done: "cu_ok c \<Longrightarrow> cu_rest c = [] \<Longrightarrow> finish_params c pp = Inr pp"
  by (simp add: finish_params_def consumed_rest split: option.split)

lemma parse_rsa_tail:
  assumes sym: "parse_sym ''rsa'' c = Inr d" and ok: "cu_ok d" and rest: "cu_rest d = rsa_tail scheme h bits mb"
    and fits: "scheme < 65536" "h < 65536" "bits < 65536" "length mb < 65536"
  shows "parse_rsa c = Inr \<lparr>pr_scheme_alg = scheme, pr_scheme_hash = (if scheme \<noteq> alg_null then h else 0),
    pr_key_bits = bits, pr_curve_id = 0, pr_rsa_modulus = Some (int (be_val mb)), pr_rsa_exponent = Some 65537,
    pr_ecc_x = None, pr_ecc_y = None\<rparr>"
proof (cases "scheme = alg_null")
  case True
  have "parse_scheme ''rsa'' d = Inr ((scheme, 0), cu_adv 2 d)"
    using ok rest fits True by (simp add: parse_scheme_def read_u16 rsa_tail_def)
  then show ?thesis
    using ok rest fits True
    by (simp add: parse_rsa_def sym rsa_tail_def read_u16 read_u32 read_tpm2b [where s = "[]"] finish_done)
next
  case False
  have "parse_scheme ''rsa'' d = Inr ((scheme, h), cu_adv 4 d)"
    using ok rest fits False by (simp add: parse_scheme_def read_u16 rsa_tail_def)
  then show ?thesis
    using ok rest fits False
    by (simp add: parse_rsa_def sym rsa_tail_def read_u16 read_u32 read_tpm2b [where s = "[]"] finish_done)
qed

definition area_body :: "nat \<Rightarrow> u32 \<Rightarrow> string \<Rightarrow> string \<Rightarrow> string" where
  "area_body name attrs policy rest =
     put_uint16 (word_of_nat alg_rsa) @ put_uint16 (word_of_nat name) @ put_uint32 attrs @
     put_uint16 (word_of_nat (length policy)) @ policy @ rest"

lemma area_body_reads:
  assumes "name < 65536" and "length policy < 65536"
  shows "area_of_bytes (area_body name attrs policy rest) =
      Inr \<lparr>pa_typ = alg_rsa, pa_name_alg = name, pa_object_attributes = attrs,
        pa_pub_area = area_body name attrs policy rest, pa_parsed = None\<rparr>" (is ?area)
    and "\<exists>c. cu_skip_tpm2b ''authPolicy'' \<lparr>cu_b = area_body name attrs policy rest, cu_pos = 8\<rparr> = Inr c \<and>
      cu_ok c \<and> cu_rest c = rest" (is ?skip)
proof -
  have r: "alg_rsa < 65536" by (simp add: alg_rsa_def)
  show ?area using assms r by (simp add: area_of_bytes_def area_body_def)
  let ?c = "\<lparr>cu_b = area_body name attrs policy rest, cu_pos = 8\<rparr>"
  have ok: "cu_ok ?c" by (simp add: cu_ok_def area_body_def)
  have rest: "cu_rest ?c = put_uint16 (word_of_nat (length policy)) @ policy @ rest"
    by (simp add: cu_rest_def area_body_def)
  have "cu_skip_tpm2b ''authPolicy'' ?c = Inr (cu_adv (2 + length policy) ?c)"
    by (rule read_tpm2b(2) [OF ok rest assms(2)])
  moreover have "cu_ok (cu_adv (2 + length policy) ?c)" by (rule cu_ok_adv [OF ok]) (simp add: rest)
  ultimately show ?skip using rest by simp
qed

lemma area_public_key_rsa:
  assumes "parse_parameters_and_unique p = Inr pp" and "pa_parsed p = None" and "pa_typ p = alg_rsa"
    and "pr_rsa_modulus pp = Some m" and "pr_rsa_exponent pp = Some 65537"
  shows "fst (params p) = Inr pp" and "area_public_key p = Inr (TpmRsaKey m 65537)"
  using assms by (simp_all add: params_def area_public_key_def rsa_exponent_int_def)

lemma build_signing_Inr:
  assumes "build_rsa_signing_area modulus name_alg attrs scheme h = Inr raw"
  shows "\<exists>mb. modulus_ok modulus = Inr mb \<and> name_alg \<in> {alg_sha256, alg_sha384, alg_sha512} \<and>
    scheme \<in> {alg_null, alg_rsassa, alg_rsapss} \<and> length mb \<in> {256..2048} \<and>
    raw = wrap_tpm2b (area_body name_alg attrs []
        (put_uint16 (word_of_nat alg_null) @ rsa_tail scheme h (length mb * 8) mb))"
proof -
  obtain mb where mb: "modulus_ok modulus = Inr mb" using assms by (auto simp: build_rsa_signing_area_def read_then_Inr)
  have "name_alg \<in> {alg_sha256, alg_sha384, alg_sha512} \<and> scheme \<in> {alg_null, alg_rsassa, alg_rsapss} \<and> length mb \<in> {256..2048}"
    using assms mb by (auto simp: build_rsa_signing_area_def read_then_Inr new_hash_Inr Let_def split: if_splits)
  moreover from this have "raw = wrap_tpm2b (area_body name_alg attrs []
        (put_uint16 (word_of_nat alg_null) @ rsa_tail scheme h (length mb * 8) mb))"
    using assms mb by (auto simp: build_rsa_signing_area_def read_then_Inr Let_def area_body_def
      rsa_tail_def w_u16_def w_u32_def w_tpm2b_def split: if_splits)
  ultimately show ?thesis using mb by blast
qed

lemma build_ek_Inr:
  assumes "build_rsa_storage_ek_area modulus = Inr raw"
  shows "\<exists>mb. modulus_ok modulus = Inr mb \<and> length mb \<in> {256..2048} \<and>
    raw = wrap_tpm2b (area_body alg_sha256 ek_object_attributes well_known_ek_policy
        (put_uint16 (word_of_nat sym_alg_aes) @ put_uint16 (word_of_nat sym_aes128) @
         put_uint16 (word_of_nat sym_mode_cfb) @ rsa_tail alg_null 0 (length mb * 8) mb))"
proof -
  obtain mb where mb: "modulus_ok modulus = Inr mb" using assms by (auto simp: build_rsa_storage_ek_area_def read_then_Inr)
  have "length mb \<in> {256..2048}"
    using assms mb by (auto simp: build_rsa_storage_ek_area_def Let_def split: if_splits)
  moreover from this have "raw = wrap_tpm2b (area_body alg_sha256 ek_object_attributes well_known_ek_policy
        (put_uint16 (word_of_nat sym_alg_aes) @ put_uint16 (word_of_nat sym_aes128) @
         put_uint16 (word_of_nat sym_mode_cfb) @ rsa_tail alg_null 0 (length mb * 8) mb))"
    using assms mb by (auto simp: build_rsa_storage_ek_area_def Let_def area_body_def
      rsa_tail_def w_u16_def w_u32_def w_tpm2b_def split: if_splits)
  ultimately show ?thesis using mb by blast
qed

text \<open>Every area of this layout reads back.\<close>

lemma laid_out_area_reads_back:
  assumes raw: "raw = wrap_tpm2b (area_body name attrs policy (sb @ rsa_tail scheme h (length mb * 8) mb))"
    and sym: "\<And>c. cu_ok c \<Longrightarrow> cu_rest c = sb @ rsa_tail scheme h (length mb * 8) mb \<Longrightarrow>
      parse_sym ''rsa'' c = Inr (cu_adv (length sb) c)"
    and len: "length mb \<le> 2048" "length policy \<le> 64" "length sb \<le> 6"
    and fits: "name < 65536" "scheme < 65536" "h < 65536"
  shows "\<exists>p. parse_public_area raw True = Inr p \<and> marshal_tpm2b p = raw \<and> pa_typ p = alg_rsa \<and> pa_name_alg p = name \<and>
    pa_object_attributes p = attrs \<and> key_bits p = Inr (length mb * 8) \<and> signing_scheme_alg p = Inr scheme \<and>
    area_public_key p = Inr (TpmRsaKey (int (be_val mb)) 65537)"
proof -
  let ?rest = "sb @ rsa_tail scheme h (length mb * 8) mb"
  let ?body = "area_body name attrs policy ?rest"
  let ?p = "\<lparr>pa_typ = alg_rsa, pa_name_alg = name, pa_object_attributes = attrs, pa_pub_area = ?body, pa_parsed = None\<rparr>"
  have "length ?body < 65536" using len by (simp add: area_body_def rsa_tail_def)
  then have parsed: "parse_public_area raw True = Inr ?p"
    using area_body_reads(1) [OF fits(1)] len by (simp add: raw parse_wrapped)
  obtain c where c: "cu_skip_tpm2b ''authPolicy'' \<lparr>cu_b = ?body, cu_pos = 8\<rparr> = Inr c" "cu_ok c" "cu_rest c = ?rest"
    using area_body_reads(2) [OF fits(1), of policy attrs ?rest] len by auto
  obtain pp where pp: "parse_rsa c = Inr pp" "pr_rsa_modulus pp = Some (int (be_val mb))" "pr_rsa_exponent pp = Some 65537"
    "pr_key_bits pp = length mb * 8" "pr_scheme_alg pp = scheme"
    using parse_rsa_tail [OF sym [OF c(2,3)], of scheme h "length mb * 8" mb] c(2,3) fits len by simp
  have "parse_parameters_and_unique ?p = Inr pp" using c(1) pp(1) by (simp add: parse_parameters_and_unique_def)
  then show ?thesis
    using parsed parse_area_Inr [OF parsed] area_public_key_rsa [of ?p pp] pp
    by (auto simp: key_bits_def signing_scheme_alg_def)
qed

lemma modulus_bytes: "modulus_ok (Some m) = Inr mb \<Longrightarrow> int (be_val mb) = m"
  by (auto simp: modulus_ok_def split: if_splits)

lemma length_nat_bytes_shift: "0 < a \<Longrightarrow> length (nat_bytes (a * 256 ^ k)) = length (nat_bytes a) + k"
proof (induction k)
  case (Suc k)
  have "a * 256 ^ Suc k div 256 = a * 256 ^ k" by simp
  then show ?case using Suc by (simp add: nat_bytes.simps [of "a * 256 ^ Suc k"] del: power_Suc)
qed simp

lemma build_signing_succeeds:
  assumes "0 < m" and "name_alg \<in> {alg_sha256, alg_sha384, alg_sha512}" and "scheme \<in> {alg_null, alg_rsassa, alg_rsapss}"
    and "length (nat_bytes (nat m)) \<in> {256..2048}"
  shows "\<exists>raw. build_rsa_signing_area (Some m) name_alg attrs scheme h = Inr raw"
  using assms by (auto simp: build_rsa_signing_area_def modulus_ok_def new_hash_def Let_def)

lemma built_signing_area:
  assumes built: "build_rsa_signing_area (Some m) name_alg attrs scheme h = Inr raw" and hash: "h < 65536"
  shows "\<exists>p. parse_public_area raw True = Inr p \<and> marshal_tpm2b p = raw \<and> pa_typ p = alg_rsa \<and> pa_name_alg p = name_alg \<and>
    pa_object_attributes p = attrs \<and> key_bits p = Inr (length (nat_bytes (nat m)) * 8) \<and>
    signing_scheme_alg p = Inr scheme \<and> area_public_key p = Inr (TpmRsaKey m 65537)"
proof -
  obtain mb where mb: "modulus_ok (Some m) = Inr mb" "length mb \<in> {256..2048}"
    and alg: "name_alg \<in> {alg_sha256, alg_sha384, alg_sha512}" "scheme \<in> {alg_null, alg_rsassa, alg_rsapss}"
    and raw: "raw = wrap_tpm2b (area_body name_alg attrs []
        (put_uint16 (word_of_nat alg_null) @ rsa_tail scheme h (length mb * 8) mb))"
    using build_signing_Inr [OF built] by auto
  have sym: "parse_sym ''rsa'' c = Inr (cu_adv (length (put_uint16 (word_of_nat alg_null))) c)"
    if "cu_ok c" "cu_rest c = put_uint16 (word_of_nat alg_null) @ rsa_tail scheme h (length mb * 8) mb" for c
    by (simp add: parse_sym_def read_u16 [OF that] alg_null_def)
  have "mb = nat_bytes (nat m)" using mb(1) by (auto simp: modulus_ok_def split: if_splits)
  moreover have "name_alg < 65536" "scheme < 65536" using alg by (auto simp: tpm_algs)
  ultimately show ?thesis
    using laid_out_area_reads_back [OF raw sym] mb modulus_bytes [OF mb(1)] hash by simp
qed

text \<open>
  Fact: a signing area that \<open>BuildRSASigningPublicArea\<close> builds parses back to the attributes, hash,
  scheme, size and modulus it was built from, with the default exponent, and marshals to the same bytes.
\<close>

theorem built_signing_area_reads_back:
  assumes built: "build_rsa_signing_area (Some m) name_alg attrs scheme h = Inr raw" and hash: "h < 65536"
  shows "\<exists>p. parse_public_area raw True = Inr p \<and> marshal_tpm2b p = raw \<and> pa_typ p = alg_rsa \<and> pa_name_alg p = name_alg \<and>
    pa_object_attributes p = attrs \<and> key_bits p = Inr (length (nat_bytes (nat m)) * 8) \<and>
    signing_scheme_alg p = Inr scheme \<and> area_public_key p = Inr (TpmRsaKey m 65537)"
  by (rule built_signing_area [OF built hash])

theorem built_signing_area_reads_back_witness:
  "\<exists>raw p. build_rsa_signing_area (Some (128 * 256 ^ 255)) alg_sha256 ak_object_attributes alg_rsassa alg_sha256 = Inr raw \<and>
     parse_public_area raw True = Inr p \<and> pa_object_attributes p = ak_object_attributes \<and>
     area_public_key p = Inr (TpmRsaKey (128 * 256 ^ 255) 65537)"
proof -
  have "length (nat_bytes 128) = 1" by (simp add: nat_bytes.simps [of 128])
  then have "length (nat_bytes (nat (128 * 256 ^ 255))) = 256"
    using length_nat_bytes_shift [of 128 255] by simp
  then obtain raw where raw: "build_rsa_signing_area (Some (128 * 256 ^ 255)) alg_sha256 ak_object_attributes alg_rsassa alg_sha256 = Inr raw"
    using build_signing_succeeds [of "128 * 256 ^ 255" alg_sha256 alg_rsassa ak_object_attributes alg_sha256] by auto
  have "alg_sha256 < 65536" by (simp add: alg_sha256_def)
  then show ?thesis using built_signing_area_reads_back [OF raw] raw by blast
qed

theorem built_ek_area_reads_back:
  assumes built: "build_rsa_storage_ek_area (Some m) = Inr raw"
  shows "\<exists>p. parse_public_area raw True = Inr p \<and> marshal_tpm2b p = raw \<and> pa_typ p = alg_rsa \<and> pa_name_alg p = alg_sha256 \<and>
    pa_object_attributes p = ek_object_attributes \<and> area_public_key p = Inr (TpmRsaKey m 65537)"
proof -
  obtain mb where mb: "modulus_ok (Some m) = Inr mb" "length mb \<in> {256..2048}"
    and raw: "raw = wrap_tpm2b (area_body alg_sha256 ek_object_attributes well_known_ek_policy
        ((put_uint16 (word_of_nat sym_alg_aes) @ put_uint16 (word_of_nat sym_aes128) @
         put_uint16 (word_of_nat sym_mode_cfb)) @ rsa_tail alg_null 0 (length mb * 8) mb))"
    using build_ek_Inr [OF built] by auto
  let ?sym = "put_uint16 (word_of_nat sym_alg_aes) @ put_uint16 (word_of_nat sym_aes128) @ put_uint16 (word_of_nat sym_mode_cfb)"
  have s: "sym_alg_aes < 65536" "sym_aes128 < 65536" "sym_mode_cfb < 65536" "sym_alg_aes \<noteq> alg_null"
    by (simp_all add: sym_alg_aes_def sym_aes128_def sym_mode_cfb_def alg_null_def)
  have sym: "parse_sym ''rsa'' c = Inr (cu_adv (length ?sym) c)"
    if "cu_ok c" "cu_rest c = ?sym @ rsa_tail alg_null 0 (length mb * 8) mb" for c
    using that s by (simp add: parse_sym_def read_u16)
  have "length well_known_ek_policy \<le> 64" by (simp add: well_known_ek_policy_def)
  moreover have "alg_sha256 < 65536" "alg_null < 65536" by (simp_all add: tpm_algs)
  ultimately show ?thesis
    using laid_out_area_reads_back [OF raw sym] mb modulus_bytes [OF mb(1)] by auto
qed

end
