(* ===== verification/TpmAttest.thy ===== *)
theory TpmAttest
  imports TpmPublic
begin

text \<open>
  Attestation structures (\<open>src/internal/tpmenroll/tpmsattest.go\<close>) and their signatures
  (\<open>tpmtsignature.go\<close>).  A nil attestation is \<open>None\<close>.  RSA signing and verification, the hash
  functions and the ASN.1 decoder are parameters.
\<close>

section \<open>Attestations\<close>

definition tpm_generated :: u32 where "tpm_generated = 0xFF544347"
definition st_attest_certify :: nat where "st_attest_certify = 0x8017"
definition st_attest_quote :: nat where "st_attest_quote = 0x8018"
definition clock_info_len :: nat where "clock_info_len = 17"
definition firmware_vers_len :: nat where "firmware_vers_len = 8"

record pcr_selection =
  ps_hash_alg :: nat
  ps_bitmap :: string

record attest_info =
  ai_type :: nat
  ai_qualified_signer :: string
  ai_extra_data :: string
  ai_certified_name :: string
  ai_pcr_selections :: "pcr_selection list"
  ai_pcr_digest :: string

definition is_certify :: "attest_info \<Rightarrow> bool" where
  "is_certify a \<longleftrightarrow> ai_type a = st_attest_certify"

definition is_quote :: "attest_info \<Rightarrow> bool" where
  "is_quote a \<longleftrightarrow> ai_type a = st_attest_quote"

text \<open>The loop over the selections.\<close>

primrec parse_selections :: "nat \<Rightarrow> cursor \<Rightarrow> tpm_error + pcr_selection list \<times> cursor" where
  "parse_selections 0 c = Inr ([], c)"
| "parse_selections (Suc k) c =
    read_then (cu_u16 ''pcrSelect.hashAlg'' c) (\<lambda>(alg, c).
    read_then (cu_u8 ''pcrSelect.sizeofSelect'' c) (\<lambda>(n, c).
    read_then (cu_take n ''pcrSelect.bitmap'' c) (\<lambda>(bm, c).
    read_then (parse_selections k c) (\<lambda>(sels, c). Inr (\<lparr>ps_hash_alg = alg, ps_bitmap = bm\<rparr> # sels, c)))))"

definition finish_attest :: "cursor \<Rightarrow> attest_info \<Rightarrow> tpm_error + attest_info" where
  "finish_attest c info = (case require_fully_consumed c of Some e \<Rightarrow> Inl e | None \<Rightarrow> Inr info)"

definition parse_attest_certify :: "attest_info \<Rightarrow> cursor \<Rightarrow> tpm_error + attest_info" where
  "parse_attest_certify info c =
    read_then (cu_tpm2b ''certifyInfo.name'' c) (\<lambda>(name, c).
    read_then (cu_tpm2b ''certifyInfo.qualifiedName'' c) (\<lambda>(_, c).
      finish_attest c (info\<lparr>ai_certified_name := name\<rparr>)))"

definition parse_attest_quote :: "attest_info \<Rightarrow> cursor \<Rightarrow> tpm_error + attest_info" where
  "parse_attest_quote info c =
    read_then (cu_u32 ''pcrSelection.count'' c) (\<lambda>(count, c).
      if count > 16 then Inl (ImplausiblePcrCount count)
      else
        read_then (parse_selections (unat count) c) (\<lambda>(sels, c).
        read_then (cu_tpm2b ''quoteInfo.pcrDigest'' c) (\<lambda>(digest, c).
          finish_attest c (info\<lparr>ai_pcr_selections := sels, ai_pcr_digest := digest\<rparr>))))"

definition parse_attest :: "string option \<Rightarrow> tpm_error + attest_info" where
  "parse_attest raw =
    (case raw of None \<Rightarrow> Inl AttestRequired
     | Some b \<Rightarrow>
       read_then (cu_u32 ''magic'' \<lparr>cu_b = b, cu_pos = 0\<rparr>) (\<lambda>(magic, c).
       if magic \<noteq> tpm_generated then Inl (NotGenerated magic)
       else
         read_then (cu_u16 ''type'' c) (\<lambda>(typ, c).
         read_then (cu_tpm2b ''qualifiedSigner'' c) (\<lambda>(qs, c).
         read_then (cu_tpm2b ''extraData'' c) (\<lambda>(extra, c).
         read_then (cu_skip clock_info_len ''clockInfo'' c) (\<lambda>c.
         read_then (cu_skip firmware_vers_len ''firmwareVersion'' c) (\<lambda>c.
           let info = \<lparr>ai_type = typ, ai_qualified_signer = qs, ai_extra_data = extra, ai_certified_name = [],
             ai_pcr_selections = [], ai_pcr_digest = []\<rparr> in
           if typ = st_attest_certify then parse_attest_certify info c
           else if typ = st_attest_quote then parse_attest_quote info c
           else Inl (UnsupportedAttest typ))))))))"

section \<open>Writing attestations\<close>

definition attest_header :: "nat \<Rightarrow> string \<Rightarrow> string \<Rightarrow> string" where
  "attest_header typ qs extra =
    w_raw (replicate (clock_info_len + firmware_vers_len) CHR 0x00)
      (w_tpm2b extra (w_tpm2b qs (w_u16 typ (w_u32 tpm_generated []))))"

definition marshal_certify_attest :: "string \<Rightarrow> string \<Rightarrow> string \<Rightarrow> string" where
  "marshal_certify_attest qs extra name = w_tpm2b [] (w_tpm2b name (attest_header st_attest_certify qs extra))"

definition w_selection :: "pcr_selection \<Rightarrow> string \<Rightarrow> string" where
  "w_selection s w = w_raw (ps_bitmap s) (w_u8 (length (ps_bitmap s)) (w_u16 (ps_hash_alg s) w))"

definition marshal_quote_attest :: "string \<Rightarrow> string \<Rightarrow> pcr_selection list \<Rightarrow> string \<Rightarrow> string" where
  "marshal_quote_attest qs extra sels digest =
    w_tpm2b digest (fold w_selection sels
      (w_u32 (word_of_nat (length sels)) (attest_header st_attest_quote qs extra)))"

section \<open>Signatures\<close>

datatype go_hash = GoSHA256 | GoSHA384 | GoSHA512

definition crypto_hash :: "nat \<Rightarrow> tpm_error + go_hash" where
  "crypto_hash alg =
    (if alg = alg_sha256 then Inr GoSHA256 else if alg = alg_sha384 then Inr GoSHA384
     else if alg = alg_sha512 then Inr GoSHA512 else Inl (UnsupportedNameAlg alg))"

definition marshal_rsassa_signature :: "nat \<Rightarrow> string \<Rightarrow> string" where
  "marshal_rsassa_signature alg s = w_tpm2b s (w_u16 alg (w_u16 alg_rsassa []))"

definition fixed_width_big_endian :: "int \<Rightarrow> int \<Rightarrow> string" where
  "fixed_width_big_endian v width =
    (let b = nat_bytes (nat \<bar>v\<bar>) in
     if width \<le> 0 \<or> int (length b) \<ge> width then b else replicate (nat width - length b) CHR 0x00 @ b)"

text \<open>\<open>asn1.Unmarshal\<close> of the pair gives the integers (nil as \<open>None\<close>) and the rest.\<close>

type_synonym der_pair = "string \<Rightarrow> ((int option \<times> int option) \<times> string) option"

definition marshal_ecdsa_signature :: "der_pair \<Rightarrow> nat \<Rightarrow> string \<Rightarrow> int \<Rightarrow> tpm_error + string" where
  "marshal_ecdsa_signature der alg der_sig coord_bytes =
    (case der der_sig of None \<Rightarrow> Inl SignatureDer
     | Some ((R, S), rest) \<Rightarrow>
        if rest \<noteq> [] then Inl SignatureDer
        else case (R, S) of
            (Some r, Some s) \<Rightarrow>
              if r \<le> 0 \<or> s \<le> 0 then Inl SignatureDer
              else Inr (w_tpm2b (fixed_width_big_endian s coord_bytes) (w_tpm2b (fixed_width_big_endian r coord_bytes)
                (w_u16 alg (w_u16 alg_ecdsa []))))
          | _ \<Rightarrow> Inl SignatureDer)"

definition sign_attest_rsassa ::
  "(go_hash \<Rightarrow> string \<Rightarrow> string) \<Rightarrow> (go_hash \<Rightarrow> string \<Rightarrow> string + string) \<Rightarrow> nat \<Rightarrow> string \<Rightarrow> tpm_error + string" where
  "sign_attest_rsassa H sign alg attest =
    read_then (crypto_hash alg) (\<lambda>ch.
      case sign ch (H ch attest) of Inl e \<Rightarrow> Inl (SignFailed e)
      | Inr s \<Rightarrow> Inr (marshal_rsassa_signature alg s))"

definition verify_attest_signature ::
  "(go_hash \<Rightarrow> string \<Rightarrow> string) \<Rightarrow> (go_hash \<Rightarrow> string \<Rightarrow> string \<Rightarrow> bool) option \<Rightarrow> string \<Rightarrow> string \<Rightarrow> tpm_error option" where
  "verify_attest_signature H ak_pub attest tpmt_sig =
    (case ak_pub of None \<Rightarrow> Some KeyRequired
     | Some verify \<Rightarrow>
       (case read_then (cu_u16 ''sigAlg'' \<lparr>cu_b = tpmt_sig, cu_pos = 0\<rparr>) (\<lambda>(sig_alg, c).
          if sig_alg \<noteq> alg_rsassa then Inl (UnsupportedSigAlg sig_alg)
          else
            read_then (cu_u16 ''hashAlg'' c) (\<lambda>(alg, c).
            read_then (cu_tpm2b ''rsa.sig'' c) (\<lambda>(s, c).
              case require_fully_consumed c of Some e \<Rightarrow> Inl e
              | None \<Rightarrow> read_then (crypto_hash alg) (\<lambda>ch.
                  if verify ch (H ch attest) s then Inr () else Inl SignatureInvalid)))) of
          Inl e \<Rightarrow> Some e
        | Inr _ \<Rightarrow> None))"

section \<open>Attestations read back\<close>

lemma finish_attest_done: "cu_ok c \<Longrightarrow> cu_rest c = [] \<Longrightarrow> finish_attest c info = Inr info"
  by (simp add: finish_attest_def consumed_rest split: option.split)

definition selection_ok :: "pcr_selection \<Rightarrow> bool" where
  "selection_ok s \<longleftrightarrow> ps_hash_alg s < 65536 \<and> length (ps_bitmap s) < 256"

definition selection_bytes :: "pcr_selection \<Rightarrow> string" where
  "selection_bytes s = put_uint16 (word_of_nat (ps_hash_alg s)) @ char_of (length (ps_bitmap s) mod 256) # ps_bitmap s"

lemma fold_w_selection: "fold w_selection sels w = w @ concat (map selection_bytes sels)"
  by (induction sels arbitrary: w) (simp_all add: w_selection_def selection_bytes_def w_raw_def w_u8_def w_u16_def)

lemma parse_selections_reads:
  "cu_ok c \<Longrightarrow> cu_rest c = concat (map selection_bytes sels) @ s \<Longrightarrow> list_all selection_ok sels \<Longrightarrow>
   \<exists>c'. parse_selections (length sels) c = Inr (sels, c') \<and> cu_ok c' \<and> cu_rest c' = s"
proof (induction sels arbitrary: c)
  case (Cons x sels)
  let ?n = "length (ps_bitmap x)"
  let ?c = "cu_adv (3 + ?n) c"
  have x: "ps_hash_alg x < 65536" "?n < 256" using Cons.prems(3) by (simp_all add: selection_ok_def)
  have rest: "cu_rest c = put_uint16 (word_of_nat (ps_hash_alg x)) @ char_of (?n mod 256) # ps_bitmap x @
      concat (map selection_bytes sels) @ s"
    using Cons.prems(2) by (simp add: selection_bytes_def [of x])
  have ok: "cu_ok ?c" by (rule cu_ok_adv [OF Cons.prems(1)]) (simp add: rest)
  have "cu_rest ?c = concat (map selection_bytes sels) @ s"
    by (simp add: rest)
  from Cons.IH [OF ok this] obtain c' where
    c': "parse_selections (length sels) ?c = Inr (sels, c')" "cu_ok c'" "cu_rest c' = s"
    using Cons.prems(3) by auto
  have r1: "cu_u16 ''pcrSelect.hashAlg'' c = Inr (ps_hash_alg x, cu_adv 2 c)" by (rule read_u16 [OF Cons.prems(1) rest x(1)])
  have ok2: "cu_ok (cu_adv 2 c)" by (rule cu_ok_adv [OF Cons.prems(1)]) (simp add: rest)
  have r2: "cu_u8 ''pcrSelect.sizeofSelect'' (cu_adv 2 c) = Inr (?n, cu_adv 1 (cu_adv 2 c))"
    by (rule read_u8 [OF ok2 _ x(2)]) (simp add: rest)
  have ok3: "cu_ok (cu_adv 1 (cu_adv 2 c))" by (rule cu_ok_adv [OF ok2]) (simp add: rest)
  have r3: "cu_take ?n ''pcrSelect.bitmap'' (cu_adv 1 (cu_adv 2 c)) = Inr (ps_bitmap x, ?c)"
    using read_take [OF ok3, of "ps_bitmap x" "concat (map selection_bytes sels) @ s" ?n] by (simp add: rest)
  show ?case using r1 r2 r3 c' by simp
qed simp

text \<open>The common part, then the branch of the type.\<close>

definition attest_start :: "nat \<Rightarrow> string \<Rightarrow> string \<Rightarrow> attest_info" where
  "attest_start typ qs extra = \<lparr>ai_type = typ, ai_qualified_signer = qs, ai_extra_data = extra, ai_certified_name = [],
     ai_pcr_selections = [], ai_pcr_digest = []\<rparr>"

lemma attest_header_bytes:
  "attest_header typ qs extra @ s = put_uint32 tpm_generated @ put_uint16 (word_of_nat typ) @
     put_uint16 (word_of_nat (length qs)) @ qs @ put_uint16 (word_of_nat (length extra)) @ extra @
     replicate 17 CHR 0x00 @ replicate 8 CHR 0x00 @ s"
  by (simp add: attest_header_def w_raw_def w_tpm2b_def w_u16_def w_u32_def clock_info_len_def firmware_vers_len_def
      replicate_add [of 17 8, simplified])

lemma parse_attest_header:
  assumes "typ < 65536" and "length qs < 65536" and "length extra < 65536"
  shows "\<exists>c. cu_ok c \<and> cu_rest c = s \<and> parse_attest (Some (attest_header typ qs extra @ s)) =
    (if typ = st_attest_certify then parse_attest_certify (attest_start typ qs extra) c
     else if typ = st_attest_quote then parse_attest_quote (attest_start typ qs extra) c
     else Inl (UnsupportedAttest typ))"
proof -
  let ?b = "attest_header typ qs extra @ s"
  define c where "c = \<lparr>cu_b = ?b, cu_pos = 0\<rparr>"
  let ?d = "cu_adv (35 + (length qs + length extra)) c"
  have rest: "cu_rest c = put_uint32 tpm_generated @ put_uint16 (word_of_nat typ) @
     put_uint16 (word_of_nat (length qs)) @ qs @ put_uint16 (word_of_nat (length extra)) @ extra @
     replicate 17 CHR 0x00 @ replicate 8 CHR 0x00 @ s"
    by (simp add: c_def attest_header_bytes)
  have ok: "cu_ok c" by (simp add: c_def)
  have d: "cu_ok ?d" by (rule cu_ok_adv [OF ok]) (simp only: rest, simp)
  have dr: "cu_rest ?d = s" by (simp only: cu_rest_adv rest) simp
  have "parse_attest (Some ?b) = (if typ = st_attest_certify then parse_attest_certify (attest_start typ qs extra) ?d
     else if typ = st_attest_quote then parse_attest_quote (attest_start typ qs extra) ?d
     else Inl (UnsupportedAttest typ))"
    unfolding parse_attest_def using ok assms
    by (simp add: read_u32 read_u16 read_tpm2b read_skip rest clock_info_len_def firmware_vers_len_def
        attest_start_def flip: c_def)
  then show ?thesis using d dr by blast
qed

lemma parse_certify_tail:
  assumes "cu_ok c" and rest: "cu_rest c = put_uint16 (word_of_nat (length name)) @ name @ put_uint16 0" and "length name < 65536"
  shows "parse_attest_certify info c = Inr (info\<lparr>ai_certified_name := name\<rparr>)"
proof -
  let ?d = "cu_adv (2 + length name) c"
  have n: "cu_tpm2b ''certifyInfo.name'' c = Inr (name, ?d)" using read_tpm2b(1) assms by blast
  have "cu_ok ?d" by (rule cu_ok_adv [OF assms(1)]) (simp add: rest)
  moreover have "cu_rest ?d = put_uint16 (word_of_nat (length ([] :: string))) @ [] @ []" by (simp add: rest)
  ultimately have "cu_tpm2b ''certifyInfo.qualifiedName'' ?d = Inr ([], cu_adv (2 + length ([] :: string)) ?d)"
    by (rule read_tpm2b(1)) simp
  moreover have "cu_ok (cu_adv 2 ?d)" by (rule cu_ok_adv [OF \<open>cu_ok ?d\<close>]) (simp add: rest)
  ultimately show ?thesis using n by (simp add: parse_attest_certify_def finish_attest_done rest)
qed

lemma parse_quote_tail:
  assumes "cu_ok c" and rest: "cu_rest c = put_uint32 (word_of_nat (length sels)) @ concat (map selection_bytes sels) @
      put_uint16 (word_of_nat (length digest)) @ digest @ []"
    and "length sels \<le> 16" and "list_all selection_ok sels" and "length digest < 65536"
  shows "parse_attest_quote info c = Inr (info\<lparr>ai_pcr_selections := sels, ai_pcr_digest := digest\<rparr>)"
proof -
  let ?w = "word_of_nat (length sels) :: u32" and ?d = "cu_adv 4 c"
  have w: "unat ?w = length sels" using assms(3) by (simp add: unsigned_of_nat take_bit_eq_mod)
  have "\<not> ?w > 16" using assms(3) w by (simp add: word_less_nat_alt)
  moreover have "cu_u32 ''pcrSelection.count'' c = Inr (?w, ?d)" by (rule read_u32 [OF assms(1) rest])
  moreover have "cu_ok ?d" by (rule cu_ok_adv [OF assms(1)]) (simp add: rest)
  moreover have "cu_rest ?d = concat (map selection_bytes sels) @ put_uint16 (word_of_nat (length digest)) @ digest @ []"
    by (simp add: rest)
  from parse_selections_reads [OF \<open>cu_ok ?d\<close> this assms(4)] obtain e where
    e: "parse_selections (length sels) ?d = Inr (sels, e)" "cu_ok e"
       "cu_rest e = put_uint16 (word_of_nat (length digest)) @ digest @ []" by blast
  moreover have "cu_tpm2b ''quoteInfo.pcrDigest'' e = Inr (digest, cu_adv (2 + length digest) e)"
    by (rule read_tpm2b(1) [OF e(2,3) assms(5)])
  moreover have "cu_ok (cu_adv (2 + length digest) e)" by (rule cu_ok_adv [OF e(2)]) (simp add: e(3))
  ultimately show ?thesis using w by (simp add: parse_attest_quote_def finish_attest_done)
qed

lemma attestation_reads_back:
  shows "length qs < 65536 \<Longrightarrow> length extra < 65536 \<Longrightarrow> length name < 65536 \<Longrightarrow>
    parse_attest (Some (marshal_certify_attest qs extra name)) =
      Inr ((attest_start st_attest_certify qs extra)\<lparr>ai_certified_name := name\<rparr>)"
    and "length qs < 65536 \<Longrightarrow> length extra < 65536 \<Longrightarrow> length digest < 65536 \<Longrightarrow> length sels \<le> 16 \<Longrightarrow>
    list_all selection_ok sels \<Longrightarrow> parse_attest (Some (marshal_quote_attest qs extra sels digest)) =
      Inr ((attest_start st_attest_quote qs extra)\<lparr>ai_pcr_selections := sels, ai_pcr_digest := digest\<rparr>)"
proof -
  assume sizes: "length qs < 65536" "length extra < 65536" "length name < 65536"
  let ?ct = "put_uint16 (word_of_nat (length name)) @ name @ put_uint16 0"
  have "marshal_certify_attest qs extra name = attest_header st_attest_certify qs extra @ ?ct"
    by (simp add: marshal_certify_attest_def w_tpm2b_def w_u16_def)
  moreover have "st_attest_certify < 65536" by (simp add: st_attest_certify_def)
  from parse_attest_header [OF this sizes(1,2), of ?ct] obtain c where
    "cu_ok c" "cu_rest c = ?ct" "parse_attest (Some (attest_header st_attest_certify qs extra @ ?ct)) =
      parse_attest_certify (attest_start st_attest_certify qs extra) c" by auto
  ultimately show "parse_attest (Some (marshal_certify_attest qs extra name)) =
      Inr ((attest_start st_attest_certify qs extra)\<lparr>ai_certified_name := name\<rparr>)"
    using parse_certify_tail sizes(3) by simp
next
  assume sizes: "length qs < 65536" "length extra < 65536" "length digest < 65536" and sels: "length sels \<le> 16" "list_all selection_ok sels"
  let ?qt = "put_uint32 (word_of_nat (length sels)) @ concat (map selection_bytes sels) @
      put_uint16 (word_of_nat (length digest)) @ digest @ []"
  have "marshal_quote_attest qs extra sels digest = attest_header st_attest_quote qs extra @ ?qt"
    by (simp add: marshal_quote_attest_def fold_w_selection w_tpm2b_def w_u16_def w_u32_def)
  moreover have "st_attest_quote < 65536" "st_attest_quote \<noteq> st_attest_certify"
    by (simp_all add: st_attest_quote_def st_attest_certify_def)
  from parse_attest_header [OF this(1) sizes(1,2), of ?qt] this(2) obtain c where
    "cu_ok c" "cu_rest c = ?qt" "parse_attest (Some (attest_header st_attest_quote qs extra @ ?qt)) =
      parse_attest_quote (attest_start st_attest_quote qs extra) c" by auto
  ultimately show "parse_attest (Some (marshal_quote_attest qs extra sels digest)) =
      Inr ((attest_start st_attest_quote qs extra)\<lparr>ai_pcr_selections := sels, ai_pcr_digest := digest\<rparr>)"
    using parse_quote_tail [of c sels digest] sels sizes(3) by simp
qed

text \<open>
  Property C31: a certification and a quote that the marshallers write parse back to the signer, the nonce and
  the certified name, or to the selections and the digest.
\<close>

theorem attestation_round_trip:
  assumes sizes: "length qs < 65536" "length extra < 65536" "length name < 65536" "length digest < 65536"
    and sels: "length sels \<le> 16" "list_all selection_ok sels"
  shows "parse_attest (Some (marshal_certify_attest qs extra name)) =
      Inr ((attest_start st_attest_certify qs extra)\<lparr>ai_certified_name := name\<rparr>) \<and>
    parse_attest (Some (marshal_quote_attest qs extra sels digest)) =
      Inr ((attest_start st_attest_quote qs extra)\<lparr>ai_pcr_selections := sels, ai_pcr_digest := digest\<rparr>)"
  using attestation_reads_back [of qs extra] sizes sels by blast

theorem attestation_round_trip_witness:
  "parse_attest (Some (marshal_quote_attest ''s'' ''nonce'' [\<lparr>ps_hash_alg = alg_sha256, ps_bitmap = ''abc''\<rparr>] ''d'')) =
     Inr ((attest_start st_attest_quote ''s'' ''nonce'')\<lparr>ai_pcr_selections := [\<lparr>ps_hash_alg = alg_sha256, ps_bitmap = ''abc''\<rparr>],
       ai_pcr_digest := ''d''\<rparr>)"
  using attestation_round_trip [of "''s''" "''nonce''" "''n''" "''d''" "[\<lparr>ps_hash_alg = alg_sha256, ps_bitmap = ''abc''\<rparr>]"]
  by (simp add: selection_ok_def alg_sha256_def)

section \<open>Signatures verify\<close>

lemma crypto_hash_Inr: "crypto_hash alg = Inr ch \<Longrightarrow> alg < 65536"
  by (auto simp: crypto_hash_def tpm_algs split: if_splits)

lemma verify_marshalled:
  assumes alg: "alg < 65536" and s: "length s < 65536"
  shows "verify_attest_signature H (Some verify) attest (marshal_rsassa_signature alg s) =
    (case crypto_hash alg of Inl e \<Rightarrow> Some e
     | Inr ch \<Rightarrow> if verify ch (H ch attest) s then None else Some SignatureInvalid)"
proof -
  let ?b = "marshal_rsassa_signature alg s"
  define c where "c = \<lparr>cu_b = ?b, cu_pos = 0\<rparr>"
  have ok: "cu_ok c" and rest: "cu_rest c = put_uint16 (word_of_nat alg_rsassa) @ put_uint16 (word_of_nat alg) @
      put_uint16 (word_of_nat (length s)) @ s @ []"
    by (simp_all add: c_def marshal_rsassa_signature_def w_tpm2b_def w_u16_def)
  have r1: "cu_u16 ''sigAlg'' c = Inr (alg_rsassa, cu_adv 2 c)"
    by (rule read_u16 [OF ok rest]) (simp add: alg_rsassa_def)
  have r2: "cu_u16 ''hashAlg'' (cu_adv 2 c) = Inr (alg, cu_adv 4 c)"
    using read_u16 [of "cu_adv 2 c" alg] ok rest alg by simp
  have r3: "cu_tpm2b ''rsa.sig'' (cu_adv 4 c) = Inr (s, cu_adv (6 + length s) c)"
    using read_tpm2b(1) [of "cu_adv 4 c" s "[]"] ok rest s by simp
  have "cu_ok (cu_adv (6 + length s) c)" by (rule cu_ok_adv [OF ok]) (simp add: rest)
  then have "require_fully_consumed (cu_adv (6 + length s) c) = None" by (simp add: consumed_rest rest)
  then show ?thesis
    using r1 r2 r3 by (auto simp: verify_attest_signature_def simp flip: c_def split: sum.splits)
qed

text \<open>
  Fact: when RSA verification accepts what RSA signing gives, what \<open>SignAttestRSASSA\<close> returns verifies
  over the attestation it signed.
\<close>

theorem signed_attestation_verifies:
  assumes rsa: "\<And>ch d s. sign ch d = Inr s \<Longrightarrow> verify ch d s \<and> length s < 65536"
    and signed: "sign_attest_rsassa H sign alg attest = Inr t"
  shows "verify_attest_signature H (Some verify) attest t = None"
proof -
  obtain ch where ch: "crypto_hash alg = Inr ch"
    using signed by (auto simp: sign_attest_rsassa_def read_then_Inr)
  then obtain s where s: "sign ch (H ch attest) = Inr s" and t: "t = marshal_rsassa_signature alg s"
    using signed by (cases "sign ch (H ch attest)") (auto simp: sign_attest_rsassa_def)
  show ?thesis using verify_marshalled [OF crypto_hash_Inr [OF ch], of s H verify attest] rsa [OF s] ch t by simp
qed

theorem signed_attestation_verifies_witness:
  "\<exists>t. sign_attest_rsassa (\<lambda>_ d. d) (\<lambda>_ d. Inr (take 9 d)) alg_sha256 ''attest'' = Inr t \<and>
     verify_attest_signature (\<lambda>_ d. d) (Some (\<lambda>_ d s. s = take 9 d)) ''attest'' t = None"
proof -
  obtain t where t: "sign_attest_rsassa (\<lambda>_ d. d) (\<lambda>_ d. Inr (take 9 d)) alg_sha256 ''attest'' = Inr t"
    by (simp add: sign_attest_rsassa_def crypto_hash_def)
  have "verify_attest_signature (\<lambda>_ d. d) (Some (\<lambda>_ d s. s = take 9 d)) ''attest'' t = None"
    by (rule signed_attestation_verifies [OF _ t]) auto
  then show ?thesis using t by blast
qed

text \<open>
  Property C32: the signatures accepted are exactly the marshalled ones, of an admitted hash, that RSA
  accepts for the digest of the very attestation under the hash the signature names.
\<close>

theorem signature_accepted_iff:
  "verify_attest_signature H (Some verify) attest t = None \<longleftrightarrow>
    (\<exists>alg ch s. t = marshal_rsassa_signature alg s \<and> length s < 65536 \<and> crypto_hash alg = Inr ch \<and>
       verify ch (H ch attest) s)" (is "?accepted \<longleftrightarrow> ?shape")
proof
  assume a: ?accepted
  define c where "c = \<lparr>cu_b = t, cu_pos = 0\<rparr>"
  obtain d where d: "cu_u16 ''sigAlg'' c = Inr (alg_rsassa, d)"
    using a by (cases "cu_u16 ''sigAlg'' c") (auto simp: verify_attest_signature_def simp flip: c_def split: if_splits)
  obtain alg e where e: "cu_u16 ''hashAlg'' d = Inr (alg, e)"
    using a d by (cases "cu_u16 ''hashAlg'' d") (auto simp: verify_attest_signature_def simp flip: c_def)
  obtain s g where g: "cu_tpm2b ''rsa.sig'' e = Inr (s, g)"
    using a d e by (cases "cu_tpm2b ''rsa.sig'' e") (auto simp: verify_attest_signature_def simp flip: c_def)
  have all: "require_fully_consumed g = None"
    using a d e g by (cases "require_fully_consumed g") (auto simp: verify_attest_signature_def simp flip: c_def)
  obtain ch where ch: "crypto_hash alg = Inr ch" "verify ch (H ch attest) s"
    using a d e g all by (cases "crypto_hash alg") (auto simp: verify_attest_signature_def simp flip: c_def split: if_splits)
  have ok: "cu_ok c" and t: "cu_rest c = t" by (simp_all add: c_def)
  note u = u16_Inr [OF ok d]
  note v = u16_Inr [OF conjunct1 [OF conjunct2 [OF u]] e]
  note w = tpm2b_Inr [OF conjunct1 [OF conjunct2 [OF v]] g]
  have "cu_rest g = []" using consumed_rest w all by blast
  then have "t = marshal_rsassa_signature alg s \<and> length s < 65536"
    using u v w t by (simp add: marshal_rsassa_signature_def w_tpm2b_def w_u16_def)
  then show ?shape using ch by blast
next
  assume ?shape
  then show ?accepted using verify_marshalled crypto_hash_Inr by (auto split: sum.splits)
qed

section \<open>Fixed-width coordinates\<close>

lemma be_val_append: "be_val (a @ b) = be_val a * 256 ^ length b + be_val b"
proof (induction b rule: rev_induct)
  case (snoc x b)
  then show ?case using be_val_snoc [of "a @ b" x] by (simp add: be_val_snoc algebra_simps)
qed simp

lemma be_val_zeros [simp]: "be_val (replicate n CHR 0x00) = 0"
  by (induction n) (simp_all add: be_val_snoc byte_of_def flip: replicate_append_same)

lemma fixed_width_value:
  "0 \<le> v \<Longrightarrow> int (be_val (fixed_width_big_endian v w)) = v"
  by (simp add: fixed_width_big_endian_def Let_def be_val_append)

lemma fixed_width_length:
  "length (fixed_width_big_endian v w) = max (nat w) (length (nat_bytes (nat \<bar>v\<bar>)))"
  by (auto simp: fixed_width_big_endian_def Let_def max_def)

end
