(* ===== verification/TpmCredential.thy ===== *)
theory TpmCredential
  imports TpmAttest
begin

text \<open>
  Credential activation (\<open>src/internal/tpmenroll/makecredential.go\<close>, \<open>kdfa.go\<close>).  HMAC and the AES block
  function are the parameter \<open>tpm_crypto\<close>, RSA-OAEP under the endorsement key a parameter of its own, nil
  where the key is.  The two loops that end only because a digest or a block is not empty are partial
  functions: \<open>None\<close> is a call that does not return.
\<close>

section \<open>Parameters\<close>

record tpm_crypto =
  tc_mac :: "go_hash \<Rightarrow> string \<Rightarrow> string \<Rightarrow> string"
  tc_aes :: "string \<Rightarrow> string \<Rightarrow> string"

type_synonym 'a tpm_run = "(tpm_error + 'a) option"

type_synonym ek_public = "go_hash \<Rightarrow> string \<Rightarrow> string \<Rightarrow> string + string"

type_synonym ek_private = "go_hash \<Rightarrow> string \<Rightarrow> string \<Rightarrow> string option"

definition run_then :: "'a tpm_run \<Rightarrow> ('a \<Rightarrow> 'b tpm_run) \<Rightarrow> 'b tpm_run" where
  "run_then x f = (case x of None \<Rightarrow> None | Some (Inl e) \<Rightarrow> Some (Inl e) | Some (Inr a) \<Rightarrow> f a)"

lemma run_then_simps [simp]:
  "run_then None f = None" "run_then (Some (Inl e)) f = Some (Inl e)" "run_then (Some (Inr a)) f = f a"
  by (simp_all add: run_then_def)

lemma run_then_Inr: "run_then x f = Some (Inr b) \<longleftrightarrow> (\<exists>a. x = Some (Inr a) \<and> f a = Some (Inr b))"
  by (auto simp: run_then_def split: option.splits sum.splits)

definition secret_bytes :: nat where "secret_bytes = 16"

definition aes_block_size :: nat where "aes_block_size = 16"

definition oaep_label :: string where "oaep_label = ''IDENTITY'' @ [CHR 0x00]"

section \<open>The key derivation\<close>

definition kdfa_message :: "string \<Rightarrow> string \<Rightarrow> string \<Rightarrow> int \<Rightarrow> u32 \<Rightarrow> string" where
  "kdfa_message label u v bits counter =
     put_uint32 counter @ label @ [CHR 0x00] @ u @ v @ put_uint32 (word_of_int bits)"

partial_function (option) kdfa_loop :: "(u32 \<Rightarrow> string) \<Rightarrow> nat \<Rightarrow> u32 \<Rightarrow> string \<Rightarrow> string option" where
  "kdfa_loop block want counter out =
    (if length out < want then kdfa_loop block want (counter + 1) (out @ block (counter + 1)) else Some out)"

definition mask_first :: "int \<Rightarrow> string \<Rightarrow> string" where
  "mask_first rem out =
    (if rem \<noteq> 0 then out[0 := char_of (byte_of (out ! 0) AND (2 ^ nat rem - 1))] else out)"

definition kdfa :: "(string \<Rightarrow> string \<Rightarrow> string) \<Rightarrow> string \<Rightarrow> string \<Rightarrow> string \<Rightarrow> string \<Rightarrow> int \<Rightarrow> string tpm_run" where
  "kdfa mac key label u v bits =
    (if bits \<le> 0 then Some (Inl KdfBits)
     else let want = nat ((bits + 7) div 8) in
       (case kdfa_loop (\<lambda>i. mac key (kdfa_message label u v bits i)) want 0 [] of
          None \<Rightarrow> None
        | Some out \<Rightarrow> Some (Inr (mask_first (bits mod 8) (take want out)))))"

section \<open>The symmetric layer\<close>

definition byte_word :: "char \<Rightarrow> 8 word" where
  "byte_word c = word_of_nat (byte_of c)"

definition byte_xor :: "char \<Rightarrow> char \<Rightarrow> char" where
  "byte_xor a b = char_of (unat (byte_word a XOR byte_word b))"

partial_function (option) cfb_loop ::
  "nat \<Rightarrow> (string \<Rightarrow> string) \<Rightarrow> bool \<Rightarrow> string \<Rightarrow> string \<Rightarrow> string option" where
  "cfb_loop bs E dec feedback data =
    (if data = [] then Some []
     else
       let n = min bs (length data);
           out = map2 byte_xor (take n data) (E feedback);
           feedback = (if n = bs then (if dec then take bs data else out) else feedback) in
       Option.bind (cfb_loop bs E dec feedback (drop bs data)) (\<lambda>rest. Some (out @ rest)))"

definition cfb128 :: "nat \<Rightarrow> (string \<Rightarrow> string) \<Rightarrow> string \<Rightarrow> string \<Rightarrow> bool \<Rightarrow> string option" where
  "cfb128 bs E iv data dec = cfb_loop bs E dec (take bs iv @ replicate (bs - length iv) CHR 0x00) data"

definition new_cipher :: "tpm_crypto \<Rightarrow> string \<Rightarrow> (string \<Rightarrow> string) tpm_run" where
  "new_cipher C k = (if length k \<in> {16, 24, 32} then Some (Inr (tc_aes C k)) else Some (Inl BadBlockKey))"

definition aes_cfb :: "tpm_crypto \<Rightarrow> go_hash \<Rightarrow> string \<Rightarrow> string \<Rightarrow> string \<Rightarrow> bool \<Rightarrow> string tpm_run" where
  "aes_cfb C h seed ak_name data dec =
    run_then (kdfa (tc_mac C h) seed ''STORAGE'' ak_name [] 128) (\<lambda>sym_key.
    run_then (new_cipher C sym_key) (\<lambda>E.
      map_option Inr (cfb128 aes_block_size E (replicate aes_block_size CHR 0x00) data dec)))"

definition integrity_hmac :: "tpm_crypto \<Rightarrow> go_hash \<Rightarrow> string \<Rightarrow> nat \<Rightarrow> string \<Rightarrow> string \<Rightarrow> string tpm_run" where
  "integrity_hmac C h seed ds enc_identity ak_name =
    run_then (kdfa (tc_mac C h) seed ''INTEGRITY'' [] [] (int ds * 8)) (\<lambda>hmac_key.
      Some (Inr (tc_mac C h hmac_key (enc_identity @ ak_name))))"

definition hash_for :: "nat \<Rightarrow> tpm_error + go_hash \<times> nat" where
  "hash_for name_alg =
    (if name_alg = alg_sha256 then Inr (GoSHA256, 32) else if name_alg = alg_sha384 then Inr (GoSHA384, 48)
     else if name_alg = alg_sha512 then Inr (GoSHA512, 64) else Inl (UnsupportedNameAlg name_alg))"

section \<open>Making and activating a credential\<close>

record credential =
  cr_blob :: string
  cr_enc_secret :: string

definition make_credential ::
  "tpm_crypto \<Rightarrow> ek_public option \<Rightarrow> nat \<Rightarrow> string \<Rightarrow> string \<Rightarrow> string \<Rightarrow> credential tpm_run" where
  "make_credential C ek_pub name_alg ak_name secret seed =
    (case ek_pub of None \<Rightarrow> Some (Inl KeyRequired)
     | Some encrypt \<Rightarrow>
       if ak_name = [] then Some (Inl NameRequired)
       else if length secret \<noteq> secret_bytes then Some (Inl SecretSize)
       else run_then (Some (hash_for name_alg)) (\<lambda>(h, ds).
         if length seed \<noteq> ds then Some (Inl SeedSize)
         else case encrypt h oaep_label seed of Inl _ \<Rightarrow> Some (Inl OaepFailed)
           | Inr enc_secret \<Rightarrow>
             run_then (aes_cfb C h seed ak_name (tpm2b_bytes secret) False) (\<lambda>enc_identity.
             run_then (integrity_hmac C h seed ds enc_identity ak_name) (\<lambda>outer_hmac.
               Some (Inr \<lparr>cr_blob = tpm2b_bytes outer_hmac @ enc_identity, cr_enc_secret = enc_secret\<rparr>)))))"

definition activate_credential ::
  "tpm_crypto \<Rightarrow> ek_private option \<Rightarrow> nat \<Rightarrow> string \<Rightarrow> string \<Rightarrow> string \<Rightarrow> string tpm_run" where
  "activate_credential C ek_priv name_alg ak_name credential_blob enc_secret =
    (case ek_priv of None \<Rightarrow> Some (Inl KeyRequired)
     | Some decrypt \<Rightarrow>
       if ak_name = [] then Some (Inl NameRequired)
       else run_then (Some (hash_for name_alg)) (\<lambda>(h, ds).
         if length credential_blob < 2 then Some (Inl BlobTooShort)
         else
           let hmac_len = unat (get_uint16 (take 2 credential_blob)) in
           if hmac_len \<noteq> ds \<or> 2 + hmac_len > length credential_blob then Some (Inl (BadHmacLength hmac_len))
           else
             let outer_hmac = take hmac_len (drop 2 credential_blob);
                 enc_identity = drop (2 + hmac_len) credential_blob in
             if enc_identity = [] then Some (Inl IdentityMissing)
             else case decrypt h oaep_label enc_secret of None \<Rightarrow> Some (Inl OaepFailed)
               | Some seed \<Rightarrow>
                 if length seed \<noteq> ds then Some (Inl SeedSize)
                 else run_then (integrity_hmac C h seed ds enc_identity ak_name) (\<lambda>expected.
                   if expected \<noteq> outer_hmac then Some (Inl IntegrityMismatch)
                   else run_then (aes_cfb C h seed ak_name enc_identity True) (\<lambda>plain.
                     if length plain < 2 then Some (Inl PlainTooShort)
                     else
                       let s_len = unat (get_uint16 (take 2 plain)) in
                       if 2 + s_len \<noteq> length plain then Some (Inl SecretLength)
                       else Some (Inr (take s_len (drop 2 plain)))))))"

section \<open>The derivation returns\<close>

lemma kdfa_loop_step:
  "length out < want \<Longrightarrow> kdfa_loop block want i out = kdfa_loop block want (i + 1) (out @ block (i + 1))"
  "\<not> length out < want \<Longrightarrow> kdfa_loop block want i out = Some out"
  by (subst kdfa_loop.simps, simp)+

text \<open>Counter mode, as the standard has it: the first blocks joined.\<close>

definition counter_blocks :: "(u32 \<Rightarrow> string) \<Rightarrow> nat \<Rightarrow> string" where
  "counter_blocks block n = concat (map (\<lambda>i. block (word_of_nat (Suc i))) [0..<n])"

lemma counter_blocks_Suc: "counter_blocks block (Suc n) = counter_blocks block n @ block (word_of_nat (Suc n))"
  by (simp add: counter_blocks_def)

lemma length_counter_blocks: "(\<And>i. length (block i) = d) \<Longrightarrow> length (counter_blocks block n) = n * d"
  by (induction n) (simp_all add: counter_blocks_Suc, simp add: counter_blocks_def)

lemma kdfa_loop_blocks:
  assumes block: "\<And>i. length (block i) = d" and d: "0 < d"
  shows "n \<le> (want + d - 1) div d \<Longrightarrow>
    kdfa_loop block want (word_of_nat n) (counter_blocks block n) = Some (counter_blocks block ((want + d - 1) div d))"
proof (induction "(want + d - 1) div d - n" arbitrary: n)
  case 0
  then have n: "n = (want + d - 1) div d" by simp
  have "want \<le> n * d"
    using div_less_iff_less_mult [OF d, of "want + d - 1" "n + 1"] d n by simp
  then show ?case using n by (subst kdfa_loop_step(2)) (simp_all add: length_counter_blocks [OF block])
next
  case (Suc k)
  have "n + 1 \<le> (want + d - 1) div d" using Suc(2) by linarith
  then have "n * d < want"
    using less_eq_div_iff_mult_less_eq [OF d, of "n + 1" "want + d - 1"] d by simp
  then have "length (counter_blocks block n) < want" by (simp add: length_counter_blocks [OF block])
  then have "kdfa_loop block want (word_of_nat n) (counter_blocks block n) =
      kdfa_loop block want (word_of_nat (Suc n)) (counter_blocks block (Suc n))"
    by (simp add: kdfa_loop_step(1) counter_blocks_Suc add.commute)
  moreover have "kdfa_loop block want (word_of_nat (Suc n)) (counter_blocks block (Suc n)) =
      Some (counter_blocks block ((want + d - 1) div d))"
    by (rule Suc(1)) (use Suc(2) in linarith)+
  ultimately show ?case by (rule trans)
qed

text \<open>
  Fact: with a digest of \<open>d > 0\<close> bytes the derivation returns: its value is the first \<open>\<lceil>bits/8\<rceil>\<close>
  bytes of the counter-mode blocks, the bits above the asked size cleared in the first byte.
\<close>

definition kdfa_reference :: "(string \<Rightarrow> string \<Rightarrow> string) \<Rightarrow> nat \<Rightarrow> string \<Rightarrow> string \<Rightarrow> string \<Rightarrow> string \<Rightarrow> nat \<Rightarrow> string" where
  "kdfa_reference mac d key label u v bits =
    (let want = (bits + 7) div 8 in
     mask_first (int bits mod 8)
       (take want (counter_blocks (\<lambda>i. mac key (kdfa_message label u v (int bits) i)) ((want + d - 1) div d))))"

lemma length_mask_first [simp]: "length (mask_first r out) = length out"
  by (simp add: mask_first_def)

lemma kdfa_is_reference:
  assumes "\<And>m. length (mac key m) = d" and "0 < d" and "0 < bits"
  shows "kdfa mac key label u v (int bits) = Some (Inr (kdfa_reference mac d key label u v bits))"
proof -
  let ?block = "\<lambda>i. mac key (kdfa_message label u v (int bits) i)"
  have want: "nat ((int bits + 7) div 8) = (bits + 7) div 8" by (simp add: nat_div_distrib nat_add_distrib)
  have "kdfa_loop ?block ((bits + 7) div 8) 0 [] = Some (counter_blocks ?block (((bits + 7) div 8 + d - 1) div d))"
    using kdfa_loop_blocks [of ?block d 0 "(bits + 7) div 8"] assms by (simp add: counter_blocks_def)
  then show ?thesis using assms(3) by (simp add: kdfa_def want kdfa_reference_def Let_def)
qed

lemma length_kdfa_reference:
  assumes "\<And>m. length (mac key m) = d" and "0 < d"
  shows "length (kdfa_reference mac d key label u v bits) = (bits + 7) div 8"
proof -
  have "(bits + 7) div 8 \<le> ((bits + 7) div 8 + d - 1) div d * d"
    using div_less_iff_less_mult [OF assms(2), of "(bits + 7) div 8 + d - 1" "((bits + 7) div 8 + d - 1) div d + 1"] assms(2)
    by simp
  then show ?thesis
    by (simp add: kdfa_reference_def Let_def length_counter_blocks assms(1))
qed

theorem kdfa_returns:
  assumes digest: "\<And>m. length (mac key m) = d" "0 < d" and bits: "0 < bits"
  shows "kdfa mac key label u v (int bits) = Some (Inr (kdfa_reference mac d key label u v bits)) \<and>
    length (kdfa_reference mac d key label u v bits) = (bits + 7) div 8"
  using kdfa_is_reference [of mac key d bits, OF digest bits] length_kdfa_reference [of mac key d, OF digest] by blast

theorem kdfa_returns_witness:
  "kdfa (\<lambda>k m. replicate 32 (hd k)) ''k'' ''STORAGE'' ''name'' [] (int 128) =
     Some (Inr (kdfa_reference (\<lambda>k m. replicate 32 (hd k)) 32 ''k'' ''STORAGE'' ''name'' [] 128))"
  using kdfa_returns [of "\<lambda>k m. replicate 32 (hd k)" "''k''" 32 128 "''STORAGE''" "''name''" "[]"] by simp

section \<open>The symmetric layer inverts\<close>

lemma byte_xor_cancel [simp]: "byte_xor (byte_xor a b) b = a"
proof -
  have "unat (byte_word c) = byte_of c" for c
    by (simp add: byte_word_def unsigned_of_nat take_bit_eq_mod byte_of_def)
  moreover have "byte_word (byte_xor a b) = byte_word a XOR byte_word b"
    using unat_bound [of "byte_word a XOR byte_word b"]
    by (simp add: byte_xor_def byte_word_def byte_of_def)
  ultimately show ?thesis
    by (simp add: byte_xor_def [of "byte_xor a b"] xor.assoc byte_of_def)
qed

lemma map2_xor_cancel: "length x \<le> length ks \<Longrightarrow> map2 byte_xor (map2 byte_xor x ks) ks = x"
  by (induction x arbitrary: ks) (auto simp: Suc_le_length_iff)

lemma cfb_inverts:
  assumes block: "\<And>x. length x = bs \<Longrightarrow> length (E x) = bs" and bs: "0 < bs"
  shows "length fb = bs \<Longrightarrow> \<exists>c. cfb_loop bs E False fb data = Some c \<and> length c = length data \<and> cfb_loop bs E True fb c = Some data"
proof (induction "length data" arbitrary: data fb rule: less_induct)
  case less
  show ?case
  proof (cases "data = []")
    case True
    then show ?thesis by (simp add: cfb_loop.simps)
  next
    case False
    let ?n = "min bs (length data)"
    let ?o = "map2 byte_xor (take ?n data) (E fb)"
    have o: "length ?o = ?n" using block [OF less.prems] by simp
    let ?fb = "if ?n = bs then ?o else fb"
    have "length ?fb = bs" using o less.prems by simp
    moreover have "length (drop bs data) < length data" using False bs by (simp add: Suc_le_eq)
    ultimately obtain c where c: "cfb_loop bs E False ?fb (drop bs data) = Some c" "length c = length (drop bs data)"
      "cfb_loop bs E True ?fb c = Some (drop bs data)" using less.hyps by blast
    have enc: "cfb_loop bs E False fb data = Some (?o @ c)"
      using False c(1) by (subst cfb_loop.simps) (cases "bs \<le> length data", auto simp: Let_def min_def)
    have len: "length (?o @ c) = length data" using o c(2) by simp
    have "?n < bs \<longrightarrow> c = []" using c(2) by auto
    then have parts: "take ?n (?o @ c) = ?o" "drop bs (?o @ c) = c" "bs \<le> length data \<Longrightarrow> take bs (?o @ c) = ?o"
      using o by auto
    have "map2 byte_xor ?o (E fb) = take ?n data"
      by (rule map2_xor_cancel) (use block [OF less.prems] in simp)
    moreover have "?o @ c \<noteq> []" using len False by (metis length_0_conv)
    ultimately have "cfb_loop bs E True fb (?o @ c) = Some (take ?n data @ drop bs data)"
      using c(3) parts len by (subst cfb_loop.simps) (auto simp: Let_def min_def split: if_splits)
    moreover have "take ?n data @ drop bs data = data" by (simp add: min_def)
    ultimately show ?thesis using enc len by (intro exI [of _ "?o @ c"]) simp
  qed
qed

section \<open>Activation recovers the secret\<close>

text \<open>A digest has the size of its hash; the block function keeps the block size.\<close>

primrec digest_size :: "go_hash \<Rightarrow> nat" where
  "digest_size GoSHA256 = 32"
| "digest_size GoSHA384 = 48"
| "digest_size GoSHA512 = 64"

definition crypto_ok :: "tpm_crypto \<Rightarrow> bool" where
  "crypto_ok C \<longleftrightarrow> (\<forall>h k m. length (tc_mac C h k m) = digest_size h) \<and>
     (\<forall>k x. length x = aes_block_size \<longrightarrow> length (tc_aes C k x) = aes_block_size)"

lemma digest_size_bounds: "0 < digest_size h" "digest_size h < 65536"
  by (cases h; simp)+

lemma hash_for_Inr: "hash_for alg = Inr (h, ds) \<Longrightarrow> ds = digest_size h"
  by (auto simp: hash_for_def split: if_splits)

lemma aes_cfb_inverts:
  assumes "crypto_ok C"
  shows "\<exists>c. aes_cfb C h seed name data False = Some (Inr c) \<and> length c = length data \<and>
    aes_cfb C h seed name c True = Some (Inr data)"
proof -
  let ?k = "kdfa_reference (tc_mac C h) (digest_size h) seed ''STORAGE'' name [] 128"
  have mac: "\<And>m. length (tc_mac C h seed m) = digest_size h" using assms by (simp add: crypto_ok_def)
  have k: "kdfa (tc_mac C h) seed ''STORAGE'' name [] 128 = Some (Inr ?k)" "length ?k = 16"
    using kdfa_is_reference [of "tc_mac C h" seed, OF mac digest_size_bounds(1), where bits = 128]
      length_kdfa_reference [of "tc_mac C h" seed, OF mac digest_size_bounds(1)] by simp_all
  have block: "\<And>x. length x = aes_block_size \<Longrightarrow> length (tc_aes C ?k x) = aes_block_size"
    using assms by (simp add: crypto_ok_def)
  have "0 < aes_block_size" by (simp add: aes_block_size_def)
  with cfb_inverts [of aes_block_size "tc_aes C ?k" "replicate aes_block_size CHR 0x00" data, OF block] show ?thesis
    by (auto simp: aes_cfb_def k new_cipher_def cfb128_def)
qed

lemma integrity_hmac_returns:
  assumes "crypto_ok C"
  shows "\<exists>t. integrity_hmac C h seed (digest_size h) enc name = Some (Inr t) \<and> length t = digest_size h"
proof -
  have mac: "\<And>m. length (tc_mac C h seed m) = digest_size h" using assms by (simp add: crypto_ok_def)
  have "0 < digest_size h * 8" using digest_size_bounds by simp
  from kdfa_is_reference [of "tc_mac C h" seed, OF mac digest_size_bounds(1) this] show ?thesis
    using assms by (simp add: integrity_hmac_def crypto_ok_def)
qed

lemma cfb_returns: "0 < bs \<Longrightarrow> cfb_loop bs E dec fb data \<noteq> None"
proof (induction "length data" arbitrary: data fb rule: less_induct)
  case less
  show ?case
  proof (cases "data = []")
    case False
    then have "length (drop bs data) < length data" using less.prems by (simp add: Suc_le_eq)
    then have "cfb_loop bs E dec f (drop bs data) \<noteq> None" for f by (rule less.hyps) (rule less.prems)
    then show ?thesis
      using False by (subst cfb_loop.simps) (simp add: Let_def Option.bind_eq_None_conv del: not_None_eq)
  qed (simp add: cfb_loop.simps)
qed

lemma aes_cfb_returns:
  assumes "crypto_ok C"
  shows "aes_cfb C h seed name data dec \<noteq> None"
proof -
  have mac: "\<And>m. length (tc_mac C h seed m) = digest_size h" using assms by (simp add: crypto_ok_def)
  have "\<exists>k. kdfa (tc_mac C h) seed ''STORAGE'' name [] 128 = Some (Inr k)"
    using kdfa_is_reference [of "tc_mac C h" seed, OF mac digest_size_bounds(1), where bits = 128] by auto
  moreover have "cfb_loop aes_block_size E dec fb data \<noteq> None" for E fb
    by (rule cfb_returns) (simp add: aes_block_size_def)
  ultimately show ?thesis by (auto simp: aes_cfb_def new_cipher_def cfb128_def)
qed

text \<open>
  Fact: with digests of their size, activation returns on every input: a secret or an error.
\<close>

theorem activation_returns:
  assumes "crypto_ok C"
  shows "\<exists>r. activate_credential C ek alg name blob es = Some r"
proof -
  have mac: "integrity_hmac C h seed (digest_size h) enc name \<noteq> None" for h seed enc
    using integrity_hmac_returns [OF assms, of h seed enc name] by auto
  have "activate_credential C ek alg name blob es \<noteq> None"
  proof (cases "hash_for alg")
    case (Inr x)
    then obtain h where "hash_for alg = Inr (h, digest_size h)" using hash_for_Inr [of alg] by (cases x) auto
    then show ?thesis
      using mac aes_cfb_returns [OF assms]
      by (simp add: activate_credential_def Let_def run_then_def del: not_None_eq split: option.split sum.split)
  qed (simp add: activate_credential_def split: option.split)
  then show ?thesis by blast
qed

text \<open>The parts of a made credential.\<close>

lemma make_credential_parts:
  assumes "make_credential C (Some encrypt) alg name secret seed = Some (Inr cred)"
  shows "\<exists>h ds enc tag. name \<noteq> [] \<and> length secret = secret_bytes \<and> hash_for alg = Inr (h, ds) \<and> length seed = ds \<and>
    encrypt h oaep_label seed = Inr (cr_enc_secret cred) \<and>
    aes_cfb C h seed name (tpm2b_bytes secret) False = Some (Inr enc) \<and>
    integrity_hmac C h seed ds enc name = Some (Inr tag) \<and> cr_blob cred = tpm2b_bytes tag @ enc"
  using assms by (auto simp: make_credential_def run_then_Inr split: if_splits sum.splits)

lemma activation_recovers:
  assumes crypto: "crypto_ok C"
    and oaep: "\<And>h s ct. encrypt h oaep_label s = Inr ct \<Longrightarrow> decrypt h oaep_label ct = Some s"
    and made: "make_credential C (Some encrypt) alg name secret seed = Some (Inr cred)"
  shows "activate_credential C (Some decrypt) alg name (cr_blob cred) (cr_enc_secret cred) = Some (Inr secret)"
proof -
  obtain h ds enc tag where n: "name \<noteq> []" and sec: "length secret = secret_bytes" and h: "hash_for alg = Inr (h, ds)"
    and seed: "length seed = ds" and e: "encrypt h oaep_label seed = Inr (cr_enc_secret cred)"
    and enc: "aes_cfb C h seed name (tpm2b_bytes secret) False = Some (Inr enc)"
    and tag: "integrity_hmac C h seed ds enc name = Some (Inr tag)" and blob: "cr_blob cred = tpm2b_bytes tag @ enc"
    using make_credential_parts [OF made] by blast
  have ds: "ds = digest_size h" by (rule hash_for_Inr [OF h])
  have tl: "length tag = ds" using integrity_hmac_returns [OF crypto, of h seed enc name] tag ds by auto
  have el: "length enc = 18" and dec: "aes_cfb C h seed name enc True = Some (Inr (tpm2b_bytes secret))"
    using aes_cfb_inverts [OF crypto, of h seed name "tpm2b_bytes secret"] enc sec by (auto simp: tpm2b_bytes_def secret_bytes_def)
  have ds16: "ds < 65536" using ds digest_size_bounds by simp
  have "unat (get_uint16 (cr_blob cred)) = ds" using blob tl ds16 by (simp add: tpm2b_bytes_def)
  moreover have "take ds (drop 2 (cr_blob cred)) = tag" "drop (2 + ds) (cr_blob cred) = enc" "\<not> length (cr_blob cred) < 2 + ds"
    using blob tl by (simp_all add: tpm2b_bytes_def)
  moreover have "enc \<noteq> []" using el by auto
  moreover have "unat (get_uint16 (tpm2b_bytes secret)) = 16" "length (tpm2b_bytes secret) = 18" "take 16 (drop 2 (tpm2b_bytes secret)) = secret"
    using sec by (simp_all add: tpm2b_bytes_def secret_bytes_def)
  ultimately show ?thesis
    using n h seed oaep [OF e] tag dec sec by (simp add: activate_credential_def Let_def secret_bytes_def)
qed

text \<open>A concrete crypto suite and one credential made and activated under it.\<close>

definition tpm_sample_crypto :: tpm_crypto where
  "tpm_sample_crypto = \<lparr>tc_mac = \<lambda>h k m. replicate (digest_size h) (last m), tc_aes = \<lambda>k x. rev x\<rparr>"

definition sample_seal :: ek_public where "sample_seal h l s = Inr (l @ s)"

definition sample_open :: ek_private where "sample_open h l c = Some (drop (length l) c)"

lemma tpm_sample_crypto_ok: "crypto_ok tpm_sample_crypto"
  by (simp add: crypto_ok_def tpm_sample_crypto_def)

theorem activation_returns_witness: "\<exists>r. activate_credential tpm_sample_crypto None 11 ''n'' [] [] = Some r"
  by (rule activation_returns [OF tpm_sample_crypto_ok])

lemma sample_made:
  "\<exists>cred. make_credential tpm_sample_crypto (Some sample_seal) alg_sha256 ''name'' (replicate 16 CHR ''s'')
     (replicate 32 CHR ''k'') = Some (Inr cred)"
proof -
  let ?seed = "replicate 32 CHR ''k''" and ?secret = "replicate 16 CHR ''s''"
  obtain enc where "aes_cfb tpm_sample_crypto GoSHA256 ?seed ''name'' (tpm2b_bytes ?secret) False = Some (Inr enc)"
    using aes_cfb_inverts [OF tpm_sample_crypto_ok] by blast
  moreover obtain tag where "integrity_hmac tpm_sample_crypto GoSHA256 ?seed 32 enc ''name'' = Some (Inr tag)"
    using integrity_hmac_returns [OF tpm_sample_crypto_ok, of GoSHA256 ?seed enc "''name''"] by auto
  ultimately show ?thesis
    by (simp add: make_credential_def hash_for_def secret_bytes_def sample_seal_def)
qed

text \<open>
  Property C29: where OAEP decryption opens what OAEP encryption sealed, the device recovers the secret of every
  credential the server makes for its key name.
\<close>

theorem activation_recovers_secret:
  assumes crypto: "crypto_ok C"
    and oaep: "\<And>h s ct. encrypt h oaep_label s = Inr ct \<Longrightarrow> decrypt h oaep_label ct = Some s"
    and made: "make_credential C (Some encrypt) alg name secret seed = Some (Inr cred)"
  shows "activate_credential C (Some decrypt) alg name (cr_blob cred) (cr_enc_secret cred) = Some (Inr secret)"
  by (rule activation_recovers [of C encrypt decrypt, OF crypto oaep made])

theorem activation_recovers_secret_witness:
  "\<exists>cred. make_credential tpm_sample_crypto (Some sample_seal) alg_sha256 ''name'' (replicate 16 CHR ''s'')
       (replicate 32 CHR ''k'') = Some (Inr cred) \<and>
     activate_credential tpm_sample_crypto (Some sample_open) alg_sha256 ''name'' (cr_blob cred) (cr_enc_secret cred) =
       Some (Inr (replicate 16 CHR ''s''))"
proof -
  obtain cred where made: "make_credential tpm_sample_crypto (Some sample_seal) alg_sha256 ''name'' (replicate 16 CHR ''s'')
       (replicate 32 CHR ''k'') = Some (Inr cred)" using sample_made by blast
  have "activate_credential tpm_sample_crypto (Some sample_open) alg_sha256 ''name'' (cr_blob cred) (cr_enc_secret cred) =
      Some (Inr (replicate 16 CHR ''s''))"
    by (rule activation_recovers_secret [OF tpm_sample_crypto_ok _ made]) (auto simp: sample_seal_def sample_open_def)
  then show ?thesis using made by blast
qed

lemma split_tpm2b:
  assumes "2 \<le> length b" and "2 + unat (get_uint16 b) \<le> length b"
  shows "b = tpm2b_bytes (take (unat (get_uint16 b)) (drop 2 b)) @ drop (2 + unat (get_uint16 b)) b"
proof -
  let ?n = "unat (get_uint16 b)"
  have "length (take ?n (drop 2 b)) = ?n" using assms by simp
  then have "tpm2b_bytes (take ?n (drop 2 b)) = take 2 b @ take ?n (drop 2 b)"
    using put_get_uint16 [OF assms(1)] by (simp add: tpm2b_bytes_def)
  moreover have "b = take 2 b @ take ?n (drop 2 b) @ drop ?n (drop 2 b)" by (metis append_take_drop_id)
  ultimately show ?thesis by (simp add: add.commute)
qed

text \<open>
  Property C30: an activation that gives a secret has opened the seed under the endorsement key and found in the
  blob the HMAC of the encrypted identity and the name of the device's own key.
\<close>

theorem activation_fails_closed:
  assumes "activate_credential C (Some decrypt) alg name blob enc_secret = Some (Inr s)"
  shows "\<exists>h ds seed enc tag. hash_for alg = Inr (h, ds) \<and> decrypt h oaep_label enc_secret = Some seed \<and> length seed = ds \<and>
    integrity_hmac C h seed ds enc name = Some (Inr tag) \<and> blob = tpm2b_bytes tag @ enc \<and>
    aes_cfb C h seed name enc True = Some (Inr (tpm2b_bytes s))"
proof -
  obtain h ds where h: "hash_for alg = Inr (h, ds)"
    using assms by (auto simp: activate_credential_def run_then_Inr split: if_splits)
  let ?n = "unat (get_uint16 blob)"
  let ?enc = "drop (2 + ?n) blob"
  have b: "2 \<le> length blob" "?n = ds" "2 + ?n \<le> length blob"
    using assms h by (auto simp: activate_credential_def Let_def split: if_splits)
  obtain seed where seed: "decrypt h oaep_label enc_secret = Some seed" "length seed = ds"
    using assms h b by (auto simp: activate_credential_def Let_def split: if_splits option.splits)
  have tag: "integrity_hmac C h seed ds ?enc name = Some (Inr (take ?n (drop 2 blob)))"
    using assms h b seed by (auto simp: activate_credential_def Let_def run_then_Inr split: if_splits)
  obtain plain where plain: "aes_cfb C h seed name ?enc True = Some (Inr plain)"
    using assms h b seed tag by (auto simp: activate_credential_def Let_def run_then_Inr split: if_splits)
  have p: "2 \<le> length plain" "2 + unat (get_uint16 plain) = length plain" "s = take (unat (get_uint16 plain)) (drop 2 plain)"
    using assms h b seed tag plain by (auto simp: activate_credential_def Let_def split: if_splits)
  have "plain = tpm2b_bytes s" using split_tpm2b [of plain] p by simp
  moreover have "blob = tpm2b_bytes (take ?n (drop 2 blob)) @ ?enc" by (rule split_tpm2b [OF b(1,3)])
  ultimately show ?thesis using h seed tag plain by blast
qed

theorem activation_fails_closed_witness:
  "\<exists>(cred :: credential) tag enc. cr_blob cred = tpm2b_bytes tag @ enc \<and>
     integrity_hmac tpm_sample_crypto GoSHA256 (replicate 32 CHR ''k'') 32 enc ''name'' = Some (Inr tag) \<and>
     activate_credential tpm_sample_crypto (Some sample_open) alg_sha256 ''name'' (cr_blob cred) (cr_enc_secret cred) =
       Some (Inr (replicate 16 CHR ''s''))"
proof -
  obtain cred where made: "make_credential tpm_sample_crypto (Some sample_seal) alg_sha256 ''name'' (replicate 16 CHR ''s'')
       (replicate 32 CHR ''k'') = Some (Inr cred)" using sample_made by blast
  have act: "activate_credential tpm_sample_crypto (Some sample_open) alg_sha256 ''name'' (cr_blob cred) (cr_enc_secret cred) =
      Some (Inr (replicate 16 CHR ''s''))"
    by (rule activation_recovers [OF tpm_sample_crypto_ok _ made]) (auto simp: sample_seal_def sample_open_def)
  have "hash_for alg_sha256 = Inr (GoSHA256, 32)" by (simp add: hash_for_def)
  moreover have "cr_enc_secret cred = oaep_label @ replicate 32 CHR ''k''"
    using make_credential_parts [OF made] by (auto simp: sample_seal_def)
  ultimately obtain tag enc where "cr_blob cred = tpm2b_bytes tag @ enc"
    "integrity_hmac tpm_sample_crypto GoSHA256 (replicate 32 CHR ''k'') 32 enc ''name'' = Some (Inr tag)"
    using activation_fails_closed [OF act] by (auto simp: sample_open_def)
  then show ?thesis using act by blast
qed

end
