(* ===== verification/TpmEnroll.thy ===== *)
theory TpmEnroll
  imports TpmCredential
begin

text \<open>
  The enrolment client (\<open>src/internal/tpmenroll/enroll.go\<close>, \<open>wire.go\<close>) over the device interface of
  \<open>tpmdevice.go\<close>, and the software device of \<open>mock_tpmdevice.go\<close>.

  The backend is \<open>ew_reply\<close>: what the n-th request is answered, a transport error (a failed URL join among
  them) or a status with its body as read (at most 1 MiB); \<open>ew_cancelled\<close> says whether the context ends the wait after an attempt.
  Requests and waits are recorded in order.  JSON, base64, URL parsing and the signing of a certificate
  request are parameters.  Durations are nanoseconds in 64 bits.
\<close>

section \<open>Data\<close>

record retry_policy =
  rp_max_attempts :: int
  rp_base :: int
  rp_max :: int

definition default_nonce_retry :: retry_policy where
  "default_nonce_retry = \<lparr>rp_max_attempts = 4, rp_base = 500 * 10 ^ 6, rp_max = 8 * 10 ^ 9\<rparr>"

record parsed_base =
  pb_scheme :: string
  pb_host :: string
  pb_query :: string
  pb_fragment :: string
  pb_text :: string

datatype enroll_error =
    ClientRequired | ParseBase | BaseIncomplete | BaseQuery | TokenRequired
  | DeviceError string tpm_error | NonceDecode | AttestDecode | HttpFailed string "string + int \<times> string"
  | NonceExhausted int enroll_error | NonceNoAttempt | ContextDone | Base64Error string
  | CsrFailed string | EmptyCertificate

record enroll_client =
  ec_base :: parsed_base
  ec_retry :: retry_policy

definition new_client ::
  "(string \<Rightarrow> parsed_base option) \<Rightarrow> string \<Rightarrow> bool \<Rightarrow> (retry_policy \<Rightarrow> retry_policy) list \<Rightarrow> enroll_error + enroll_client" where
  "new_client parse base has_http opts =
    (if \<not> has_http then Inl ClientRequired
     else case parse (rev (dropWhile (\<lambda>c. c = CHR ''/'') (rev base))) of
         None \<Rightarrow> Inl ParseBase
       | Some u \<Rightarrow>
          if pb_scheme u = [] \<or> pb_host u = [] then Inl BaseIncomplete
          else if pb_query u \<noteq> [] \<or> pb_fragment u \<noteq> [] then Inl BaseQuery
          else let p = fold (\<lambda>opt. opt) opts default_nonce_retry in
            Inr \<lparr>ec_base = u, ec_retry = p\<lparr>rp_max_attempts := (if rp_max_attempts p < 1 then 1 else rp_max_attempts p)\<rparr>\<rparr>)"

definition schema_v2 :: string where "schema_v2 = ''faz22.3b.tpm-attest.v2''"
definition path_tpm_nonce :: string where "path_tpm_nonce = ''/enrollments/tpm/nonce''"
definition path_tpm_attest :: string where "path_tpm_attest = ''/enrollments/tpm/attest''"

record nonce_request =
  nr_token :: string
  nr_ek_cert :: string
  nr_ek_chain :: "string list"
  nr_ek_pub :: string
  nr_ak_pub :: string
  nr_ak_name :: string

record attest_challenge =
  ch_nonce_id :: string
  ch_nonce :: string
  ch_cred_blob :: string
  ch_enc_secret :: string

record attest_envelope =
  ae_schema :: string
  ae_token :: string
  ae_device_ref :: string
  ae_nonce_id :: string
  ae_ek_cert :: string
  ae_ek_chain :: "string list"
  ae_ak_pub :: string
  ae_ak_name :: string
  ae_activated_secret :: string
  ae_certify_info :: string
  ae_certify_sig :: string
  ae_quote :: string
  ae_quote_sig :: string
  ae_device_key_pub :: string
  ae_csr :: string

datatype tpm_request = NoncePost nonce_request | AttestPost attest_envelope

datatype post_reply = NetFailed string | Replied int string

record tpm_device =
  dv_endorsement_key :: "tpm_error + string \<times> string \<times> string list"
  dv_attestation_key :: "tpm_error + string \<times> string"
  dv_device_key :: "tpm_error + string"
  dv_activate :: "string \<Rightarrow> string \<Rightarrow> tpm_error + string"
  dv_quote :: "string \<Rightarrow> pcr_selection list \<Rightarrow> tpm_error + string \<times> string"
  dv_certify :: "string \<Rightarrow> tpm_error + string \<times> string"
  dv_signer :: "string option" \<comment> \<open>the key the signer stands for\<close>

record csr_template =
  ct_cn :: string
  ct_ekus :: "nat list list"

record enroll_options =
  eo_token :: string
  eo_device_ref :: string
  eo_selections :: "pcr_selection list"
  eo_subject_cn :: string

record enroll_world =
  ew_reply :: "nat \<Rightarrow> tpm_request \<Rightarrow> post_reply"
  ew_cancelled :: "int \<Rightarrow> bool"
  ew_challenge :: "string \<Rightarrow> attest_challenge option"
  ew_certificate :: "string \<Rightarrow> string option"
  ew_b64 :: "string \<Rightarrow> string"
  ew_unb64 :: "string \<Rightarrow> string option"
  ew_create_csr :: "string \<Rightarrow> csr_template \<Rightarrow> string + string"

record enroll_run =
  er_posts :: "tpm_request list"
  er_waits :: "int list"

section \<open>Retry\<close>

definition is_transient :: "post_reply \<Rightarrow> bool" where
  "is_transient r = (case r of NetFailed _ \<Rightarrow> True | Replied status _ \<Rightarrow> status = 408 \<or> status = 429 \<or> 500 \<le> status)"

primrec backoff_loop :: "int \<Rightarrow> nat \<Rightarrow> int \<Rightarrow> int" where
  "backoff_loop mx 0 d = (if d \<le> 0 then mx else d)"
| "backoff_loop mx (Suc k) d = (let d = int64 (d * 2) in if mx \<le> d then mx else backoff_loop mx k d)"

definition backoff_delay :: "retry_policy \<Rightarrow> int \<Rightarrow> int" where
  "backoff_delay p attempt = backoff_loop (rp_max p) (nat (attempt - 1)) (rp_base p)"

definition describe_http_err :: "string \<Rightarrow> post_reply \<Rightarrow> enroll_error" where
  "describe_http_err path r =
    HttpFailed path (case r of NetFailed e \<Rightarrow> Inl e | Replied status body \<Rightarrow> Inr (status, trim_space body))"

definition do_post :: "enroll_world \<Rightarrow> tpm_request \<Rightarrow> enroll_run \<Rightarrow> post_reply \<times> enroll_run" where
  "do_post W req s = (ew_reply W (length (er_posts s)) req, s\<lparr>er_posts := er_posts s @ [req]\<rparr>)"

text \<open>The body of a 200.\<close>

definition ok_body :: "post_reply \<Rightarrow> string option" where
  "ok_body r = (case r of NetFailed _ \<Rightarrow> None | Replied status body \<Rightarrow> if status = 200 then Some body else None)"

function nonce_loop ::
  "enroll_world \<Rightarrow> retry_policy \<Rightarrow> nonce_request \<Rightarrow> int \<Rightarrow> enroll_error \<Rightarrow> enroll_run \<Rightarrow>
     (enroll_error + attest_challenge) \<times> enroll_run" where
  "nonce_loop W p req attempt err s =
    (if attempt > rp_max_attempts p then (Inl (NonceExhausted (rp_max_attempts p) err), s)
     else
       let (r, s) = do_post W (NoncePost req) s in
       case ok_body r of
         Some body \<Rightarrow> (case ew_challenge W body of None \<Rightarrow> (Inl NonceDecode, s) | Some c \<Rightarrow> (Inr c, s))
       | None \<Rightarrow>
           let err = describe_http_err path_tpm_nonce r in
           if \<not> is_transient r then (Inl err, s)
           else if attempt < rp_max_attempts p then
             (let s = s\<lparr>er_waits := er_waits s @ [backoff_delay p attempt]\<rparr> in
              if ew_cancelled W attempt then (Inl ContextDone, s) else nonce_loop W p req (attempt + 1) err s)
           else nonce_loop W p req (attempt + 1) err s)"
  by pat_completeness auto

termination
  by (relation "measure (\<lambda>(W, p, req, attempt, err, s). nat (rp_max_attempts p + 1 - attempt))") auto

declare nonce_loop.simps [simp del]

definition post_nonce ::
  "enroll_world \<Rightarrow> retry_policy \<Rightarrow> nonce_request \<Rightarrow> enroll_run \<Rightarrow> (enroll_error + attest_challenge) \<times> enroll_run" where
  "post_nonce W p req s = nonce_loop W p req 1 NonceNoAttempt s"

definition post_attest ::
  "enroll_world \<Rightarrow> attest_envelope \<Rightarrow> enroll_run \<Rightarrow> (enroll_error + string) \<times> enroll_run" where
  "post_attest W env s =
    (let (r, s) = do_post W (AttestPost env) s in
     case ok_body r of
       None \<Rightarrow> (Inl (describe_http_err path_tpm_attest r), s)
     | Some body \<Rightarrow> (case ew_certificate W body of None \<Rightarrow> (Inl AttestDecode, s) | Some c \<Rightarrow> (Inr c, s)))"

section \<open>Enrolment\<close>

definition oid_client_auth :: "nat list" where
  "oid_client_auth = [1, 3, 6, 1, 5, 5, 7, 3, 2]"

definition build_device_csr :: "enroll_world \<Rightarrow> string option \<Rightarrow> string \<Rightarrow> string + string" where
  "build_device_csr W signer cn =
    (case signer of None \<Rightarrow> Inl ''device key signer required''
     | Some k \<Rightarrow> ew_create_csr W k \<lparr>ct_cn = cn, ct_ekus = [oid_client_auth]\<rparr>)"

definition device_step :: "string \<Rightarrow> tpm_error + 'a \<Rightarrow> enroll_error + 'a" where
  "device_step what x = (case x of Inl e \<Rightarrow> Inl (DeviceError what e) | Inr a \<Rightarrow> Inr a)"

definition decode_step :: "enroll_world \<Rightarrow> string \<Rightarrow> string \<Rightarrow> enroll_error + string" where
  "decode_step W what v = (case ew_unb64 W v of None \<Rightarrow> Inl (Base64Error what) | Some b \<Rightarrow> Inr b)"

text \<open>What the device makes of the challenge, up to the envelope of the second request.\<close>

definition answer_challenge ::
  "enroll_world \<Rightarrow> tpm_device \<Rightarrow> enroll_options \<Rightarrow> string \<times> string list \<Rightarrow> string \<times> string \<Rightarrow> attest_challenge \<Rightarrow>
     enroll_error + attest_envelope" where
  "answer_challenge W D opts ek ak challenge =
    read_then (decode_step W ''credBlob'' (ch_cred_blob challenge)) (\<lambda>cred_blob.
    read_then (decode_step W ''encSecret'' (ch_enc_secret challenge)) (\<lambda>enc_secret.
    read_then (device_step ''activate credential'' (dv_activate D cred_blob enc_secret)) (\<lambda>secret.
    read_then (decode_step W ''nonce'' (ch_nonce challenge)) (\<lambda>nonce.
    read_then (device_step ''quote'' (dv_quote D nonce (eo_selections opts))) (\<lambda>(quote, quote_sig).
    read_then (device_step ''certify device key'' (dv_certify D nonce)) (\<lambda>(certify, certify_sig).
    read_then (device_step ''device key'' (dv_device_key D)) (\<lambda>device_key_pub.
      let cn = (if eo_subject_cn opts = [] then eo_device_ref opts else eo_subject_cn opts) in
      case build_device_csr W (dv_signer D) cn of Inl e \<Rightarrow> Inl (CsrFailed e)
      | Inr csr \<Rightarrow>
        Inr \<lparr>ae_schema = schema_v2, ae_token = eo_token opts, ae_device_ref = eo_device_ref opts,
          ae_nonce_id = ch_nonce_id challenge, ae_ek_cert = ew_b64 W (fst ek), ae_ek_chain = map (ew_b64 W) (snd ek),
          ae_ak_pub = ew_b64 W (fst ak), ae_ak_name = ew_b64 W (snd ak), ae_activated_secret = ew_b64 W secret,
          ae_certify_info = ew_b64 W certify, ae_certify_sig = ew_b64 W certify_sig, ae_quote = ew_b64 W quote,
          ae_quote_sig = ew_b64 W quote_sig, ae_device_key_pub = ew_b64 W device_key_pub, ae_csr = ew_b64 W csr\<rparr>)))))))"

definition enroll ::
  "enroll_world \<Rightarrow> retry_policy \<Rightarrow> tpm_device \<Rightarrow> enroll_options \<Rightarrow> enroll_run \<Rightarrow> (enroll_error + string) \<times> enroll_run" where
  "enroll W p D opts s =
    (if eo_token opts = [] then (Inl TokenRequired, s)
     else case device_step ''endorsement key'' (dv_endorsement_key D) of Inl e \<Rightarrow> (Inl e, s)
     | Inr (ek_pub, ek_cert, ek_chain) \<Rightarrow>
       (case device_step ''attestation key'' (dv_attestation_key D) of Inl e \<Rightarrow> (Inl e, s)
        | Inr (ak_pub, ak_name) \<Rightarrow>
          (case post_nonce W p \<lparr>nr_token = eo_token opts, nr_ek_cert = ew_b64 W ek_cert,
              nr_ek_chain = map (ew_b64 W) ek_chain, nr_ek_pub = ew_b64 W ek_pub, nr_ak_pub = ew_b64 W ak_pub,
              nr_ak_name = ew_b64 W ak_name\<rparr> s of
             (Inl e, s) \<Rightarrow> (Inl e, s)
           | (Inr challenge, s) \<Rightarrow>
             (case answer_challenge W D opts (ek_cert, ek_chain) (ak_pub, ak_name) challenge of
                Inl e \<Rightarrow> (Inl e, s)
              | Inr env \<Rightarrow>
                (case post_attest W env s of
                   (Inl e, s) \<Rightarrow> (Inl e, s)
                 | (Inr cert, s) \<Rightarrow> if cert = [] then (Inl EmptyCertificate, s) else (Inr cert, s))))))"

section \<open>The retries are bounded\<close>

lemma ok_body_Some: "ok_body r = Some b \<longleftrightarrow> r = Replied 200 b"
  by (cases r) (auto simp: ok_body_def)

lemma backoff_loop_bounds: "0 < d \<Longrightarrow> d \<le> mx \<Longrightarrow> mx < 2 ^ 62 \<Longrightarrow> 0 < backoff_loop mx k d \<and> backoff_loop mx k d \<le> mx"
proof (induction k arbitrary: d)
  case (Suc k)
  have "int64 (d * 2) = d * 2" by (rule int64_id) (use Suc.prems in simp_all)
  then show ?case using Suc by (simp add: Let_def)
qed simp

text \<open>
  Every run of the loop: the first request is asked at most once per attempt, every wait is a delay of the
  policy, and a challenge is the decoded body of a 200 to the last request.
\<close>

definition nonce_run_ok :: "enroll_world \<Rightarrow> retry_policy \<Rightarrow> nonce_request \<Rightarrow> int \<Rightarrow> enroll_run \<Rightarrow>
    (enroll_error + attest_challenge) \<times> enroll_run \<Rightarrow> bool" where
  "nonce_run_ok W p req attempt s r \<longleftrightarrow>
    (\<exists>k ws. er_posts (snd r) = er_posts s @ replicate k (NoncePost req) \<and> er_waits (snd r) = er_waits s @ ws \<and>
      int k \<le> max 0 (rp_max_attempts p + 1 - attempt) \<and> length ws \<le> k \<and>
      list_all (\<lambda>w. \<exists>a\<ge>attempt. w = backoff_delay p a) ws \<and>
      (\<forall>c. fst r = Inr c \<longrightarrow> 0 < k \<and> (\<exists>b. ew_reply W (length (er_posts (snd r)) - 1) (NoncePost req) = Replied 200 b \<and>
         ew_challenge W b = Some c)))"

lemma nonce_run_step:
  assumes "nonce_run_ok W p req (attempt + 1) s' r" and "er_posts s' = er_posts s @ [NoncePost req]"
    and "er_waits s' = er_waits s @ ws" and "ws = [] \<or> ws = [backoff_delay p attempt]" and "attempt \<le> rp_max_attempts p"
  shows "nonce_run_ok W p req attempt s r"
proof -
  obtain k vs where k: "er_posts (snd r) = er_posts s' @ replicate k (NoncePost req)" "er_waits (snd r) = er_waits s' @ vs"
      "int k \<le> max 0 (rp_max_attempts p + 1 - (attempt + 1))" "length vs \<le> k"
      "list_all (\<lambda>w. \<exists>a\<ge>attempt + 1. w = backoff_delay p a) vs"
    and c: "\<forall>c. fst r = Inr c \<longrightarrow> 0 < k \<and> (\<exists>b. ew_reply W (length (er_posts (snd r)) - 1) (NoncePost req) = Replied 200 b \<and>
         ew_challenge W b = Some c)"
    using assms(1) unfolding nonce_run_ok_def by blast
  have "list_all (\<lambda>w. \<exists>a\<ge>attempt. w = backoff_delay p a) vs"
    by (rule list.pred_mono_strong [OF k(5)]) (metis add_increasing2 zero_le_one order_trans le_add_same_cancel1)
  then have "list_all (\<lambda>w. \<exists>a\<ge>attempt. w = backoff_delay p a) (ws @ vs)" using assms(4) by auto
  moreover have "length (ws @ vs) \<le> Suc k" using k(4) assms(4) by auto
  moreover have "int (Suc k) \<le> max 0 (rp_max_attempts p + 1 - attempt)" using k(3) assms(5) by simp
  moreover have "er_posts (snd r) = er_posts s @ replicate (Suc k) (NoncePost req)" using k(1) assms(2) by simp
  moreover have "er_waits (snd r) = er_waits s @ (ws @ vs)" using k(2) assms(3) by simp
  ultimately show ?thesis unfolding nonce_run_ok_def using c by blast
qed

lemma nonce_run_last:
  assumes "er_posts (snd r) = er_posts s @ [NoncePost req]" and "er_waits (snd r) = er_waits s @ ws"
    and "ws = [] \<or> ws = [backoff_delay p attempt]" and "attempt \<le> rp_max_attempts p"
    and "\<And>c. fst r = Inr c \<Longrightarrow> \<exists>b. ew_reply W (length (er_posts s)) (NoncePost req) = Replied 200 b \<and> ew_challenge W b = Some c"
  shows "nonce_run_ok W p req attempt s r"
  unfolding nonce_run_ok_def
  by (rule exI [of _ "Suc 0"], rule exI [of _ ws]) (use assms in auto)

lemma nonce_loop_ok: "nonce_run_ok W p req attempt s (nonce_loop W p req attempt err s)"
proof (induction "nat (rp_max_attempts p + 1 - attempt)" arbitrary: attempt err s)
  case 0
  then show ?case by (subst nonce_loop.simps) (auto simp: nonce_run_ok_def)
next
  case (Suc n)
  then have le: "attempt \<le> rp_max_attempts p" and n: "n = nat (rp_max_attempts p + 1 - (attempt + 1))" by linarith+
  let ?r = "ew_reply W (length (er_posts s)) (NoncePost req)"
  let ?s = "s\<lparr>er_posts := er_posts s @ [NoncePost req]\<rparr>"
  let ?t = "?s\<lparr>er_waits := er_waits s @ [backoff_delay p attempt]\<rparr>"
  let ?err = "describe_http_err path_tpm_nonce ?r"
  have post: "do_post W (NoncePost req) s = (?r, ?s)" by (simp add: do_post_def)
  have again: "nonce_run_ok W p req (attempt + 1) ?s (nonce_loop W p req (attempt + 1) ?err ?s)"
    "nonce_run_ok W p req (attempt + 1) ?t (nonce_loop W p req (attempt + 1) ?err ?t)"
    by (rule Suc.hyps(1) [OF n])+
  have step1: "nonce_run_ok W p req attempt s (nonce_loop W p req (attempt + 1) ?err ?s)"
    by (rule nonce_run_step [OF again(1), of s "[]"]) (use le in auto)
  have step2: "nonce_run_ok W p req attempt s (nonce_loop W p req (attempt + 1) ?err ?t)"
    by (rule nonce_run_step [OF again(2), of s "[backoff_delay p attempt]"]) (use le in auto)
  have stop: "nonce_run_ok W p req attempt s (Inl e, ?s)" "nonce_run_ok W p req attempt s (Inl e, ?t)" for e
    by (rule nonce_run_last [of _ s req "[]"]; use le in simp)
       (rule nonce_run_last [of _ s req "[backoff_delay p attempt]"]; use le in simp)
  have won: "nonce_run_ok W p req attempt s (Inr c, ?s)" if "?r = Replied 200 b" "ew_challenge W b = Some c" for b c
    by (rule nonce_run_last [of _ s req "[]"]) (use le that in auto)
  show ?case
    using le step1 step2 stop won
    by (subst nonce_loop.simps) (auto simp: post Let_def ok_body_Some split: option.split)
qed

section \<open>One attestation, after activation\<close>

definition fresh_run :: enroll_run where "fresh_run = \<lparr>er_posts = [], er_waits = []\<rparr>"

text \<open>The first request, made of what the device gives.\<close>

definition nonce_request_of ::
  "enroll_world \<Rightarrow> enroll_options \<Rightarrow> string \<times> string \<times> string list \<Rightarrow> string \<times> string \<Rightarrow> nonce_request" where
  "nonce_request_of W opts ek ak =
    \<lparr>nr_token = eo_token opts, nr_ek_cert = ew_b64 W (fst (snd ek)), nr_ek_chain = map (ew_b64 W) (snd (snd ek)),
      nr_ek_pub = ew_b64 W (fst ek), nr_ak_pub = ew_b64 W (fst ak), nr_ak_name = ew_b64 W (snd ak)\<rparr>"

text \<open>How a run of the enrolment ends: before the second request, or with it.\<close>

lemma enroll_cases:
  obtains (early) e where "enroll W p D opts s = (Inl e, s)"
  | (asked) ek ak r s1 where "dv_endorsement_key D = Inr ek" "dv_attestation_key D = Inr ak"
      "post_nonce W p (nonce_request_of W opts ek ak) s = (r, s1)"
      "\<And>e. r = Inl e \<Longrightarrow> enroll W p D opts s = (Inl e, s1)"
      "\<And>c e. r = Inr c \<Longrightarrow> answer_challenge W D opts (snd ek) ak c = Inl e \<Longrightarrow> enroll W p D opts s = (Inl e, s1)"
      "\<And>c env. r = Inr c \<Longrightarrow> answer_challenge W D opts (snd ek) ak c = Inr env \<Longrightarrow>
        enroll W p D opts s =
          (case post_attest W env s1 of (Inl e, s) \<Rightarrow> (Inl e, s)
           | (Inr cert, s) \<Rightarrow> if cert = [] then (Inl EmptyCertificate, s) else (Inr cert, s))"
proof (cases "eo_token opts = []")
  case True
  show thesis by (rule early [of TokenRequired]) (simp add: enroll_def True)
next
  case tok: False
  show thesis
  proof (cases "dv_endorsement_key D")
    case (Inl e)
    show thesis by (rule early [of "DeviceError ''endorsement key'' e"]) (simp add: enroll_def tok Inl device_step_def)
  next
    case ek: (Inr ek)
    show thesis
    proof (cases "dv_attestation_key D")
      case (Inl e)
      show thesis
        by (rule early [of "DeviceError ''attestation key'' e"])
          (cases ek, simp add: enroll_def tok ek Inl device_step_def)
    next
      case ak: (Inr ak)
      obtain r s1 where r: "post_nonce W p (nonce_request_of W opts ek ak) s = (r, s1)" by fastforce
      have eq: "enroll W p D opts s =
        (case r of Inl e \<Rightarrow> (Inl e, s1)
         | Inr c \<Rightarrow> (case answer_challenge W D opts (snd ek) ak c of Inl e \<Rightarrow> (Inl e, s1)
            | Inr env \<Rightarrow> (case post_attest W env s1 of (Inl e, s) \<Rightarrow> (Inl e, s)
               | (Inr cert, s) \<Rightarrow> if cert = [] then (Inl EmptyCertificate, s) else (Inr cert, s))))"
        using r tok ek ak
        by (cases ek; cases ak) (simp add: enroll_def device_step_def nonce_request_of_def split: sum.split)
      show thesis by (rule asked [OF ek ak r]) (simp_all add: eq)
    qed
  qed
qed

lemma post_attest_posts: "er_posts (snd (post_attest W env s)) = er_posts s @ [AttestPost env]"
  by (auto simp: post_attest_def do_post_def Let_def split: option.split)

lemma post_attest_result:
  "post_attest W env s = (Inr cert, s') \<Longrightarrow>
    \<exists>b. ew_reply W (length (er_posts s)) (AttestPost env) = Replied 200 b \<and> ew_certificate W b = Some cert"
  by (auto simp: post_attest_def do_post_def Let_def ok_body_Some split: option.splits)

lemma nonce_posts:
  assumes "post_nonce W p req fresh_run = (r, s1)"
  shows "\<exists>k. er_posts s1 = replicate k (NoncePost req) \<and> int k \<le> max 0 (rp_max_attempts p) \<and>
    (\<forall>c. r = Inr c \<longrightarrow> 0 < k \<and> (\<exists>b. ew_reply W (k - 1) (NoncePost req) = Replied 200 b \<and> ew_challenge W b = Some c))"
proof -
  have "nonce_run_ok W p req 1 fresh_run (r, s1)"
    using nonce_loop_ok [of W p req 1 fresh_run NonceNoAttempt] assms by (simp add: post_nonce_def)
  then show ?thesis by (auto simp: nonce_run_ok_def fresh_run_def)
qed

text \<open>What the envelope carries.\<close>

definition answers ::
  "enroll_world \<Rightarrow> tpm_device \<Rightarrow> enroll_options \<Rightarrow> attest_challenge \<Rightarrow> attest_envelope \<Rightarrow> bool" where
  "answers W D opts c env \<longleftrightarrow>
    (\<exists>cb es secret nonce quote quote_sig cert cert_sig.
      ew_unb64 W (ch_cred_blob c) = Some cb \<and> ew_unb64 W (ch_enc_secret c) = Some es \<and> dv_activate D cb es = Inr secret \<and>
      ew_unb64 W (ch_nonce c) = Some nonce \<and> dv_quote D nonce (eo_selections opts) = Inr (quote, quote_sig) \<and>
      dv_certify D nonce = Inr (cert, cert_sig) \<and> ae_nonce_id env = ch_nonce_id c \<and> ae_token env = eo_token opts \<and>
      ae_activated_secret env = ew_b64 W secret \<and> ae_quote env = ew_b64 W quote \<and> ae_quote_sig env = ew_b64 W quote_sig \<and>
      ae_certify_info env = ew_b64 W cert \<and> ae_certify_sig env = ew_b64 W cert_sig)"

lemma device_step_Inr: "device_step what x = Inr a \<longleftrightarrow> x = Inr a"
  by (cases x) (simp_all add: device_step_def)

lemma decode_step_Inr: "decode_step W what v = Inr b \<longleftrightarrow> ew_unb64 W v = Some b"
  by (simp add: decode_step_def split: option.split)

lemma answer_challenge_answers:
  assumes "answer_challenge W D opts ek ak c = Inr env"
  shows "answers W D opts c env"
  using assms
  by (cases "build_device_csr W (dv_signer D) (if eo_subject_cn opts = [] then eo_device_ref opts else eo_subject_cn opts)")
    (auto simp: answer_challenge_def read_then_Inr device_step_Inr decode_step_Inr Let_def answers_def)

lemma enroll_asks_then_attests:
  shows "\<exists>k req. int k \<le> max 0 (rp_max_attempts p) \<and>
    (er_posts (snd (enroll W p D opts fresh_run)) = replicate k (NoncePost req) \<and>
       (\<exists>e. fst (enroll W p D opts fresh_run) = Inl e) \<or>
     (\<exists>env c b. er_posts (snd (enroll W p D opts fresh_run)) = replicate k (NoncePost req) @ [AttestPost env] \<and> 0 < k \<and>
       ew_reply W (k - 1) (NoncePost req) = Replied 200 b \<and> ew_challenge W b = Some c \<and> answers W D opts c env \<and>
       (\<forall>cert. fst (enroll W p D opts fresh_run) = Inr cert \<longrightarrow> cert \<noteq> [] \<and>
          (\<exists>b. ew_reply W k (AttestPost env) = Replied 200 b \<and> ew_certificate W b = Some cert))))"
proof (cases rule: enroll_cases [of W p D opts fresh_run])
  case (early e)
  then show ?thesis by (intro exI [of _ 0]) (simp add: fresh_run_def)
next
  case (asked ek ak r s1)
  let ?req = "nonce_request_of W opts ek ak"
  obtain k where k: "er_posts s1 = replicate k (NoncePost ?req)" "int k \<le> max 0 (rp_max_attempts p)"
    and c: "\<And>c. r = Inr c \<Longrightarrow> 0 < k \<and> (\<exists>b. ew_reply W (k - 1) (NoncePost ?req) = Replied 200 b \<and> ew_challenge W b = Some c)"
    using nonce_posts [OF asked(3)] by blast
  show ?thesis
  proof (cases "\<exists>ch env. r = Inr ch \<and> answer_challenge W D opts (snd ek) ak ch = Inr env")
    case True
    then obtain ch env where ch: "r = Inr ch" and env: "answer_challenge W D opts (snd ek) ak ch = Inr env" by blast
    obtain res s2 where s2: "post_attest W env s1 = (res, s2)" by fastforce
    have posts: "er_posts s2 = replicate k (NoncePost ?req) @ [AttestPost env]"
      using post_attest_posts [of W env s1] s2 k(1) by simp
    have run: "snd (enroll W p D opts fresh_run) = s2"
      "\<And>cert. fst (enroll W p D opts fresh_run) = Inr cert \<Longrightarrow> res = Inr cert \<and> cert \<noteq> []"
      using asked(6) [OF ch env] s2 by (auto split: sum.splits if_splits)
    have "\<exists>b. ew_reply W k (AttestPost env) = Replied 200 b \<and> ew_certificate W b = Some cert" if "res = Inr cert" for cert
      using post_attest_result [of W env s1 cert s2] s2 that k(1) by simp
    then show ?thesis
      using k(2) posts run c [OF ch] answer_challenge_answers [OF env] by (intro exI [of _ k] exI [of _ ?req]) blast
  next
    case False
    have "\<exists>e. enroll W p D opts fresh_run = (Inl e, s1)"
    proof (cases r)
      case (Inr ch)
      then obtain e where "answer_challenge W D opts (snd ek) ak ch = Inl e" using False by (cases "answer_challenge W D opts (snd ek) ak ch") auto
      then show ?thesis using asked(5) Inr by blast
    qed (use asked(4) in blast)
    then show ?thesis using k by (intro exI [of _ k] exI [of _ ?req]) auto
  qed
qed

section \<open>The software device\<close>

text \<open>The three generated keys: moduli, the operations of the private halves, the signer of the requests.\<close>

record mock_tpm =
  mk_ek_n :: int
  mk_ek :: ek_private
  mk_ak_sign :: "go_hash \<Rightarrow> string \<Rightarrow> string + string"
  mk_device_n :: int
  mk_device_key :: string
  mk_ek_cert :: string
  mk_ak_pub :: string
  mk_ak_name :: string

definition area_name :: "(nat \<Rightarrow> string \<Rightarrow> string) \<Rightarrow> string \<Rightarrow> tpm_error + string" where
  "area_name H pub = read_then (parse_public_area pub True) (compute_name H)"

definition new_mock_tpm_device ::
  "(nat \<Rightarrow> string \<Rightarrow> string) \<Rightarrow> int \<times> ek_private \<Rightarrow> int \<times> (go_hash \<Rightarrow> string \<Rightarrow> string + string) \<Rightarrow> int \<times> string \<Rightarrow>
     string \<Rightarrow> tpm_error + mock_tpm" where
  "new_mock_tpm_device H ek ak device_key ek_cert =
    read_then (build_rsa_signing_area (Some (fst ak)) alg_sha256 ak_object_attributes alg_rsassa alg_sha256) (\<lambda>ak_pub.
    read_then (area_name H ak_pub) (\<lambda>ak_name.
      Inr \<lparr>mk_ek_n = fst ek, mk_ek = snd ek, mk_ak_sign = snd ak, mk_device_n = fst device_key,
        mk_device_key = snd device_key, mk_ek_cert = ek_cert, mk_ak_pub = ak_pub, mk_ak_name = ak_name\<rparr>))"

definition mock_endorsement_key :: "mock_tpm \<Rightarrow> tpm_error + string \<times> string \<times> string list" where
  "mock_endorsement_key m = read_then (build_rsa_storage_ek_area (Some (mk_ek_n m))) (\<lambda>p. Inr (p, mk_ek_cert m, []))"

definition mock_device_key :: "mock_tpm \<Rightarrow> tpm_error + string" where
  "mock_device_key m = build_rsa_signing_area (Some (mk_device_n m)) alg_sha256 device_key_object_attributes alg_null 0"

definition mock_activate :: "tpm_crypto \<Rightarrow> mock_tpm \<Rightarrow> string \<Rightarrow> string \<Rightarrow> string tpm_run" where
  "mock_activate C m blob enc_secret = activate_credential C (Some (mk_ek m)) alg_sha256 (mk_ak_name m) blob enc_secret"

definition mock_attested ::
  "(go_hash \<Rightarrow> string \<Rightarrow> string) \<Rightarrow> mock_tpm \<Rightarrow> string \<Rightarrow> tpm_error + string \<times> string" where
  "mock_attested G m attest = read_then (sign_attest_rsassa G (mk_ak_sign m) alg_sha256 attest) (\<lambda>s. Inr (attest, s))"

definition mock_quote ::
  "(go_hash \<Rightarrow> string \<Rightarrow> string) \<Rightarrow> mock_tpm \<Rightarrow> string \<Rightarrow> pcr_selection list \<Rightarrow> tpm_error + string \<times> string" where
  "mock_quote G m nonce sels =
     mock_attested G m (marshal_quote_attest (mk_ak_name m) nonce sels (replicate 32 CHR 0x00))"

definition mock_certify ::
  "(nat \<Rightarrow> string \<Rightarrow> string) \<Rightarrow> (go_hash \<Rightarrow> string \<Rightarrow> string) \<Rightarrow> mock_tpm \<Rightarrow> string \<Rightarrow> tpm_error + string \<times> string" where
  "mock_certify H G m qualifying =
    read_then (mock_device_key m) (\<lambda>dk_pub.
    read_then (area_name H dk_pub) (\<lambda>dk_name.
      mock_attested G m (marshal_certify_attest (mk_ak_name m) qualifying dk_name)))"

text \<open>As a device; \<open>mock_activate\<close> returns whenever the digests have their size (\<open>activation_returns\<close>).\<close>

definition mock_device ::
  "tpm_crypto \<Rightarrow> (nat \<Rightarrow> string \<Rightarrow> string) \<Rightarrow> (go_hash \<Rightarrow> string \<Rightarrow> string) \<Rightarrow> mock_tpm \<Rightarrow> tpm_device" where
  "mock_device C H G m =
    \<lparr>dv_endorsement_key = mock_endorsement_key m, dv_attestation_key = Inr (mk_ak_pub m, mk_ak_name m),
      dv_device_key = mock_device_key m, dv_activate = (\<lambda>blob es. the (mock_activate C m blob es)),
      dv_quote = mock_quote G m, dv_certify = mock_certify H G m, dv_signer = Some (mk_device_key m)\<rparr>"

section \<open>What an attesting device promises\<close>

locale attesting_devices =
  fixes ready :: "tpm_device \<Rightarrow> bool" and name_of :: "string \<Rightarrow> tpm_error + string"
  assumes quote_law: "ready D \<Longrightarrow> dv_quote D n sels = Inr (q, s) \<Longrightarrow> length n < 65536 \<Longrightarrow> length sels \<le> 16 \<Longrightarrow>
      list_all selection_ok sels \<Longrightarrow>
      \<exists>info. parse_attest (Some q) = Inr info \<and> is_quote info \<and> ai_extra_data info = n \<and> ai_pcr_selections info = sels"
    and certify_law: "ready D \<Longrightarrow> dv_certify D n = Inr (a, s) \<Longrightarrow> length n < 65536 \<Longrightarrow>
      \<exists>info pub. parse_attest (Some a) = Inr info \<and> is_certify info \<and> ai_extra_data info = n \<and>
        dv_device_key D = Inr pub \<and> name_of pub = Inr (ai_certified_name info)"
begin

lemma answer_binds_nonce:
  assumes "ready D" and "answers W D opts c env" and "\<And>x. ew_unb64 W (ew_b64 W x) = Some x"
    and "length (eo_selections opts) \<le> 16" "list_all selection_ok (eo_selections opts)"
    and "\<And>n. ew_unb64 W (ch_nonce c) = Some n \<Longrightarrow> length n < 65536"
  shows "\<exists>n q cert qi ci pub. ew_unb64 W (ch_nonce c) = Some n \<and> ew_unb64 W (ae_quote env) = Some q \<and>
    parse_attest (Some q) = Inr qi \<and> is_quote qi \<and> ai_extra_data qi = n \<and> ai_pcr_selections qi = eo_selections opts \<and>
    ew_unb64 W (ae_certify_info env) = Some cert \<and> parse_attest (Some cert) = Inr ci \<and> is_certify ci \<and>
    ai_extra_data ci = n \<and> dv_device_key D = Inr pub \<and> name_of pub = Inr (ai_certified_name ci)"
proof -
  obtain n q qs a as where n: "ew_unb64 W (ch_nonce c) = Some n" and q: "dv_quote D n (eo_selections opts) = Inr (q, qs)"
    and a: "dv_certify D n = Inr (a, as)" and env: "ae_quote env = ew_b64 W q" "ae_certify_info env = ew_b64 W a"
    using assms(2) unfolding answers_def by blast
  have len: "length n < 65536" by (rule assms(6) [OF n])
  show ?thesis
    using n env assms(3) quote_law [OF assms(1) q len assms(4,5)] certify_law [OF assms(1) a len] by (metis (no_types))
qed

end

text \<open>The software device is one.\<close>

definition mock_ok :: "(nat \<Rightarrow> string \<Rightarrow> string) \<Rightarrow> mock_tpm \<Rightarrow> bool" where
  "mock_ok H m \<longleftrightarrow> length (mk_ak_name m) < 65536 \<and> (\<forall>alg s. length (H alg s) < 65534)"

definition mock_devices ::
  "tpm_crypto \<Rightarrow> (nat \<Rightarrow> string \<Rightarrow> string) \<Rightarrow> (go_hash \<Rightarrow> string \<Rightarrow> string) \<Rightarrow> tpm_device \<Rightarrow> bool" where
  "mock_devices C H G D \<longleftrightarrow> (\<exists>m. mock_ok H m \<and> D = mock_device C H G m)"

lemma mock_attested_Inr: "mock_attested G m a = Inr (q, s) \<Longrightarrow> q = a \<and> sign_attest_rsassa G (mk_ak_sign m) alg_sha256 a = Inr s"
  by (auto simp: mock_attested_def read_then_Inr)

lemma area_name_length:
  assumes "area_name H pub = Inr name" and "\<And>alg s. length (H alg s) < 65534"
  shows "length name < 65536"
proof -
  obtain p where "compute_name H p = Inr name" using assms(1) by (auto simp: area_name_def read_then_Inr)
  then obtain h where "new_hash H (pa_name_alg p) = Inr h" "name = put_uint16 (word_of_nat (pa_name_alg p)) @ h (pa_pub_area p)"
    by (auto simp: compute_name_def read_then_Inr)
  then show ?thesis using assms(2) by (auto simp: new_hash_Inr)
qed

interpretation mock: attesting_devices "mock_devices C H G" "area_name H" for C H G
proof
  fix D n sels q s
  assume D: "mock_devices C H G D" and q: "dv_quote D n sels = Inr (q, s)"
    and len: "length n < 65536" "length sels \<le> 16" "list_all selection_ok sels"
  obtain m where m: "mock_ok H m" "D = mock_device C H G m" using D by (auto simp: mock_devices_def)
  have "q = marshal_quote_attest (mk_ak_name m) n sels (replicate 32 CHR 0x00)"
    using q m by (auto simp: mock_device_def mock_quote_def dest: mock_attested_Inr)
  then show "\<exists>info. parse_attest (Some q) = Inr info \<and> is_quote info \<and> ai_extra_data info = n \<and> ai_pcr_selections info = sels"
    using attestation_reads_back(2) [of "mk_ak_name m" n "replicate 32 CHR 0x00" sels] m len
    by (simp add: mock_ok_def attest_start_def is_quote_def)
next
  fix D n a s
  assume D: "mock_devices C H G D" and a: "dv_certify D n = Inr (a, s)" and len: "length n < 65536"
  obtain m where m: "mock_ok H m" "D = mock_device C H G m" using D by (auto simp: mock_devices_def)
  obtain pub name where pub: "mock_device_key m = Inr pub" "area_name H pub = Inr name"
    and eq: "a = marshal_certify_attest (mk_ak_name m) n name"
    using a m by (auto simp: mock_device_def mock_certify_def read_then_Inr dest: mock_attested_Inr)
  have "length name < 65536" by (rule area_name_length [OF pub(2)]) (use m in \<open>simp add: mock_ok_def\<close>)
  then show "\<exists>info pub. parse_attest (Some a) = Inr info \<and> is_certify info \<and> ai_extra_data info = n \<and>
        dv_device_key D = Inr pub \<and> area_name H pub = Inr (ai_certified_name info)"
    using attestation_reads_back(1) [of "mk_ak_name m" n name] m len pub eq
    by (auto simp: mock_ok_def attest_start_def is_certify_def mock_device_def)
qed

section \<open>The enrolment as a whole\<close>

text \<open>
  Property C28: an enrolment sends at most one attestation, as its last request and after at most
  \<open>MaxAttempts\<close> requests for a nonce; its envelope answers the challenge that the last of them was given, with
  the secret the device activated and the quote and certification of that nonce.
\<close>

theorem attested_once_after_activation:
  assumes "AttestPost env \<in> set (er_posts (snd (enroll W p D opts fresh_run)))"
  shows "\<exists>k req c b. er_posts (snd (enroll W p D opts fresh_run)) = replicate k (NoncePost req) @ [AttestPost env] \<and>
    0 < k \<and> int k \<le> rp_max_attempts p \<and> ew_reply W (k - 1) (NoncePost req) = Replied 200 b \<and>
    ew_challenge W b = Some c \<and> answers W D opts c env"
proof -
  obtain k req where k: "int k \<le> max 0 (rp_max_attempts p)" and posts:
    "er_posts (snd (enroll W p D opts fresh_run)) = replicate k (NoncePost req) \<or>
     (\<exists>env c b. er_posts (snd (enroll W p D opts fresh_run)) = replicate k (NoncePost req) @ [AttestPost env] \<and> 0 < k \<and>
       ew_reply W (k - 1) (NoncePost req) = Replied 200 b \<and> ew_challenge W b = Some c \<and> answers W D opts c env)"
    using enroll_asks_then_attests [of p W D opts] by blast
  then obtain env' c b where e: "er_posts (snd (enroll W p D opts fresh_run)) = replicate k (NoncePost req) @ [AttestPost env']"
    "0 < k" "ew_reply W (k - 1) (NoncePost req) = Replied 200 b" "ew_challenge W b = Some c" "answers W D opts c env'"
    using assms by auto
  have "env' = env" using assms e(1) by auto
  moreover have "int k \<le> rp_max_attempts p" using k e(2) by simp
  ultimately show ?thesis using e by blast
qed

text \<open>
  Fact: a certificate is returned only when an attestation was sent and answered 200 with that
  certificate, not empty.
\<close>

theorem enrolled_means_certified:
  assumes "fst (enroll W p D opts fresh_run) = Inr cert"
  shows "cert \<noteq> [] \<and> (\<exists>env b. last (er_posts (snd (enroll W p D opts fresh_run))) = AttestPost env \<and>
    ew_reply W (length (er_posts (snd (enroll W p D opts fresh_run))) - 1) (AttestPost env) = Replied 200 b \<and>
    ew_certificate W b = Some cert)"
proof -
  obtain k req env where "er_posts (snd (enroll W p D opts fresh_run)) = replicate k (NoncePost req) @ [AttestPost env]"
    "cert \<noteq> [] \<and> (\<exists>b. ew_reply W k (AttestPost env) = Replied 200 b \<and> ew_certificate W b = Some cert)"
    using enroll_asks_then_attests [of p W D opts] assms by auto
  then show ?thesis by auto
qed

text \<open>
  Fact: whatever the backend answers, the software device that is given a credential made for its attestation
  key under its endorsement key sends back exactly the secret sealed in it.
\<close>

theorem mock_answers_with_the_secret:
  assumes crypto: "crypto_ok C"
    and oaep: "\<And>h s ct. encrypt h oaep_label s = Inr ct \<Longrightarrow> mk_ek m h oaep_label ct = Some s"
    and made: "make_credential C (Some encrypt) alg_sha256 (mk_ak_name m) secret seed = Some (Inr cred)"
    and challenge: "ew_unb64 W (ch_cred_blob c) = Some (cr_blob cred)" "ew_unb64 W (ch_enc_secret c) = Some (cr_enc_secret cred)"
    and env: "answers W (mock_device C H G m) opts c env"
  shows "ae_activated_secret env = ew_b64 W secret"
proof -
  have "mock_activate C m (cr_blob cred) (cr_enc_secret cred) = Some (Inr secret)"
    unfolding mock_activate_def by (rule activation_recovers [of C encrypt "mk_ek m", OF crypto oaep made])
  then show ?thesis using env challenge by (auto simp: answers_def mock_device_def)
qed

text \<open>
  Fact: the quote and the certification in the envelope of the software device parse, carry the nonce of
  the challenge and the asked selections, and name the device key the device reports.
\<close>

theorem mock_answer_binds_nonce:
  assumes ok: "mock_ok H m" and env: "answers W (mock_device C H G m) opts c env"
    and b64: "\<And>x. ew_unb64 W (ew_b64 W x) = Some x"
    and sels: "length (eo_selections opts) \<le> 16" "list_all selection_ok (eo_selections opts)"
    and nonce: "\<And>n. ew_unb64 W (ch_nonce c) = Some n \<Longrightarrow> length n < 65536"
  shows "\<exists>n q cert qi ci pub. ew_unb64 W (ch_nonce c) = Some n \<and> ew_unb64 W (ae_quote env) = Some q \<and>
    parse_attest (Some q) = Inr qi \<and> is_quote qi \<and> ai_extra_data qi = n \<and> ai_pcr_selections qi = eo_selections opts \<and>
    ew_unb64 W (ae_certify_info env) = Some cert \<and> parse_attest (Some cert) = Inr ci \<and> is_certify ci \<and>
    ai_extra_data ci = n \<and> mock_device_key m = Inr pub \<and> area_name H pub = Inr (ai_certified_name ci)"
proof -
  have "mock_devices C H G (mock_device C H G m)" using ok by (auto simp: mock_devices_def)
  from mock.answer_binds_nonce [OF this env b64 sels nonce] show ?thesis by (simp add: mock_device_def)
qed

text \<open>
  Fact: with a positive base of at most the maximum, every wait between two requests for a nonce is
  positive and at most the maximum, and there are at most \<open>MaxAttempts\<close> of them.
\<close>

theorem waits_bounded:
  assumes "0 < rp_base p" and "rp_base p \<le> rp_max p" and "rp_max p < 2 ^ 62" and "1 \<le> rp_max_attempts p"
  shows "list_all (\<lambda>w. 0 < w \<and> w \<le> rp_max p) (er_waits (snd (post_nonce W p req fresh_run))) \<and>
    int (length (er_waits (snd (post_nonce W p req fresh_run)))) \<le> rp_max_attempts p"
proof -
  obtain k ws where ws: "er_waits (snd (post_nonce W p req fresh_run)) = ws" "int k \<le> max 0 (rp_max_attempts p)" "length ws \<le> k"
    "list_all (\<lambda>w. \<exists>a\<ge>1. w = backoff_delay p a) ws"
    using nonce_loop_ok [of W p req 1 fresh_run NonceNoAttempt]
    by (auto simp: nonce_run_ok_def post_nonce_def fresh_run_def)
  have "list_all (\<lambda>w. 0 < w \<and> w \<le> rp_max p) ws"
    by (rule list.pred_mono_strong [OF ws(4)]) (use backoff_loop_bounds [OF assms(1-3)] in \<open>auto simp: backoff_delay_def\<close>)
  then show ?thesis using ws assms(4) by simp
qed

text \<open>The first delay is the base itself, whatever the maximum.\<close>

lemma first_delay_not_capped: "0 < rp_base p \<Longrightarrow> backoff_delay p 1 = rp_base p"
  by (simp add: backoff_delay_def)

section \<open>Sample runs\<close>

definition enroll_sample_world :: "credential \<Rightarrow> enroll_world" where
  "enroll_sample_world cred =
    \<lparr>ew_reply = (\<lambda>n req. case req of NoncePost _ \<Rightarrow> if n = 0 then Replied 503 [] else Replied 200 ''challenge''
       | AttestPost _ \<Rightarrow> Replied 200 ''cert''),
     ew_cancelled = (\<lambda>_. False),
     ew_challenge = (\<lambda>_. Some \<lparr>ch_nonce_id = ''id'', ch_nonce = ''nonce'', ch_cred_blob = cr_blob cred,
        ch_enc_secret = cr_enc_secret cred\<rparr>),
     ew_certificate = Some, ew_b64 = (\<lambda>x. x), ew_unb64 = Some, ew_create_csr = (\<lambda>k t. Inr ''csr'')\<rparr>"

definition sample_mock :: mock_tpm where
  "sample_mock = \<lparr>mk_ek_n = 128 * 256 ^ 255, mk_ek = sample_open, mk_ak_sign = (\<lambda>_ d. Inr d), mk_device_n = 128 * 256 ^ 255,
     mk_device_key = ''key'', mk_ek_cert = ''ek'', mk_ak_pub = ''ak'', mk_ak_name = ''name''\<rparr>"

definition sample_options :: enroll_options where
  "sample_options = \<lparr>eo_token = ''token'', eo_device_ref = ''host'', eo_selections = [], eo_subject_cn = []\<rparr>"

definition sample_device :: tpm_device where
  "sample_device = \<lparr>dv_endorsement_key = Inr (''ek'', ''cert'', []), dv_attestation_key = Inr (''ak'', ''name''),
     dv_device_key = Inr ''dk'', dv_activate = (\<lambda>_ _. Inr ''secret''), dv_quote = (\<lambda>n _. Inr (n, ''sig'')),
     dv_certify = (\<lambda>n. Inr (n, ''sig'')), dv_signer = Some ''key''\<rparr>"

lemma enroll_sample_simps [simp]:
  "ew_b64 (enroll_sample_world cred) x = x" "ew_unb64 (enroll_sample_world cred) x = Some x" "ew_certificate (enroll_sample_world cred) x = Some x"
  "ew_create_csr (enroll_sample_world cred) k t = Inr ''csr''" "ew_reply (enroll_sample_world cred) n (AttestPost e) = Replied 200 ''cert''"
  by (simp_all add: enroll_sample_world_def)

definition sample_cred :: credential where "sample_cred = \<lparr>cr_blob = ''b'', cr_enc_secret = ''e''\<rparr>"

lemma sample_nonce:
  "post_nonce (enroll_sample_world cred) default_nonce_retry req fresh_run =
    (Inr \<lparr>ch_nonce_id = ''id'', ch_nonce = ''nonce'', ch_cred_blob = cr_blob cred, ch_enc_secret = cr_enc_secret cred\<rparr>,
     \<lparr>er_posts = [NoncePost req, NoncePost req], er_waits = [500 * 10 ^ 6]\<rparr>)"
  by (simp add: post_nonce_def nonce_loop.simps [of _ _ _ 1] nonce_loop.simps [of _ _ _ 2] do_post_def fresh_run_def
      enroll_sample_world_def ok_body_def is_transient_def default_nonce_retry_def backoff_delay_def Let_def)

lemma sample_enroll:
  "\<exists>env. fst (enroll (enroll_sample_world cred) default_nonce_retry sample_device sample_options fresh_run) = Inr ''cert'' \<and>
     AttestPost env \<in> set (er_posts (snd (enroll (enroll_sample_world cred) default_nonce_retry sample_device sample_options fresh_run)))"
  by (simp add: enroll_def sample_options_def sample_nonce sample_device_def device_step_def answer_challenge_def
      decode_step_def post_attest_def do_post_def build_device_csr_def Let_def ok_body_def)

theorem attested_once_after_activation_witness:
  "\<exists>env k req. er_posts (snd (enroll (enroll_sample_world sample_cred) default_nonce_retry sample_device sample_options fresh_run)) =
     replicate k (NoncePost req) @ [AttestPost env] \<and> int k \<le> 4"
  using sample_enroll [of sample_cred] attested_once_after_activation [of _ "enroll_sample_world sample_cred" default_nonce_retry sample_device sample_options]
  by (fastforce simp: default_nonce_retry_def)

theorem enrolled_means_certified_witness:
  "\<exists>env. last (er_posts (snd (enroll (enroll_sample_world sample_cred) default_nonce_retry sample_device sample_options fresh_run))) =
     AttestPost env"
  using sample_enroll [of sample_cred] enrolled_means_certified [of "enroll_sample_world sample_cred" default_nonce_retry sample_device sample_options]
  by blast

theorem waits_bounded_witness:
  "list_all (\<lambda>w. 0 < w \<and> w \<le> 8 * 10 ^ 9) (er_waits (snd (post_nonce (enroll_sample_world sample_cred) default_nonce_retry
     (nonce_request_of (enroll_sample_world sample_cred) sample_options (''ek'', ''cert'', []) (''ak'', ''name'')) fresh_run)))"
  using waits_bounded [of default_nonce_retry "enroll_sample_world sample_cred"
     "nonce_request_of (enroll_sample_world sample_cred) sample_options (''ek'', ''cert'', []) (''ak'', ''name'')"]
  by (simp add: default_nonce_retry_def)

lemma sample_answers:
  assumes act: "activate_credential tpm_sample_crypto (Some sample_open) alg_sha256 ''name'' (cr_blob cred) (cr_enc_secret cred) =
      Some (Inr secret)"
  shows "\<exists>c env. answers (enroll_sample_world cred) (mock_device tpm_sample_crypto (\<lambda>_. take 32) (\<lambda>_. take 32) sample_mock) sample_options c env \<and>
    ch_cred_blob c = cr_blob cred \<and> ch_enc_secret c = cr_enc_secret cred \<and> ch_nonce c = ''nonce''"
proof -
  let ?G = "\<lambda>_ :: go_hash. take 32 :: string \<Rightarrow> string" and ?H = "\<lambda>_ :: nat. take 32 :: string \<Rightarrow> string"
  let ?m = "128 * 256 ^ 255 :: int"
  have "length (nat_bytes 128) = 1" by (simp add: nat_bytes.simps [of 128])
  then have "length (nat_bytes (nat ?m)) = 256" using length_nat_bytes_shift [of 128 255] by simp
  then obtain pub where pub: "build_rsa_signing_area (Some ?m) alg_sha256 device_key_object_attributes alg_null 0 = Inr pub"
    using build_signing_succeeds [of ?m alg_sha256 alg_null device_key_object_attributes 0] by auto
  obtain p where p: "parse_public_area pub True = Inr p" "pa_name_alg p = alg_sha256"
    using built_signing_area [OF pub] by auto
  obtain name where name: "area_name ?H pub = Inr name"
    using p by (simp add: area_name_def compute_name_def new_hash_def)
  have sign: "\<exists>s. mock_attested ?G sample_mock a = Inr (a, s)" for a
    by (simp add: mock_attested_def sign_attest_rsassa_def crypto_hash_def sample_mock_def)
  obtain q qs where q: "mock_quote ?G sample_mock ''nonce'' [] = Inr (q, qs)" using sign by (metis mock_quote_def)
  have "mock_device_key sample_mock = Inr pub" using pub by (simp add: mock_device_key_def sample_mock_def)
  then obtain a s where a: "mock_certify ?H ?G sample_mock ''nonce'' = Inr (a, s)"
    using sign name by (fastforce simp: mock_certify_def)
  define c where "c = \<lparr>ch_nonce_id = ''id'', ch_nonce = ''nonce'', ch_cred_blob = cr_blob cred, ch_enc_secret = cr_enc_secret cred\<rparr>"
  define env where "env = \<lparr>ae_schema = schema_v2, ae_token = ''token'', ae_device_ref = ''host'', ae_nonce_id = ''id'',
    ae_ek_cert = [], ae_ek_chain = [], ae_ak_pub = [], ae_ak_name = [], ae_activated_secret = secret, ae_certify_info = a,
    ae_certify_sig = s, ae_quote = q, ae_quote_sig = qs, ae_device_key_pub = pub, ae_csr = []\<rparr>"
  have "mock_activate tpm_sample_crypto sample_mock (cr_blob cred) (cr_enc_secret cred) = Some (Inr secret)"
    using act by (simp add: mock_activate_def sample_mock_def)
  then have "answers (enroll_sample_world cred) (mock_device tpm_sample_crypto ?H ?G sample_mock) sample_options c env"
    using q a by (simp add: answers_def mock_device_def enroll_sample_world_def sample_options_def c_def env_def)
  then show ?thesis by (auto simp: c_def)
qed

theorem mock_answers_with_the_secret_witness:
  "\<exists>c env cred. answers (enroll_sample_world cred) (mock_device tpm_sample_crypto (\<lambda>_. take 32) (\<lambda>_. take 32) sample_mock) sample_options c env \<and>
     ae_activated_secret env = replicate 16 CHR ''s''"
proof -
  obtain cred where made: "make_credential tpm_sample_crypto (Some sample_seal) alg_sha256 ''name'' (replicate 16 CHR ''s'')
       (replicate 32 CHR ''k'') = Some (Inr cred)" using sample_made by blast
  have oaep: "sample_open h oaep_label ct = Some s" if "sample_seal h oaep_label s = Inr ct" for h s ct
    using that by (auto simp: sample_seal_def sample_open_def)
  obtain c env where c: "answers (enroll_sample_world cred) (mock_device tpm_sample_crypto (\<lambda>_. take 32) (\<lambda>_. take 32) sample_mock) sample_options c env"
    "ch_cred_blob c = cr_blob cred" "ch_enc_secret c = cr_enc_secret cred"
    using sample_answers [OF activation_recovers [of tpm_sample_crypto sample_seal sample_open, OF tpm_sample_crypto_ok oaep made]] by blast
  have "ae_activated_secret env = ew_b64 (enroll_sample_world cred) (replicate 16 CHR ''s'')"
    by (rule mock_answers_with_the_secret [of _ sample_seal sample_mock, OF tpm_sample_crypto_ok _ _ _ _ c(1)])
      (use c made oaep in \<open>simp_all add: sample_mock_def enroll_sample_world_def\<close>)
  then show ?thesis using c(1) by (auto simp: enroll_sample_world_def)
qed

theorem mock_answer_binds_nonce_witness:
  "\<exists>c env cred q qi. answers (enroll_sample_world cred) (mock_device tpm_sample_crypto (\<lambda>_. take 32) (\<lambda>_. take 32) sample_mock) sample_options c env \<and>
     ae_quote env = q \<and> parse_attest (Some q) = Inr qi \<and> ai_extra_data qi = ''nonce''"
proof -
  obtain cred where made: "make_credential tpm_sample_crypto (Some sample_seal) alg_sha256 ''name'' (replicate 16 CHR ''s'')
       (replicate 32 CHR ''k'') = Some (Inr cred)" using sample_made by blast
  have oaep: "sample_open h oaep_label ct = Some s" if "sample_seal h oaep_label s = Inr ct" for h s ct
    using that by (auto simp: sample_seal_def sample_open_def)
  obtain c env where c: "answers (enroll_sample_world cred) (mock_device tpm_sample_crypto (\<lambda>_. take 32) (\<lambda>_. take 32) sample_mock) sample_options c env"
    "ch_nonce c = ''nonce''"
    using sample_answers [OF activation_recovers [of tpm_sample_crypto sample_seal sample_open, OF tpm_sample_crypto_ok oaep made]] by blast
  have "mock_ok (\<lambda>_. take 32) sample_mock" by (simp add: mock_ok_def sample_mock_def min_def)
  from mock_answer_binds_nonce [OF this c(1)] obtain n q qi where
    "ew_unb64 (enroll_sample_world cred) (ch_nonce c) = Some n" "ew_unb64 (enroll_sample_world cred) (ae_quote env) = Some q"
    "parse_attest (Some q) = Inr qi" "ai_extra_data qi = n"
    by (auto simp: sample_options_def c(2))
  then show ?thesis using c by (intro exI) (auto intro: exI)
qed

end
