(* ===== verification/DeviceSession.thy ===== *)
theory DeviceSession
  imports TpmEnroll Harness
begin

text \<open>
  The device-key session attestation (\<open>src/internal/remotebridge/devkeysession\<close>): the binding context that the device
  key signs (\<open>bindingcontext.go\<close>), the production of an answer to a broker's challenge (\<open>responder.go\<close>) and its
  wire form (\<open>proto_adapter.go\<close>).

  Base64, SHA-256, the signing of a digest and the DER form of an ECDSA signature are parameters; the TPM is the device
  interface of the enrolment.
\<close>

section \<open>Data\<close>

record session_challenge =
  sc_challenge_id :: string
  sc_session_id :: string
  sc_nonce :: string
  sc_peer_key :: string
  sc_expires_at :: i64

record session_answer =
  sa_challenge_id :: string
  sa_schema :: string
  sa_device_key_pub :: string
  sa_ak_pub :: string
  sa_ak_name :: string
  sa_ek_pub :: string
  sa_ek_cert :: string
  sa_ek_chain :: "string list"
  sa_certify_info :: string
  sa_certify_sig :: string
  sa_quote :: string
  sa_quote_sig :: string
  sa_binding_context :: string
  sa_device_key_sig :: string
  sa_signed_at :: i64

datatype session_key_error =
    NilDevice | NilChallenge | UnsupportedProtocol string | MalformedNonce
  | SessionIdRequired | ChallengeIdRequired | NonceRequired | PeerKeyRequired
  | DeviceStep string tpm_error | NoKeySigner | KeySignFailed string | KeySignatureForm tpm_error | UnsupportedKeyType

text \<open>The public key of a signer: RSA, an elliptic curve with its bit size, or another one.\<close>

datatype key_type = RsaKey | EcKey int | OtherKey

record key_ops =
  ko_sha256 :: "string \<Rightarrow> string"
  ko_type :: "string \<Rightarrow> key_type"
  ko_sign :: "string \<Rightarrow> string \<Rightarrow> string + string" \<comment> \<open>key, digest\<close>
  ko_der :: der_pair
  ko_b64 :: "string \<Rightarrow> string"
  ko_unb64 :: "string \<Rightarrow> string option"

definition domain_tag :: string where "domain_tag = ''F22.6_DEVICE_KEY_SESSION_V1''"
definition response_schema :: string where "response_schema = ''faz22.6.device-key-session.v1''"
definition challenge_protocol :: string where "challenge_protocol = ''device-key-session-v1''"

section \<open>The binding context\<close>

definition write_length_prefixed :: "string \<Rightarrow> string \<Rightarrow> string" where
  "write_length_prefixed b field = (b @ put_uint32 (of_nat (length field))) @ field"

definition binding_context ::
  "string \<Rightarrow> string \<Rightarrow> string \<Rightarrow> string \<Rightarrow> i64 \<Rightarrow> session_key_error + string" where
  "binding_context session_id challenge_id nonce peer_key expires_at =
    (if session_id = [] then Inl SessionIdRequired
     else if challenge_id = [] then Inl ChallengeIdRequired
     else if nonce = [] then Inl NonceRequired
     else if peer_key = [] then Inl PeerKeyRequired
     else
       let b = domain_tag @ [CHR 0x00];
           b = write_length_prefixed b session_id;
           b = write_length_prefixed b challenge_id;
           b = write_length_prefixed b nonce;
           b = write_length_prefixed b peer_key
       in Inr (b @ put_uint64 expires_at))"

section \<open>The answer\<close>

definition sign_binding_context :: "key_ops \<Rightarrow> string option \<Rightarrow> string \<Rightarrow> session_key_error + string" where
  "sign_binding_context K signer ctx =
    (case signer of None \<Rightarrow> Inl NoKeySigner
     | Some key \<Rightarrow>
        let digest = ko_sha256 K ctx in
        case ko_type K key of
          RsaKey \<Rightarrow> (case ko_sign K key digest of Inl e \<Rightarrow> Inl (KeySignFailed e)
            | Inr s \<Rightarrow> Inr (marshal_rsassa_signature alg_sha256 s))
        | EcKey bits \<Rightarrow> (case ko_sign K key digest of Inl e \<Rightarrow> Inl (KeySignFailed e)
            | Inr s \<Rightarrow> (case marshal_ecdsa_signature (ko_der K) alg_sha256 s ((bits + 7) div 8) of
                Inl e \<Rightarrow> Inl (KeySignatureForm e) | Inr t \<Rightarrow> Inr t))
        | OtherKey \<Rightarrow> Inl UnsupportedKeyType)"

definition key_step :: "string \<Rightarrow> tpm_error + 'a \<Rightarrow> session_key_error + 'a" where
  "key_step what x = (case x of Inl e \<Rightarrow> Inl (DeviceStep what e) | Inr a \<Rightarrow> Inr a)"

definition produce ::
  "key_ops \<Rightarrow> tpm_device option \<Rightarrow> session_challenge \<Rightarrow> i64 \<Rightarrow> session_key_error + session_answer" where
  "produce K tpm c now =
    (case tpm of None \<Rightarrow> Inl NilDevice
     | Some D \<Rightarrow>
        read_then (binding_context (sc_session_id c) (sc_challenge_id c) (sc_nonce c) (sc_peer_key c) (sc_expires_at c)) (\<lambda>ctx.
        read_then (key_step ''device key'' (dv_device_key D)) (\<lambda>device_key_pub.
        read_then (key_step ''attestation key'' (dv_attestation_key D)) (\<lambda>(ak_pub, ak_name).
        read_then (key_step ''endorsement key'' (dv_endorsement_key D)) (\<lambda>(ek_pub, ek_cert, ek_chain).
        read_then (key_step ''certify device key'' (dv_certify D (sc_nonce c))) (\<lambda>(certify_info, certify_sig).
        read_then (key_step ''quote'' (dv_quote D (sc_nonce c) [])) (\<lambda>(quote, quote_sig).
        read_then (sign_binding_context K (dv_signer D) ctx) (\<lambda>device_key_sig.
          Inr \<lparr>sa_challenge_id = sc_challenge_id c, sa_schema = response_schema, sa_device_key_pub = device_key_pub,
            sa_ak_pub = ak_pub, sa_ak_name = ak_name, sa_ek_pub = ek_pub, sa_ek_cert = ek_cert, sa_ek_chain = ek_chain,
            sa_certify_info = certify_info, sa_certify_sig = certify_sig, sa_quote = quote, sa_quote_sig = quote_sig,
            sa_binding_context = ctx, sa_device_key_sig = device_key_sig, sa_signed_at = now\<rparr>))))))))"

definition enc_or_empty :: "key_ops \<Rightarrow> string \<Rightarrow> string" where
  "enc_or_empty K b = (if b = [] then [] else ko_b64 K b)"

definition to_proto :: "key_ops \<Rightarrow> session_answer \<Rightarrow> device_key_response" where
  "to_proto K r =
    \<lparr>dr_challenge_id = sa_challenge_id r, dr_schema = sa_schema r, dr_device_key_pub = ko_b64 K (sa_device_key_pub r),
     dr_ak_pub = ko_b64 K (sa_ak_pub r), dr_ak_name = ko_b64 K (sa_ak_name r), dr_ek_pub = ko_b64 K (sa_ek_pub r),
     dr_ek_cert = enc_or_empty K (sa_ek_cert r), dr_ek_chain = map (ko_b64 K) (sa_ek_chain r),
     dr_certify_info = ko_b64 K (sa_certify_info r), dr_certify_sig = ko_b64 K (sa_certify_sig r),
     dr_quote = ko_b64 K (sa_quote r), dr_quote_sig = ko_b64 K (sa_quote_sig r),
     dr_binding_context = ko_b64 K (sa_binding_context r), dr_device_key_sig = ko_b64 K (sa_device_key_sig r),
     dr_signed_at = sa_signed_at r\<rparr>"

definition respond ::
  "key_ops \<Rightarrow> tpm_device option \<Rightarrow> device_key_challenge option \<Rightarrow> string \<Rightarrow> i64 \<Rightarrow> session_key_error + device_key_response" where
  "respond K tpm challenge session_id now =
    (case challenge of None \<Rightarrow> Inl NilChallenge
     | Some c \<Rightarrow>
        if dk_protocol c \<noteq> challenge_protocol then Inl (UnsupportedProtocol (dk_protocol c))
        else case ko_unb64 K (dk_nonce_b64 c) of None \<Rightarrow> Inl MalformedNonce
          | Some nonce \<Rightarrow>
             read_then (produce K tpm
               \<lparr>sc_challenge_id = dk_challenge_id c, sc_session_id = session_id, sc_nonce = nonce,
                sc_peer_key = dk_peer_key c, sc_expires_at = dk_expires_at c\<rparr> now) (\<lambda>r. Inr (to_proto K r)))"

section \<open>The context determines the session\<close>

lemma prefixed_append: "write_length_prefixed b field = b @ put_uint32 (of_nat (length field)) @ field"
  by (simp add: write_length_prefixed_def)

lemma put_length_eq:
  assumes "length x < 2 ^ 32" "length y < 2 ^ 32"
  shows "put_uint32 (of_nat (length x)) = put_uint32 (of_nat (length y)) \<longleftrightarrow> length x = length y"
proof
  assume "put_uint32 (of_nat (length x)) = put_uint32 (of_nat (length y))"
  then have "of_nat (length x) = (of_nat (length y) :: u32)" by (metis get_put_uint32 append_Nil2)
  from arg_cong [OF this, of unat] show "length x = length y"
    using assms by (simp add: unsigned_of_nat take_bit_nat_eq_self)
qed simp

text \<open>
  Fact: two sessions have the same binding context only when their session, challenge, nonce, transport peer and
  expiry are the same; a signature over one is never a signature over another (fields shorter than 4 GiB).
\<close>

theorem binding_context_injective:
  assumes "binding_context s c n p e = Inr b" "binding_context s' c' n' p' e' = Inr b"
    and "list_all (\<lambda>x. length x < 2 ^ 32) [s, c, n, p, s', c', n', p']"
  shows "(s, c, n, p, e) = (s', c', n', p', e')"
proof -
  let ?f = "\<lambda>x. put_uint32 (of_nat (length x)) @ x"
  have "?f s @ ?f c @ ?f n @ ?f p @ put_uint64 e = ?f s' @ ?f c' @ ?f n' @ ?f p' @ put_uint64 e'"
    using assms(1,2) by (auto simp: binding_context_def prefixed_append Let_def split: if_splits)
  then have "s = s' \<and> c = c' \<and> n = n' \<and> p = p' \<and> put_uint64 e = put_uint64 e'"
    using assms(3) by (auto simp: put_length_eq)
  then show ?thesis by (metis get_put_uint64 append_Nil2)
qed

lemma binding_context_injective_witness:
  "\<exists>b. binding_context ''s'' ''c'' ''n'' ''p'' 7 = Inr b \<and> (''s'', ''c'', ''n'', ''p'', 7::i64) = (''s'', ''c'', ''n'', ''p'', 7)"
proof -
  obtain b where b: "binding_context ''s'' ''c'' ''n'' ''p'' 7 = Inr b" by (simp add: binding_context_def)
  then show ?thesis using binding_context_injective [OF b b] by simp
qed

section \<open>The answer verifies\<close>

lemma produce_Inr:
  assumes "produce K tpm c now = Inr a"
  obtains D where "tpm = Some D"
    and "binding_context (sc_session_id c) (sc_challenge_id c) (sc_nonce c) (sc_peer_key c) (sc_expires_at c) = Inr (sa_binding_context a)"
    and "sign_binding_context K (dv_signer D) (sa_binding_context a) = Inr (sa_device_key_sig a)"
    and "dv_device_key D = Inr (sa_device_key_pub a)"
    and "dv_quote D (sc_nonce c) [] = Inr (sa_quote a, sa_quote_sig a)"
    and "dv_certify D (sc_nonce c) = Inr (sa_certify_info a, sa_certify_sig a)"
    and "sa_challenge_id a = sc_challenge_id c" and "sa_schema a = response_schema"
  using assms by (fastforce simp: produce_def read_then_Inr key_step_def split: option.splits sum.splits)

lemma respond_Inr:
  assumes "respond K tpm challenge sid now = Inr r"
  obtains c nonce a where "challenge = Some c" and "dk_protocol c = challenge_protocol"
    and "ko_unb64 K (dk_nonce_b64 c) = Some nonce"
    and "produce K tpm \<lparr>sc_challenge_id = dk_challenge_id c, sc_session_id = sid, sc_nonce = nonce,
        sc_peer_key = dk_peer_key c, sc_expires_at = dk_expires_at c\<rparr> now = Inr a"
    and "r = to_proto K a"
  using assms by (auto simp: respond_def read_then_Inr split: option.splits if_splits)


text \<open>A device with an RSA key whose signature is the head of the digest.\<close>

definition sample_key_ops :: key_ops where
  "sample_key_ops = \<lparr>ko_sha256 = (\<lambda>x. x), ko_type = (\<lambda>_. RsaKey), ko_sign = (\<lambda>_ d. Inr (take 9 d)), ko_der = (\<lambda>_. None),
     ko_b64 = (\<lambda>x. x), ko_unb64 = Some\<rparr>"

definition sample_session_device :: tpm_device where
  "sample_session_device = \<lparr>dv_endorsement_key = Inr (''ek'', [], []), dv_attestation_key = Inr (''ak'', ''name''),
     dv_device_key = Inr ''pub'', dv_activate = (\<lambda>_ s. Inr s), dv_quote = (\<lambda>n _. Inr (n, ''sig'')),
     dv_certify = (\<lambda>n. Inr (n, ''sig'')), dv_signer = Some ''key''\<rparr>"

definition sample_key_challenge :: device_key_challenge where
  "sample_key_challenge = \<lparr>dk_challenge_id = ''c1'', dk_nonce_b64 = ''nonce'', dk_issued_at = 1, dk_expires_at = 9,
     dk_peer_key = ''peer'', dk_protocol = challenge_protocol\<rparr>"

lemma sample_responds:
  "\<exists>r. respond sample_key_ops (Some sample_session_device) (Some sample_key_challenge) ''s1'' 5 = Inr r"
  by (simp add: respond_def produce_def sample_key_ops_def sample_session_device_def sample_key_challenge_def
        binding_context_def key_step_def sign_binding_context_def)


text \<open>
  In the harness, such an answer is what goes out on the CONTROL stream, under the session of the challenge's envelope:
  it is never refused as one for another challenge.
\<close>

lemma answer_goes_out:
  assumes "respond K tpm (Some c) sid now = Inr r"
  shows "respond_to_device_key (\<lambda>c sid. Inr (Some r)) (Some c) sid cs = snd (send_device_key_response sid r cs)"
proof -
  have "dr_challenge_id r = dk_challenge_id c"
    using assms by (elim respond_Inr produce_Inr) (auto simp: to_proto_def)
  then show ?thesis by (simp add: respond_to_device_key_def)
qed

end
