(* ===== verification/Consent.thy ===== *)
theory Consent
  imports Harness
begin

text \<open>
  The attended consent for a view-only session (\<open>src/internal/remotebridge/consent/attended.go\<close>).

  The clock is its two readings, before and after the prompt, in nanoseconds since the epoch; the user is a parameter
  that takes the request and returns a decision or an error.
\<close>

section \<open>Data\<close>

record prompt_request =
  pq_session_id :: string
  pq_operator :: string
  pq_reason :: string
  pq_expires_at :: int
  pq_timeout :: int

record prompt_decision =
  pd_granted :: bool
  pd_session :: string

datatype consent_error = ConsentCancelled string | SessionRequired | PromptFailed string

definition second_ns :: int where "second_ns = 10 ^ 9"
definition prompt_timeout_ns :: int where "prompt_timeout_ns = 4 * 60 * 10 ^ 9"
definition lease_ns :: int where "lease_ns = 5 * 60 * 10 ^ 9"

section \<open>The decision\<close>

definition view_only_only :: "capability list \<Rightarrow> bool" where
  "view_only_only caps \<longleftrightarrow> caps \<noteq> [] \<and> list_all (\<lambda>c. c = CapViewOnly) caps"

definition consent_expiry :: "consent_prompt \<Rightarrow> int \<Rightarrow> int" where
  "consent_expiry c now = (if 0 <s cp_expiry c then sint (cp_expiry c) * 10 ^ 6 else now + lease_ns)"

text \<open>\<open>UnixMilli\<close> and the saturating \<open>Sub\<close> of two times.\<close>

definition unix_milli :: "int \<Rightarrow> i64" where
  "unix_milli t = word_of_int (t div 10 ^ 6)"

definition time_sub :: "int \<Rightarrow> int \<Rightarrow> int" where
  "time_sub a b = max (- (2 ^ 63)) (min (2 ^ 63 - 1) (a - b))"

definition consent_result_of :: "consent_prompt \<Rightarrow> bool \<Rightarrow> string \<Rightarrow> int \<Rightarrow> int \<Rightarrow> consent_result" where
  "consent_result_of c granted session now expires_at =
    \<lparr>cr_session_id = cp_session_id c, cr_granted = granted, cr_interactive_session = session,
     cr_granted_at = unix_milli now, cr_expiry = unix_milli expires_at\<rparr>"

definition prompt_wait :: "int \<Rightarrow> int \<Rightarrow> int" where
  "prompt_wait expires_at current =
    (let t = time_sub expires_at current;
         t = (if prompt_timeout_ns < t then prompt_timeout_ns else t)
     in if t < second_ns then second_ns else t)"

definition request_of :: "consent_prompt \<Rightarrow> int \<Rightarrow> prompt_request" where
  "request_of c current =
    \<lparr>pq_session_id = cp_session_id c, pq_operator = cp_operator c, pq_reason = cp_reason c,
     pq_expires_at = consent_expiry c current, pq_timeout = prompt_wait (consent_expiry c current) current\<rparr>"

text \<open>How the interactive session of a result is named.\<close>

definition session_label :: "prompt_decision \<Rightarrow> bool \<Rightarrow> string" where
  "session_label d granted =
    (let session = trim_space (pd_session d);
         session = (if session = [] then
             (if granted then ''attended-view-only-consent'' else ''attended-view-only-consent-denied'') else session)
     in if pd_granted d \<and> \<not> granted then ''view-only-attended-consent-expired-after-prompt'' else session)"

definition view_only_responder ::
  "(prompt_request \<Rightarrow> string + prompt_decision) \<Rightarrow> int \<times> int \<Rightarrow> string option \<Rightarrow> consent_prompt option \<Rightarrow>
     consent_error + consent_result" where
  "view_only_responder prompt clock ctx_err cp =
    (case ctx_err of Some e \<Rightarrow> Inl (ConsentCancelled e)
     | None \<Rightarrow>
       (case cp of None \<Rightarrow> Inl SessionRequired
        | Some c \<Rightarrow>
          if blank (cp_session_id c) then Inl SessionRequired
          else
            let current = fst clock; expires_at = consent_expiry c current in
            if \<not> view_only_only (cp_capabilities c) then
              Inr (consent_result_of c False ''view-only-attended-consent-capability-denied'' current expires_at)
            else if \<not> current < expires_at then
              Inr (consent_result_of c False ''view-only-attended-consent-expired'' current expires_at)
            else (case prompt (request_of c current) of
                Inl e \<Rightarrow> Inl (PromptFailed e)
              | Inr d \<Rightarrow>
                  let finished = snd clock; granted = (pd_granted d \<and> finished < expires_at)
                  in Inr (consent_result_of c granted (session_label d granted) finished expires_at))))"

text \<open>The text shown to the user; \<open>rfc3339\<close> formats the expiry.\<close>

definition prompt_message :: "(int \<Rightarrow> string) \<Rightarrow> prompt_request \<Rightarrow> string" where
  "prompt_message rfc3339 q =
    (let operator = trim_space (pq_operator q);
         operator = (if operator = [] then ''unknown operator'' else operator);
         reason = trim_space (pq_reason q);
         reason = (if reason = [] then ''remote support'' else reason);
         nl = [CHR 0x0A]
     in ''Endpoint Agent VIEW_ONLY request'' @ nl @ nl @ ''Operator: '' @ operator @ nl @ ''Reason: '' @ reason @ nl @
        ''Session: '' @ pq_session_id q @ nl @ ''Expires: '' @ rfc3339 (pq_expires_at q) @ nl @ nl @
        ''Approve only if you are present and allow screen observation for this session. '' @
        ''This does not grant keyboard or mouse control.'')"

section \<open>When consent is granted\<close>

text \<open>
  Property C38: consent is granted exactly when the responder is not cancelled, the prompt names a session and asks for
  VIEW_ONLY and nothing else, has not expired before the user is asked nor when the user has answered, and the user
  granted the request shown.
\<close>

theorem consent_granted_iff:
  "(\<exists>r. view_only_responder prompt (t0, t1) ctx_err cp = Inr r \<and> cr_granted r) \<longleftrightarrow>
   (\<exists>c d. ctx_err = None \<and> cp = Some c \<and> \<not> blank (cp_session_id c) \<and>
      cp_capabilities c = replicate (length (cp_capabilities c)) CapViewOnly \<and> cp_capabilities c \<noteq> [] \<and>
      max t0 t1 < consent_expiry c t0 \<and> prompt (request_of c t0) = Inr d \<and> pd_granted d)"
proof -
  have rep: "caps = replicate (length caps) CapViewOnly \<longleftrightarrow> list_all (\<lambda>c. c = CapViewOnly) caps" for caps
    by (induction caps) auto
  show ?thesis
    by (cases ctx_err; cases cp)
      (auto simp: view_only_responder_def view_only_only_def rep consent_result_of_def Let_def split: sum.splits if_splits)
qed

text \<open>The user is shown the prompt for at least a second and at most four minutes.\<close>

lemma prompt_wait_bounded: "second_ns \<le> prompt_wait e t \<and> prompt_wait e t \<le> prompt_timeout_ns"
  by (simp add: prompt_wait_def second_ns_def prompt_timeout_ns_def Let_def)

text \<open>Within a lease longer than a second the prompt ends with it at the latest.\<close>

lemma prompt_wait_ends_with_lease:
  assumes "second_ns \<le> e - t" shows "t + prompt_wait e t \<le> e"
  using assms by (simp add: prompt_wait_def time_sub_def second_ns_def prompt_timeout_ns_def Let_def min_def max_def)

text \<open>A user is asked only about view-only prompts that have not expired.\<close>

lemma asked_only_when_eligible:
  assumes "view_only_responder prompt clock ctx_err cp = Inl (PromptFailed e)"
  shows "\<exists>c. cp = Some c \<and> view_only_only (cp_capabilities c) \<and> fst clock < consent_expiry c (fst clock) \<and>
    prompt (request_of c (fst clock)) = Inl e"
  using assms by (auto simp: view_only_responder_def Let_def split: option.splits sum.splits if_splits)

lemma responder_session:
  assumes "view_only_responder prompt clock ctx_err (Some c) = Inr r"
  shows "cr_session_id r = cp_session_id c"
  using assms by (auto simp: view_only_responder_def consent_result_of_def Let_def split: option.splits sum.splits if_splits)

text \<open>
  In the harness the result goes out as it is; any error of the responder becomes an error frame, so nothing but a grant
  of the user can put a granting consent on the wire.
\<close>

definition as_responder :: "consent_error + consent_result \<Rightarrow> string + consent_result option" where
  "as_responder x = (case x of Inl _ \<Rightarrow> Inl ''consent'' | Inr r \<Rightarrow> Inr (Some r))"

lemma consent_goes_out:
  "respond_to_consent (\<lambda>c. as_responder (view_only_responder prompt clock ctx_err (Some c))) (Some c) cs =
    (case view_only_responder prompt clock ctx_err (Some c) of
       Inl _ \<Rightarrow> snd (send_error_frame ''consent-responder-failed'' False cs)
     | Inr r \<Rightarrow> snd (send_consent_result r cs))"
  by (auto simp: respond_to_consent_def as_responder_def responder_session split: sum.splits)

end
