(* ===== verification/PortForward.thy ===== *)
theory PortForward
  imports Prelude
begin

unbundle bit_operations_syntax

text \<open>
  The target allow-list of the port forward (\<open>src/internal/remotebridge/portforward/target.go\<close>): targets signed
  by the broker, resolved by an opaque identifier, and the guard on the classes of addresses.

  A \<open>netip.Addr\<close> is invalid, an IPv4 address of 32 bits or an IPv6 address of 128 bits with its zone; the class
  predicates are those of the \<open>net/netip\<close> package, on the bits.
\<close>

section \<open>Addresses\<close>

type_synonym u128 = "128 word"

datatype ip_addr = NoAddr | IPv4 u32 | IPv6 u128 string

text \<open>\<open>ip4\<close> and \<open>ip6\<close> build addresses from their bytes and 16-bit groups.\<close>

definition ip4 :: "nat \<Rightarrow> nat \<Rightarrow> nat \<Rightarrow> nat \<Rightarrow> u32" where
  "ip4 a b c d = of_nat (((a * 256 + b) * 256 + c) * 256 + d)"

definition ip6 :: "nat \<Rightarrow> nat \<Rightarrow> nat \<Rightarrow> u128" where
  "ip6 a b c = of_nat (((a * 2 ^ 16 + b) * 2 ^ 16 + c) * 2 ^ 80)"

definition is_4in6 :: "u128 \<Rightarrow> bool" where
  "is_4in6 a \<longleftrightarrow> drop_bit 32 a = 0xFFFF"

definition unmap :: "ip_addr \<Rightarrow> ip_addr" where
  "unmap x = (case x of IPv6 a _ \<Rightarrow> if is_4in6 a then IPv4 (ucast a) else x | _ \<Rightarrow> x)"

definition is_unspecified :: "ip_addr \<Rightarrow> bool" where
  "is_unspecified x \<longleftrightarrow> x = IPv4 0 \<or> x = IPv6 0 []"

definition is_loopback :: "ip_addr \<Rightarrow> bool" where
  "is_loopback x = (case x of NoAddr \<Rightarrow> False | IPv4 a \<Rightarrow> drop_bit 24 a = 127 | IPv6 a _ \<Rightarrow> a = 1)"

definition is_link_local_unicast :: "ip_addr \<Rightarrow> bool" where
  "is_link_local_unicast x = (case x of NoAddr \<Rightarrow> False | IPv4 a \<Rightarrow> drop_bit 16 a = 0xA9FE
     | IPv6 a _ \<Rightarrow> drop_bit 112 a AND 0xFFC0 = 0xFE80)"

definition is_link_local_multicast :: "ip_addr \<Rightarrow> bool" where
  "is_link_local_multicast x = (case x of NoAddr \<Rightarrow> False | IPv4 a \<Rightarrow> drop_bit 8 a = 0xE00000
     | IPv6 a _ \<Rightarrow> drop_bit 112 a AND 0xFF0F = 0xFF02)"

definition is_multicast :: "ip_addr \<Rightarrow> bool" where
  "is_multicast x = (case x of NoAddr \<Rightarrow> False | IPv4 a \<Rightarrow> drop_bit 24 a AND 0xF0 = 0xE0 | IPv6 a _ \<Rightarrow> drop_bit 120 a = 0xFF)"

definition is_interface_local_multicast :: "ip_addr \<Rightarrow> bool" where
  "is_interface_local_multicast x = (case x of IPv6 a _ \<Rightarrow> drop_bit 112 a AND 0xFF0F = 0xFF01 | _ \<Rightarrow> False)"

datatype ip_prefix = Prefix4 u32 nat | Prefix6 u128 nat

definition prefix_contains :: "ip_prefix \<Rightarrow> ip_addr \<Rightarrow> bool" where
  "prefix_contains p x =
    (case (p, x) of
       (Prefix4 b n, IPv4 a) \<Rightarrow> drop_bit (32 - n) (a XOR b) = 0
     | (Prefix6 b n, IPv6 a zone) \<Rightarrow> zone = [] \<and> drop_bit (128 - n) (a XOR b) = 0
     | _ \<Rightarrow> False)"

definition denied_prefixes :: "ip_prefix list" where
  "denied_prefixes =
    [Prefix4 (ip4 192 0 2 0) 24, Prefix4 (ip4 198 51 100 0) 24, Prefix4 (ip4 203 0 113 0) 24, Prefix4 (ip4 198 18 0 0) 15,
     Prefix6 (ip6 0x2001 0xdb8 0) 32, Prefix6 (ip6 0x64 0xff9b 0) 96, Prefix6 (ip6 0x64 0xff9b 1) 48,
     Prefix6 (ip6 0x2002 0 0) 16, Prefix6 (ip6 0x2001 0 0) 32]"

definition limited_broadcast :: ip_addr where
  "limited_broadcast = IPv4 (ip4 255 255 255 255)"

section \<open>The allow-list\<close>

datatype forward_error = TargetUnknown | TargetUnsafe | PortNotAllowed | InvalidTarget

definition safe_forward_addr :: "ip_addr \<Rightarrow> forward_error option" where
  "safe_forward_addr x =
    (if x = NoAddr \<or> (case x of IPv6 _ zone \<Rightarrow> zone \<noteq> [] | _ \<Rightarrow> False) then Some TargetUnsafe
     else
       let a = unmap x in
       if is_unspecified a \<or> is_loopback a \<or> is_link_local_unicast a \<or> is_link_local_multicast a \<or> is_multicast a \<or>
          is_interface_local_multicast a then Some TargetUnsafe
       else if a = limited_broadcast then Some TargetUnsafe
       else if list_ex (\<lambda>p. prefix_contains p a) denied_prefixes then Some TargetUnsafe
       else None)"

record forward_target =
  ft_id :: string
  ft_addr :: ip_addr
  ft_port :: "16 word"

record allowlist =
  al_targets :: "string \<rightharpoonup> forward_target"
  al_ports :: "16 word list"

text \<open>The targets are checked in order; the map is built as they pass.\<close>

fun add_targets :: "forward_target list \<Rightarrow> (string \<rightharpoonup> forward_target) \<Rightarrow> forward_error + (string \<rightharpoonup> forward_target)" where
  "add_targets [] m = Inr m"
| "add_targets (t # ts) m =
    (if ft_id t = [] then Inl InvalidTarget
     else if m (ft_id t) \<noteq> None then Inl InvalidTarget
     else if ft_addr t = NoAddr then Inl InvalidTarget
     else if ft_port t = 0 then Inl InvalidTarget
     else if safe_forward_addr (ft_addr t) \<noteq> None then Inl InvalidTarget
     else add_targets ts (m(ft_id t \<mapsto> t\<lparr>ft_addr := unmap (ft_addr t)\<rparr>)))"

definition new_allowlist :: "forward_target list \<Rightarrow> 16 word list \<Rightarrow> forward_error + allowlist" where
  "new_allowlist targets ports =
    (if targets = [] then Inl InvalidTarget
     else (case add_targets targets Map.empty of Inl e \<Rightarrow> Inl e | Inr m \<Rightarrow> Inr \<lparr>al_targets = m, al_ports = ports\<rparr>))"

definition resolve_target :: "allowlist \<Rightarrow> string \<Rightarrow> forward_target option" where
  "resolve_target a i = al_targets a i"

text \<open>The address that is dialled, or why none is; the guard is the default one.\<close>

definition dial_target :: "allowlist \<Rightarrow> string \<Rightarrow> forward_error + (ip_addr \<times> 16 word)" where
  "dial_target a i =
    (case al_targets a i of
       None \<Rightarrow> Inl TargetUnknown
     | Some t \<Rightarrow>
        (case safe_forward_addr (ft_addr t) of
           Some e \<Rightarrow> Inl e
         | None \<Rightarrow>
            if al_ports a \<noteq> [] \<and> ft_port t \<notin> set (al_ports a) then Inl PortNotAllowed
            else Inr (ft_addr t, ft_port t)))"

section \<open>The guard in ranges\<close>

text \<open>A block of \<open>2 ^ n\<close> addresses, given by its first one.\<close>

definition in_block :: "nat \<Rightarrow> nat \<times> nat \<Rightarrow> bool" where
  "in_block x = (\<lambda>(first, n). first \<le> x \<and> x < first + 2 ^ n)"

lemma div_block: "x div 2 ^ n = k \<longleftrightarrow> in_block x (k * 2 ^ n, n)"
proof
  assume "x div 2 ^ n = k"
  then show "in_block x (k * 2 ^ n, n)"
    using dividend_less_div_times [of "2 ^ n" x] by (auto simp: in_block_def)
next
  assume "in_block x (k * 2 ^ n, n)"
  then show "x div 2 ^ n = k" by (intro div_nat_eqI) (auto simp: in_block_def algebra_simps)
qed

lemma drop_bit_block:
  fixes a :: "'a::len word"
  shows "drop_bit n a = k \<longleftrightarrow> in_block (unat a) (unat k * 2 ^ n, n)"
  by (simp only: word_unat_eq_iff unat_drop_bit_eq drop_bit_eq_div [where 'a = nat] div_block)

text \<open>A mask that clears low bits only compares the rest, on a field no wider than the mask.\<close>

lemma masked_field:
  fixes a :: "'a::len word"
  assumes "drop_bit k m = mask w" "take_bit k m = 0" "take_bit k v = 0" "w + k + n = LENGTH('a)"
  shows "drop_bit n a AND m = v \<longleftrightarrow> drop_bit (k + n) a = drop_bit k v"
proof -
  let ?x = "drop_bit n a"
  have small: "drop_bit k ?x AND mask w = drop_bit k ?x"
  proof -
    have "drop_bit (w + k + n) a = 0" using assms(4) by (auto intro!: bit_word_eqI simp: bit_simps dest!: bit_imp_le_length)
    then show ?thesis
      by (metis add.commute drop_bit_drop_bit take_bit_eq_mask take_bit_eq_self_iff_drop_bit_eq_0 group_cancel.add1)
  qed
  have eq: "x = y \<longleftrightarrow> drop_bit k x = drop_bit k y \<and> take_bit k x = take_bit k y" for x y :: "'a word"
    by (metis bits_ident)
  show ?thesis using small assms
    by (simp add: eq [of "?x AND m"] drop_bit_and add.commute)
qed

text \<open>The address classes and the denied prefixes of each family, as blocks.\<close>

definition denied_blocks4 :: "(nat \<times> nat) list" where
  "denied_blocks4 =
    [(0, 0), (127 * 2 ^ 24, 24), (0xA9FE * 2 ^ 16, 16), (0xE0 * 2 ^ 24, 28), (2 ^ 32 - 1, 0),
     (0xC00002 * 2 ^ 8, 8), (0xC63364 * 2 ^ 8, 8), (0xCB0071 * 2 ^ 8, 8), (0xC612 * 2 ^ 16, 17)]"

definition denied_blocks6 :: "(nat \<times> nat) list" where
  "denied_blocks6 =
    [(0, 0), (1, 0), (0xFE80 * 2 ^ 112, 118), (0xFF * 2 ^ 120, 120),
     (0x20010DB8 * 2 ^ 96, 96), (0x64FF9B * 2 ^ 96, 32), (0x64FF9B0001 * 2 ^ 80, 80),
     (0x2002 * 2 ^ 112, 112), (0x20010000 * 2 ^ 96, 96)]"

lemma eq_block: "a = b \<longleftrightarrow> in_block (unat a) (unat b, 0)" for a b :: "'a::len word"
  using drop_bit_block [of 0 a b] by simp

lemma xor_zero_iff: "a XOR b = 0 \<longleftrightarrow> a = b" for a b :: "'a::len word"
proof
  assume "a XOR b = 0"
  then have "(a XOR b) XOR b = b" by simp
  then show "a = b" by (simp add: xor.assoc)
qed simp

lemma multicast4_block: "drop_bit 24 a AND 0xF0 = 0xE0 \<longleftrightarrow> in_block (unat a) (0xE0 * 2 ^ 24, 28)" for a :: u32
  using masked_field [of 4 "0xF0 :: u32" 4 "0xE0" 24 a] by (simp add: drop_bit_block mask_eq_decr_exp)

lemma link_local6_block: "drop_bit 112 a AND 0xFFC0 = 0xFE80 \<longleftrightarrow> in_block (unat a) (0xFE80 * 2 ^ 112, 118)" for a :: u128
  using masked_field [of 6 "0xFFC0 :: u128" 10 "0xFE80" 112 a] by (simp add: drop_bit_block mask_eq_decr_exp)

lemma scope_multicast:
  fixes a :: u128
  assumes "drop_bit 112 a AND 0xFF0F = v" "drop_bit 8 v = 0xFF"
  shows "drop_bit 120 a = 0xFF"
proof -
  have "drop_bit 120 a AND 0xFF = drop_bit 8 (drop_bit 112 a AND 0xFF0F)" by (simp add: drop_bit_and)
  also have "\<dots> = 0xFF" using assms by simp
  finally have "drop_bit 120 a AND 0xFF = 0xFF" .
  then show ?thesis
    using masked_field [of 0 "0xFF :: u128" 8 "0xFF" 120 a] by (simp add: mask_eq_decr_exp)
qed

lemma unmap_idem [simp]: "unmap (unmap x) = unmap x"
  by (simp add: unmap_def split: ip_addr.splits)

lemma classes4:
  "is_unspecified (IPv4 a) \<or> is_loopback (IPv4 a) \<or> is_link_local_unicast (IPv4 a) \<or> is_link_local_multicast (IPv4 a) \<or>
   is_multicast (IPv4 a) \<or> is_interface_local_multicast (IPv4 a) \<or> IPv4 a = limited_broadcast \<or>
   list_ex (\<lambda>p. prefix_contains p (IPv4 a)) denied_prefixes \<longleftrightarrow> list_ex (in_block (unat a)) denied_blocks4"
proof -
  have "is_link_local_multicast (IPv4 a) \<Longrightarrow> is_multicast (IPv4 a)"
    by (simp add: is_link_local_multicast_def is_multicast_def multicast4_block drop_bit_block)
      (auto simp: in_block_def)
  then show ?thesis
    by (auto simp: is_unspecified_def is_loopback_def is_link_local_unicast_def is_multicast_def limited_broadcast_def
          is_interface_local_multicast_def denied_prefixes_def denied_blocks4_def prefix_contains_def
          multicast4_block eq_block [of a 0] eq_block [of a "0xFFFFFFFF"] drop_bit_block drop_bit_xor xor_zero_iff ip4_def)
qed

lemma classes6:
  "is_unspecified (IPv6 a []) \<or> is_loopback (IPv6 a []) \<or> is_link_local_unicast (IPv6 a []) \<or>
   is_link_local_multicast (IPv6 a []) \<or> is_multicast (IPv6 a []) \<or> is_interface_local_multicast (IPv6 a []) \<or>
   IPv6 a [] = limited_broadcast \<or> list_ex (\<lambda>p. prefix_contains p (IPv6 a [])) denied_prefixes
   \<longleftrightarrow> list_ex (in_block (unat a)) denied_blocks6"
proof -
  have "is_link_local_multicast (IPv6 a []) \<or> is_interface_local_multicast (IPv6 a []) \<Longrightarrow> is_multicast (IPv6 a [])"
    by (auto simp: is_link_local_multicast_def is_interface_local_multicast_def is_multicast_def intro: scope_multicast)
  then show ?thesis
    by (auto simp: is_unspecified_def is_loopback_def is_link_local_unicast_def is_multicast_def limited_broadcast_def
          denied_prefixes_def denied_blocks6_def prefix_contains_def link_local6_block
          eq_block [of a 0] eq_block [of a 1] drop_bit_block drop_bit_xor xor_zero_iff ip6_def)
qed

lemma guard_iff:
  "safe_forward_addr x = None \<longleftrightarrow>
   (case x of IPv6 _ zone \<Rightarrow> zone = [] | _ \<Rightarrow> True) \<and>
   (case unmap x of NoAddr \<Rightarrow> False
      | IPv4 a \<Rightarrow> \<not> list_ex (in_block (unat a)) denied_blocks4
      | IPv6 a _ \<Rightarrow> \<not> list_ex (in_block (unat a)) denied_blocks6)"
proof (cases x)
  case NoAddr
  then show ?thesis by (simp add: safe_forward_addr_def unmap_def)
next
  case (IPv4 a)
  then show ?thesis using classes4 [of a] by (auto simp: safe_forward_addr_def unmap_def Let_def)
next
  case (IPv6 a zone)
  then show ?thesis using classes4 [of "ucast a"] classes6 [of a]
    by (cases "zone = []"; cases "is_4in6 a") (auto simp: safe_forward_addr_def unmap_def Let_def)
qed

text \<open>
  Fact: the guard accepts an address exactly when it is valid, has no zone and, after an IPv4-mapped form is
  unwrapped, lies outside of nine blocks of its family. No mapped form passes a guard that its IPv4 address fails.
\<close>

theorem guard_accepts_outside_blocks:
  "safe_forward_addr x = None \<longleftrightarrow>
   (case x of IPv6 _ zone \<Rightarrow> zone = [] | _ \<Rightarrow> True) \<and>
   (case unmap x of NoAddr \<Rightarrow> False
      | IPv4 a \<Rightarrow> \<not> list_ex (in_block (unat a)) denied_blocks4
      | IPv6 a _ \<Rightarrow> \<not> list_ex (in_block (unat a)) denied_blocks6)"
  by (rule guard_iff)

section \<open>What a list accepts and dials\<close>

definition target_ok :: "forward_target \<Rightarrow> bool" where
  "target_ok t \<longleftrightarrow> ft_id t \<noteq> [] \<and> ft_port t \<noteq> 0 \<and> safe_forward_addr (ft_addr t) = None"

lemma safe_valid [simp]: "safe_forward_addr NoAddr = Some TargetUnsafe"
  by (simp add: safe_forward_addr_def)

lemma safe_unmap: "safe_forward_addr x = None \<Longrightarrow> safe_forward_addr (unmap x) = None"
  by (auto simp: guard_iff unmap_def split: ip_addr.splits)

text \<open>The loop stops at the first invalid or repeated target, and else extends the map by the targets unwrapped.\<close>

lemma add_targets_spec:
  "add_targets ts m =
    (if list_all target_ok ts \<and> distinct (map ft_id ts) \<and> list_all (\<lambda>t. m (ft_id t) = None) ts
     then Inr (\<lambda>i. case find (\<lambda>t. ft_id t = i) ts of Some t \<Rightarrow> Some (t\<lparr>ft_addr := unmap (ft_addr t)\<rparr>) | None \<Rightarrow> m i)
     else Inl InvalidTarget)"
proof (induction ts arbitrary: m)
  case (Cons t ts)
  show ?case
  proof (cases "target_ok t \<and> m (ft_id t) = None")
    case True
    then have step: "add_targets (t # ts) m = add_targets ts (m(ft_id t \<mapsto> t\<lparr>ft_addr := unmap (ft_addr t)\<rparr>))"
      by (auto simp: target_ok_def)
    have fresh: "list_all (\<lambda>u. (m(ft_id t \<mapsto> v)) (ft_id u) = None) ts \<longleftrightarrow>
      ft_id t \<notin> ft_id ` set ts \<and> list_all (\<lambda>u. m (ft_id u) = None) ts" for v
      by (auto simp: list_all_iff image_iff)
    have none: "ft_id t \<notin> ft_id ` set ts \<Longrightarrow> find (\<lambda>u. ft_id u = ft_id t) ts = None"
      by (auto simp: find_None_iff image_iff)
    show ?thesis unfolding step Cons.IH fresh using True
      by (auto simp: none fun_eq_iff split: option.splits)
  next
    case False
    then show ?thesis by (auto simp: target_ok_def)
  qed
qed simp

text \<open>A list is built exactly from one target or more, all valid, with different identifiers.\<close>

lemma new_allowlist_spec:
  "new_allowlist ts ps =
    (if ts \<noteq> [] \<and> list_all target_ok ts \<and> distinct (map ft_id ts)
     then Inr \<lparr>al_targets = \<lambda>i. map_option (\<lambda>t. t\<lparr>ft_addr := unmap (ft_addr t)\<rparr>) (find (\<lambda>t. ft_id t = i) ts),
               al_ports = ps\<rparr>
     else Inl InvalidTarget)"
  by (auto simp: new_allowlist_def add_targets_spec list_all_iff fun_eq_iff split: option.splits)

text \<open>
  Property C39: on a list the broker signed, a dial connects to the address and port of the one target with the given
  identifier, unwrapped, and fails only for an unknown identifier or a port outside of the allowed ones; the guard that
  the dial runs again never refuses what construction accepted.
\<close>

theorem dial_reaches_signed_target:
  assumes "new_allowlist ts ps = Inr a"
  shows "dial_target a i =
    (case find (\<lambda>t. ft_id t = i) ts of
       None \<Rightarrow> Inl TargetUnknown
     | Some t \<Rightarrow> if ps \<noteq> [] \<and> ft_port t \<notin> set ps then Inl PortNotAllowed else Inr (unmap (ft_addr t), ft_port t))"
proof (cases "find (\<lambda>t. ft_id t = i) ts")
  case None
  then show ?thesis using assms by (auto simp: new_allowlist_spec dial_target_def split: if_splits)
next
  case (Some t)
  then have "t \<in> set ts" by (auto simp: find_Some_iff)
  then have "target_ok t" using assms by (auto simp: new_allowlist_spec list_all_iff split: if_splits)
  then show ?thesis using assms Some
    by (auto simp: new_allowlist_spec dial_target_def target_ok_def safe_unmap split: if_splits)
qed

text \<open>Two controllers, the second one signed in its mapped form.\<close>

definition sample_targets :: "forward_target list" where
  "sample_targets =
    [\<lparr>ft_id = ''dc1'', ft_addr = IPv4 (ip4 10 0 0 5), ft_port = 389\<rparr>,
     \<lparr>ft_id = ''dc2'', ft_addr = IPv6 (0xFFFF0A000006) [], ft_port = 445\<rparr>]"

lemma dial_reaches_signed_target_witness:
  "\<exists>a. new_allowlist sample_targets [389, 445] = Inr a \<and> dial_target a ''dc2'' = Inr (IPv4 (ip4 10 0 0 6), 445)"
proof -
  have ok: "\<exists>a. new_allowlist sample_targets [389, 445] = Inr a"
    by (simp add: new_allowlist_spec) code_simp
  then obtain a where a: "new_allowlist sample_targets [389, 445] = Inr a" ..
  have "(case find (\<lambda>t. ft_id t = ''dc2'') sample_targets of None \<Rightarrow> Inl TargetUnknown
     | Some t \<Rightarrow> if [389, 445] \<noteq> [] \<and> ft_port t \<notin> set [389, 445] then Inl PortNotAllowed
         else Inr (unmap (ft_addr t), ft_port t)) = Inr (IPv4 (ip4 10 0 0 6), 445)"
    by code_simp
  with a dial_reaches_signed_target [OF a, of "''dc2''"] show ?thesis by auto
qed

text \<open>A loopback address in its mapped form is refused, however it was signed.\<close>

lemma mapped_loopback_refused: "safe_forward_addr (IPv6 0xFFFF7F000001 []) = Some TargetUnsafe"
  by code_simp

end
