(* ===== verification/Backup.thy ===== *)
theory Backup
  imports Prelude
begin

text \<open>
  The backup dry run (\<open>src/internal/dataprotection\<close>: \<open>backupmanifest.go\<close>, \<open>backupmanifest_classify.go\<close>,
  \<open>backupmanifest_request.go\<close>): a walk over the managed roots that lists what could be backed up, by metadata
  only, and counts what is denied.

  The file system is a parameter \<open>backup_env\<close>: the canonicalizer, the listing of a directory, the metadata of a
  file, and the path functions and the lower-casing of the platform.  A counter is a natural number; the total
  size is an \<open>int64\<close> that wraps around.
\<close>

section \<open>Classes and extensions\<close>

datatype deny_class = CredentialStore | BrowserProfile | MailboxCache | PrivateKeyMaterial | CloudCliTokenStore
  | PasswordManager | DpapiStore | RegistryHive | AppTokenStore | ArchiveContainer

primrec class_name :: "deny_class \<Rightarrow> string" where
  "class_name CredentialStore = ''credential_store''"
| "class_name BrowserProfile = ''browser_profile''"
| "class_name MailboxCache = ''mailbox_cache''"
| "class_name PrivateKeyMaterial = ''private_key_material''"
| "class_name CloudCliTokenStore = ''cloud_cli_token_store''"
| "class_name PasswordManager = ''password_manager_vault''"
| "class_name DpapiStore = ''dpapi_store''"
| "class_name RegistryHive = ''registry_hive''"
| "class_name AppTokenStore = ''app_token_store''"
| "class_name ArchiveContainer = ''archive_container''"

definition archive_exts :: "string list" where
  "archive_exts = [''.zip'', ''.7z'', ''.rar'', ''.tar'', ''.gz'', ''.tgz'', ''.bz2'', ''.tbz2'', ''.xz'', ''.txz'', ''.lz'',
     ''.lzma'', ''.zst'', ''.cab'', ''.arj'', ''.vhd'', ''.vhdx'', ''.vmdk'', ''.iso'', ''.img'', ''.wim'', ''.dmg'', ''.pst'', ''.ost'']"

definition private_key_exts :: "string list" where
  "private_key_exts = [''.kdbx'', ''.pem'', ''.key'', ''.pfx'', ''.ppk'', ''.ovpn'']"

text \<open>\<open>strings.FieldsFunc\<close>: the parts between separators that are not empty.\<close>

definition path_sep :: "char \<Rightarrow> bool" where
  "path_sep c \<longleftrightarrow> c = CHR ''/'' \<or> c = CHR 0x5C"

function fields_of :: "string \<Rightarrow> string list" where
  "fields_of [] = []"
| "fields_of (c # s) = (if path_sep c then fields_of s
     else (c # takeWhile (\<lambda>c. \<not> path_sep c) s) # fields_of (dropWhile (\<lambda>c. \<not> path_sep c) s))"
  by pat_completeness auto

termination
  by (relation "measure length") (simp_all add: le_imp_less_Suc length_dropWhile_le)

definition has_segment :: "string list \<Rightarrow> string \<Rightarrow> bool" where
  "has_segment segs want \<longleftrightarrow> want \<in> set segs"

text \<open>\<open>filepath.Ext\<close> of a name: from the last dot after the last separator.\<close>

definition file_ext :: "string \<Rightarrow> string" where
  "file_ext name =
    (let base = takeWhile (\<lambda>c. \<not> path_sep c) (rev name); tail = takeWhile (\<lambda>c. c \<noteq> CHR ''.'') base in
     if length tail < length base then CHR ''.'' # rev tail else [])"

definition is_credential_store :: "string \<Rightarrow> string list \<Rightarrow> bool" where
  "is_credential_store name segs \<longleftrightarrow> name \<in> {''.git-credentials'', ''.npmrc''} \<or>
     (name = ''config.json'' \<and> has_segment segs ''.docker'') \<or> (name = ''credentials'' \<and> has_segment segs ''.git'')"

definition is_private_key_material :: "string \<Rightarrow> string \<Rightarrow> string list \<Rightarrow> bool" where
  "is_private_key_material name ext segs \<longleftrightarrow> ext \<in> set private_key_exts \<or>
     has_prefix name ''id_rsa'' \<or> has_prefix name ''id_dsa'' \<or> has_prefix name ''id_ecdsa'' \<or> has_prefix name ''id_ed25519'' \<or>
     name \<in> {''known_hosts'', ''authorized_keys''} \<or> has_segment segs ''.ssh''"

definition is_mailbox_cache :: "string \<Rightarrow> string list \<Rightarrow> bool" where
  "is_mailbox_cache ext segs \<longleftrightarrow> ext = ''.ost'' \<or> ext = ''.pst'' \<or> has_segment segs ''thunderbird'' \<or>
     (has_segment segs ''outlook'' \<and> has_segment segs ''microsoft'')"

definition is_browser_profile :: "string \<Rightarrow> string list \<Rightarrow> bool" where
  "is_browser_profile name segs \<longleftrightarrow> name = ''webcachev01.dat'' \<or> has_segment segs ''user data'' \<or>
     ((has_segment segs ''cookies'' \<or> has_segment segs ''local storage'' \<or> has_segment segs ''session storage'') \<and>
      (has_segment segs ''chrome'' \<or> has_segment segs ''edge'' \<or> has_segment segs ''mozilla''))"

definition is_cloud_cli_token_store :: "string list \<Rightarrow> bool" where
  "is_cloud_cli_token_store segs \<longleftrightarrow> has_segment segs ''.aws'' \<or> has_segment segs ''.azure'' \<or> has_segment segs ''.kube'' \<or>
     (has_segment segs ''.config'' \<and> has_segment segs ''gcloud'')"

definition is_password_manager_vault :: "string list \<Rightarrow> bool" where
  "is_password_manager_vault segs \<longleftrightarrow>
     list_ex (\<lambda>s. s \<in> {''keepass'', ''1password'', ''bitwarden'', ''lastpass'', ''keepassxc''}) segs"

definition is_dpapi_store :: "string list \<Rightarrow> bool" where
  "is_dpapi_store segs \<longleftrightarrow> has_segment segs ''microsoft'' \<and> has_segment segs ''protect''"

definition is_registry_hive :: "string \<Rightarrow> bool" where
  "is_registry_hive name \<longleftrightarrow> name \<in> {''ntuser.dat'', ''usrclass.dat''}"

definition is_app_token_store :: "string \<Rightarrow> string list \<Rightarrow> bool" where
  "is_app_token_store name segs \<longleftrightarrow> name = ''state.vscdb'' \<or> (has_segment segs ''jetbrains'' \<and> contains name ''token'') \<or>
     (has_segment segs ''globalstorage'' \<and> (has_segment segs ''code'' \<or> has_segment segs ''vscode''))"

text \<open>The class of a denied object with its archive flag; \<open>None\<close>: not denied.\<close>

definition classify_denied :: "(string \<Rightarrow> string) \<Rightarrow> string \<Rightarrow> string \<Rightarrow> (deny_class \<times> bool) option" where
  "classify_denied lower canon name =
    (let lname = lower name; ext = lower (file_ext name); segs = fields_of (lower canon); archive = ext \<in> set archive_exts in
     if is_credential_store lname segs then Some (CredentialStore, archive)
     else if is_private_key_material lname ext segs then Some (PrivateKeyMaterial, archive)
     else if is_mailbox_cache ext segs then Some (MailboxCache, archive)
     else if is_browser_profile lname segs then Some (BrowserProfile, archive)
     else if is_cloud_cli_token_store segs then Some (CloudCliTokenStore, archive)
     else if is_password_manager_vault segs then Some (PasswordManager, archive)
     else if is_dpapi_store segs then Some (DpapiStore, archive)
     else if is_registry_hive lname then Some (RegistryHive, archive)
     else if is_app_token_store lname segs then Some (AppTokenStore, archive)
     else if archive then Some (ArchiveContainer, True)
     else None)"

definition has_ads_name :: "string \<Rightarrow> bool" where
  "has_ads_name name \<longleftrightarrow> CHR '':'' \<in> set name"

datatype extension_type = ExtDoc | ExtSheet | ExtPdf | ExtImage | ExtOther

definition classify_extension :: "(string \<Rightarrow> string) \<Rightarrow> string \<Rightarrow> extension_type" where
  "classify_extension lower name =
    (let e = lower (file_ext name) in
     if e \<in> {''.doc'', ''.docx'', ''.odt'', ''.rtf'', ''.txt'', ''.md''} then ExtDoc
     else if e \<in> {''.xls'', ''.xlsx'', ''.ods'', ''.csv'', ''.tsv''} then ExtSheet
     else if e = ''.pdf'' then ExtPdf
     else if e \<in> {''.jpg'', ''.jpeg'', ''.png'', ''.gif'', ''.bmp'', ''.tif'', ''.tiff'', ''.heic'', ''.webp''} then ExtImage
     else ExtOther)"

datatype mtime_bucket = P7D | P30D | P90D | BucketOlder

text \<open>Times and durations in nanoseconds.\<close>

definition mtime_bucket_of :: "int \<Rightarrow> int \<Rightarrow> mtime_bucket" where
  "mtime_bucket_of now mod_time =
    (let age = now - mod_time; day = 24 * 3600 * 10 ^ 9 in
     if age \<le> 7 * day then P7D else if age \<le> 30 * day then P30D else if age \<le> 90 * day then P90D else BucketOlder)"

section \<open>The walk\<close>

record managed_root =
  mr_ref :: string
  mr_path :: string
  mr_class :: string
  mr_company :: bool

record backup_request =
  bq_device :: string
  bq_tenant :: string
  bq_profile :: string
  bq_byod :: bool
  bq_roots :: "managed_root list"

record backup_entry =
  en_path_class :: string
  en_root_ref :: string
  en_depth :: nat
  en_ext :: extension_type
  en_size :: int
  en_bucket :: mtime_bucket
  en_company :: bool \<comment> \<open>owner_scope_marker: company or unknown\<close>
  en_count :: nat

record file_meta =
  fm_is_dir :: bool
  fm_size :: int
  fm_mod_time :: int

record canonical =
  ca_path :: string
  ca_reparse :: bool
  ca_ads :: bool

record backup_env =
  be_canonicalize :: "string \<Rightarrow> canonical option"
  be_list :: "string \<Rightarrow> string list option"
  be_stat :: "string \<Rightarrow> file_meta option"
  be_lower :: "string \<Rightarrow> string"
  be_join :: "string \<Rightarrow> string \<Rightarrow> string"
  be_base :: "string \<Rightarrow> string"
  be_clean :: "string \<Rightarrow> string"
  be_sep :: string

record generator =
  gn_entries :: "backup_entry list"
  gn_eligible :: nat
  gn_size :: int
  gn_denied :: nat
  gn_classes :: "deny_class list"
  gn_containers :: nat
  gn_unresolved :: nat

definition new_generator :: generator where
  "new_generator = \<lparr>gn_entries = [], gn_eligible = 0, gn_size = 0, gn_denied = 0, gn_classes = [], gn_containers = 0, gn_unresolved = 0\<rparr>"

definition unresolved :: "generator \<Rightarrow> generator" where
  "unresolved g = g\<lparr>gn_unresolved := gn_unresolved g + 1\<rparr>"

definition record_denied :: "deny_class \<Rightarrow> bool \<Rightarrow> generator \<Rightarrow> generator" where
  "record_denied c archive g =
    (let g = g\<lparr>gn_denied := gn_denied g + 1, gn_classes := List.insert c (gn_classes g)\<rparr> in
     if archive then g\<lparr>gn_containers := gn_containers g + 1, gn_classes := List.insert ArchiveContainer (gn_classes g)\<rparr>
     else g)"

definition within_root :: "backup_env \<Rightarrow> string \<Rightarrow> string \<Rightarrow> bool" where
  "within_root E canon root =
    (let c = be_lower E (be_clean E canon); r = be_lower E (be_clean E root) in
     c = r \<or> has_prefix c (if has_suffix r (be_sep E) then r else r @ be_sep E))"

definition entry_of :: "backup_env \<Rightarrow> int \<Rightarrow> managed_root \<Rightarrow> nat \<Rightarrow> string \<Rightarrow> file_meta \<Rightarrow> backup_entry" where
  "entry_of E now root depth name m =
    \<lparr>en_path_class = mr_class root, en_root_ref = mr_ref root, en_depth = depth + 1,
     en_ext = classify_extension (be_lower E) name, en_size = fm_size m, en_bucket = mtime_bucket_of now (fm_mod_time m),
     en_company = mr_company root, en_count = 1\<rparr>"

definition add_entry :: "backup_entry \<Rightarrow> generator \<Rightarrow> generator" where
  "add_entry e g = g\<lparr>gn_entries := gn_entries g @ [e], gn_eligible := gn_eligible g + 1, gn_size := int64 (gn_size g + en_size e)\<rparr>"

text \<open>One child of a directory; \<open>descend\<close> is the walk of a subdirectory.\<close>

definition visit_child ::
  "backup_env \<Rightarrow> int \<Rightarrow> managed_root \<Rightarrow> string \<Rightarrow> (string \<Rightarrow> generator \<Rightarrow> generator) \<Rightarrow> string \<Rightarrow> nat \<Rightarrow> string \<Rightarrow> generator \<Rightarrow> generator" where
  "visit_child E now root root_canon descend dir depth name g =
    (case be_canonicalize E (be_join E dir name) of
       None \<Rightarrow> unresolved g
     | Some c \<Rightarrow>
        if ca_ads c \<or> has_ads_name name then unresolved g
        else if \<not> within_root E (ca_path c) root_canon then unresolved g
        else (case be_stat E (ca_path c) of
          None \<Rightarrow> unresolved g
        | Some m \<Rightarrow>
           (case classify_denied (be_lower E) (ca_path c) name of
              Some (cls, archive) \<Rightarrow> record_denied cls archive g
            | None \<Rightarrow>
               if fm_is_dir m then (if ca_reparse c then unresolved g else descend (ca_path c) g)
               else add_entry (entry_of E now root depth name m) g)))"

text \<open>\<open>left\<close> is the number of levels the depth limit still allows: it is used up when the depth exceeds the limit.\<close>

primrec walk :: "backup_env \<Rightarrow> int \<Rightarrow> managed_root \<Rightarrow> string \<Rightarrow> nat \<Rightarrow> nat \<Rightarrow> string \<Rightarrow> generator \<Rightarrow> generator" where
  "walk E now root root_canon 0 depth dir g = unresolved g"
| "walk E now root root_canon (Suc left) depth dir g =
    (case be_list E dir of
       None \<Rightarrow> unresolved g
     | Some names \<Rightarrow> fold (visit_child E now root root_canon (walk E now root root_canon left (depth + 1)) dir depth) names g)"

section \<open>The manifest\<close>

definition valid_path_classes :: "string list" where
  "valid_path_classes = [''managed/onedrive-business'', ''managed/sharepoint'', ''managed/unc-corp'', ''managed/it-folder'', ''mdm-gpo-root'']"

definition ref_char :: "char \<Rightarrow> bool" where
  "ref_char c \<longleftrightarrow> is_lower c \<or> is_upper c \<or> is_digit c \<or> c = CHR ''.'' \<or> c = CHR ''_'' \<or> c = CHR ''-''"

definition valid_root_ref :: "string \<Rightarrow> bool" where
  "valid_root_ref s \<longleftrightarrow> has_prefix s ''managed_root:'' \<and>
    (let i = drop (length ''managed_root:'') s in i \<noteq> [] \<and> list_all ref_char i)"

definition default_max_depth :: int where
  "default_max_depth = 64"

record backup_options =
  bo_request :: backup_request
  bo_now :: int
  bo_max_depth :: int
  bo_canon :: bool \<comment> \<open>a canonicalizer is wired\<close>

definition max_depth_of :: "backup_options \<Rightarrow> nat" where
  "max_depth_of opt = nat (if bo_max_depth opt \<le> 0 then default_max_depth else bo_max_depth opt)"

text \<open>One root; the list collects the references that are echoed.\<close>

definition visit_root :: "backup_env \<Rightarrow> backup_options \<Rightarrow> managed_root \<Rightarrow> string list \<times> generator \<Rightarrow> string list \<times> generator" where
  "visit_root E opt root = (\<lambda>(refs, g).
    if \<not> valid_root_ref (mr_ref root) \<or> mr_class root \<notin> set valid_path_classes then (refs, unresolved g)
    else (refs @ [mr_ref root],
      (case be_canonicalize E (mr_path root) of
         None \<Rightarrow> unresolved g
       | Some c \<Rightarrow>
          if ca_ads c \<or> ca_reparse c then unresolved g
          else (case classify_denied (be_lower E) (ca_path c) (be_base E (ca_path c)) of
             Some (cls, archive) \<Rightarrow> record_denied cls archive g
           | None \<Rightarrow> walk E (bo_now opt) root (ca_path c) (max_depth_of opt + 1) 0 (ca_path c) g))))"

definition sorted_keys :: "deny_class list \<Rightarrow> string list" where
  "sorted_keys cs = sort (map class_name cs)"

record manifest =
  mf_device :: string
  mf_tenant :: string
  mf_generated :: int
  mf_profile :: string
  mf_roots :: "string list"
  mf_byod :: bool
  mf_entries :: "backup_entry list"
  mf_eligible :: nat
  mf_size :: int
  mf_denied :: nat
  mf_classes :: "string list"
  mf_containers :: nat
  mf_unresolved :: nat

datatype manifest_error = NoCanonicalizer | NoManagedRoots

definition generate :: "backup_env \<Rightarrow> backup_options \<Rightarrow> manifest_error + manifest" where
  "generate E opt =
    (let q = bo_request opt in
     if \<not> bo_canon opt then Inl NoCanonicalizer
     else if bq_roots q = [] then Inl NoManagedRoots
     else
       let (refs, g) = fold (visit_root E opt) (bq_roots q) ([], new_generator) in
       Inr \<lparr>mf_device = bq_device q, mf_tenant = bq_tenant q, mf_generated = bo_now opt, mf_profile = bq_profile q,
         mf_roots = refs, mf_byod = bq_byod q, mf_entries = gn_entries g, mf_eligible = gn_eligible g, mf_size = gn_size g,
         mf_denied = gn_denied g, mf_classes = sorted_keys (gn_classes g), mf_containers = gn_containers g,
         mf_unresolved = gn_unresolved g\<rparr>)"

definition generate_from_request :: "backup_env \<Rightarrow> backup_request \<Rightarrow> int \<Rightarrow> manifest_error + manifest" where
  "generate_from_request E q now = generate E \<lparr>bo_request = q, bo_now = now, bo_max_depth = 0, bo_canon = True\<rparr>"

section \<open>The canonical path on Windows\<close>

definition strip_extended_prefix :: "string \<Rightarrow> string" where
  "strip_extended_prefix p =
    (let bs = [CHR 0x5C]; ext = bs @ bs @ ''?'' @ bs; unc = ext @ ''UNC'' @ bs in
     if has_prefix p unc then bs @ bs @ drop (length unc) p
     else if has_prefix p ext then drop (length ext) p else p)"

definition ads_beyond_drive :: "string \<Rightarrow> bool" where
  "ads_beyond_drive p = (if length p \<ge> 2 \<and> p ! 1 = CHR '':'' then CHR '':'' \<in> set (drop 2 p) else CHR '':'' \<in> set p)"

section \<open>What the walk may list\<close>

text \<open>A child that passed every check before descent, and the directories the walk reaches.\<close>

definition allowed_child :: "backup_env \<Rightarrow> string \<Rightarrow> string \<Rightarrow> string \<Rightarrow> canonical \<Rightarrow> file_meta \<Rightarrow> bool" where
  "allowed_child E root_canon dir name c m \<longleftrightarrow>
    (case be_list E dir of None \<Rightarrow> False | Some names \<Rightarrow> name \<in> set names) \<and>
    be_canonicalize E (be_join E dir name) = Some c \<and> \<not> ca_ads c \<and> \<not> has_ads_name name \<and>
    within_root E (ca_path c) root_canon \<and> be_stat E (ca_path c) = Some m \<and>
    classify_denied (be_lower E) (ca_path c) name = None"

inductive visited :: "backup_env \<Rightarrow> string \<Rightarrow> nat \<Rightarrow> string \<Rightarrow> nat \<Rightarrow> bool" for E root_canon limit where
  visited_root: "visited E root_canon limit root_canon 0"
| visited_child: "visited E root_canon limit dir depth \<Longrightarrow> depth \<le> limit \<Longrightarrow> allowed_child E root_canon dir name c m \<Longrightarrow>
    fm_is_dir m \<Longrightarrow> \<not> ca_reparse c \<Longrightarrow> visited E root_canon limit (ca_path c) (Suc depth)"

definition lists :: "backup_env \<Rightarrow> int \<Rightarrow> managed_root \<Rightarrow> string \<Rightarrow> nat \<Rightarrow> backup_entry \<Rightarrow> bool" where
  "lists E now root root_canon limit e \<longleftrightarrow>
    (\<exists>dir depth name c m. visited E root_canon limit dir depth \<and> depth \<le> limit \<and> allowed_child E root_canon dir name c m \<and>
       \<not> fm_is_dir m \<and> e = entry_of E now root depth name m)"

text \<open>What recording keeps, the walk keeps.\<close>

locale walk_invariant =
  fixes E :: backup_env and now :: int and root :: managed_root and root_canon :: string and limit :: nat
    and I :: "generator \<Rightarrow> bool"
  assumes keeps_unresolved: "I g \<Longrightarrow> I (unresolved g)"
    and keeps_denied: "classify_denied lower canon name = Some (cls, archive) \<Longrightarrow> I g \<Longrightarrow> I (record_denied cls archive g)"
    and keeps_entry: "lists E now root root_canon limit e \<Longrightarrow> I g \<Longrightarrow> I (add_entry e g)"
begin

lemma keeps_child:
  assumes dir: "visited E root_canon limit dir depth" "depth \<le> limit" and names: "be_list E dir = Some names" "name \<in> set names"
    and sub: "\<And>d g. visited E root_canon limit d (Suc depth) \<Longrightarrow> I g \<Longrightarrow> I (descend d g)" and g: "I g"
  shows "I (visit_child E now root root_canon descend dir depth name g)"
proof (cases "\<exists>c m. allowed_child E root_canon dir name c m")
  case True
  then obtain c m where a: "allowed_child E root_canon dir name c m" by blast
  then have "fm_is_dir m \<Longrightarrow> \<not> ca_reparse c \<Longrightarrow> visited E root_canon limit (ca_path c) (Suc depth)"
    by (rule visited_child [OF dir])
  moreover have "\<not> fm_is_dir m \<Longrightarrow> lists E now root root_canon limit (entry_of E now root depth name m)"
    unfolding lists_def using dir a by blast
  ultimately show ?thesis
    using a sub keeps_entry keeps_unresolved g by (simp add: visit_child_def allowed_child_def)
next
  case False
  then show ?thesis
    using g names keeps_unresolved keeps_denied
    by (auto simp: visit_child_def allowed_child_def split: option.splits)
qed

lemma keeps_children:
  assumes "visited E root_canon limit dir depth" and "depth \<le> limit" and "be_list E dir = Some names"
    and "\<And>d g. visited E root_canon limit d (Suc depth) \<Longrightarrow> I g \<Longrightarrow> I (descend d g)"
  shows "set ns \<subseteq> set names \<Longrightarrow> I g \<Longrightarrow> I (fold (visit_child E now root root_canon descend dir depth) ns g)"
proof (induction ns arbitrary: g)
  case (Cons n ns)
  then have "I (visit_child E now root root_canon descend dir depth n g)"
    by (intro keeps_child [OF assms(1-3) _ assms(4)]) simp_all
  then show ?case using Cons by simp
qed simp

lemma keeps_walk:
  "visited E root_canon limit dir depth \<Longrightarrow> depth + left = Suc limit \<Longrightarrow> I g \<Longrightarrow> I (walk E now root root_canon left depth dir g)"
proof (induction left arbitrary: dir depth g)
  case (Suc left)
  then show ?case
    using keeps_children [OF Suc.prems(1), of _ "walk E now root root_canon left (depth + 1)"] keeps_unresolved
    by (auto split: option.split)
qed (simp add: keeps_unresolved)

end

lemma int64_add: "int64 (int64 a + b) = int64 (a + b)"
  by (simp add: int64_def flip: wi_hom_add)

definition tallied :: "generator \<Rightarrow> bool" where
  "tallied g \<longleftrightarrow> gn_eligible g = length (gn_entries g) \<and> gn_size g = int64 (sum_list (map en_size (gn_entries g))) \<and>
     gn_containers g \<le> gn_denied g \<and> distinct (gn_classes g) \<and> (gn_classes g = [] \<longleftrightarrow> gn_denied g = 0) \<and>
     (ArchiveContainer \<in> set (gn_classes g) \<longleftrightarrow> 0 < gn_containers g)"

lemma archive_class: "classify_denied lower canon name = Some (cls, archive) \<Longrightarrow> cls = ArchiveContainer \<Longrightarrow> archive"
  by (auto simp: classify_denied_def Let_def split: if_splits)

lemma tallied_denied:
  assumes "tallied g" and "cls = ArchiveContainer \<Longrightarrow> archive"
  shows "tallied (record_denied cls archive g)"
  using assms by (auto simp: tallied_def record_denied_def Let_def List.insert_def)

lemma tallied_entry: "tallied g \<Longrightarrow> tallied (add_entry e g)"
  by (simp add: tallied_def add_entry_def int64_add)

interpretation tally: walk_invariant E now root root_canon limit tallied for E now root root_canon limit
proof unfold_locales
  show "tallied (unresolved g)" if "tallied g" for g using that by (simp add: tallied_def unresolved_def)
  show "tallied (record_denied cls archive g)" if "classify_denied lower canon name = Some (cls, archive)" "tallied g"
    for lower canon name cls archive g using that by (intro tallied_denied) (auto dest: archive_class)
  show "tallied (add_entry e g)" if "tallied g" for e g using that by (rule tallied_entry)
qed

text \<open>Entries are old, or listed below this root.\<close>

interpretation entries: walk_invariant E now root root_canon limit
  "\<lambda>g. \<forall>e\<in>set (gn_entries g). e \<in> es \<or> lists E now root root_canon limit e" for E now root root_canon limit es
  by unfold_locales (auto simp: unresolved_def record_denied_def add_entry_def Let_def)

definition root_ok :: "managed_root \<Rightarrow> bool" where
  "root_ok root \<longleftrightarrow> valid_root_ref (mr_ref root) \<and> mr_class root \<in> set valid_path_classes"

text \<open>A root whose canonical path may be walked.\<close>

definition walked_root :: "backup_env \<Rightarrow> managed_root \<Rightarrow> string \<Rightarrow> bool" where
  "walked_root E root root_canon \<longleftrightarrow> root_ok root \<and>
     (\<exists>c. be_canonicalize E (mr_path root) = Some c \<and> \<not> ca_ads c \<and> \<not> ca_reparse c \<and> root_canon = ca_path c \<and>
       classify_denied (be_lower E) root_canon (be_base E root_canon) = None)"

definition justified :: "backup_env \<Rightarrow> backup_options \<Rightarrow> managed_root list \<Rightarrow> backup_entry \<Rightarrow> bool" where
  "justified E opt roots e \<longleftrightarrow>
    (\<exists>root\<in>set roots. \<exists>root_canon. walked_root E root root_canon \<and> lists E (bo_now opt) root root_canon (max_depth_of opt) e)"

lemma visit_root_entries:
  assumes "visit_root E opt root (refs, g) = (refs', g')" and "e \<in> set (gn_entries g')"
  shows "e \<in> set (gn_entries g) \<or> justified E opt [root] e"
proof (cases "\<exists>root_canon. walked_root E root root_canon")
  case True
  then obtain rc where rc: "walked_root E root rc" by blast
  then have "g' = walk E (bo_now opt) root rc (max_depth_of opt + 1) 0 rc g"
    using assms(1) by (auto simp: visit_root_def walked_root_def root_ok_def)
  then have "e \<in> set (gn_entries g) \<or> lists E (bo_now opt) root rc (max_depth_of opt) e"
    using entries.keeps_walk [OF visited_root, of "max_depth_of opt + 1" "max_depth_of opt" g "set (gn_entries g)" E "bo_now opt" root rc] assms(2)
    by auto
  then show ?thesis using rc by (auto simp: justified_def)
next
  case False
  then have "gn_entries g' = gn_entries g"
    using assms(1) by (auto simp: visit_root_def walked_root_def root_ok_def unresolved_def record_denied_def Let_def
        split: if_splits option.splits prod.splits)
  then show ?thesis using assms(2) by simp
qed

lemma visit_root_tallied: "tallied g \<Longrightarrow> visit_root E opt root (refs, g) = (refs', g') \<Longrightarrow> tallied g'"
  by (auto simp: visit_root_def simp del: walk.simps intro!: tally.keeps_unresolved tally.keeps_walk [OF visited_root] tallied_denied
      dest: archive_class split: if_splits option.splits prod.splits)

lemma visit_roots:
  assumes "fold (visit_root E opt) roots (refs, g) = (refs', g')" and "tallied g"
  shows "tallied g' \<and> refs' = refs @ map mr_ref (filter root_ok roots) \<and>
    (\<forall>e\<in>set (gn_entries g'). e \<in> set (gn_entries g) \<or> justified E opt roots e)"
  using assms
proof (induction roots arbitrary: refs g)
  case (Cons root roots)
  obtain r1 g1 where v: "visit_root E opt root (refs, g) = (r1, g1)" by fastforce
  then have r1: "r1 = refs @ (if root_ok root then [mr_ref root] else [])"
    by (auto simp: visit_root_def root_ok_def split: if_splits)
  have more: "justified E opt roots e \<Longrightarrow> justified E opt (root # roots) e" "justified E opt [root] e \<Longrightarrow> justified E opt (root # roots) e" for e
    by (auto simp: justified_def)
  show ?case
    using Cons.IH [of r1 g1] Cons.prems v r1 visit_root_tallied [OF Cons.prems(2) v] visit_root_entries [OF v] more by auto
qed simp

section \<open>Everything that may be listed is listed\<close>

interpretation old: walk_invariant E now root root_canon limit "\<lambda>g. es \<subseteq> set (gn_entries g)" for E now root root_canon limit es
  by unfold_locales (auto simp: unresolved_def record_denied_def add_entry_def Let_def)

text \<open>The visit of one child is part of the walk of its directory.\<close>

lemma child_in_walk:
  assumes d: "visited E root_canon limit dir depth" "depth + Suc left = Suc limit" and names: "be_list E dir = Some names" "name \<in> set names"
  obtains h where "set (gn_entries (visit_child E now root root_canon (walk E now root root_canon left (Suc depth)) dir depth name h))
      \<subseteq> set (gn_entries (walk E now root root_canon (Suc left) depth dir g))"
proof -
  let ?visit = "visit_child E now root root_canon (walk E now root root_canon left (Suc depth)) dir depth"
  obtain xs ys where split: "names = xs @ name # ys" using names(2) by (meson split_list)
  have sub: "es \<subseteq> set (gn_entries (walk E now root root_canon left (Suc depth) d' h))"
    if "visited E root_canon limit d' (Suc depth)" "es \<subseteq> set (gn_entries h)" for es d' h
    by (rule old.keeps_walk [OF that(1) _ that(2)]) (use d(2) in simp)
  have rest: "es \<subseteq> set (gn_entries (fold ?visit ys g))" if "es \<subseteq> set (gn_entries g)" for es g
    by (rule old.keeps_children [OF d(1) _ names(1) sub _ that]) (use d(2) split in auto)
  show thesis
    using rest [OF order_refl, of "?visit name (fold ?visit xs g)"] names(1) split by (intro that [of "fold ?visit xs g"]) simp
qed

lemma visited_in_walk:
  assumes "visited E root_canon limit dir depth"
  shows "depth \<le> limit \<Longrightarrow> \<exists>h. set (gn_entries (walk E now root root_canon (Suc limit - depth) depth dir h))
      \<subseteq> set (gn_entries (walk E now root root_canon (Suc limit) 0 root_canon g))"
  using assms
proof (induction rule: visited.induct)
  case (visited_child dir depth name c m)
  then obtain h where h: "set (gn_entries (walk E now root root_canon (Suc limit - depth) depth dir h))
      \<subseteq> set (gn_entries (walk E now root root_canon (Suc limit) 0 root_canon g))" by auto
  define left where "left = limit - depth"
  then have left: "Suc limit - depth = Suc left" "depth + Suc left = Suc limit" "left = Suc limit - Suc depth"
    using visited_child.prems by simp_all
  from visited_child.hyps(3) obtain names where names: "be_list E dir = Some names" "name \<in> set names"
    by (auto simp: allowed_child_def split: option.splits)
  obtain h' where h': "set (gn_entries (visit_child E now root root_canon (walk E now root root_canon left (Suc depth)) dir depth name h'))
      \<subseteq> set (gn_entries (walk E now root root_canon (Suc left) depth dir h))"
    by (rule child_in_walk [OF visited_child.hyps(1) left(2) names])
  have "visit_child E now root root_canon (walk E now root root_canon left (Suc depth)) dir depth name h' =
      walk E now root root_canon left (Suc depth) (ca_path c) h'"
    using visited_child.hyps(3-5) by (simp add: visit_child_def allowed_child_def)
  with h' have "set (gn_entries (walk E now root root_canon left (Suc depth) (ca_path c) h'))
      \<subseteq> set (gn_entries (walk E now root root_canon (Suc left) depth dir h))" by simp
  also have "\<dots> \<subseteq> set (gn_entries (walk E now root root_canon (Suc limit) 0 root_canon g))" using h left(1) by simp
  finally show ?case unfolding left(3) by blast
qed auto

lemma listed_in_walk:
  assumes "lists E now root root_canon limit e"
  shows "e \<in> set (gn_entries (walk E now root root_canon (Suc limit) 0 root_canon g))"
proof -
  obtain dir depth name c m where l: "visited E root_canon limit dir depth" "depth \<le> limit" "allowed_child E root_canon dir name c m"
      "\<not> fm_is_dir m" "e = entry_of E now root depth name m"
    using assms by (auto simp: lists_def)
  obtain h where h: "set (gn_entries (walk E now root root_canon (Suc limit - depth) depth dir h))
      \<subseteq> set (gn_entries (walk E now root root_canon (Suc limit) 0 root_canon g))"
    using visited_in_walk [OF l(1,2)] by blast
  define left where "left = limit - depth"
  then have left: "Suc limit - depth = Suc left" "depth + Suc left = Suc limit" using l(2) by simp_all
  from l(3) obtain names where names: "be_list E dir = Some names" "name \<in> set names"
    by (auto simp: allowed_child_def split: option.splits)
  obtain h' where "set (gn_entries (visit_child E now root root_canon (walk E now root root_canon left (Suc depth)) dir depth name h'))
      \<subseteq> set (gn_entries (walk E now root root_canon (Suc left) depth dir h))"
    by (rule child_in_walk [OF l(1) left(2) names])
  moreover have "e \<in> set (gn_entries (visit_child E now root root_canon (walk E now root root_canon left (Suc depth)) dir depth name h'))"
    using l(3-5) by (simp add: visit_child_def allowed_child_def add_entry_def)
  ultimately show ?thesis using h left by auto
qed

lemma justified_in_roots:
  "justified E opt roots e \<Longrightarrow> e \<in> set (gn_entries (snd (fold (visit_root E opt) roots (refs, g))))"
proof (induction roots arbitrary: refs g)
  case (Cons root roots)
  obtain r1 g1 where v: "visit_root E opt root (refs, g) = (r1, g1)" by fastforce
  show ?case
  proof (cases "justified E opt roots e")
    case True
    then show ?thesis using Cons.IH v by simp
  next
    case False
    then obtain rc where rc: "walked_root E root rc" "lists E (bo_now opt) root rc (max_depth_of opt) e"
      using Cons.prems by (auto simp: justified_def)
    then have "g1 = walk E (bo_now opt) root rc (Suc (max_depth_of opt)) 0 rc g"
      using v by (auto simp: visit_root_def walked_root_def root_ok_def simp del: walk.simps)
    then have e: "e \<in> set (gn_entries g1)" using listed_in_walk rc(2) by simp
    have grow: "x \<in> set (gn_entries h) \<Longrightarrow> x \<in> set (gn_entries (snd (fold (visit_root E opt) rs (fs, h))))" for x rs fs h
    proof (induction rs arbitrary: fs h)
      case (Cons r rs)
      obtain fs' h' where v: "visit_root E opt r (fs, h) = (fs', h')" by fastforce
      have "{x} \<subseteq> set (gn_entries h')"
        using v Cons.prems by (auto simp: visit_root_def unresolved_def record_denied_def Let_def simp del: walk.simps
          intro: old.keeps_walk [OF visited_root, of _ _ "{x}", simplified] split: if_splits option.splits prod.splits)
      then show ?case using Cons.IH v by simp
    qed simp
    show ?thesis using grow [OF e] v by simp
  qed
qed (simp add: justified_def)

section \<open>Properties of a manifest\<close>

lemma generated:
  assumes "generate E opt = Inr m"
  obtains g where "tallied g" "mf_entries m = gn_entries g" "mf_eligible m = gn_eligible g" "mf_size m = gn_size g"
    "mf_denied m = gn_denied g" "mf_classes m = sorted_keys (gn_classes g)" "mf_containers m = gn_containers g"
    "mf_roots m = map mr_ref (filter root_ok (bq_roots (bo_request opt)))"
    "\<forall>e\<in>set (gn_entries g). justified E opt (bq_roots (bo_request opt)) e"
proof -
  obtain refs g where f: "fold (visit_root E opt) (bq_roots (bo_request opt)) ([], new_generator) = (refs, g)" by fastforce
  have "tallied new_generator" by (simp add: tallied_def new_generator_def int64_id)
  from visit_roots [OF f this] show thesis
    using assms f by (intro that [of g]) (auto simp: generate_def Let_def new_generator_def split: if_splits)
qed

text \<open>
  Property C37: a manifest has an entry exactly for the metadata of each file that the walk may list: a file reached from an
  allowed root through directories of which none is denied, a reparse point, outside the root or unresolved, that
  itself is neither denied nor an alternate stream.
\<close>

theorem manifest_lists_exactly_allowed:
  assumes "generate E opt = Inr m"
  shows "e \<in> set (mf_entries m) \<longleftrightarrow>
    (\<exists>root\<in>set (bq_roots (bo_request opt)). \<exists>root_canon dir depth name c meta.
       walked_root E root root_canon \<and> visited E root_canon (max_depth_of opt) dir depth \<and> depth \<le> max_depth_of opt \<and>
       allowed_child E root_canon dir name c meta \<and> \<not> fm_is_dir meta \<and> e = entry_of E (bo_now opt) root depth name meta)"
proof -
  have "e \<in> set (mf_entries m) \<longleftrightarrow> justified E opt (bq_roots (bo_request opt)) e"
  proof
    assume "e \<in> set (mf_entries m)"
    then show "justified E opt (bq_roots (bo_request opt)) e" using assms by (metis generated)
  next
    assume "justified E opt (bq_roots (bo_request opt)) e"
    then show "e \<in> set (mf_entries m)"
      using justified_in_roots [of E opt "bq_roots (bo_request opt)" e "[]" new_generator] assms
      by (auto simp: generate_def Let_def split: if_splits prod.splits)
  qed
  then show ?thesis unfolding justified_def lists_def by blast
qed

lemma class_name_inj: "class_name c = class_name d \<Longrightarrow> c = d"
  by (cases c; cases d) simp_all

text \<open>
  Fact: the counts of a manifest agree with it: the eligible files are the entries, the size is their sum as an
  \<open>int64\<close>, the classes are sorted, without repetition and present just when something was denied, and archives are
  counted just when their class is named, each also as denied.
\<close>

theorem manifest_counts_agree:
  assumes "generate E opt = Inr m"
  shows "mf_eligible m = length (mf_entries m) \<and> mf_size m = int64 (sum_list (map en_size (mf_entries m))) \<and>
    sorted (mf_classes m) \<and> distinct (mf_classes m) \<and> (mf_classes m = [] \<longleftrightarrow> mf_denied m = 0) \<and>
    mf_containers m \<le> mf_denied m \<and> (''archive_container'' \<in> set (mf_classes m) \<longleftrightarrow> 0 < mf_containers m)"
proof -
  obtain g where g: "tallied g" "mf_entries m = gn_entries g" "mf_eligible m = gn_eligible g" "mf_size m = gn_size g"
    "mf_denied m = gn_denied g" "mf_classes m = sorted_keys (gn_classes g)" "mf_containers m = gn_containers g"
    by (rule generated [OF assms])
  have "''archive_container'' \<in> set (sorted_keys (gn_classes g)) \<longleftrightarrow> ArchiveContainer \<in> set (gn_classes g)"
    using class_name_inj [of ArchiveContainer] by (auto simp: sorted_keys_def image_iff intro: bexI [of _ ArchiveContainer])
  moreover have "distinct (sorted_keys (gn_classes g))"
    using g(1) class_name_inj by (auto simp: sorted_keys_def tallied_def distinct_map inj_on_def)
  moreover have "sorted_keys (gn_classes g) = [] \<longleftrightarrow> gn_classes g = []"
    by (metis length_0_conv length_map length_sort sorted_keys_def)
  moreover have "sorted (sorted_keys (gn_classes g))" by (simp add: sorted_keys_def)
  ultimately show ?thesis using g by (simp add: tallied_def)
qed

lemma ref_char_plain: "ref_char c \<Longrightarrow> \<not> path_sep c"
  by (auto simp: ref_char_def path_sep_def is_lower_def is_upper_def is_digit_def less_eq_char_def)

text \<open>
  Fact: no path can leave through a manifest: the references it echoes are those of valid roots, without a
  separator or a blank after the prefix, and an entry names such a root and one of the five path classes.
\<close>

theorem manifest_is_path_free:
  assumes "generate E opt = Inr m"
  shows "list_all (\<lambda>r. valid_root_ref r \<and> list_all (\<lambda>c. \<not> path_sep c) r) (mf_roots m) \<and>
    list_all (\<lambda>e. en_root_ref e \<in> set (mf_roots m) \<and> en_path_class e \<in> set valid_path_classes) (mf_entries m)"
proof -
  obtain g :: generator where g: "mf_entries m = gn_entries g" "mf_roots m = map mr_ref (filter root_ok (bq_roots (bo_request opt)))"
      "\<forall>e\<in>set (gn_entries g). justified E opt (bq_roots (bo_request opt)) e"
    by (rule generated [OF assms]) blast
  have plain: "list_all (\<lambda>c. \<not> path_sep c) r" if "valid_root_ref r" for r
  proof -
    let ?n = "length ''managed_root:''"
    have "take ?n r = ''managed_root:''" and d: "list_all ref_char (drop ?n r)"
      using that unfolding valid_root_ref_def has_prefix_def Let_def by blast+
    moreover have "list_all (\<lambda>c. \<not> path_sep c) ''managed_root:''" by (simp add: path_sep_def)
    ultimately have "list_all (\<lambda>c. \<not> path_sep c) (take ?n r @ drop ?n r)"
      using ref_char_plain unfolding list_all_append by (auto simp: list_all_iff)
    then show ?thesis by (simp only: append_take_drop_id)
  qed
  have "list_all (\<lambda>r. valid_root_ref r \<and> list_all (\<lambda>c. \<not> path_sep c) r) (mf_roots m)"
    using plain g(2) by (auto simp: list_all_iff root_ok_def)
  moreover have "list_all (\<lambda>e. en_root_ref e \<in> set (mf_roots m) \<and> en_path_class e \<in> set valid_path_classes) (mf_entries m)"
    using g by (fastforce simp: list_all_iff justified_def lists_def walked_root_def root_ok_def entry_of_def)
  ultimately show ?thesis by blast
qed

section \<open>A tree\<close>

text \<open>A link \<open>notes.txt\<close> to a private key, the key, a document and an archive.\<close>

definition sample_tree :: backup_env where
  "sample_tree = \<lparr>
     be_canonicalize = (\<lambda>p. if p = ''/m/notes.txt'' then Some \<lparr>ca_path = ''/m/id_rsa'', ca_reparse = True, ca_ads = False\<rparr>
       else Some \<lparr>ca_path = p, ca_reparse = False, ca_ads = False\<rparr>),
     be_list = (\<lambda>d. if d = ''/m'' then Some [''a.doc'', ''notes.txt'', ''id_rsa'', ''x.zip'', ''sub''] else if d = ''/m/sub'' then Some [''b.pdf''] else None),
     be_stat = (\<lambda>p. Some \<lparr>fm_is_dir = (p = ''/m/sub''), fm_size = int (length p), fm_mod_time = 0\<rparr>),
     be_lower = to_lower, be_join = (\<lambda>d n. d @ ''/'' @ n), be_base = (\<lambda>p. rev (takeWhile (\<lambda>c. c \<noteq> CHR ''/'') (rev p))),
     be_clean = id, be_sep = ''/''\<rparr>"

definition sample_dry_run :: backup_options where
  "sample_dry_run = \<lparr>bo_request = \<lparr>bq_device = ''d'', bq_tenant = ''t'', bq_profile = ''p'', bq_byod = False,
     bq_roots = [\<lparr>mr_ref = ''managed_root:1'', mr_path = ''/m'', mr_class = ''managed/it-folder'', mr_company = True\<rparr>]\<rparr>,
     bo_now = 0, bo_max_depth = 0, bo_canon = True\<rparr>"

lemma sample_manifest:
  obtains m where "generate sample_tree sample_dry_run = Inr m" "mf_eligible m = 3" "mf_denied m = 2"
    "mf_classes m = [''archive_container'', ''private_key_material'']" "mf_containers m = 1" "mf_roots m = [''managed_root:1'']"
    "map en_ext (mf_entries m) = [ExtDoc, ExtDoc, ExtPdf]" "map en_size (mf_entries m) = [8, 9, 12]"
proof -
  have "(case generate sample_tree sample_dry_run of Inl _ \<Rightarrow> None | Inr m \<Rightarrow> Some (mf_eligible m, mf_denied m, mf_classes m, mf_containers m,
      mf_roots m, map en_ext (mf_entries m), map en_size (mf_entries m))) =
    Some (3, 2, [''archive_container'', ''private_key_material''], 1, [''managed_root:1''], [ExtDoc, ExtDoc, ExtPdf], [8, 9, 12])"
    by code_simp
  then show thesis using that by (auto split: sum.splits)
qed

theorem manifest_lists_exactly_allowed_witness:
  "\<exists>m e dir depth name c meta. generate sample_tree sample_dry_run = Inr m \<and> e \<in> set (mf_entries m) \<and>
     visited sample_tree ''/m'' (max_depth_of sample_dry_run) dir depth \<and>
     allowed_child sample_tree ''/m'' dir name c meta \<and> en_size e = fm_size meta"
proof (rule sample_manifest)
  fix m
  assume m: "generate sample_tree sample_dry_run = Inr m" "mf_eligible m = 3" "map en_size (mf_entries m) = [8, 9, 12]"
  then obtain e where e: "e \<in> set (mf_entries m)" by (cases "mf_entries m") auto
  then obtain root rc dir depth name c meta where l: "root \<in> set (bq_roots (bo_request sample_dry_run))" "walked_root sample_tree root rc"
      "visited sample_tree rc (max_depth_of sample_dry_run) dir depth" "allowed_child sample_tree rc dir name c meta"
      "e = entry_of sample_tree (bo_now sample_dry_run) root depth name meta"
    using manifest_lists_exactly_allowed [OF m(1)] by blast
  then have "rc = ''/m''" by (auto simp: sample_dry_run_def walked_root_def sample_tree_def)
  moreover have "en_size e = fm_size meta" using l(5) by (simp add: entry_of_def)
  ultimately show ?thesis using m(1) e l(3,4) by blast
qed

theorem manifest_counts_agree_witness:
  "\<exists>m. generate sample_tree sample_dry_run = Inr m \<and> length (mf_entries m) = 3 \<and> mf_size m = 29 \<and> distinct (mf_classes m)"
proof (rule sample_manifest)
  fix m
  assume "generate sample_tree sample_dry_run = Inr m" "mf_eligible m = 3" "map en_size (mf_entries m) = [8, 9, 12]"
  then show ?thesis using manifest_counts_agree [of sample_tree sample_dry_run m] by (simp add: int64_id)
qed

theorem manifest_is_path_free_witness:
  "\<exists>m. generate sample_tree sample_dry_run = Inr m \<and> mf_roots m = [''managed_root:1''] \<and>
     list_all (\<lambda>r. valid_root_ref r \<and> list_all (\<lambda>c. \<not> path_sep c) r) (mf_roots m)"
proof (rule sample_manifest)
  fix m
  assume "generate sample_tree sample_dry_run = Inr m" "mf_roots m = [''managed_root:1'']"
  then show ?thesis using manifest_is_path_free [of sample_tree sample_dry_run m] by blast
qed

text \<open>
  Fact: a link hides a private key: the classes of denied files look at the name in the directory and only at
  the directories of the canonical path, so that a link with a harmless name to a key that is itself denied
  becomes an entry with the size of the key.
\<close>

theorem link_hides_private_key:
  "(case generate sample_tree sample_dry_run of Inl _ \<Rightarrow> None | Inr m \<Rightarrow> Some (mf_denied m, map en_size (mf_entries m))) = Some (2, [8, 9, 12]) \<and>
   be_canonicalize sample_tree ''/m/notes.txt'' = Some \<lparr>ca_path = ''/m/id_rsa'', ca_reparse = True, ca_ads = False\<rparr> \<and>
   classify_denied (be_lower sample_tree) ''/m/id_rsa'' ''id_rsa'' = Some (PrivateKeyMaterial, False) \<and>
   classify_denied (be_lower sample_tree) ''/m/id_rsa'' ''notes.txt'' = None"
  by code_simp

end
