(* ===== verification/LocalUsers.thy ===== *)
theory LocalUsers
  imports Prelude
begin

unbundle bit_operations_syntax

text \<open>
  Changes to local accounts and their guards (\<open>src/internal/users\<close>: \<open>guard.go\<close>, \<open>local.go\<close>, \<open>local_windows.go\<close>,
  \<open>identity_windows.go\<close>, \<open>lockout_windows.go\<close>).

  The calls of Windows are the fields of \<open>win\<close>, over a state of the account database that only the two setters change:
  \<open>LookupSID\<close>, \<open>LookupAccount\<close>, the pages of \<open>NetLocalGroupGetMembers\<close> and \<open>NetUserEnum\<close>, \<open>NetUserGetInfo\<close> and
  \<open>NetUserSetInfo\<close>. Unicode case mapping (\<open>strings.ToLower\<close>, \<open>strings.EqualFold\<close>) is a parameter too.
\<close>

section \<open>Security identifiers and calls of Windows\<close>

datatype sid = Sid (sid_authority: nat) (sub_authorities: "u32 list")

datatype sid_use = SidUser | SidAlias | SidGroup | SidWellKnownGroup | SidOtherUse

type_synonym errno = nat

datatype lookup_error = NoneMapped | LookupOther errno

text \<open>One page of group members: its status and, when there is a buffer, its entries (null pointers among them).\<close>

datatype page_status = PageDone | PageMoreData | PageTooSmall | PageFailed errno

type_synonym member_page = "page_status \<times> sid option list option"

record sam_account =
  ac_name :: string
  ac_comment :: string
  ac_flags :: u32

text \<open>The answers of \<open>NetUserEnum\<close> until it no longer says that there is more data.\<close>

datatype enum_answer = EnumLast "errno option" "sam_account list" | EnumMore "sam_account list" enum_answer

record 's win =
  wn_lower :: "string \<Rightarrow> string"
  wn_equal_fold :: "string \<Rightarrow> string \<Rightarrow> bool"
  wn_utf16 :: "string \<Rightarrow> bool"
  wn_sid_string :: "sid \<Rightarrow> string"
  wn_copy :: "sid \<Rightarrow> bool"
  wn_admins_sid :: "errno + sid"
  wn_machine_sid :: "'s \<Rightarrow> errno + sid option"
  wn_lookup_sid :: "'s \<Rightarrow> string \<Rightarrow> errno + sid \<times> sid_use"
  wn_lookup_account :: "'s \<Rightarrow> sid \<Rightarrow> lookup_error + string \<times> sid_use"
  wn_members :: "'s \<Rightarrow> string \<Rightarrow> nat \<Rightarrow> member_page"
  wn_enum :: "'s \<Rightarrow> enum_answer"
  wn_get_flags :: "'s \<Rightarrow> string \<Rightarrow> errno + u32 option"
  wn_set_flags :: "'s \<Rightarrow> string \<Rightarrow> u32 \<Rightarrow> errno option \<times> 's"
  wn_set_password :: "'s \<Rightarrow> string \<Rightarrow> string \<Rightarrow> errno option \<times> 's"

datatype users_error =
    UsernameMissing | UsernameIsSid | UsernameReserved | UsernameTooLong | NotSamName
  | ProtectedRid u32 | LastAdministrator | PasswordMissing | PasswordTooShort | PasswordTooLong | PasswordEncoding
  | LookupFailed errno | NotUserPrincipal | MachineSidFailed errno | MachineSidNull | SidCopyFailed | NotLocalAccount
  | NoSubAuthority | AliasFailed errno | AliasNameFailed | GroupName | MembersFailed errno | NoUsablePage
  | TooManyPages | TooDeep | TooManyGroups | MemberText | MemberUnresolved errno
  | UnsupportedAction | EnumFailed errno | FlagsFailed errno | FlagsEmpty | SetFailed errno | NameEncoding

section \<open>The name guards\<close>

definition reserved_usernames :: "string list" where
  "reserved_usernames = [''administrator'', ''guest'', ''defaultaccount'', ''wdagutilityaccount'', ''defaultuser0'', ''krbtgt'',
     ''system'', ''localsystem'', ''networkservice'', ''localservice'']"

text \<open>The pattern \<open>(?i)^s-\d+-\d+(-\d+)*$\<close>; folded, \<open>s\<close> also matches the long s.\<close>

definition is_sid_literal :: "string \<Rightarrow> bool" where
  "is_sid_literal s =
    (case split_on (CHR ''-'') s of
       [] \<Rightarrow> False
     | h # parts \<Rightarrow> h \<in> {''s'', ''S'', [CHR 0xC5, CHR 0xBF]} \<and> 2 \<le> length parts \<and>
         list_all (\<lambda>p. p \<noteq> [] \<and> list_all is_digit p) parts)"

definition guard_reserved_username :: "'s win \<Rightarrow> string \<Rightarrow> users_error option" where
  "guard_reserved_username W username =
    (let candidate = wn_lower W (trim_space username) in
     if candidate = [] then Some UsernameMissing
     else if is_sid_literal candidate then Some UsernameIsSid
     else if candidate \<in> set reserved_usernames then Some UsernameReserved
     else None)"

definition reserved_rids :: "u32 list" where
  "reserved_rids = [500, 501, 502, 503, 504]"

definition guard_protected_rid :: "u32 \<Rightarrow> users_error option" where
  "guard_protected_rid rid = (if rid \<in> set reserved_rids then Some (ProtectedRid rid) else None)"

definition sam_forbidden_chars :: string where
  "sam_forbidden_chars = [CHR 0x22, CHR 0x5C, CHR ''/'', CHR ''['', CHR '']'', CHR '':'', CHR '';'', CHR ''|'', CHR ''='',
     CHR '','', CHR ''+'', CHR ''*'', CHR ''?'', CHR ''<'', CHR ''>'', CHR ''@'']"

definition normalize_local_username :: "string \<Rightarrow> users_error + string" where
  "normalize_local_username raw =
    (let username = trim_space raw in
     if username = [] then Inl UsernameMissing
     else if 128 < length username then Inl UsernameTooLong
     else if list_ex (\<lambda>c. byte_of c < 0x20 \<or> c \<in> set sam_forbidden_chars) username then Inl NotSamName
     else Inr username)"

section \<open>Accounts and their identity\<close>

definition uf_account_disable :: u32 where "uf_account_disable = 0x0002"
definition uf_lockout :: u32 where "uf_lockout = 0x0010"
definition uf_password_not_required :: u32 where "uf_password_not_required = 0x0020"

record local_user =
  lu_username :: string
  lu_comment :: string
  lu_disabled :: bool
  lu_locked_out :: bool
  lu_password_required :: bool

definition user_from_net_api :: "sam_account \<Rightarrow> local_user" where
  "user_from_net_api a = \<lparr>lu_username = ac_name a, lu_comment = ac_comment a,
     lu_disabled = (ac_flags a AND uf_account_disable \<noteq> 0), lu_locked_out = (ac_flags a AND uf_lockout \<noteq> 0),
     lu_password_required = (ac_flags a AND uf_password_not_required = 0)\<rparr>"

fun list_pages :: "enum_answer \<Rightarrow> local_user list \<Rightarrow> users_error + local_user list" where
  "list_pages (EnumLast (Some e) _) users = Inl (EnumFailed e)"
| "list_pages (EnumLast None entries) users = Inr (users @ map user_from_net_api entries)"
| "list_pages (EnumMore entries rest) users = list_pages rest (users @ map user_from_net_api entries)"

definition list_local :: "'s win \<Rightarrow> 's \<Rightarrow> users_error + local_user list" where
  "list_local W s = (case list_pages (wn_enum W s) [] of Inl e \<Rightarrow> Inl e | Inr us \<Rightarrow> Inr (sort_key lu_username us))"

definition resolve_machine_sid :: "'s win \<Rightarrow> 's \<Rightarrow> users_error + sid" where
  "resolve_machine_sid W s =
    (case wn_machine_sid W s of Inl e \<Rightarrow> Inl (MachineSidFailed e) | Inr None \<Rightarrow> Inl MachineSidNull
     | Inr (Some m) \<Rightarrow> if wn_copy W m then Inr m else Inl SidCopyFailed)"

definition under_machine_domain :: "'s win \<Rightarrow> sid \<Rightarrow> sid \<Rightarrow> bool" where
  "under_machine_domain W x machine \<longleftrightarrow>
     length (sub_authorities x) = length (sub_authorities machine) + 1 \<and>
     has_prefix (wn_sid_string W x) (wn_sid_string W machine @ ''-'')"

definition local_account_sid :: "'s win \<Rightarrow> 's \<Rightarrow> string \<Rightarrow> users_error + sid" where
  "local_account_sid W s username =
    (case wn_lookup_sid W s username of Inl e \<Rightarrow> Inl (LookupFailed e)
     | Inr (x, use) \<Rightarrow>
        if use \<noteq> SidUser then Inl NotUserPrincipal
        else case resolve_machine_sid W s of Inl e \<Rightarrow> Inl e
          | Inr machine \<Rightarrow> if \<not> under_machine_domain W x machine then Inl NotLocalAccount else Inr x)"

definition rid_from_sid :: "sid \<Rightarrow> users_error + u32" where
  "rid_from_sid x = (if sub_authorities x = [] then Inl NoSubAuthority else Inr (List.last (sub_authorities x)))"

definition resolve_identity :: "'s win \<Rightarrow> 's \<Rightarrow> string \<Rightarrow> users_error + sid \<times> u32" where
  "resolve_identity W s username =
    (case local_account_sid W s username of Inl e \<Rightarrow> Inl e
     | Inr x \<Rightarrow> (case rid_from_sid x of Inl e \<Rightarrow> Inl e | Inr rid \<Rightarrow> Inr (x, rid)))"

section \<open>The members of the Administrators alias\<close>

definition max_member_pages :: nat where "max_member_pages = 16"
definition max_expansion_depth :: nat where "max_expansion_depth = 16"
definition max_expansion_groups :: nat where "max_expansion_groups = 256"

text \<open>The pages of a group; \<open>left\<close> of the sixteen are still allowed.\<close>

primrec read_member_pages :: "'s win \<Rightarrow> 's \<Rightarrow> string \<Rightarrow> nat \<Rightarrow> nat \<Rightarrow> sid list \<Rightarrow> users_error + sid list" where
  "read_member_pages W s grp 0 page out = Inl TooManyPages"
| "read_member_pages W s grp (Suc left) page out =
    (let (status, buf) = wn_members W s grp page;
         entries = (case buf of None \<Rightarrow> [] | Some es \<Rightarrow> es);
         usable = (status \<in> {PageDone, PageMoreData, PageTooSmall} \<and> entries \<noteq> []);
         copied = (if usable then List.map_filter id entries else [])
     in if \<not> list_all (wn_copy W) copied then Inl SidCopyFailed
        else case status of
          PageDone \<Rightarrow> Inr (out @ copied)
        | PageFailed e \<Rightarrow> Inl (MembersFailed e)
        | _ \<Rightarrow> if \<not> usable then Inl NoUsablePage else read_member_pages W s grp left (page + 1) (out @ copied))"

definition group_members :: "'s win \<Rightarrow> 's \<Rightarrow> string \<Rightarrow> users_error + sid list" where
  "group_members W s grp =
    (if \<not> wn_utf16 W grp then Inl GroupName else read_member_pages W s grp max_member_pages 0 [])"

definition builtin_prefix :: string where "builtin_prefix = ''S-1-5-32-''"

definition is_local_group_sid :: "'s win \<Rightarrow> sid \<Rightarrow> sid \<Rightarrow> bool" where
  "is_local_group_sid W x machine \<longleftrightarrow> has_prefix (wn_sid_string W x) builtin_prefix \<or> under_machine_domain W x machine"

record admin_scan =
  as_users :: "string set"
  as_visited :: "string set"
  as_expanded :: nat

text \<open>One member of a group; \<open>descend\<close> is the expansion of a nested group.\<close>

definition scan_member ::
  "'s win \<Rightarrow> 's \<Rightarrow> sid \<Rightarrow> (string \<Rightarrow> admin_scan \<Rightarrow> users_error + admin_scan) \<Rightarrow> sid \<Rightarrow> admin_scan \<Rightarrow> users_error + admin_scan" where
  "scan_member W s machine descend m sc =
    (let ms = wn_sid_string W m in
     if ms = [] then Inl MemberText
     else case wn_lookup_account W s m of
       Inl NoneMapped \<Rightarrow> Inr sc
     | Inl (LookupOther e) \<Rightarrow>
         if has_prefix ms builtin_prefix \<or> under_machine_domain W m machine then Inl (MemberUnresolved e) else Inr sc
     | Inr (name, use) \<Rightarrow>
         (case use of
            SidUser \<Rightarrow> Inr (if under_machine_domain W m machine then sc\<lparr>as_users := insert ms (as_users sc)\<rparr> else sc)
          | SidOtherUse \<Rightarrow> Inr sc
          | _ \<Rightarrow> if \<not> is_local_group_sid W m machine then Inr sc
              else if ms \<in> as_visited sc then Inr sc
              else descend name (sc\<lparr>as_visited := insert ms (as_visited sc)\<rparr>)))"

fun scan_members :: "(sid \<Rightarrow> admin_scan \<Rightarrow> users_error + admin_scan) \<Rightarrow> sid list \<Rightarrow> admin_scan \<Rightarrow> users_error + admin_scan" where
  "scan_members f [] sc = Inr sc"
| "scan_members f (m # ms) sc = (case f m sc of Inl e \<Rightarrow> Inl e | Inr sc' \<Rightarrow> scan_members f ms sc')"

text \<open>\<open>left\<close> counts the levels that the depth limit still allows.\<close>

primrec expand_group :: "'s win \<Rightarrow> 's \<Rightarrow> sid \<Rightarrow> nat \<Rightarrow> string \<Rightarrow> admin_scan \<Rightarrow> users_error + admin_scan" where
  "expand_group W s machine 0 grp sc = Inl TooDeep"
| "expand_group W s machine (Suc left) grp sc =
    (let sc = sc\<lparr>as_expanded := as_expanded sc + 1\<rparr> in
     if max_expansion_groups < as_expanded sc then Inl TooManyGroups
     else case group_members W s grp of Inl e \<Rightarrow> Inl e
       | Inr ms \<Rightarrow> scan_members (scan_member W s machine (expand_group W s machine left)) ms sc)"

definition admins_alias_name :: "'s win \<Rightarrow> 's \<Rightarrow> users_error + string" where
  "admins_alias_name W s =
    (case wn_admins_sid W of Inl e \<Rightarrow> Inl (AliasFailed e)
     | Inr a \<Rightarrow> (case wn_lookup_account W s a of Inl _ \<Rightarrow> Inl AliasNameFailed | Inr (name, _) \<Rightarrow> Inr name))"

definition admin_local_users :: "'s win \<Rightarrow> 's \<Rightarrow> users_error + string set" where
  "admin_local_users W s =
    (case resolve_machine_sid W s of Inl e \<Rightarrow> Inl e
     | Inr machine \<Rightarrow>
       (case wn_admins_sid W of Inl e \<Rightarrow> Inl (AliasFailed e)
        | Inr a \<Rightarrow>
          (case admins_alias_name W s of Inl e \<Rightarrow> Inl e
           | Inr name \<Rightarrow>
             (case expand_group W s machine (max_expansion_depth + 1) name
                 \<lparr>as_users = {}, as_visited = {wn_sid_string W a}, as_expanded = 0\<rparr> of
                Inl e \<Rightarrow> Inl e
              | Inr sc \<Rightarrow> Inr (as_users sc)))))"

section \<open>The guard on the last administrator\<close>

datatype user_action = LockUserLogin | UnlockUserLogin | ChangeLocalPassword | OtherAction string

record lockout_facts =
  lf_target_admin :: bool
  lf_target_enabled :: bool
  lf_other_admins :: nat

definition evaluate_lockout_guard :: "user_action \<Rightarrow> lockout_facts \<Rightarrow> users_error option" where
  "evaluate_lockout_guard action f =
    (if action \<noteq> LockUserLogin then None
     else if \<not> lf_target_enabled f \<or> \<not> lf_target_admin f then None
     else if lf_other_admins f \<le> 0 then Some LastAdministrator
     else None)"

definition get_user_flags :: "'s win \<Rightarrow> 's \<Rightarrow> string \<Rightarrow> users_error + u32" where
  "get_user_flags W s username =
    (if \<not> wn_utf16 W username then Inl NameEncoding
     else case wn_get_flags W s username of Inl e \<Rightarrow> Inl (FlagsFailed e) | Inr None \<Rightarrow> Inl FlagsEmpty | Inr (Some f) \<Rightarrow> Inr f)"

text \<open>An enabled account other than the target that resolves to a member of the set.\<close>

definition counts_as_other :: "'s win \<Rightarrow> 's \<Rightarrow> string \<Rightarrow> string set \<Rightarrow> local_user \<Rightarrow> bool" where
  "counts_as_other W s target admins u \<longleftrightarrow>
     \<not> (wn_equal_fold W (lu_username u) target \<or> lu_disabled u) \<and>
     (case local_account_sid W s (lu_username u) of Inl _ \<Rightarrow> False | Inr x \<Rightarrow> wn_sid_string W x \<in> admins)"

definition gather_lockout_facts :: "'s win \<Rightarrow> 's \<Rightarrow> string \<Rightarrow> sid \<Rightarrow> users_error + lockout_facts" where
  "gather_lockout_facts W s target target_sid =
    (case get_user_flags W s target of Inl e \<Rightarrow> Inl e
     | Inr flags \<Rightarrow>
       (case admin_local_users W s of Inl e \<Rightarrow> Inl e
        | Inr admins \<Rightarrow>
          (case list_local W s of Inl e \<Rightarrow> Inl e
           | Inr us \<Rightarrow> Inr \<lparr>lf_target_admin = (wn_sid_string W target_sid \<in> admins),
               lf_target_enabled = (flags AND uf_account_disable = 0),
               lf_other_admins = length (filter (counts_as_other W s target admins) us)\<rparr>)))"

definition check_lockout_guard :: "'s win \<Rightarrow> 's \<Rightarrow> string \<Rightarrow> sid \<Rightarrow> users_error option" where
  "check_lockout_guard W s username target_sid =
    (case gather_lockout_facts W s username target_sid of Inl e \<Rightarrow> Some e
     | Inr facts \<Rightarrow> evaluate_lockout_guard LockUserLogin facts)"

section \<open>The mutations\<close>

record mutation_request =
  mq_action :: user_action
  mq_username :: string
  mq_password :: string

record mutation_result =
  mo_username :: string
  mo_action :: user_action
  mo_disabled :: "bool option"
  mo_locked_out :: "bool option"
  mo_password_changed :: bool

definition map_disabled_action :: "bool \<Rightarrow> user_action" where
  "map_disabled_action disabled = (if disabled then LockUserLogin else UnlockUserLogin)"

definition changed_flags :: "bool \<Rightarrow> u32 \<Rightarrow> u32" where
  "changed_flags disabled flags =
    (if disabled then flags OR uf_account_disable else (flags AND NOT uf_account_disable) AND NOT uf_lockout)"

definition set_user_disabled :: "'s win \<Rightarrow> string \<Rightarrow> bool \<Rightarrow> 's \<Rightarrow> (users_error + mutation_result) \<times> 's" where
  "set_user_disabled W username disabled s =
    (case get_user_flags W s username of Inl e \<Rightarrow> (Inl e, s)
     | Inr flags0 \<Rightarrow>
        let flags = changed_flags disabled flags0 in
        if \<not> wn_utf16 W username then (Inl NameEncoding, s)
        else case wn_set_flags W s username flags of
          (Some e, s') \<Rightarrow> (Inl (SetFailed e), s')
        | (None, s') \<Rightarrow> (Inr \<lparr>mo_username = username, mo_action = map_disabled_action disabled, mo_disabled = Some disabled,
            mo_locked_out = Some (flags AND uf_lockout \<noteq> 0), mo_password_changed = False\<rparr>, s'))"

definition set_user_password :: "'s win \<Rightarrow> string \<Rightarrow> string \<Rightarrow> 's \<Rightarrow> (users_error + mutation_result) \<times> 's" where
  "set_user_password W username password s =
    (if length password < 8 then (Inl PasswordTooShort, s)
     else if 256 < length password then (Inl PasswordTooLong, s)
     else if \<not> wn_utf16 W password then (Inl PasswordEncoding, s)
     else if \<not> wn_utf16 W username then (Inl NameEncoding, s)
     else case wn_set_password W s username password of
       (Some e, s') \<Rightarrow> (Inl (SetFailed e), s')
     | (None, s') \<Rightarrow> (Inr \<lparr>mo_username = username, mo_action = ChangeLocalPassword, mo_disabled = None,
         mo_locked_out = None, mo_password_changed = True\<rparr>, s'))"

definition mutate_local :: "'s win \<Rightarrow> mutation_request \<Rightarrow> 's \<Rightarrow> (users_error + mutation_result) \<times> 's" where
  "mutate_local W req s =
    (case normalize_local_username (mq_username req) of Inl e \<Rightarrow> (Inl e, s)
     | Inr username \<Rightarrow>
       (case resolve_identity W s username of Inl e \<Rightarrow> (Inl e, s)
        | Inr (x, rid) \<Rightarrow>
          (case guard_protected_rid rid of Some e \<Rightarrow> (Inl e, s)
           | None \<Rightarrow>
             (case mq_action req of
                LockUserLogin \<Rightarrow> (case check_lockout_guard W s username x of Some e \<Rightarrow> (Inl e, s)
                  | None \<Rightarrow> set_user_disabled W username True s)
              | UnlockUserLogin \<Rightarrow> set_user_disabled W username False s
              | ChangeLocalPassword \<Rightarrow>
                  if mq_password req = [] then (Inl PasswordMissing, s) else set_user_password W username (mq_password req) s
              | OtherAction a \<Rightarrow> (Inl UnsupportedAction, s)))))"

section \<open>Effective administrators\<close>

text \<open>
  The specification: a group is an administrators' group when it is the alias, or a local group among the members of
  one; a local user among the members of one is an effective administrator.
\<close>

definition groupish :: "sid_use \<Rightarrow> bool" where
  "groupish use \<longleftrightarrow> use = SidAlias \<or> use = SidGroup \<or> use = SidWellKnownGroup"

inductive admin_group :: "'s win \<Rightarrow> 's \<Rightarrow> sid \<Rightarrow> string \<Rightarrow> bool" for W s machine where
  the_alias: "wn_admins_sid W = Inr a \<Longrightarrow> wn_lookup_account W s a = Inr (name, use) \<Longrightarrow> admin_group W s machine name"
| nested_group: "admin_group W s machine g \<Longrightarrow> group_members W s g = Inr ms \<Longrightarrow> m \<in> set ms \<Longrightarrow>
    wn_lookup_account W s m = Inr (name, use) \<Longrightarrow> groupish use \<Longrightarrow> is_local_group_sid W m machine \<Longrightarrow>
    admin_group W s machine name"

definition admin_member :: "'s win \<Rightarrow> 's \<Rightarrow> sid \<Rightarrow> sid \<Rightarrow> bool" where
  "admin_member W s machine m \<longleftrightarrow> (\<exists>g ms name. admin_group W s machine g \<and> group_members W s g = Inr ms \<and> m \<in> set ms \<and>
     wn_lookup_account W s m = Inr (name, SidUser) \<and> under_machine_domain W m machine)"

text \<open>Every member of a group is accounted for in a scan.\<close>

definition member_covered :: "'s win \<Rightarrow> 's \<Rightarrow> sid \<Rightarrow> admin_scan \<Rightarrow> sid \<Rightarrow> bool" where
  "member_covered W s machine sc m \<longleftrightarrow> wn_sid_string W m \<noteq> [] \<and>
     (\<forall>name use. wn_lookup_account W s m = Inr (name, use) \<longrightarrow>
        (use = SidUser \<and> under_machine_domain W m machine \<longrightarrow> wn_sid_string W m \<in> as_users sc) \<and>
        (groupish use \<and> is_local_group_sid W m machine \<longrightarrow> wn_sid_string W m \<in> as_visited sc))"

definition group_covered :: "'s win \<Rightarrow> 's \<Rightarrow> sid \<Rightarrow> admin_scan \<Rightarrow> string \<Rightarrow> bool" where
  "group_covered W s machine sc g \<longleftrightarrow> (\<exists>ms. group_members W s g = Inr ms \<and> (\<forall>m\<in>set ms. member_covered W s machine sc m))"

text \<open>A step of the scan only adds, and covers each group it adds.\<close>

definition scan_grows :: "'s win \<Rightarrow> 's \<Rightarrow> sid \<Rightarrow> admin_scan \<Rightarrow> admin_scan \<Rightarrow> bool" where
  "scan_grows W s machine sc sc' \<longleftrightarrow> as_users sc \<subseteq> as_users sc' \<and> as_visited sc \<subseteq> as_visited sc' \<and>
     (\<forall>v \<in> as_visited sc' - as_visited sc. \<exists>m name use. wn_sid_string W m = v \<and>
        wn_lookup_account W s m = Inr (name, use) \<and> group_covered W s machine sc' name)"

lemma member_covered_mono:
  "member_covered W s machine sc m \<Longrightarrow> as_users sc \<subseteq> as_users sc' \<Longrightarrow> as_visited sc \<subseteq> as_visited sc' \<Longrightarrow>
   member_covered W s machine sc' m"
  by (auto simp: member_covered_def)

lemma group_covered_mono:
  assumes "group_covered W s machine sc g" "as_users sc \<subseteq> as_users sc'" "as_visited sc \<subseteq> as_visited sc'"
  shows "group_covered W s machine sc' g"
proof -
  obtain ms where ms: "group_members W s g = Inr ms" "\<forall>m\<in>set ms. member_covered W s machine sc m"
    using assms(1) by (auto simp: group_covered_def)
  then have "\<forall>m\<in>set ms. member_covered W s machine sc' m" using assms(2,3) by (auto intro: member_covered_mono)
  then show ?thesis using ms(1) by (auto simp: group_covered_def)
qed

lemma scan_grows_refl [simp]: "scan_grows W s machine sc sc"
  by (simp add: scan_grows_def)

lemma scan_grows_trans:
  assumes "scan_grows W s machine a b" "scan_grows W s machine b c" shows "scan_grows W s machine a c"
proof -
  have sub: "as_users b \<subseteq> as_users c" "as_visited b \<subseteq> as_visited c" using assms(2) by (auto simp: scan_grows_def)
  show ?thesis unfolding scan_grows_def
  proof (intro conjI ballI)
    fix v assume v: "v \<in> as_visited c - as_visited a"
    show "\<exists>m name use. wn_sid_string W m = v \<and> wn_lookup_account W s m = Inr (name, use) \<and> group_covered W s machine c name"
    proof (cases "v \<in> as_visited b")
      case True
      then obtain m name use where m: "wn_sid_string W m = v" "wn_lookup_account W s m = Inr (name, use)"
        and g: "group_covered W s machine b name" using v assms(1) unfolding scan_grows_def by blast
      have "group_covered W s machine c name" by (rule group_covered_mono [OF g sub])
      then show ?thesis using m by blast
    next
      case False
      then show ?thesis using v assms(2) unfolding scan_grows_def by blast
    qed
  qed (use assms in \<open>auto simp: scan_grows_def\<close>)
qed

text \<open>What the expansion of a nested group is assumed to do: grow the scan, cover the group, and find only members.\<close>

definition descends :: "'s win \<Rightarrow> 's \<Rightarrow> sid \<Rightarrow> (string \<Rightarrow> admin_scan \<Rightarrow> users_error + admin_scan) \<Rightarrow> bool" where
  "descends W s machine f \<longleftrightarrow> (\<forall>g sc sc'. f g sc = Inr sc' \<longrightarrow>
     scan_grows W s machine sc sc' \<and> group_covered W s machine sc' g \<and>
     (admin_group W s machine g \<longrightarrow> as_users sc' \<subseteq> as_users sc \<union> wn_sid_string W ` Collect (admin_member W s machine)))"

lemma scan_member_grows:
  assumes f: "descends W s machine f" and run: "scan_member W s machine f m sc = Inr sc'"
  shows "scan_grows W s machine sc sc' \<and> member_covered W s machine sc' m"
proof -
  let ?ms = "wn_sid_string W m"
  have ne: "?ms \<noteq> []" using run by (auto simp: scan_member_def split: if_splits)
  show ?thesis
  proof (cases "wn_lookup_account W s m")
    case (Inl e)
    then show ?thesis using run ne
      by (auto simp: scan_member_def member_covered_def Let_def split: lookup_error.splits if_splits)
  next
    case (Inr p)
    obtain name use where p: "p = (name, use)" by (cases p)
    show ?thesis
    proof (cases "groupish use \<and> is_local_group_sid W m machine \<and> ?ms \<notin> as_visited sc")
      case True
      let ?sc = "sc\<lparr>as_visited := insert ?ms (as_visited sc)\<rparr>"
      have "f name ?sc = Inr sc'" using run ne Inr p True
        by (cases use) (auto simp: scan_member_def groupish_def Let_def)
      then have g: "scan_grows W s machine ?sc sc'" "group_covered W s machine sc' name"
        using f unfolding descends_def by blast+
      have v: "?ms \<in> as_visited sc'" "as_users sc \<subseteq> as_users sc'" "as_visited sc \<subseteq> as_visited sc'"
        using g(1) by (auto simp: scan_grows_def)
      have "scan_grows W s machine sc sc'" unfolding scan_grows_def
      proof (intro conjI ballI)
        fix w assume "w \<in> as_visited sc' - as_visited sc"
        then show "\<exists>m name use. wn_sid_string W m = w \<and> wn_lookup_account W s m = Inr (name, use) \<and> group_covered W s machine sc' name"
          using g Inr p by (cases "w = ?ms") (auto simp: scan_grows_def)
      qed (use v in auto)
      then show ?thesis using v ne Inr p True by (auto simp: member_covered_def groupish_def)
    next
      case False
      then show ?thesis using run ne Inr p
        by (cases use) (auto simp: scan_member_def member_covered_def groupish_def scan_grows_def Let_def split: if_splits)
    qed
  qed
qed

lemma scan_members_grow:
  assumes f: "descends W s machine f"
  shows "scan_members (scan_member W s machine f) ms sc = Inr sc' \<Longrightarrow>
    scan_grows W s machine sc sc' \<and> (\<forall>m\<in>set ms. member_covered W s machine sc' m)"
proof (induction ms arbitrary: sc)
  case (Cons m ms)
  then obtain b where b: "scan_member W s machine f m sc = Inr b"
    and rest: "scan_members (scan_member W s machine f) ms b = Inr sc'" by (auto split: sum.splits)
  note x = scan_member_grows [OF f b] and y = Cons.IH [OF rest]
  have "as_users b \<subseteq> as_users sc'" "as_visited b \<subseteq> as_visited sc'" using y by (auto simp: scan_grows_def)
  then have "member_covered W s machine sc' m" using x by (auto intro: member_covered_mono)
  then show ?case using x y scan_grows_trans by auto
qed simp

lemma scan_members_sound:
  assumes f: "descends W s machine f" and g: "admin_group W s machine g" and gm: "group_members W s g = Inr gms"
  shows "set ms \<subseteq> set gms \<Longrightarrow> scan_members (scan_member W s machine f) ms sc = Inr sc' \<Longrightarrow>
    as_users sc' \<subseteq> as_users sc \<union> wn_sid_string W ` Collect (admin_member W s machine)"
proof (induction ms arbitrary: sc)
  case (Cons m ms)
  then obtain b where b: "scan_member W s machine f m sc = Inr b"
    and rest: "scan_members (scan_member W s machine f) ms b = Inr sc'" by (auto split: sum.splits)
  have m: "m \<in> set gms" using Cons.prems by simp
  have "as_users b \<subseteq> as_users sc \<union> wn_sid_string W ` Collect (admin_member W s machine)"
  proof (cases "\<exists>name use. wn_lookup_account W s m = Inr (name, use) \<and> groupish use \<and> is_local_group_sid W m machine")
    case True
    then obtain name use where l: "wn_lookup_account W s m = Inr (name, use)" "groupish use" "is_local_group_sid W m machine"
      by blast
    have "admin_group W s machine name" by (rule nested_group [OF g gm m l])
    then show ?thesis using b l f
      by (cases use) (fastforce simp: scan_member_def groupish_def descends_def Let_def split: if_splits)+
  next
    case False
    have "admin_member W s machine m"
      if "wn_lookup_account W s m = Inr (name, SidUser)" "under_machine_domain W m machine" for name
      using g gm m that by (auto simp: admin_member_def)
    then show ?thesis using b False
      by (auto simp: scan_member_def groupish_def Let_def split: if_splits sum.splits lookup_error.splits sid_use.splits)
  qed
  then show ?case using Cons.IH [OF _ rest] Cons.prems(1) by fastforce
qed simp

lemma expand_descends: "descends W s machine (expand_group W s machine left)"
proof (induction left)
  case 0
  then show ?case by (simp add: descends_def)
next
  case (Suc left)
  show ?case unfolding descends_def
  proof (intro allI impI)
    fix g sc sc' assume run: "expand_group W s machine (Suc left) g sc = Inr sc'"
    let ?sc = "sc\<lparr>as_expanded := as_expanded sc + 1\<rparr>"
    obtain ms where ms: "group_members W s g = Inr ms"
      and rest: "scan_members (scan_member W s machine (expand_group W s machine left)) ms ?sc = Inr sc'"
      using run by (auto simp: Let_def split: if_splits sum.splits)
    have "scan_grows W s machine sc ?sc" by (simp add: scan_grows_def)
    then show "scan_grows W s machine sc sc' \<and> group_covered W s machine sc' g \<and>
      (admin_group W s machine g \<longrightarrow> as_users sc' \<subseteq> as_users sc \<union> wn_sid_string W ` Collect (admin_member W s machine))"
      using scan_members_grow [OF Suc rest] scan_members_sound [OF Suc _ ms order_refl rest] scan_grows_trans ms
      by (auto simp: group_covered_def)
  qed
qed

text \<open>The text of an identifier determines it.\<close>

definition sid_text_unique :: "'s win \<Rightarrow> bool" where
  "sid_text_unique W \<longleftrightarrow> (\<forall>x y. wn_sid_string W x = wn_sid_string W y \<longrightarrow> wn_sid_string W x \<noteq> [] \<longrightarrow> x = y)"

lemma admin_users_closure:
  assumes unique: "sid_text_unique W" and run: "admin_local_users W s = Inr S"
  shows "\<exists>machine. resolve_machine_sid W s = Inr machine \<and> S = wn_sid_string W ` Collect (admin_member W s machine) \<and> [] \<notin> S"
proof -
  obtain machine a name sc where mach: "resolve_machine_sid W s = Inr machine" and a: "wn_admins_sid W = Inr a"
    and name: "admins_alias_name W s = Inr name"
    and ex: "expand_group W s machine (max_expansion_depth + 1) name
      \<lparr>as_users = {}, as_visited = {wn_sid_string W a}, as_expanded = 0\<rparr> = Inr sc" and S: "S = as_users sc"
    using run by (auto simp: admin_local_users_def split: sum.splits)
  obtain use where look: "wn_lookup_account W s a = Inr (name, use)"
    using name a by (auto simp: admins_alias_name_def split: sum.splits)
  let ?init = "\<lparr>as_users = {}, as_visited = {wn_sid_string W a}, as_expanded = 0\<rparr>"
  have grows: "scan_grows W s machine ?init sc" and cover: "group_covered W s machine sc name"
    and sound: "as_users sc \<subseteq> wn_sid_string W ` Collect (admin_member W s machine)"
    using expand_descends [of W s machine "max_expansion_depth + 1"] ex the_alias [OF a look]
    unfolding descends_def by fastforce+
  have covered: "group_covered W s machine sc g" if "admin_group W s machine g" for g
    using that
  proof (induction rule: admin_group.induct)
    case (the_alias a' n u)
    then show ?case using a look cover by auto
  next
    case (nested_group g ms m n u)
    then have m: "member_covered W s machine sc m" by (auto simp: group_covered_def)
    then have v: "wn_sid_string W m \<in> as_visited sc" "wn_sid_string W m \<noteq> []"
      using nested_group.hyps by (auto simp: member_covered_def)
    show ?case
    proof (cases "wn_sid_string W m = wn_sid_string W a")
      case True
      then have "m = a" using unique v(2) by (auto simp: sid_text_unique_def)
      then show ?thesis using nested_group.hyps look cover by auto
    next
      case False
      then obtain m' n' u' where m': "wn_sid_string W m' = wn_sid_string W m"
        "wn_lookup_account W s m' = Inr (n', u')" "group_covered W s machine sc n'"
        using grows v(1) unfolding scan_grows_def by force
      then have "m' = m" using unique v(2) by (auto simp: sid_text_unique_def)
      then show ?thesis using m' nested_group.hyps by auto
    qed
  qed
  have found: "wn_sid_string W m \<in> as_users sc \<and> wn_sid_string W m \<noteq> []" if "admin_member W s machine m" for m
    using that covered by (fastforce simp: admin_member_def group_covered_def member_covered_def)
  have "[] \<notin> as_users sc"
  proof
    assume "[] \<in> as_users sc"
    from subsetD [OF sound this] obtain m where "admin_member W s machine m" "wn_sid_string W m = []" by auto
    with found show False by blast
  qed
  then show ?thesis using mach S sound found by (intro exI [of _ machine]) auto
qed

text \<open>
  Property C24: the set of effective administrators that the guard works with is complete: when the scan of the nested
  local groups returns, within its limits, it has found exactly the local users reachable from the Administrators
  alias, cycles and repeated groups included.
\<close>

theorem flattened_set_is_complete:
  assumes "sid_text_unique W" and "admin_local_users W s = Inr S"
  shows "\<exists>machine. resolve_machine_sid W s = Inr machine \<and> S = wn_sid_string W ` Collect (admin_member W s machine)"
  using admin_users_closure [OF assms] by blast

section \<open>An administrator remains\<close>

definition enabled_admin :: "'s win \<Rightarrow> 's \<Rightarrow> local_user \<Rightarrow> bool" where
  "enabled_admin W s u \<longleftrightarrow> (\<exists>us x machine. list_local W s = Inr us \<and> u \<in> set us \<and> \<not> lu_disabled u \<and>
     local_account_sid W s (lu_username u) = Inr x \<and> resolve_machine_sid W s = Inr machine \<and> admin_member W s machine x)"

fun answer_accounts :: "enum_answer \<Rightarrow> sam_account list option" where
  "answer_accounts (EnumLast (Some e) _) = None"
| "answer_accounts (EnumLast None entries) = Some entries"
| "answer_accounts (EnumMore entries rest) = map_option ((@) entries) (answer_accounts rest)"

lemma list_pages_accounts:
  "list_pages a us = Inr r \<longleftrightarrow> (\<exists>es. answer_accounts a = Some es \<and> r = us @ map user_from_net_api es)"
proof (induction a us rule: list_pages.induct)
  case (3 entries rest users)
  then show ?case by (cases "answer_accounts rest") simp_all
qed auto

lemma list_local_Inr:
  "list_local W s = Inr us \<longleftrightarrow>
   (\<exists>es. answer_accounts (wn_enum W s) = Some es \<and> us = sort_key lu_username (map user_from_net_api es))"
proof (cases "list_pages (wn_enum W s) []")
  case (Inl e)
  then have "answer_accounts (wn_enum W s) = None"
    using list_pages_accounts [of "wn_enum W s" "[]"] by (cases "answer_accounts (wn_enum W s)") auto
  with Inl show ?thesis by (simp add: list_local_def)
next
  case (Inr r)
  then show ?thesis
    using list_pages_accounts [of "wn_enum W s" "[]" r] by (auto simp: list_local_def simp del: list_pages.simps)
qed

lemma net_api_user [simp]:
  "lu_username (user_from_net_api a) = ac_name a"
  "lu_disabled (user_from_net_api a) \<longleftrightarrow> ac_flags a AND uf_account_disable \<noteq> 0"
  by (simp_all add: user_from_net_api_def)

lemma enabled_admin_iff:
  "enabled_admin W s u \<longleftrightarrow> (\<exists>es a x machine. answer_accounts (wn_enum W s) = Some es \<and> a \<in> set es \<and> u = user_from_net_api a \<and>
     ac_flags a AND uf_account_disable = 0 \<and> local_account_sid W s (ac_name a) = Inr x \<and>
     resolve_machine_sid W s = Inr machine \<and> admin_member W s machine x)"
  by (auto simp: enabled_admin_def list_local_Inr) blast

lemma enabled_adminI:
  "answer_accounts (wn_enum W s) = Some es \<Longrightarrow> a \<in> set es \<Longrightarrow> ac_flags a AND uf_account_disable = 0 \<Longrightarrow>
   local_account_sid W s (ac_name a) = Inr x \<Longrightarrow> resolve_machine_sid W s = Inr machine \<Longrightarrow> admin_member W s machine x \<Longrightarrow>
   enabled_admin W s (user_from_net_api a)"
  by (auto simp: enabled_admin_iff)

text \<open>
  What Windows documents of the calls: identities and groups do not depend on the flags and passwords of accounts; account
  names are the same up to case; a change of flags is seen in the enumeration, for this account only, and a change of
  the password not at all; \<open>NetUserGetInfo\<close> reads the flags that the enumeration lists.
\<close>

definition same_identities :: "'s win \<Rightarrow> 's \<Rightarrow> 's \<Rightarrow> bool" where
  "same_identities W s s' \<longleftrightarrow> wn_machine_sid W s' = wn_machine_sid W s \<and> wn_lookup_sid W s' = wn_lookup_sid W s \<and>
     wn_lookup_account W s' = wn_lookup_account W s \<and> wn_members W s' = wn_members W s"

definition sam_laws :: "'s win \<Rightarrow> bool" where
  "sam_laws W \<longleftrightarrow> sid_text_unique W \<and>
     (\<forall>s n m. wn_equal_fold W m n \<longrightarrow> wn_lookup_sid W s m = wn_lookup_sid W s n) \<and>
     (\<forall>s n f es a. wn_get_flags W s n = Inr (Some f) \<longrightarrow> answer_accounts (wn_enum W s) = Some es \<longrightarrow> a \<in> set es \<longrightarrow>
        wn_equal_fold W (ac_name a) n \<longrightarrow> ac_flags a = f) \<and>
     (\<forall>s n f s'. wn_set_flags W s n f = (None, s') \<longrightarrow> same_identities W s s' \<and>
        answer_accounts (wn_enum W s') = map_option (map (\<lambda>a. if wn_equal_fold W (ac_name a) n then a\<lparr>ac_flags := f\<rparr> else a))
          (answer_accounts (wn_enum W s))) \<and>
     (\<forall>s n p s'. wn_set_password W s n p = (None, s') \<longrightarrow> same_identities W s s' \<and>
        answer_accounts (wn_enum W s') = answer_accounts (wn_enum W s))"

lemma same_members:
  assumes "wn_members W s' = wn_members W s" shows "group_members W s' g = group_members W s g"
proof -
  have "read_member_pages W s' g left page out = read_member_pages W s g left page out" for left page out
    by (induction left arbitrary: page out) (simp_all add: assms Let_def split: prod.split page_status.split)
  then show ?thesis by (simp add: group_members_def)
qed

lemma admin_group_same:
  assumes "same_identities W s s'" and "admin_group W s machine g" shows "admin_group W s' machine g"
  using assms(2)
proof (induction rule: admin_group.induct)
  case (the_alias a name use)
  then show ?case using assms(1) by (auto simp: same_identities_def intro: admin_group.the_alias)
next
  case (nested_group g ms m name use)
  moreover have "group_members W s' g = Inr ms" "wn_lookup_account W s' m = Inr (name, use)"
    using assms(1) nested_group.hyps same_members [of W s' s g] by (simp_all add: same_identities_def)
  ultimately show ?case using admin_group.nested_group by metis
qed

lemma identities_kept:
  assumes "same_identities W s s'"
  shows "local_account_sid W s' n = local_account_sid W s n" "resolve_machine_sid W s' = resolve_machine_sid W s"
    "admin_member W s machine x \<Longrightarrow> admin_member W s' machine x"
  using assms admin_group_same [OF assms] same_members [of W s' s]
  by (auto simp: local_account_sid_def resolve_machine_sid_def same_identities_def admin_member_def split: sum.splits option.splits)

text \<open>An enabled administrator whose account is in the new enumeration is one there.\<close>

lemma still_admin:
  assumes "same_identities W s s'" and "answer_accounts (wn_enum W s') = Some es" "b \<in> set es"
    and "ac_flags b AND uf_account_disable = 0" "local_account_sid W s (ac_name b) = Inr x"
    and "resolve_machine_sid W s = Inr machine" "admin_member W s machine x"
  shows "\<exists>u. enabled_admin W s' u"
  using assms identities_kept [OF assms(1)] by (auto simp: enabled_admin_iff)

lemma guard_leaves_other:
  assumes laws: "sam_laws W" and guard: "check_lockout_guard W s username x = None"
    and look: "local_account_sid W s username = Inr x"
    and es: "answer_accounts (wn_enum W s) = Some es" and a: "a \<in> set es" and fold: "wn_equal_fold W (ac_name a) username"
    and on: "ac_flags a AND uf_account_disable = 0" and m: "resolve_machine_sid W s = Inr machine" "admin_member W s machine x"
  shows "\<exists>b y. b \<in> set es \<and> \<not> wn_equal_fold W (ac_name b) username \<and> ac_flags b AND uf_account_disable = 0 \<and>
    local_account_sid W s (ac_name b) = Inr y \<and> admin_member W s machine y"
proof -
  obtain flags S us where f: "get_user_flags W s username = Inr flags" and S: "admin_local_users W s = Inr S"
    and us: "list_local W s = Inr us"
    and none: "evaluate_lockout_guard LockUserLogin \<lparr>lf_target_admin = (wn_sid_string W x \<in> S),
       lf_target_enabled = (flags AND uf_account_disable = 0),
       lf_other_admins = length (filter (counts_as_other W s username S) us)\<rparr> = None"
    using guard by (auto simp: check_lockout_guard_def gather_lockout_facts_def split: sum.splits)
  have unique: "sid_text_unique W" using laws by (simp add: sam_laws_def)
  have S_eq: "S = wn_sid_string W ` Collect (admin_member W s machine)" "[] \<notin> S"
    using admin_users_closure [OF unique S] m(1) by auto
  have "wn_get_flags W s username = Inr (Some flags)"
    using f by (auto simp: get_user_flags_def split: if_splits sum.splits option.splits)
  then have "ac_flags a = flags" using laws es a fold unfolding sam_laws_def by blast
  then have "filter (counts_as_other W s username S) us \<noteq> []"
    using none on m(2) S_eq by (auto simp: evaluate_lockout_guard_def split: if_splits)
  then obtain u where u: "u \<in> set us" "counts_as_other W s username S u" by (auto simp: filter_empty_conv)
  then obtain b where b: "b \<in> set es" "u = user_from_net_api b" using us es by (auto simp: list_local_Inr)
  with u(2) obtain y where y: "\<not> wn_equal_fold W (ac_name b) username" "ac_flags b AND uf_account_disable = 0"
    "local_account_sid W s (ac_name b) = Inr y" "wn_sid_string W y \<in> S"
    by (auto simp: counts_as_other_def split: sum.splits)
  from y(4) obtain z where z: "admin_member W s machine z" "wn_sid_string W z = wn_sid_string W y" using S_eq(1) by auto
  have "wn_sid_string W z \<noteq> []" using z y(4) S_eq(2) by auto
  then have "admin_member W s machine y" using unique z by (auto simp: sid_text_unique_def)
  then show ?thesis using b y by blast
qed

lemma disabled_bit:
  fixes f :: u32
  shows "changed_flags False f AND uf_account_disable = 0"
  by (auto simp: changed_flags_def intro!: bit_eqI simp: bit_simps)

lemma set_disabled_Inr:
  assumes "set_user_disabled W username d s = (Inr r, s')"
  obtains f where "wn_get_flags W s username = Inr (Some f)" "wn_set_flags W s username (changed_flags d f) = (None, s')"
  using assms by (auto simp: set_user_disabled_def get_user_flags_def Let_def split: sum.splits if_splits option.splits prod.splits)

lemma set_flags_keeps_admin:
  assumes laws: "sam_laws W" and set: "wn_set_flags W s username g = (None, s')"
    and es: "answer_accounts (wn_enum W s) = Some es" "a \<in> set es" "ac_flags a AND uf_account_disable = 0"
    and x: "local_account_sid W s (ac_name a) = Inr x"
    and m: "resolve_machine_sid W s = Inr machine" "admin_member W s machine x"
    and ok: "wn_equal_fold W (ac_name a) username \<Longrightarrow> g AND uf_account_disable = 0 \<or>
      (\<exists>b z. b \<in> set es \<and> \<not> wn_equal_fold W (ac_name b) username \<and> ac_flags b AND uf_account_disable = 0 \<and>
         local_account_sid W s (ac_name b) = Inr z \<and> admin_member W s machine z)"
  shows "\<exists>u. enabled_admin W s' u"
proof -
  have same: "same_identities W s s'" and es': "answer_accounts (wn_enum W s') =
      Some (map (\<lambda>a. if wn_equal_fold W (ac_name a) username then a\<lparr>ac_flags := g\<rparr> else a) es)"
    using laws set es(1) unfolding sam_laws_def by auto
  note keep = still_admin [OF same es' _ _ _ m(1)]
  have other: ?thesis if "b \<in> set es" "\<not> wn_equal_fold W (ac_name b) username" "ac_flags b AND uf_account_disable = 0"
    "local_account_sid W s (ac_name b) = Inr z" "admin_member W s machine z" for b z
    by (rule keep [of b]) (use that in \<open>auto simp: image_iff intro!: bexI [of _ b]\<close>)
  show ?thesis
  proof (cases "wn_equal_fold W (ac_name a) username \<and> g AND uf_account_disable = 0")
    case True
    show ?thesis by (rule keep [of "a\<lparr>ac_flags := g\<rparr>"]) (use True es x m in \<open>auto simp: image_iff intro!: bexI [of _ a]\<close>)
  next
    case False
    then show ?thesis using ok other es x m(2) by blast
  qed
qed

text \<open>
  Property C20: no change of a local account that succeeds takes away the last enabled local administrator: when the
  machine has one before, nested groups counted, it has one after.
\<close>

theorem administrators_remain:
  assumes laws: "sam_laws W" and run: "mutate_local W req s = (Inr r, s')" and before: "enabled_admin W s u"
  shows "\<exists>u. enabled_admin W s' u"
proof -
  obtain es a x machine where es: "answer_accounts (wn_enum W s) = Some es" and a: "a \<in> set es"
    and on: "ac_flags a AND uf_account_disable = 0" and x: "local_account_sid W s (ac_name a) = Inr x"
    and m: "resolve_machine_sid W s = Inr machine" "admin_member W s machine x"
    using before by (auto simp: enabled_admin_iff)
  obtain username y rid where id: "resolve_identity W s username = Inr (y, rid)"
    and act: "(case mq_action req of
                LockUserLogin \<Rightarrow> (case check_lockout_guard W s username y of Some e \<Rightarrow> (Inl e, s)
                  | None \<Rightarrow> set_user_disabled W username True s)
              | UnlockUserLogin \<Rightarrow> set_user_disabled W username False s
              | ChangeLocalPassword \<Rightarrow>
                  if mq_password req = [] then (Inl PasswordMissing, s) else set_user_password W username (mq_password req) s
              | OtherAction a \<Rightarrow> (Inl UnsupportedAction, s)) = (Inr r, s')"
    using run by (auto simp: mutate_local_def split: sum.splits option.splits)
  have y: "local_account_sid W s username = Inr y"
    using id by (auto simp: resolve_identity_def split: sum.splits)
  note flags_case = set_flags_keeps_admin [OF laws _ es a on x m]
  show ?thesis
  proof (cases "mq_action req")
    case LockUserLogin
    then have guard: "check_lockout_guard W s username y = None" and set: "set_user_disabled W username True s = (Inr r, s')"
      using act by (auto split: option.splits)
    have "y = x" if "wn_equal_fold W (ac_name a) username"
    proof -
      have "wn_lookup_sid W s (ac_name a) = wn_lookup_sid W s username" using laws that unfolding sam_laws_def by blast
      then show ?thesis using x y by (simp add: local_account_sid_def)
    qed
    then show ?thesis
      using set_disabled_Inr [OF set] flags_case guard_leaves_other [OF laws guard y es a _ on m(1)] m(2) by metis
  next
    case UnlockUserLogin
    then have "set_user_disabled W username False s = (Inr r, s')" using act by simp
    then show ?thesis using flags_case disabled_bit set_disabled_Inr by metis
  next
    case ChangeLocalPassword
    then have "wn_set_password W s username (mq_password req) = (None, s')"
      using act by (auto simp: set_user_password_def split: if_splits prod.splits option.splits)
    then have "same_identities W s s'" "answer_accounts (wn_enum W s') = Some es"
      using laws es unfolding sam_laws_def by auto
    then show ?thesis by (rule still_admin [OF _ _ a on x m])
  next
    case (OtherAction n)
    then show ?thesis using act by simp
  qed
qed

text \<open>
  Only a local user account whose relative identifier is not reserved is ever touched, whatever its name, and a lock only
  after the guard on the last administrator has passed.
\<close>

lemma changes_are_guarded:
  assumes "mutate_local W req s = (r, s')" and "s' \<noteq> s"
  shows "\<exists>n x. normalize_local_username (mq_username req) = Inr n \<and> local_account_sid W s n = Inr x \<and>
    List.last (sub_authorities x) \<notin> {500, 501, 502, 503, 504} \<and>
    (mq_action req = LockUserLogin \<longrightarrow> check_lockout_guard W s n x = None)"
  using assms
  by (auto simp: mutate_local_def resolve_identity_def rid_from_sid_def guard_protected_rid_def reserved_rids_def
      split: sum.splits option.splits if_splits user_action.splits)

section \<open>A machine with two administrators, one through a nested group\<close>

definition sid_text :: "sid \<Rightarrow> string" where
  "sid_text x = ''S-1-'' @ join_with (CHR ''-'') (map format_nat (sid_authority x # map unat (sub_authorities x)))"

lemma sid_text_inj: "sid_text x = sid_text y \<Longrightarrow> x = y"
proof -
  assume eq: "sid_text x = sid_text y"
  let ?f = "\<lambda>x. map format_nat (sid_authority x # map unat (sub_authorities x))"
  have "CHR ''-'' \<notin> set (format_nat n)" for n
    using format_nat_digits [of n] by (auto simp: list_all_iff is_digit_def)
  then have plain: "\<forall>p\<in>set (?f x). CHR ''-'' \<notin> set p" for x by auto
  have "?f x = split_on (CHR ''-'') (join_with (CHR ''-'') (?f x))" for x
    using split_join [OF _ plain] by simp
  then have "?f x = ?f y" using eq by (metis sid_text_def same_append_eq)
  then have "map digits_val (?f x) = map digits_val (?f y)" by simp
  then have "sid_authority x = sid_authority y \<and> map unat (sub_authorities x) = map unat (sub_authorities y)"
    by (simp add: comp_def digits_val_format)
  moreover have "inj (unat :: u32 \<Rightarrow> nat)" by (auto simp: inj_def word_unat_eq_iff)
  ultimately show "x = y" by (cases x; cases y) (auto dest: map_injective)
qed

definition machine_user :: "nat \<Rightarrow> sid" where
  "machine_user rid = Sid 5 [21, 7, of_nat rid]"

text \<open>The state is the flags of the two accounts; \<open>bob\<close> is an administrator only through \<open>helpers\<close>, which contains the alias.\<close>

definition two_admins :: "(u32 \<times> u32) win" where
  "two_admins =
    \<lparr>wn_lower = to_lower, wn_equal_fold = (\<lambda>a b. to_lower a = to_lower b), wn_utf16 = (\<lambda>_. True), wn_sid_string = sid_text,
     wn_copy = (\<lambda>_. True), wn_admins_sid = Inr (Sid 5 [32, 544]), wn_machine_sid = (\<lambda>_. Inr (Some (Sid 5 [21, 7]))),
     wn_lookup_sid = (\<lambda>_ n. if to_lower n = ''alice'' then Inr (machine_user 1001, SidUser)
        else if to_lower n = ''bob'' then Inr (machine_user 1002, SidUser) else Inl 1332),
     wn_lookup_account = (\<lambda>_ x. if x = Sid 5 [32, 544] then Inr (''Administrators'', SidAlias)
        else if x = machine_user 1001 then Inr (''alice'', SidUser) else if x = machine_user 1002 then Inr (''bob'', SidUser)
        else if x = machine_user 2000 then Inr (''helpers'', SidAlias) else Inl NoneMapped),
     wn_members = (\<lambda>_ g _. (PageDone,
        if g = ''Administrators'' then Some [Some (machine_user 1001), Some (machine_user 2000)]
        else Some [Some (machine_user 1002), Some (Sid 5 [32, 544])])),
     wn_enum = (\<lambda>(a, b). EnumMore [\<lparr>ac_name = ''alice'', ac_comment = [], ac_flags = a\<rparr>]
        (EnumLast None [\<lparr>ac_name = ''bob'', ac_comment = [], ac_flags = b\<rparr>])),
     wn_get_flags = (\<lambda>(a, b) n. if to_lower n = ''alice'' then Inr (Some a) else if to_lower n = ''bob'' then Inr (Some b) else Inl 2221),
     wn_set_flags = (\<lambda>(a, b) n f. if to_lower n = ''alice'' then (None, (f, b)) else if to_lower n = ''bob'' then (None, (a, f))
        else (Some 2221, (a, b))),
     wn_set_password = (\<lambda>s _ _. (None, s))\<rparr>"

lemma two_admins_fields [simp]:
  "wn_equal_fold two_admins = (\<lambda>a b. to_lower a = to_lower b)" "wn_utf16 two_admins n" "wn_sid_string two_admins = sid_text"
  "wn_copy two_admins x" "wn_admins_sid two_admins = Inr (Sid 5 [32, 544])"
  "wn_machine_sid two_admins s = Inr (Some (Sid 5 [21, 7]))"
  "wn_lookup_sid two_admins s n = (if to_lower n = ''alice'' then Inr (machine_user 1001, SidUser)
     else if to_lower n = ''bob'' then Inr (machine_user 1002, SidUser) else Inl 1332)"
  "wn_lookup_account two_admins s x = (if x = Sid 5 [32, 544] then Inr (''Administrators'', SidAlias)
     else if x = machine_user 1001 then Inr (''alice'', SidUser) else if x = machine_user 1002 then Inr (''bob'', SidUser)
     else if x = machine_user 2000 then Inr (''helpers'', SidAlias) else Inl NoneMapped)"
  "wn_members two_admins s g k = (PageDone,
     if g = ''Administrators'' then Some [Some (machine_user 1001), Some (machine_user 2000)]
     else Some [Some (machine_user 1002), Some (Sid 5 [32, 544])])"
  "wn_enum two_admins (a, b) = EnumMore [\<lparr>ac_name = ''alice'', ac_comment = [], ac_flags = a\<rparr>]
     (EnumLast None [\<lparr>ac_name = ''bob'', ac_comment = [], ac_flags = b\<rparr>])"
  "wn_get_flags two_admins (a, b) n =
     (if to_lower n = ''alice'' then Inr (Some a) else if to_lower n = ''bob'' then Inr (Some b) else Inl 2221)"
  "wn_set_flags two_admins (a, b) n f = (if to_lower n = ''alice'' then (None, (f, b))
     else if to_lower n = ''bob'' then (None, (a, f)) else (Some 2221, (a, b)))"
  "wn_set_password two_admins s n p = (None, s)"
  by (simp_all add: two_admins_def)

lemma two_admins_names [simp]: "to_lower ''alice'' = ''alice''" "to_lower ''bob'' = ''bob''"
  by code_simp+

lemma two_admins_laws: "sam_laws two_admins"
proof -
  have same: "same_identities two_admins s t" for s t by (auto simp: same_identities_def fun_eq_iff)
  show ?thesis unfolding sam_laws_def
  proof (intro conjI)
    show "sid_text_unique two_admins" by (auto simp: sid_text_unique_def dest: sid_text_inj)
  qed (auto simp: same split: if_splits)
qed

definition lock_request :: "string \<Rightarrow> mutation_request" where
  "lock_request n = \<lparr>mq_action = LockUserLogin, mq_username = n, mq_password = []\<rparr>"

lemma two_admins_text [simp]:
  "sid_text (Sid 5 [32, 544]) = ''S-1-5-32-544''" "sid_text (Sid 5 [21, 7]) = ''S-1-5-21-7''"
  "sid_text (machine_user 1001) = ''S-1-5-21-7-1001''" "sid_text (machine_user 1002) = ''S-1-5-21-7-1002''"
  "sid_text (machine_user 2000) = ''S-1-5-21-7-2000''"
  by code_simp+

lemma two_admins_users [simp]:
  "under_machine_domain two_admins (machine_user 1001) (Sid 5 [21, 7])"
  "under_machine_domain two_admins (machine_user 1002) (Sid 5 [21, 7])"
  "under_machine_domain two_admins (machine_user 2000) (Sid 5 [21, 7])"
  "machine_user 1001 \<noteq> Sid 5 [32, 544]" "machine_user 1002 \<noteq> Sid 5 [32, 544]" "machine_user 2000 \<noteq> Sid 5 [32, 544]"
  "machine_user 1002 \<noteq> machine_user 1001" "machine_user 2000 \<noteq> machine_user 1001" "machine_user 2000 \<noteq> machine_user 1002"
  by (simp_all add: under_machine_domain_def has_prefix_def) (simp_all add: machine_user_def)

lemma two_admins_members [simp]:
  "group_members two_admins s ''Administrators'' = Inr [machine_user 1001, machine_user 2000]"
  "group_members two_admins s ''helpers'' = Inr [machine_user 1002, Sid 5 [32, 544]]"
  by (simp_all add: group_members_def max_member_pages_def numeral_eq_Suc)

lemma expand_numeral:
  "expand_group W s machine (numeral k) g sc =
    (let sc = sc\<lparr>as_expanded := as_expanded sc + 1\<rparr> in
     if max_expansion_groups < as_expanded sc then Inl TooManyGroups
     else case group_members W s g of Inl e \<Rightarrow> Inl e
       | Inr ms \<Rightarrow> scan_members (scan_member W s machine (expand_group W s machine (pred_numeral k))) ms sc)"
  by (simp add: numeral_eq_Suc)

lemma two_admins_set:
  "admin_local_users two_admins s = Inr {''S-1-5-21-7-1001'', ''S-1-5-21-7-1002''}"
proof -
  have "has_prefix ''S-1-5-32-544'' builtin_prefix" by code_simp
  then show ?thesis
    by (simp add: admin_local_users_def resolve_machine_sid_def admins_alias_name_def max_expansion_depth_def expand_numeral
        max_expansion_groups_def scan_member_def is_local_group_sid_def insert_commute)
qed

lemma two_admins_lock:
  "mutate_local two_admins (lock_request ''alice'') (0x200, 0x200) =
     (Inr \<lparr>mo_username = ''alice'', mo_action = LockUserLogin, mo_disabled = Some True, mo_locked_out = Some False,
        mo_password_changed = False\<rparr>, (0x202, 0x200))"
  "fst (mutate_local two_admins (lock_request ''alice'') (0x200, 0x202)) = Inl LastAdministrator"
proof -
  have name: "normalize_local_username ''alice'' = Inr ''alice''" by code_simp
  have id: "local_account_sid two_admins s ''alice'' = Inr (machine_user 1001)"
    "local_account_sid two_admins s ''bob'' = Inr (machine_user 1002)" for s
    by (simp_all add: local_account_sid_def resolve_machine_sid_def)
  have rid: "resolve_identity two_admins s ''alice'' = Inr (machine_user 1001, 1001)" for s
    by (simp add: resolve_identity_def id rid_from_sid_def) (simp add: machine_user_def)
  have bits: "0x200 AND uf_account_disable = 0" "0x202 AND uf_account_disable \<noteq> 0" "changed_flags True 0x200 = 0x202"
    "0x202 AND uf_lockout = 0" by code_simp+
  note run = mutate_local_def lock_request_def name rid guard_protected_rid_def reserved_rids_def check_lockout_guard_def
    gather_lockout_facts_def get_user_flags_def two_admins_set list_local_def user_from_net_api_def counts_as_other_def id
    evaluate_lockout_guard_def bits set_user_disabled_def Let_def map_disabled_action_def
  show "mutate_local two_admins (lock_request ''alice'') (0x200, 0x200) =
     (Inr \<lparr>mo_username = ''alice'', mo_action = LockUserLogin, mo_disabled = Some True, mo_locked_out = Some False,
        mo_password_changed = False\<rparr>, (0x202, 0x200))"
    by (simp add: run)
  show "fst (mutate_local two_admins (lock_request ''alice'') (0x200, 0x202)) = Inl LastAdministrator"
    by (simp add: run)
qed

lemma two_admins_unique: "sid_text_unique two_admins"
  using two_admins_laws by (simp add: sam_laws_def)

lemma flattened_set_is_complete_witness:
  "\<exists>machine. resolve_machine_sid two_admins (0x200, 0x200) = Inr machine \<and>
     {''S-1-5-21-7-1001'', ''S-1-5-21-7-1002''} = sid_text ` Collect (admin_member two_admins (0x200, 0x200) machine)"
  using flattened_set_is_complete [OF two_admins_unique two_admins_set] by simp

lemma administrators_remain_witness:
  "\<exists>u. enabled_admin two_admins (0x202, 0x200) u"
proof -
  obtain machine where m: "resolve_machine_sid two_admins (0x200, 0x200) = Inr machine"
    and S: "{''S-1-5-21-7-1001'', ''S-1-5-21-7-1002''} = sid_text ` Collect (admin_member two_admins (0x200, 0x200) machine)"
    using admin_users_closure [OF two_admins_unique two_admins_set, of "(0x200, 0x200)"] by auto
  have "sid_text (machine_user 1001) \<in> sid_text ` Collect (admin_member two_admins (0x200, 0x200) machine)"
    unfolding S [symmetric] by simp
  then have adm: "admin_member two_admins (0x200, 0x200) machine (machine_user 1001)"
    by (blast dest: sid_text_inj)
  let ?a = "\<lparr>ac_name = ''alice'', ac_comment = [], ac_flags = 0x200\<rparr>"
  have "local_account_sid two_admins (0x200, 0x200) ''alice'' = Inr (machine_user 1001)"
    by (simp add: local_account_sid_def resolve_machine_sid_def)
  moreover have "answer_accounts (wn_enum two_admins (0x200, 0x200)) =
       Some [?a, \<lparr>ac_name = ''bob'', ac_comment = [], ac_flags = 0x200\<rparr>]" by simp
  moreover have "(0x200 :: u32) AND uf_account_disable = 0" by code_simp
  ultimately have "enabled_admin two_admins (0x200, 0x200) (user_from_net_api ?a)"
    using m adm by (auto intro!: enabled_adminI [where x = "machine_user 1001"])
  from administrators_remain [OF two_admins_laws two_admins_lock(1) this] show ?thesis .
qed

end
