(* ===== verification/DisplayPolicy.thy ===== *)
theory DisplayPolicy
  imports Staging
begin

text \<open>
  The managed screensaver and wallpaper (\<open>src/internal/displaypolicy\<close>): validation (\<open>types.go\<close>), managed images and
  their store (\<open>asset.go\<close>, \<open>asset_windows.go\<close>) and the writer of the policy values (\<open>apply_windows.go\<close>).

  The user hives are a \<open>registry\<close> with a schedule of faults, one per call, like the one of \<open>World\<close> for files; the
  backend's answer to a download and Unicode case mapping are parameters. A security descriptor is only a call that may
  fail.
\<close>

section \<open>Commands\<close>

record screensaver =
  ss_enabled :: bool
  ss_timeout :: int
  ss_secure :: bool
  ss_path :: string

record wallpaper =
  wp_enabled :: bool
  wp_style :: string
  wp_locked :: bool
  wp_ref :: string
  wp_sha256 :: string
  wp_type :: string

record display_command =
  dc_operation :: string
  dc_screensaver :: "screensaver option"
  dc_wallpaper :: "wallpaper option"

definition op_enforce :: string where "op_enforce = ''ENFORCE''"
definition op_clear :: string where "op_clear = ''CLEAR''"

record display_env =
  de_lower :: "string \<Rightarrow> string"
  de_upper :: "string \<Rightarrow> string"
  de_sha :: "string \<Rightarrow> string"
  de_base :: "string \<Rightarrow> string"
  de_dir :: "string \<Rightarrow> string"
  de_join :: "string \<Rightarrow> string \<Rightarrow> string"
  de_fetch :: "string \<Rightarrow> int \<Rightarrow> string + string"

section \<open>Validation\<close>

datatype policy_error =
    UnknownOperation | NothingSpecified | TimeoutRange | ScrPathDenied | UnknownStyle | BadAssetRef
  | AssetHashMismatch | BadContentType | UnusableWallpaper

definition wsep :: char where "wsep = CHR 0x5C"

definition scr_path :: "string \<Rightarrow> string" where
  "scr_path n = ''c:'' @ wsep # ''windows'' @ wsep # ''system32'' @ wsep # n @ ''.scr''"

definition allowed_scr_paths :: "string list" where
  "allowed_scr_paths = map scr_path [''scrnsave'', ''mystify'', ''ribbons'', ''bubbles'', ''photoscreensaver'', ''sstext3d'']"

definition style_registry_value :: "(string \<times> string) list" where
  "style_registry_value = [(''CENTER'', ''0''), (''STRETCH'', ''2''), (''FIT'', ''6''), (''FILL'', ''10''), (''SPAN'', ''22'')]"

definition style_to_registry_value :: "display_env \<Rightarrow> string \<Rightarrow> string option" where
  "style_to_registry_value E style = map_of style_registry_value (de_upper E (trim_space style))"

definition is_allowed_scr_path :: "display_env \<Rightarrow> string \<Rightarrow> bool" where
  "is_allowed_scr_path E p \<longleftrightarrow> de_lower E (trim_space p) \<in> set allowed_scr_paths"

definition is_drive_letter :: "char \<Rightarrow> bool" where
  "is_drive_letter c \<longleftrightarrow> is_upper c \<or> is_lower c"

definition is_usable_local_path :: "string \<Rightarrow> bool" where
  "is_usable_local_path p =
    (let s = trim_space p in
     if length s < 3 then False
     else if has_prefix s [wsep, wsep] then False
     else if \<not> is_drive_letter (s ! 0) \<or> s ! 1 \<noteq> CHR '':'' \<or> (s ! 2 \<noteq> wsep \<and> s ! 2 \<noteq> CHR ''/'') then False
     else \<not> contains s ''..'')"

definition managed_prefix :: string where "managed_prefix = ''asset:sha256:''"

definition is_managed_ref :: "string \<Rightarrow> bool" where
  "is_managed_ref r \<longleftrightarrow> has_prefix r managed_prefix"

definition is_lower_hex_sha256 :: "string \<Rightarrow> bool" where
  "is_lower_hex_sha256 s \<longleftrightarrow> length s = 64 \<and> list_all (\<lambda>c. is_digit c \<or> (CHR ''a'' \<le> c \<and> c \<le> CHR ''f'')) s"

definition image_extensions :: "(string \<times> string) list" where
  "image_extensions = [(''image/png'', ''.png''), (''image/jpeg'', ''.jpg''), (''image/bmp'', ''.bmp'')]"

definition image_magic :: "(string \<times> string) list" where
  "image_magic = [(''image/png'', [CHR 0x89, CHR ''P'', CHR ''N'', CHR ''G'', CHR 0x0D, CHR 0x0A, CHR 0x1A, CHR 0x0A]),
     (''image/jpeg'', [CHR 0xFF, CHR 0xD8, CHR 0xFF]), (''image/bmp'', ''BM'')]"

definition validate_managed_ref :: "wallpaper \<Rightarrow> policy_error option" where
  "validate_managed_ref w =
    (let hash = (if has_prefix (wp_ref w) managed_prefix then drop (length managed_prefix) (wp_ref w) else wp_ref w) in
     if \<not> is_lower_hex_sha256 hash then Some BadAssetRef
     else if wp_sha256 w \<noteq> hash then Some AssetHashMismatch
     else if map_of image_extensions (wp_type w) = None then Some BadContentType
     else None)"

definition validate_screensaver :: "display_env \<Rightarrow> screensaver \<Rightarrow> policy_error option" where
  "validate_screensaver E s =
    (if \<not> ss_enabled s then None
     else if ss_timeout s < 60 \<or> 86400 < ss_timeout s then Some TimeoutRange
     else if \<not> is_allowed_scr_path E (ss_path s) then Some ScrPathDenied
     else None)"

definition validate_wallpaper :: "display_env \<Rightarrow> wallpaper \<Rightarrow> policy_error option" where
  "validate_wallpaper E w =
    (if \<not> wp_enabled w then None
     else if style_to_registry_value E (wp_style w) = None then Some UnknownStyle
     else if is_managed_ref (wp_ref w) then validate_managed_ref w
     else if \<not> is_usable_local_path (wp_ref w) then Some UnusableWallpaper
     else None)"

definition validate_display :: "display_env \<Rightarrow> display_command \<Rightarrow> policy_error option" where
  "validate_display E c =
    (if dc_operation c = op_enforce then
       (if dc_screensaver c = None \<and> dc_wallpaper c = None then Some NothingSpecified
        else case (case dc_screensaver c of None \<Rightarrow> None | Some s \<Rightarrow> validate_screensaver E s) of
            Some e \<Rightarrow> Some e
          | None \<Rightarrow> (case dc_wallpaper c of None \<Rightarrow> None | Some w \<Rightarrow> validate_wallpaper E w))
     else if dc_operation c = op_clear then None
     else Some UnknownOperation)"

definition is_target_user_sid :: "display_env \<Rightarrow> string \<Rightarrow> bool" where
  "is_target_user_sid E name =
    (let s = trim_space name in
     if \<not> has_prefix s ''S-1-5-21-'' then False
     else \<not> has_suffix (de_lower E s) ''_classes'')"

section \<open>Managed images\<close>

definition max_asset_bytes :: nat where "max_asset_bytes = 10 * 1024 * 1024"

datatype asset_error =
    ImageTooLarge | ImageHashMismatch | UnsupportedImage | ImageContent | ImageName | NoAssetSource
  | DownloadFailed string | StoreFailed string

definition verify_asset :: "display_env \<Rightarrow> string \<Rightarrow> string \<Rightarrow> string \<Rightarrow> asset_error option" where
  "verify_asset E content sha256 content_type =
    (if max_asset_bytes < length content then Some ImageTooLarge
     else if de_sha E content \<noteq> sha256 then Some ImageHashMismatch
     else case map_of image_magic content_type of
         None \<Rightarrow> Some UnsupportedImage
       | Some magic \<Rightarrow> if \<not> has_prefix content magic then Some ImageContent else None)"

definition managed_file_name :: "string \<Rightarrow> string \<Rightarrow> asset_error + string" where
  "managed_file_name sha256 content_type =
    (case map_of image_extensions content_type of
       None \<Rightarrow> Inl ImageName
     | Some e \<Rightarrow> if \<not> is_lower_hex_sha256 sha256 then Inl ImageName else Inr (sha256 @ e))"

record asset_outcome =
  ao_sha256 :: string
  ao_type :: string
  ao_bytes :: nat
  ao_path :: string

text \<open>The store; \<open>reject_link\<close> is its check for reparse points.\<close>

definition reject_link :: "string \<Rightarrow> world \<Rightarrow> (string + unit) \<times> world" where
  "reject_link path =
    io_or ''attributes'' (os_lstat path) (\<lambda>n. if n = LinkNode then io_fail ''reparse point'' else io_ret ())"

definition ensure_asset_directory :: "display_env \<Rightarrow> string \<Rightarrow> world \<Rightarrow> (string + unit) \<times> world" where
  "ensure_asset_directory E root =
    io_bind (reject_link (de_dir E root)) (\<lambda>_.
    io_or ''create store'' (os_mkdir_all root) (\<lambda>_.
    io_or ''lstat store'' (os_lstat root) (\<lambda>n.
      if n \<noteq> DirNode then io_fail ''not a plain directory''
      else io_bind (reject_link root) (\<lambda>_. io_or ''harden store'' os_call (\<lambda>_. io_ret ())))))"

text \<open>A temp file that was not moved is removed.\<close>

definition asset_unmoved :: "string \<Rightarrow> (world \<Rightarrow> (string + 'a) \<times> world) \<Rightarrow> world \<Rightarrow> (string + 'a) \<times> world" where
  "asset_unmoved tmp m w = (case m w of (Inl e, w') \<Rightarrow> (Inl e, snd (os_remove tmp w')) | (Inr a, w') \<Rightarrow> (Inr a, w'))"

definition commit_asset :: "display_env \<Rightarrow> string \<Rightarrow> string \<Rightarrow> string \<Rightarrow> world \<Rightarrow> (string + string) \<times> world" where
  "commit_asset E root name content =
    (if root = [] then io_fail ''store root is empty''
     else if name = [] \<or> de_base E name \<noteq> name then io_fail ''invalid file name''
     else io_bind (ensure_asset_directory E root) (\<lambda>_.
       let target = de_join E root name in
       io_or ''create temp file'' os_create_temp (\<lambda>tmp.
       io_bind (asset_unmoved tmp
         (io_or ''write temp file'' (os_write tmp content) (\<lambda>_.
          io_or ''flush temp file'' os_call (\<lambda>_.
          io_or ''close temp file'' os_call (\<lambda>_.
          io_bind (reject_link tmp) (\<lambda>_.
          io_or ''replace file'' (os_rename tmp target) (\<lambda>_. io_ret ()))))))) (\<lambda>_.
       io_bind (reject_link target) (\<lambda>_.
       io_or ''harden file'' os_call (\<lambda>_. io_ret target))))))"

text \<open>The wallpaper with its reference rewritten to the stored file; \<open>source\<close> says whether a fetcher and a store are there.\<close>

definition resolve_managed_wallpaper ::
  "display_env \<Rightarrow> string option \<Rightarrow> wallpaper \<Rightarrow> world \<Rightarrow> (asset_error + wallpaper \<times> asset_outcome) \<times> world" where
  "resolve_managed_wallpaper E source wp w =
    (case source of None \<Rightarrow> (Inl NoAssetSource, w)
     | Some root \<Rightarrow>
       (case managed_file_name (wp_sha256 wp) (wp_type wp) of Inl e \<Rightarrow> (Inl e, w)
        | Inr name \<Rightarrow>
          (case de_fetch E (wp_sha256 wp) (int max_asset_bytes) of Inl e \<Rightarrow> (Inl (DownloadFailed e), w)
           | Inr content \<Rightarrow>
             (case verify_asset E content (wp_sha256 wp) (wp_type wp) of Some e \<Rightarrow> (Inl e, w)
              | None \<Rightarrow>
                (case commit_asset E root name content w of
                   (Inl e, w') \<Rightarrow> (Inl (StoreFailed e), w')
                 | (Inr path, w') \<Rightarrow> (Inr (wp\<lparr>wp_ref := path\<rparr>, \<lparr>ao_sha256 = wp_sha256 wp, ao_type = wp_type wp,
                     ao_bytes = length content, ao_path = path\<rparr>), w'))))))"

section \<open>The registry\<close>

datatype reg_value = RegString string | RegDword nat

record registry =
  rg_keys :: "string \<Rightarrow> (string \<rightharpoonup> reg_value) option"
  rg_users :: "string list" \<comment> \<open>the subkeys of \<open>HKEY_USERS\<close>\<close>
  rg_tick :: nat
  rg_fault :: "nat \<Rightarrow> bool"

definition rg_next :: "registry \<Rightarrow> registry" where
  "rg_next r = r\<lparr>rg_tick := Suc (rg_tick r)\<rparr>"

definition rg_faulty :: "registry \<Rightarrow> bool" where
  "rg_faulty r = rg_fault r (rg_tick r)"

definition reg_get :: "registry \<Rightarrow> string \<Rightarrow> string \<Rightarrow> reg_value option" where
  "reg_get r path name = (case rg_keys r path of None \<Rightarrow> None | Some m \<Rightarrow> m name)"

datatype reg_problem =
    EnumerateUsers | OpenKey string | SetValue string string | OpenForDelete string | DeleteFailed string string
  | AssetUnreadable string | AssetIsDirectory string

datatype final_status =
    FinalSucceeded | FinalPartial | FinalInvalid | FinalNoTargetHive | FinalRegistry | FinalUnsupportedOS | FinalAsset | FinalUnset

record display_result =
  dp_status :: final_status
  dp_operation :: string
  dp_sids :: "string list"
  dp_written :: "(string \<times> string) list"
  dp_deleted :: "(string \<times> string) list"
  dp_no_hive :: bool
  dp_errors :: "reg_problem list"
  dp_summary :: string
  dp_asset :: "asset_outcome option"

type_synonym applying = "display_result \<times> registry"

definition problem :: "reg_problem \<Rightarrow> display_result \<Rightarrow> display_result" where
  "problem p res = res\<lparr>dp_errors := dp_errors res @ [p]\<rparr>"

text \<open>Each says whether it failed. A key that is created has no values yet.\<close>

definition set_value :: "string \<Rightarrow> string \<Rightarrow> reg_value \<Rightarrow> applying \<Rightarrow> bool \<times> applying" where
  "set_value path name v = (\<lambda>(res, r).
    if rg_faulty r then (True, problem (OpenKey path) res, rg_next r)
    else
      let r = rg_next r; m = (case rg_keys r path of None \<Rightarrow> Map.empty | Some m \<Rightarrow> m);
          opened = r\<lparr>rg_keys := (rg_keys r)(path \<mapsto> m)\<rparr>
      in if rg_faulty opened then (True, problem (SetValue path name) res, rg_next opened)
         else (False, res\<lparr>dp_written := dp_written res @ [(path, name)]\<rparr>,
               (rg_next opened)\<lparr>rg_keys := (rg_keys r)(path \<mapsto> m(name \<mapsto> v))\<rparr>))"

definition delete_value :: "string \<Rightarrow> string \<Rightarrow> applying \<Rightarrow> bool \<times> applying" where
  "delete_value path name = (\<lambda>(res, r).
    if rg_faulty r then (True, problem (OpenForDelete path) res, rg_next r)
    else
      let r = rg_next r in
      case rg_keys r path of
        None \<Rightarrow> (False, res, r)
      | Some m \<Rightarrow>
          if rg_faulty r then (True, problem (DeleteFailed path name) res, rg_next r)
          else if m name = None then (False, res, rg_next r)
          else (False, res\<lparr>dp_deleted := dp_deleted res @ [(path, name)]\<rparr>,
                (rg_next r)\<lparr>rg_keys := (rg_keys r)(path \<mapsto> m(name := None))\<rparr>))"

section \<open>Applying a policy\<close>

definition bs_join :: "string list \<Rightarrow> string" where "bs_join = join_with wsep"

definition key_screensaver :: string where
  "key_screensaver = bs_join [''Software'', ''Policies'', ''Microsoft'', ''Windows'', ''Control Panel'', ''Desktop'']"
definition key_wallpaper :: string where
  "key_wallpaper = bs_join [''Software'', ''Microsoft'', ''Windows'', ''CurrentVersion'', ''Policies'', ''System'']"
definition key_active_desktop :: string where
  "key_active_desktop = bs_join [''Software'', ''Microsoft'', ''Windows'', ''CurrentVersion'', ''Policies'', ''ActiveDesktop'']"

definition screensaver_values :: "string list" where
  "screensaver_values = [''ScreenSaveActive'', ''ScreenSaverIsSecure'', ''ScreenSaveTimeOut'', ''SCRNSAVE.EXE'']"

definition bool_to_reg :: "bool \<Rightarrow> string" where
  "bool_to_reg b = (if b then ''1'' else ''0'')"

text \<open>A sequence of calls for one hive; a failure does not stop it.\<close>

datatype reg_op = Put string string reg_value | Drop string string

definition run_op :: "reg_op \<Rightarrow> applying \<Rightarrow> bool \<times> applying" where
  "run_op o' = (case o' of Put p n v \<Rightarrow> set_value p n v | Drop p n \<Rightarrow> delete_value p n)"

fun run_ops :: "reg_op list \<Rightarrow> applying \<Rightarrow> bool \<times> applying" where
  "run_ops [] s = (False, s)"
| "run_ops (x # xs) s = (let (e, s') = run_op x s; (e', s'') = run_ops xs s' in (e \<or> e', s''))"

definition screensaver_ops :: "string \<Rightarrow> screensaver \<Rightarrow> reg_op list" where
  "screensaver_ops sid s =
    (let p = sid @ wsep # key_screensaver in
     if ss_enabled s then
       [Put p ''ScreenSaveActive'' (RegString ''1''), Put p ''ScreenSaverIsSecure'' (RegString (bool_to_reg (ss_secure s))),
        Put p ''ScreenSaveTimeOut'' (RegString (format_int (ss_timeout s))), Put p ''SCRNSAVE.EXE'' (RegString (ss_path s))]
     else map (Drop p) screensaver_values)"

definition wallpaper_ops :: "display_env \<Rightarrow> string \<Rightarrow> wallpaper \<Rightarrow> reg_op list" where
  "wallpaper_ops E sid w =
    (let wpath = sid @ wsep # key_wallpaper; apath = sid @ wsep # key_active_desktop in
     if wp_enabled w then
       [Put wpath ''Wallpaper'' (RegString (wp_ref w)),
        Put wpath ''WallpaperStyle'' (RegString (case style_to_registry_value E (wp_style w) of None \<Rightarrow> [] | Some v \<Rightarrow> v)),
        (if wp_locked w then Put apath ''NoChangingWallPaper'' (RegDword 1) else Drop apath ''NoChangingWallPaper'')]
     else [Drop wpath ''Wallpaper'', Drop wpath ''WallpaperStyle'', Drop apath ''NoChangingWallPaper''])"

definition enforce_ops :: "display_env \<Rightarrow> display_command \<Rightarrow> string \<Rightarrow> reg_op list" where
  "enforce_ops E c sid = (case dc_screensaver c of None \<Rightarrow> [] | Some s \<Rightarrow> screensaver_ops sid s) @
     (case dc_wallpaper c of None \<Rightarrow> [] | Some w \<Rightarrow> wallpaper_ops E sid w)"

definition clear_ops :: "string \<Rightarrow> reg_op list" where
  "clear_ops sid = map (Drop (sid @ wsep # key_screensaver)) screensaver_values @
     [Drop (sid @ wsep # key_wallpaper) ''Wallpaper'', Drop (sid @ wsep # key_wallpaper) ''WallpaperStyle'',
      Drop (sid @ wsep # key_active_desktop) ''NoChangingWallPaper'']"

definition sid_ops :: "display_env \<Rightarrow> display_command \<Rightarrow> string \<Rightarrow> reg_op list" where
  "sid_ops E c sid = (if dc_operation c = op_enforce then enforce_ops E c sid else clear_ops sid)"

text \<open>The hives in order, with the numbers of those done without and with an error.\<close>

fun apply_sids :: "display_env \<Rightarrow> display_command \<Rightarrow> string list \<Rightarrow> nat \<times> nat \<Rightarrow> applying \<Rightarrow> (nat \<times> nat) \<times> applying" where
  "apply_sids E c [] counts s = (counts, s)"
| "apply_sids E c (sid # sids) (ok, bad) (res, r) =
    (let (e, s') = run_ops (sid_ops E c sid) (res\<lparr>dp_sids := dp_sids res @ [sid]\<rparr>, r)
     in apply_sids E c sids (if e then (ok, bad + 1) else (ok + 1, bad)) s')"

definition new_result :: "string \<Rightarrow> display_result" where
  "new_result operation = \<lparr>dp_status = FinalUnset, dp_operation = operation, dp_sids = [], dp_written = [], dp_deleted = [],
     dp_no_hive = False, dp_errors = [], dp_summary = [], dp_asset = None\<rparr>"

definition loaded_target_sids :: "display_env \<Rightarrow> registry \<Rightarrow> string list option \<times> registry" where
  "loaded_target_sids E r =
    (if rg_faulty r then (None, rg_next r)
     else let r = rg_next r in
       if rg_faulty r then (None, rg_next r) else (Some (filter (is_target_user_sid E) (rg_users r)), rg_next r))"

text \<open>The check that the image of an enabled wallpaper is a file.\<close>

definition wallpaper_missing :: "display_command \<Rightarrow> world \<Rightarrow> reg_problem option \<times> world" where
  "wallpaper_missing c w =
    (case dc_wallpaper c of
       None \<Rightarrow> (None, w)
     | Some wp \<Rightarrow>
        if dc_operation c \<noteq> op_enforce \<or> \<not> wp_enabled wp then (None, w)
        else (case os_stat (wp_ref wp) w of
            (Inl _, w') \<Rightarrow> (Some (AssetUnreadable (wp_ref wp)), w')
          | (Inr n, w') \<Rightarrow> (if n = DirNode then Some (AssetIsDirectory (wp_ref wp)) else None, w')))"

definition apply_display ::
  "display_env \<Rightarrow> display_command \<Rightarrow> world \<times> registry \<Rightarrow> display_result \<times> world \<times> registry" where
  "apply_display E c = (\<lambda>(w, r).
    let res = new_result (dc_operation c); (sids, r) = loaded_target_sids E r in
    case sids of
      None \<Rightarrow> ((problem EnumerateUsers res)\<lparr>dp_status := FinalRegistry,
        dp_summary := ''SET_DISPLAY_POLICY failed to enumerate user hives''\<rparr>, w, r)
    | Some sids \<Rightarrow>
        if sids = [] then
          (if dc_operation c = op_clear then (res\<lparr>dp_no_hive := True, dp_status := FinalSucceeded,
             dp_summary := ''SET_DISPLAY_POLICY CLEAR: no loaded user hive to clear (no-op)''\<rparr>, w, r)
           else (res\<lparr>dp_no_hive := True, dp_status := FinalNoTargetHive,
             dp_summary := ''SET_DISPLAY_POLICY ENFORCE: no loaded interactive user hive to target''\<rparr>, w, r))
        else
          let (missing, w) = wallpaper_missing c w in
          case missing of
            Some p \<Rightarrow> ((problem p res)\<lparr>dp_status := FinalInvalid,
              dp_summary := ''SET_DISPLAY_POLICY ENFORCE: wallpaper asset path not usable (no registry change)''\<rparr>, w, r)
          | None \<Rightarrow>
              let ((ok, bad), res, r) = apply_sids E c sids (0, 0) (res, r) in
              (res\<lparr>dp_status := (if bad = 0 then FinalSucceeded else if ok = 0 then FinalRegistry else FinalPartial),
                 dp_summary := ''SET_DISPLAY_POLICY '' @ dc_operation c @ '': '' @ format_nat ok @ ''/'' @
                   format_nat (length sids) @ '' loaded user hives applied''\<rparr>, w, r))"

section \<open>The policy as a table\<close>

text \<open>
  The specification: the value that each managed name shall have in a hive, nothing for one that shall be absent. To
  clear is to enforce that both blocks are off.
\<close>

definition when_on :: "bool \<Rightarrow> reg_value \<Rightarrow> reg_value option" where
  "when_on b v = (if b then Some v else None)"

definition desired_screensaver :: "screensaver \<Rightarrow> ((string \<times> string) \<times> reg_value option) list" where
  "desired_screensaver s =
    [((key_screensaver, ''ScreenSaveActive''), when_on (ss_enabled s) (RegString ''1'')),
     ((key_screensaver, ''ScreenSaverIsSecure''), when_on (ss_enabled s) (RegString (bool_to_reg (ss_secure s)))),
     ((key_screensaver, ''ScreenSaveTimeOut''), when_on (ss_enabled s) (RegString (format_int (ss_timeout s)))),
     ((key_screensaver, ''SCRNSAVE.EXE''), when_on (ss_enabled s) (RegString (ss_path s)))]"

definition desired_wallpaper :: "display_env \<Rightarrow> wallpaper \<Rightarrow> ((string \<times> string) \<times> reg_value option) list" where
  "desired_wallpaper E w =
    [((key_wallpaper, ''Wallpaper''), when_on (wp_enabled w) (RegString (wp_ref w))),
     ((key_wallpaper, ''WallpaperStyle''), when_on (wp_enabled w)
        (RegString (case style_to_registry_value E (wp_style w) of None \<Rightarrow> [] | Some v \<Rightarrow> v))),
     ((key_active_desktop, ''NoChangingWallPaper''), when_on (wp_enabled w \<and> wp_locked w) (RegDword 1))]"

definition screensaver_off :: screensaver where
  "screensaver_off = \<lparr>ss_enabled = False, ss_timeout = 0, ss_secure = False, ss_path = []\<rparr>"

definition wallpaper_off :: wallpaper where
  "wallpaper_off = \<lparr>wp_enabled = False, wp_style = [], wp_locked = False, wp_ref = [], wp_sha256 = [], wp_type = []\<rparr>"

definition desired :: "display_env \<Rightarrow> display_command \<Rightarrow> ((string \<times> string) \<times> reg_value option) list" where
  "desired E c =
    (if dc_operation c = op_enforce then
       (case dc_screensaver c of None \<Rightarrow> [] | Some s \<Rightarrow> desired_screensaver s) @
       (case dc_wallpaper c of None \<Rightarrow> [] | Some w \<Rightarrow> desired_wallpaper E w)
     else desired_screensaver screensaver_off @ desired_wallpaper E wallpaper_off)"

fun op_goal :: "reg_op \<Rightarrow> (string \<times> string) \<times> reg_value option" where
  "op_goal (Put p n v) = ((p, n), Some v)"
| "op_goal (Drop p n) = ((p, n), None)"

definition in_hive :: "string \<Rightarrow> (string \<times> string) \<times> reg_value option \<Rightarrow> (string \<times> string) \<times> reg_value option" where
  "in_hive sid = (\<lambda>((k, n), v). ((sid @ wsep # k, n), v))"

lemma goals_desired: "map op_goal (sid_ops E c sid) = map (in_hive sid) (desired E c)"
  by (auto simp: sid_ops_def enforce_ops_def clear_ops_def screensaver_ops_def wallpaper_ops_def screensaver_values_def
      desired_def desired_screensaver_def desired_wallpaper_def screensaver_off_def wallpaper_off_def when_on_def in_hive_def
      Let_def split: option.splits)

lemma keys_differ: "key_screensaver \<noteq> key_wallpaper" "key_screensaver \<noteq> key_active_desktop" "key_wallpaper \<noteq> key_active_desktop"
  by code_simp+

lemma desired_distinct: "distinct (map fst (desired E c))"
  using keys_differ
  by (auto simp: desired_def desired_screensaver_def desired_wallpaper_def split: option.splits)

section \<open>What the calls leave in the registry\<close>

definition reg_at :: "registry \<Rightarrow> string \<times> string \<Rightarrow> reg_value option" where
  "reg_at r = (\<lambda>(p, n). reg_get r p n)"

lemma rg_next_simps [simp]: "rg_keys (rg_next r) = rg_keys r" "rg_users (rg_next r) = rg_users r" "reg_at (rg_next r) = reg_at r"
  by (simp_all add: rg_next_def reg_at_def reg_get_def fun_eq_iff)

text \<open>Every place keeps its value or gets the value of a goal; without a failure every goal is met.\<close>

definition reaches :: "((string \<times> string) \<times> reg_value option) set \<Rightarrow> bool \<Rightarrow> registry \<Rightarrow> registry \<Rightarrow> bool" where
  "reaches G ok r r' \<longleftrightarrow> rg_users r' = rg_users r \<and>
     (\<forall>q. reg_at r' q = reg_at r q \<or> (q, reg_at r' q) \<in> G) \<and> (ok \<longrightarrow> (\<forall>(q, v)\<in>G. reg_at r' q = v))"

lemma run_op_reaches:
  assumes "run_op x (res, r) = (e, res', r')" shows "reaches {op_goal x} (\<not> e) r r'"
  using assms
  by (cases x)
    (auto simp: run_op_def set_value_def delete_value_def reaches_def reg_at_def reg_get_def Let_def
      split: if_splits option.splits)

definition one_goal :: "((string \<times> string) \<times> reg_value option) set \<Rightarrow> bool" where
  "one_goal G \<longleftrightarrow> (\<forall>q v v'. (q, v) \<in> G \<longrightarrow> (q, v') \<in> G \<longrightarrow> v = v')"

lemma reaches_trans:
  assumes "reaches G a r r1" "reaches H b r1 r2" and one: "one_goal (G \<union> H)"
  shows "reaches (G \<union> H) (a \<and> b) r r2"
proof -
  have "reg_at r2 q = v" if "a" "b" "(q, v) \<in> G \<union> H" for q v
  proof (cases "(q, v) \<in> H")
    case True
    then show ?thesis using assms(2) that by (auto simp: reaches_def)
  next
    case False
    then have "reg_at r1 q = v" using assms(1) that by (auto simp: reaches_def)
    then show ?thesis using assms(2) one that(3) unfolding reaches_def one_goal_def by (metis UnCI)
  qed
  moreover have "reg_at r2 q = reg_at r q \<or> (q, reg_at r2 q) \<in> G \<union> H" for q
    using assms(1,2) unfolding reaches_def by (metis UnCI)
  ultimately show ?thesis using assms(1,2) by (auto simp: reaches_def)
qed

lemma run_ops_reaches:
  "run_ops xs (res, r) = (e, res', r') \<Longrightarrow> one_goal (set (map op_goal xs)) \<Longrightarrow> reaches (set (map op_goal xs)) (\<not> e) r r'"
proof (induction xs arbitrary: res r e)
  case (Cons x xs)
  obtain e1 res1 r1 e2 where x: "run_op x (res, r) = (e1, res1, r1)" and xs: "run_ops xs (res1, r1) = (e2, res', r')"
    and e: "e = (e1 \<or> e2)" using Cons.prems(1) by (auto split: prod.splits)
  have "one_goal (set (map op_goal xs))" using Cons.prems(2) by (auto simp: one_goal_def)
  then have "reaches ({op_goal x} \<union> set (map op_goal xs)) (\<not> e1 \<and> \<not> e2) r r'"
    using Cons.prems(2) by (intro reaches_trans [OF run_op_reaches [OF x] Cons.IH [OF xs]]) simp_all
  then show ?case by (simp add: e)
qed (simp add: reaches_def)

definition all_goals :: "display_env \<Rightarrow> display_command \<Rightarrow> string list \<Rightarrow> ((string \<times> string) \<times> reg_value option) set" where
  "all_goals E c sids = (\<Union>sid\<in>set sids. set (map (in_hive sid) (desired E c)))"

lemma in_hive_eq:
  assumes "wsep \<notin> set a" "wsep \<notin> set b" "a @ wsep # k = b @ wsep # k'" shows "a = b \<and> k = k'"
proof -
  have "takeWhile (\<lambda>c. c \<noteq> wsep) (x @ wsep # z) = x" if "wsep \<notin> set x" for x z
    using that by (induction x) auto
  then have "a = b" using assms by metis
  then show ?thesis using assms(3) by simp
qed

lemma one_goal_all:
  assumes "list_all (\<lambda>u. wsep \<notin> set u) sids" shows "one_goal (all_goals E c sids)"
proof -
  have "v = v'" if a: "((k, n), v) \<in> set (desired E c)" "((k', n), v') \<in> set (desired E c)"
    and s: "s \<in> set sids" "s' \<in> set sids" "s @ wsep # k = s' @ wsep # k'" for k k' n v v' s s'
  proof -
    have "wsep \<notin> set s" "wsep \<notin> set s'" using s(1,2) assms by (auto simp: list_all_iff)
    then have "k = k'" using in_hive_eq s(3) by blast
    then show ?thesis using a desired_distinct [of E c] eq_key_imp_eq_value by fastforce
  qed
  then show ?thesis by (auto simp: one_goal_def all_goals_def in_hive_def)
qed

lemma apply_sids_reaches:
  "apply_sids E c sids (ok, bad) (res, r) = ((ok', bad'), res', r') \<Longrightarrow> list_all (\<lambda>u. wsep \<notin> set u) sids \<Longrightarrow>
   bad \<le> bad' \<and> reaches (all_goals E c sids) (bad' = bad) r r'"
proof (induction sids arbitrary: ok bad res r)
  case Nil
  then show ?case by (simp add: reaches_def all_goals_def)
next
  case (Cons sid sids)
  obtain e res1 r1 where x: "run_ops (sid_ops E c sid) (res\<lparr>dp_sids := dp_sids res @ [sid]\<rparr>, r) = (e, res1, r1)"
    and rest: "apply_sids E c sids (if e then (ok, bad + 1) else (ok + 1, bad)) (res1, r1) = ((ok', bad'), res', r')"
    using Cons.prems(1) by (auto split: prod.splits)
  have one: "one_goal (all_goals E c (sid # sids))" by (rule one_goal_all [OF Cons.prems(2)])
  have G: "all_goals E c (sid # sids) = set (map op_goal (sid_ops E c sid)) \<union> all_goals E c sids"
    by (simp add: all_goals_def goals_desired)
  have a: "reaches (set (map op_goal (sid_ops E c sid))) (\<not> e) r r1"
    using run_ops_reaches [OF x] one G by (auto simp: one_goal_def)
  have b: "(if e then bad + 1 else bad) \<le> bad' \<and> reaches (all_goals E c sids) (bad' = (if e then bad + 1 else bad)) r1 r'"
    using Cons.IH [of "fst (if e then (ok, bad + 1) else (ok + 1, bad))" "if e then bad + 1 else bad"] rest Cons.prems(2)
    by (cases e) auto
  have "reaches (all_goals E c (sid # sids)) (\<not> e \<and> bad' = (if e then bad + 1 else bad)) r r'"
    unfolding G by (rule reaches_trans [OF a conjunct2 [OF b]]) (use one G in simp)
  then show ?case using b by (cases e) (auto simp: reaches_def)
qed

lemma reaches_next [simp]: "reaches G b (rg_next r) r' = reaches G b r r'"
  by (simp add: reaches_def)

lemma reaches_same: "rg_users r' = rg_users r \<Longrightarrow> reg_at r' = reg_at r \<Longrightarrow> \<not> b \<or> G = {} \<Longrightarrow> reaches G b r r'"
  by (auto simp: reaches_def)

lemma apply_display_reaches:
  assumes run: "apply_display E c (w, r) = (res, w', r')" and plain: "list_all (\<lambda>u. wsep \<notin> set u) (rg_users r)"
  shows "reaches (all_goals E c (filter (is_target_user_sid E) (rg_users r))) (dp_status res = FinalSucceeded) r r'"
proof -
  define sids where "sids = filter (is_target_user_sid E) (rg_users r)"
  have ps: "list_all (\<lambda>u. wsep \<notin> set u) sids" using plain by (auto simp: sids_def list_all_iff)
  have same: "reaches (all_goals E c sids) (dp_status res = FinalSucceeded) r r'"
    if "r' = rg_next r \<or> r' = rg_next (rg_next r)" "dp_status res \<noteq> FinalSucceeded \<or> sids = []"
    using that by (intro reaches_same) (auto simp: all_goals_def)
  show ?thesis
  proof (cases "rg_faulty r \<or> rg_faulty (rg_next r) \<or> sids = [] \<or> fst (wallpaper_missing c w) \<noteq> None")
    case True
    then show ?thesis using run same
      by (auto simp: apply_display_def loaded_target_sids_def problem_def sids_def Let_def
          split: if_splits prod.splits option.splits)
  next
    case False
    then obtain ok bad res1 where s: "apply_sids E c sids (0, 0) (new_result (dc_operation c), rg_next (rg_next r)) = ((ok, bad), res1, r')"
      and st: "dp_status res = (if bad = 0 then FinalSucceeded else if ok = 0 then FinalRegistry else FinalPartial)"
      using run by (auto simp: apply_display_def loaded_target_sids_def sids_def Let_def split: prod.splits option.splits)
    have "reaches (all_goals E c sids) (bad = 0) r r'" using apply_sids_reaches [OF s ps] by simp
    moreover have "(dp_status res = FinalSucceeded) = (bad = 0)" by (simp add: st)
    ultimately show ?thesis by (simp add: sids_def)
  qed
qed

lemma goal_of_hive:
  assumes "sid \<in> set sids" "map_of (desired E c) (k, n) = Some v" shows "((sid @ wsep # k, n), v) \<in> all_goals E c sids"
proof -
  have "in_hive sid ((k, n), v) \<in> set (map (in_hive sid) (desired E c))" using map_of_SomeD [OF assms(2)] by simp
  then have "in_hive sid ((k, n), v) \<in> all_goals E c sids" unfolding all_goals_def using assms(1) by blast
  then show ?thesis by (simp add: in_hive_def)
qed

lemma hive_of_goal:
  assumes "((sid @ wsep # k, n), v) \<in> all_goals E c sids" "wsep \<notin> set sid" "list_all (\<lambda>u. wsep \<notin> set u) sids"
  shows "sid \<in> set sids \<and> map_of (desired E c) (k, n) = Some v"
proof -
  obtain s k' where s: "s \<in> set sids" and eq: "sid @ wsep # k = s @ wsep # k'" and m: "((k', n), v) \<in> set (desired E c)"
    using assms(1) by (auto simp: all_goals_def in_hive_def)
  have "wsep \<notin> set s" using s assms(3) by (auto simp: list_all_iff)
  then have "sid = s \<and> k = k'" using in_hive_eq [OF assms(2) _ eq] by blast
  then show ?thesis using s m map_of_is_SomeI [OF desired_distinct] by blast
qed


text \<open>
  Fact: whatever calls of the registry fail, every value in it afterwards is the one from before or, in a hive of
  a target user, the one the policy asks for; the service accounts and the users that are no target keep their values.
\<close>

theorem display_touches_targets_only:
  assumes "apply_display E c (w, r) = (res, w', r')" "list_all (\<lambda>u. wsep \<notin> set u) (rg_users r)" "wsep \<notin> set sid"
    and "reg_get r' (sid @ wsep # key) name \<noteq> reg_get r (sid @ wsep # key) name"
  shows "sid \<in> set (rg_users r) \<and> is_target_user_sid E sid \<and>
    map_of (desired E c) (key, name) = Some (reg_get r' (sid @ wsep # key) name)"
proof -
  have "((sid @ wsep # key, name), reg_get r' (sid @ wsep # key) name)
      \<in> all_goals E c (filter (is_target_user_sid E) (rg_users r))"
    using apply_display_reaches [OF assms(1,2)] assms(4) unfolding reaches_def reg_at_def by fastforce
  moreover have "list_all (\<lambda>u. wsep \<notin> set u) (filter (is_target_user_sid E) (rg_users r))"
    using assms(2) by (auto simp: list_all_iff)
  ultimately have "sid \<in> set (filter (is_target_user_sid E) (rg_users r)) \<and>
      map_of (desired E c) (key, name) = Some (reg_get r' (sid @ wsep # key) name)"
    by (intro hive_of_goal [OF _ assms(3)])
  then show ?thesis by simp
qed

section \<open>A stored image\<close>

lemma calls_keep_bytes:
  "os_call w = (a, w') \<Longrightarrow> file_bytes w' p = file_bytes w p"
  "reject_link q w = (b, w') \<Longrightarrow> file_bytes w' p = file_bytes w p"
  by (auto simp: os_call_def reject_link_def io_or_def os_lstat_def io_fail_def io_ret_def split: if_splits option.splits sum.splits)

lemma asset_unmoved_Inr: "asset_unmoved tmp m w = (Inr a, w') \<longleftrightarrow> m w = (Inr a, w')"
  by (auto simp: asset_unmoved_def split: prod.splits sum.splits)

lemma rename_bytes: "os_rename a b w = (Inr u, w') \<Longrightarrow> file_bytes w' b = file_bytes w a"
  using os_rename_Inr by (fastforce simp: file_bytes_def)

lemma commit_asset_stores:
  assumes "commit_asset E root name content w = (Inr path, w')"
  shows "path = de_join E root name \<and> de_base E name = name \<and> file_bytes w' path = Some content"
proof -
  obtain tmp w1 w2 w3 w4 w5 w6 w7 u where written: "os_write tmp content w1 = (Inr u, w2)"
    and calls: "os_call w2 = (Inr u, w3)" "os_call w3 = (Inr u, w4)" "reject_link tmp w4 = (Inr u, w5)"
    and moved: "os_rename tmp path w5 = (Inr u, w6)" "reject_link path w6 = (Inr u, w7)" "os_call w7 = (Inr u, w')"
    and path: "path = de_join E root name" "de_base E name = name"
    using assms
    by (auto simp: commit_asset_def io_success asset_unmoved_Inr Let_def split: if_splits)
  have "file_bytes w5 tmp = Some content"
    using os_write_Inr [OF written] calls calls_keep_bytes by metis
  then have "file_bytes w6 path = Some content" using rename_bytes [OF moved(1)] by simp
  then show ?thesis using moved(2,3) path calls_keep_bytes by metis
qed

text \<open>
  Fact: a managed wallpaper is only resolved to a file of the store whose bytes have the signed digest and start
  with the magic number of the signed content type; the file is named by digest and type alone, and style and lock of
  the policy are kept.
\<close>

theorem resolved_wallpaper_is_the_image:
  assumes "resolve_managed_wallpaper E source wp w = (Inr (wp', outcome), w')"
  shows "\<exists>root content ext magic. source = Some root \<and> file_bytes w' (wp_ref wp') = Some content \<and>
    de_sha E content = wp_sha256 wp \<and> length content \<le> max_asset_bytes \<and>
    map_of image_magic (wp_type wp) = Some magic \<and> has_prefix content magic \<and>
    map_of image_extensions (wp_type wp) = Some ext \<and> wp_ref wp' = de_join E root (wp_sha256 wp @ ext) \<and>
    wp' = wp\<lparr>wp_ref := wp_ref wp'\<rparr> \<and> ao_bytes outcome = length content"
proof -
  obtain root name content path where s: "source = Some root" "managed_file_name (wp_sha256 wp) (wp_type wp) = Inr name"
    and v: "verify_asset E content (wp_sha256 wp) (wp_type wp) = None"
    and c: "commit_asset E root name content w = (Inr path, w')"
    and r: "wp' = wp\<lparr>wp_ref := path\<rparr>" "ao_bytes outcome = length content"
    using assms by (auto simp: resolve_managed_wallpaper_def split: option.splits sum.splits prod.splits)
  obtain magic where m: "map_of image_magic (wp_type wp) = Some magic" "has_prefix content magic"
      "de_sha E content = wp_sha256 wp" "length content \<le> max_asset_bytes"
    using v by (auto simp: verify_asset_def split: if_splits option.splits)
  obtain ext where e: "map_of image_extensions (wp_type wp) = Some ext" "name = wp_sha256 wp @ ext"
    using s(2) by (auto simp: managed_file_name_def split: if_splits option.splits)
  have "path = de_join E root name \<and> file_bytes w' path = Some content" using commit_asset_stores [OF c] by blast
  then have "file_bytes w' (wp_ref wp') = Some content" "wp_ref wp' = de_join E root (wp_sha256 wp @ ext)" by (auto simp: r e)
  then show ?thesis using s(1) m r(2) e(1) by (simp add: r(1))
qed

section \<open>A sample\<close>

definition png :: string where "png = [CHR 0x89, CHR ''P'', CHR ''N'', CHR ''G'', CHR 0x0D, CHR 0x0A, CHR 0x1A, CHR 0x0A]"
definition png_digest :: string where "png_digest = replicate 64 (CHR ''a'')"

definition display_sample :: display_env where
  "display_sample = \<lparr>de_lower = \<lambda>s. s, de_upper = \<lambda>s. s, de_sha = \<lambda>_. png_digest, de_base = \<lambda>s. s, de_dir = \<lambda>_. ''p'',
     de_join = \<lambda>a b. a @ ''/'' @ b, de_fetch = \<lambda>_ _. Inr png\<rparr>"

definition sample_wallpaper :: wallpaper where
  "sample_wallpaper = \<lparr>wp_enabled = True, wp_style = ''FILL'', wp_locked = True, wp_ref = managed_prefix @ png_digest,
     wp_sha256 = png_digest, wp_type = ''image/png''\<rparr>"

definition display_disk :: world where
  "display_disk = \<lparr>w_node = [''p'' \<mapsto> DirNode], w_now = 0, w_tick = 0, w_fault = \<lambda>_. False, w_torn = \<lambda>_. 0,
     w_temp = \<lambda>_. ''t'', w_running = True, w_spawned = []\<rparr>"

definition sample_hives :: registry where
  "sample_hives = \<lparr>rg_keys = \<lambda>_. None, rg_users = [''S-1-5-18'', ''S-1-5-21-7''], rg_tick = 0, rg_fault = \<lambda>_. False\<rparr>"

definition off_command :: display_command where
  "off_command = \<lparr>dc_operation = op_clear, dc_screensaver = None, dc_wallpaper = None\<rparr>"

definition saver_command :: display_command where
  "saver_command = \<lparr>dc_operation = op_enforce,
     dc_screensaver = Some \<lparr>ss_enabled = True, ss_timeout = 600, ss_secure = True, ss_path = scr_path ''mystify''\<rparr>, dc_wallpaper = None\<rparr>"

lemma resolved_wallpaper_is_the_image_witness:
  "\<exists>root content ext magic. Some ''p'' = Some root \<and>
    file_bytes (snd (resolve_managed_wallpaper display_sample (Some ''p'') sample_wallpaper display_disk)) (''p/'' @ png_digest @ ''.png'') =
      Some content \<and> map_of image_magic ''image/png'' = Some magic \<and> has_prefix content magic \<and>
      map_of image_extensions ''image/png'' = Some ext"
proof -
  obtain o' w' where r: "resolve_managed_wallpaper display_sample (Some ''p'') sample_wallpaper display_disk =
      (Inr (sample_wallpaper\<lparr>wp_ref := ''p/'' @ png_digest @ ''.png''\<rparr>, o'), w')"
  proof -
    have "fst (resolve_managed_wallpaper display_sample (Some ''p'') sample_wallpaper display_disk) =
        Inr (sample_wallpaper\<lparr>wp_ref := ''p/'' @ png_digest @ ''.png''\<rparr>,
          \<lparr>ao_sha256 = png_digest, ao_type = ''image/png'', ao_bytes = 8, ao_path = ''p/'' @ png_digest @ ''.png''\<rparr>)"
      by code_simp
    then show thesis using that by (metis prod.collapse)
  qed
  show ?thesis using resolved_wallpaper_is_the_image [OF r] unfolding r by (auto simp: sample_wallpaper_def)
qed


lemma display_touches_targets_only_witness:
  "map_of (desired display_sample saver_command) (key_screensaver, ''ScreenSaveActive'') = Some (Some (RegString ''1''))"
proof -
  obtain res w' r' where r: "apply_display display_sample saver_command (display_disk, sample_hives) = (res, w', r')"
    by (metis prod_cases3)
  have v: "reg_get (snd (snd (apply_display display_sample saver_command (display_disk, sample_hives))))
      (''S-1-5-21-7'' @ wsep # key_screensaver) ''ScreenSaveActive'' = Some (RegString ''1'')"
    by code_simp
  have before: "reg_get sample_hives (''S-1-5-21-7'' @ wsep # key_screensaver) ''ScreenSaveActive'' = None" by code_simp
  have "''S-1-5-21-7'' \<in> set (rg_users sample_hives) \<and> is_target_user_sid display_sample ''S-1-5-21-7'' \<and>
    map_of (desired display_sample saver_command) (key_screensaver, ''ScreenSaveActive'') =
      Some (reg_get r' (''S-1-5-21-7'' @ wsep # key_screensaver) ''ScreenSaveActive'')"
    by (rule display_touches_targets_only [OF r]) (code_simp, code_simp, use v before in \<open>simp add: r\<close>)
  then show ?thesis using v by (simp add: r)
qed

end
