(* ===== verification/Spec2Isabelle.thy ===== *)
theory Spec2Isabelle
  imports ActivationPending Stager ViewSession FrameIpc FrameCodec AutoTrace DeviceSession Consent PortForward Backup LocalUsers DisplayPolicy
begin

text \<open>
  A verification development of platform-agent, the endpoint agent written in Go.  It models the
  subsystems that decide what may run on, change or leave the endpoint and how it proves what it is: the
  self-update pipeline (\<open>src/internal/selfupdate\<close> and its activation hook in \<open>src/cmd/endpoint-agent\<close>), the
  remote bridge (\<open>src/internal/remotebridge\<close>), by which a broker may run a diagnostic command or view the
  screen, the TPM enrolment (\<open>src/internal/tpmenroll\<close>) and the automatic enrolment with its service loop
  (\<open>src/internal/autoenroll\<close>).

  \<^bold>\<open>Self-update.\<close>  An update order of the backend passes the policy gates (\<open>Preflight\<close>, over \<open>Contract\<close>,
  \<open>Version\<close>, \<open>SignerPolicy\<close> and \<open>UrlPolicy\<close>); \<open>Stager\<close> downloads the binary, checks its hash (\<open>HashFile\<close>),
  signature and version, moves it into the protected directory (\<open>Staging\<close>) and writes the hand-over
  plan (\<open>ActivationPlan\<close>); a separate helper process backs up, swaps, restarts and rolls back
  (\<open>ActivationExecute\<close>); a sweep restarts helpers that never ran (\<open>ActivationPending\<close>); the highest
  version activated is kept in \<open>HighWater\<close>.  \<open>World\<close> is the operating system: files, one service and
  processes, with a fault schedule, so that a theorem over all worlds covers every pattern of I/O
  errors.  \<open>Filepath\<close> holds path cleaning and joining.

  \<^bold>\<open>Remote bridge.\<close>  \<open>OperationPermit\<close> is the signed permit with its canonical bytes (\<open>Wire\<close> has the
  integer encodings), \<open>OperationGate\<close> the authorization with the replay guard, \<open>PtyPolicy\<close> the argument
  grammar and the execution plan over \<open>Cmdline\<close>, the quoting of a Windows command line;
  \<open>PtyStream\<close> executes and cuts the output into frames.  \<open>Bridge\<close> has the messages and the numbered CONTROL
  sender, \<open>Dispatch\<close> one operation from the pushed permit to its DATA stream, \<open>Harness\<close> the receive
  loop with its goroutines as an interleaved step relation, kills and screen streams.  \<open>ViewSession\<close> is
  the fail-closed gate of a screen view and its dispatcher, \<open>FrameIpc\<close> the protocol of the capture helper,
  \<open>Pixels\<close> and \<open>FrameCodec\<close> the mask, the awareness band and the encoder that shrinks a frame until it
  fits.

  \<^bold>\<open>TPM enrolment.\<close>  \<open>TpmWire\<close> has the bounds-checked cursor and the writer of TPM structures
  (\<open>tpm2public.go\<close>, \<open>tpm2marshal.go\<close>), \<open>TpmPublic\<close> the public areas of keys, their names and the templates the
  agent builds, \<open>TpmAttest\<close> the attestations and their signatures (\<open>tpmsattest.go\<close>, \<open>tpmtsignature.go\<close>),
  \<open>TpmCredential\<close> the key derivation, CFB, MakeCredential and ActivateCredential (\<open>kdfa.go\<close>,
  \<open>makecredential.go\<close>), and \<open>TpmEnroll\<close> the client that asks for a nonce, activates the credential and attests
  (\<open>enroll.go\<close>), over any device (\<open>tpmdevice.go\<close>), with the software device of \<open>mock_tpmdevice.go\<close>.

  \<^bold>\<open>Automatic enrolment.\<close>  \<open>AutoRecord\<close> has the persisted record, the answer to an enrolment, the choice of the
  machine certificate and the health tracker (\<open>persisted_config.go\<close>, \<open>types.go\<close>, \<open>cert_select.go\<close>, \<open>state.go\<close>);
  \<open>AutoRunner\<close> the wire client and the runner: certificate, enrolment, token refresh, heartbeat, commands and the
  loop (\<open>client.go\<close>, \<open>runner.go\<close>), over an environment that answers its n-th call, with a trace of what it did and
  the set of open key handles.  \<open>AutoLoop\<close> and \<open>AutoTrace\<close> hold what is true of every run: sweeps, health, and
  the order of the events.

  \<^bold>\<open>Endpoint policies.\<close>  \<open>Consent\<close> is the attended consent for a view-only session
  (\<open>remotebridge/consent/attended.go\<close>), \<open>DeviceSession\<close> the device-key attestation of a session
  (\<open>remotebridge/devkeysession\<close>), both as the harness calls them; \<open>PortForward\<close> the guard and the signed allow-list
  of the port forward (\<open>remotebridge/portforward/target.go\<close>); \<open>Backup\<close> the metadata-only backup manifest with its
  classifier of protected data (\<open>src/internal/dataprotection\<close>).  \<open>LocalUsers\<close> is the management of local accounts
  with its guards on reserved accounts and on the last administrator (\<open>src/internal/users\<close>); the account database is an
  abstract state behind the calls of Windows (\<open>win\<close>), whose laws (\<open>sam_laws\<close>) are a premise.  \<open>DisplayPolicy\<close> is the
  managed screensaver and wallpaper (\<open>src/internal/displaypolicy\<close>): validation, the store of managed images and the
  writer of the policy values, against a table of the desired values.

  \<^bold>\<open>How the code is read.\<close>  A struct is a record, an enum or a set of sentinel errors a datatype, an
  early return a branch; a method that changes state takes the state and returns it.  Strings and byte
  slices are lists of bytes (\<open>char\<close>); \<open>int64\<close> values are words of 64 bits where they are compared or
  serialised, and integers with the wrap-around \<open>int64\<close> of \<open>Prelude\<close> where they are computed with.  A
  mutex makes a method one step.  Goroutines and \<open>select\<close> are step relations (\<open>gate_run\<close>,
  \<open>bridge_run\<close>, \<open>view_reach\<close>, \<open>sender_reach\<close>) or lists of choices given as arguments (\<open>view_loop\<close>), so a
  theorem holds for every interleaving.

  \<^bold>\<open>Parameters.\<close>  Code outside src/ is an argument: SHA-256, ECDSA, base64, SPKI parsing and Unicode
  lower-casing (\<open>crypto\<close>), URL and IP parsing (\<open>url_lib\<close>, \<open>net_lib\<close>), the JSON codec and the paths of the
  platform (\<open>env\<close>), the Authenticode verifier, the HTTP client, the pseudo-console runners, the PNG
  compressor, the consent and device-key responders; for the
  enrolment, the hash functions, HMAC, AES and RSA, the JSON and base64 codecs and the backend.  What a property needs of them is a premise of it,
  with a witness at a concrete instance.

  \<^bold>\<open>Interfaces.\<close>  The locales \<open>comparator\<close> and \<open>key_comparator\<close> (an order of versions), \<open>high_water\<close> (the mark read back after a write), \<open>staging_store\<close> (a commit
  moves the bytes and never overwrites), \<open>local_paths\<close>, \<open>replay_guard\<close> (spending a number), \<open>frame_sink\<close> (a send
  appends one frame or none), \<open>sort_less\<close> (the order a stable sort needs), \<open>serve_invariant\<close>, \<open>loop_invariant\<close>, \<open>quiet_invariant\<close>
  and \<open>key_invariant\<close> (what the steps of the service loop keep, the loop keeps), \<open>source_gate\<close> (a shut gate holds and gives nothing) and \<open>attesting_devices\<close>
  (quotes and certifications parse and carry the nonce) state what one part
  relies on in another; each is interpreted on the definitions that model the code.

  \<^bold>\<open>What the properties show.\<close>  For self-update: a reported activation installed the verified bytes, a
  rollback restored the old ones, the binary is never torn, staging reports ready only after every gate,
  what is staged can be activated, versions are ordered linearly and never go back, and the download
  stays within its policy and cap.  For the bridge: only a request signed for this device and command is
  accepted, each number once; only the allowlisted plan of that command runs, and the program reads back
  exactly its arguments; the DATA stream spells the output; a kill cancels a running screen stream before it is
  acknowledged; frames leave only while the gate is open and carry the mask and the band.  For the enrolment: a
  parsed area keeps its bytes, attestations and built areas read back, exactly the marshalled signatures
  that RSA accepts verify, activation recovers the sealed secret and fails closed, and an enrolment attests
  at most once, after activation, with bounded retries.  For the automatic enrolment: the best eligible
  certificate is taken, a command runs only when it was polled after an accepted heartbeat, its activation
  follows the delivered result, a rejection ends the run, and an iteration releases every other key.  Eight
  theorems record where the code falls short: \<open>sweep_runs_at_most_once\<close>, \<open>failing_loop_never_degrades\<close>,
  \<open>waiting_key_stays_open\<close>, \<open>sweep_wedged_by_helper_file\<close>, \<open>link_hides_private_key\<close>,
  \<open>hash_reader_limit_wraps\<close>, \<open>killed_session_can_still_stream\<close> and \<open>raw_frame_check_wraps\<close>.

  \<^bold>\<open>Bounds and termination.\<close>  No definition has fuel.  The loops of \<open>Write\<close> (\<open>write_loop\<close>) and of the frame
  encoder (\<open>shrink_until_fits\<close>) are partial functions, and \<open>dispatch_returns\<close> and \<open>bounded_encoder_returns\<close>
  prove that they end; the wait for a certificate (\<open>wait_for_cert\<close>) may last for ever, and what is
  stated of a run is stated of one whose wait ended; so are \<open>kdfa_loop\<close> and \<open>cfb_loop\<close>, which end for a digest and a block that
  are not empty (\<open>kdfa_returns\<close>, \<open>activation_returns\<close>).  Event lists stand for the choices of a finite run, of any length.

  \<^bold>\<open>Not modelled.\<close>  The Win32 calls (consoles, capture, pipes, security descriptors), gRPC itself and the
  generated bindings, timers other than their settings, logging, the jitter of the reconnect loop, the part of
  \<open>dispatchScreenView\<close> after its registration, the hardware TPM behind go-tpm, and the other packages of src/internal (inventory,
  winget, software, security, commands), which are mostly calls to Windows tools and the reformatting of their output.
\<close>

section \<open>From staging to activation\<close>

lemma staged_paths_apart:
  assumes "path_laws E" and "valid_staging_id i"
  shows "activation_plan_name_for E root i \<noteq> staged_name_for E root i"
    and "activation_plan_name_for E root i @ ''.tmp'' \<noteq> staged_name_for E root i"
proof -
  note P = local_paths.intro [OF assms(1)]
  note n = valid_id_simple [OF assms(2)]
  let ?a = "''activation-'' @ i @ ''.json''"
  have t: "simple_name (?a @ ''.tmp'')" using n(2) by (simp add: simple_name_def)
  show "activation_plan_name_for E root i \<noteq> staged_name_for E root i"
    using local_paths.join_inj(1) [OF P n(2) n(1)] by (auto simp: activation_plan_name_for_def staged_name_for_def)
  show "activation_plan_name_for E root i @ ''.tmp'' \<noteq> staged_name_for E root i"
    using local_paths.join_inj(1) [OF P t n(1)] local_paths.join_append [OF P n(2) t]
    by (auto simp: activation_plan_name_for_def staged_name_for_def)
qed

text \<open>
  Property C17: what is reported as staged can be activated.  After a run of the production stager
  that reports STAGED_ACTIVATION_READY, the helper loads, by the identifier in the report, a plan whose
  staged file is there with the hash of the plan, given that the JSON codec returns what it encoded.
\<close>

theorem staged_ready_is_activatable:
  assumes "path_laws E" and "stage E L s p current w = (r, w')" and "sr_status r = StageReady"
    and "sg_staging s = Some \<lparr>so_commit = windows_commit E pd root, so_prepare = Some (windows_prepare_temp_dir E pd root)\<rparr>"
    and "\<not> blank root" and "sg_plan_writer s = Some (write_activation_plan E)" and "sg_high_water s = Some (read_max_seen hp)"
    and "temp_apart root w" and "temp_apart (activation_plan_name_for E root (sr_staging_id r)) w"
    and "trim_space (staged_name_for E root (sr_staging_id r)) = staged_name_for E root (sr_staging_id r)"
    and "\<And>q raw. ap_staging_id q = sr_staging_id r \<Longrightarrow> env_enc_plan E q = Some raw \<Longrightarrow>
      build_activation_plan E (staged_name_for E root (sr_staging_id r)) (sg_current_path s) (sg_service s) r = Inr q \<Longrightarrow>
      env_dec_plan E (strip_utf8_bom (raw @ [CHR 0x0A])) = Some q"
  shows "\<exists>q body. file_bytes w' (ap_staged_path q) = Some body \<and>
    fst (verify_sha256_equal (env_sha E body) (ap_sha256 q)) = ErrNone \<and> ap_staging_id q = sr_staging_id r \<and>
    (\<not> faulty w' \<longrightarrow> fst (load_activation_plan E root (sr_staging_id r) w') = Inr q)"
proof -
  note P = local_paths.intro [OF assms(1)]
  have ne: "root \<noteq> []" using assms(5) by auto
  have wr: "windows_root E pd root = root" using ne by (simp add: windows_root_def)
  obtain max_seen w0 st tmp body w2 w3 w1 v d and ev :: authenticode_evidence where h: "stager_read_max_seen s w = (Inr max_seen, w0)"
    and st: "sg_staging s = Some st" and body: "file_bytes w2 tmp = Some body"
    and prep: "(case so_prepare st of None \<Rightarrow> io_ret [] | Some prepare \<Rightarrow> prepare) w0 = (Inr d, w1)"
    and tm: "os_create_temp w1 = (Inr tmp, v)" and o2: "only {tmp} v w2"
    and cp: "commit_and_plan E s st p current tmp (env_sha E body) (ae_signer ev) w2 = (r, w3)"
    and e: "w' = snd (os_remove tmp w3)"
    using stage_ready_gates [OF assms(2,3)] by blast
  have t0: "w_temp w0 = w_temp w"
    using h assms(7) only_temp touchesD [OF touches_read_max_seen, of hp w _ w0 "{}"] by (simp add: stager_read_max_seen_def)
  have "touches {root} (windows_prepare_temp_dir E pd root)"
    unfolding windows_prepare_temp_dir_def Let_def wr by (intro frame) auto
  then have t1: "w_temp w1 = w_temp w" using prep assms(4) st t0 only_temp touchesD by fastforce
  have tmp: "tmp \<noteq> root" "tmp \<noteq> activation_plan_name_for E root (sr_staging_id r)"
    using os_create_temp_cases(1) [OF tm] t1 assms(8,9) by (auto simp: temp_apart_def)
  obtain i staged w4 plan u where i: "valid_staging_id i"
    and c: "windows_commit E pd root tmp i w2 = (Inr staged, w4)"
    and r: "r = stage_ready current p i (env_sha E body) (ae_signer ev)"
    and b: "build_activation_plan E staged (sg_current_path s) (sg_service s) r = Inr plan"
    and w: "write_activation_plan E plan w4 = (Inr u, w3)"
    using commit_and_plan_ready [OF cp assms(3)] assms(4,6) st by auto
  have id: "sr_staging_id r = i" using r by simp
  have s: "staged = staged_name_for E root i" "tmp \<noteq> staged" and f4: "file_bytes w4 staged = Some body"
    using windows_store.commit_ok [OF c] windows_store.committed_bytes [OF c] tmp(1) body wr by auto
  note n = valid_id_simple [OF i]
  have pl: "ap_staging_id plan = i" "ap_staged_path plan = staged"
    "ap_plan_path plan = activation_plan_name_for E root i" "ap_sha256 plan = to_lower (trim_space (env_sha E body))"
    using b assms(10) id s(1) r n local_paths.dir_join [OF P n(1)] local_paths.join_clean [OF P n(2)]
    by (auto simp: build_activation_plan_def Let_def staged_name_for_def activation_plan_name_for_def split: if_splits)
  have v: "fst (validate_activation_plan E plan) = ErrNone"
    using w by (auto simp: write_activation_plan_def io_success split: if_splits)
  obtain raw where raw: "env_enc_plan E plan = Some raw" "file_bytes w3 (ap_plan_path plan) = Some (raw @ [CHR 0x0A])"
    using w v by (auto simp: write_activation_plan_def io_success io_fail_def dest!: atomic_write_json_Inr split: option.splits)
  have o3: "only {ap_plan_path plan, ap_plan_path plan @ ''.tmp''} w4 w3"
    by (rule touchesD [OF touches_write_activation_plan w]) simp_all
  obtain x w5 where rm: "os_remove tmp w3 = (x, w5)" by (metis surj_pair)
  have o5: "only {tmp} w3 w'" using rm e touchesD [OF touches_writes(3) rm, of "{tmp}"] by simp
  have "file_bytes w' staged = Some body"
    using f4 only_bytes [OF o3, of staged] only_bytes [OF o5, of staged] staged_paths_apart [OF assms(1) i, of root] s pl(3)
    by simp
  moreover have "fst (verify_sha256_equal (env_sha E body) (ap_sha256 plan)) = ErrNone"
    using validate_accept(6) [OF v] sha256_hex_trim [OF validate_accept(6) [OF v]] pl(4)
    by (simp add: verify_sha256_accept)
  moreover have "fst (load_activation_plan E root i w') = Inr plan" if nf: "\<not> faulty w'"
  proof -
    have nm: "activation_plan_name_for E (env_clean E root) i = ap_plan_path plan"
      using pl(3) local_paths.join_clean [OF P n(2)] by (simp add: activation_plan_name_for_def)
    have "file_bytes w' (ap_plan_path plan) = Some (raw @ [CHR 0x0A])"
      using raw(2) only_bytes [OF o5] tmp(2) pl(3) id by simp
    then have "os_read_file (ap_plan_path plan) w' = (Inr (raw @ [CHR 0x0A]), tick w')"
      using nf by (auto simp: os_read_file_def file_bytes_def split: option.splits node.splits)
    then show ?thesis
      using i assms(5) v nm assms(11) [of plan raw] pl(1) raw(1) b s(1) id
      by (simp add: load_activation_plan_def io_or_def io_ret_def Let_def)
  qed
  ultimately show ?thesis using pl(1,2) id by (intro exI [of _ plan] exI [of _ body]) auto
qed

theorem staged_ready_is_activatable_witness:
  "\<exists>r w'. stage sample_env sample_url_lib sample_stager stage_payload ''1.2.0'' stage_world = (r, w') \<and>
     (\<exists>q. fst (load_activation_plan sample_env ''/s'' sample_id w') = Inr q \<and>
        file_bytes w' (ap_staged_path q) \<noteq> None)"
proof -
  let ?run = "stage sample_env sample_url_lib sample_stager stage_payload ''1.2.0'' stage_world"
  obtain r w' where s: "?run = (r, w')" by fastforce
  have st: "sr_status r = StageReady" and id: "sr_staging_id r = sample_id" and nf: "\<not> faulty w'"
    and b: "build_activation_plan sample_env (staged_name_for sample_env ''/s'' sample_id) ''/bin/agent'' ''agent'' r = Inr sample_plan"
    using sample_stage_run s by simp_all
  have col: "sg_staging sample_stager = Some \<lparr>so_commit = windows_commit sample_env [] ''/s'',
        so_prepare = Some (windows_prepare_temp_dir sample_env [] ''/s'')\<rparr>"
    "sg_plan_writer sample_stager = Some (write_activation_plan sample_env)"
    "sg_high_water sample_stager = Some (read_max_seen ''/hw'')"
    "sg_current_path sample_stager = ''/bin/agent''" "sg_service sample_stager = ''agent''"
    by (simp_all add: sample_stager_def)
  have n: "\<not> blank ''/s''" "activation_plan_name_for sample_env ''/s'' sample_id \<noteq> ''/s/agent-update-1.tmp''"
    "trim_space (staged_name_for sample_env ''/s'' sample_id) = staged_name_for sample_env ''/s'' sample_id"
    by code_simp+
  have t: "temp_apart ''/s'' stage_world" "temp_apart (activation_plan_name_for sample_env ''/s'' (sr_staging_id r)) stage_world"
    using n(2) by (simp_all add: temp_apart_def stage_world_def id eq_commute)
  have e: "env_enc_plan sample_env q = Some ''plan''" "env_dec_plan sample_env (strip_utf8_bom (''plan'' @ [CHR 0x0A])) = Some sample_plan" for q
    by (simp add: sample_env_def unix_env_def) code_simp
  have cod: "env_dec_plan sample_env (strip_utf8_bom (raw @ [CHR 0x0A])) = Some q"
    if "env_enc_plan sample_env q = Some raw"
      "build_activation_plan sample_env (staged_name_for sample_env ''/s'' (sr_staging_id r)) (sg_current_path sample_stager) (sg_service sample_stager) r = Inr q"
    for q raw using that b e col(4,5) unfolding id by simp
  show ?thesis
    using staged_ready_is_activatable [OF sample_path_laws s st col(1) n(1) col(2,3) t n(3) [folded id] cod] s nf id by auto
qed

end
